(* ===== verification/JsPrelude.thy ===== *)
theory JsPrelude
  imports Complex_Main "HOL-Library.AList" "HOL-Library.Multiset" "HOL-Library.Sublist"
    "HOL-Library.List_Lexorder" "HOL-Library.Char_ord"
begin

text \<open>
  Shared groundwork: the parts of the JavaScript language and standard library that the
  modelled modules use, and the generic lemmas about them.

  \<^item> A function that may throw returns a sum: \<open>Inl\<close> is the thrown error, \<open>Inr\<close> the value.
    \<open>ebind\<close> is sequencing, \<open>throw_when\<close> is an \<open>if (...) throw\<close> statement, \<open>efold\<close> a
    \<open>for\<close> loop over an array whose body may throw, \<open>emap\<close> a \<open>map\<close> whose callback may throw.
  \<^item> A \<open>Map\<close> is an association list in insertion order (\<open>AList.update\<close> keeps the place of an
    existing key and appends a new one); a \<open>Set\<close> is a distinct list in insertion order.
  \<^item> \<open>Array.prototype.sort\<close> with a comparator is a stable sort; \<open>js_sort\<close> computes it, and the
    locale \<open>js_comparator\<close> states the contract a comparator owes to it.
  \<^item> A string is a list of code units; the literals the code compares with are ASCII.
    \<open><\<close> on strings is the order by code units.
\<close>

named_theorems result_simps \<open>rewriting of results that may be errors\<close>
named_theorems comparator_intros \<open>how a comparator is built from smaller ones\<close>

section \<open>Results\<close>

fun ebind :: "'e + 'a \<Rightarrow> ('a \<Rightarrow> 'e + 'b) \<Rightarrow> 'e + 'b" where
  "ebind (Inl e) f = Inl e"
| "ebind (Inr x) f = f x"

definition throw_when :: "bool \<Rightarrow> 'e \<Rightarrow> 'e + 'a \<Rightarrow> 'e + 'a" where
  "throw_when c e k = (if c then Inl e else k)"

fun efold :: "('a \<Rightarrow> 's \<Rightarrow> 'e + 's) \<Rightarrow> 'a list \<Rightarrow> 's \<Rightarrow> 'e + 's" where
  "efold f [] s = Inr s"
| "efold f (x # xs) s = ebind (f x s) (efold f xs)"

fun emap :: "('a \<Rightarrow> 'e + 'b) \<Rightarrow> 'a list \<Rightarrow> 'e + 'b list" where
  "emap f [] = Inr []"
| "emap f (x # xs) = ebind (f x) (\<lambda>y. ebind (emap f xs) (\<lambda>ys. Inr (y # ys)))"

definition succeeds :: "'e + 'a \<Rightarrow> bool" where
  "succeeds r = (case r of Inl _ \<Rightarrow> False | Inr _ \<Rightarrow> True)"

lemma succeeds_simps [simp]: "succeeds (Inr x)" "\<not> succeeds (Inl e)"
  by (simp_all add: succeeds_def)

lemma succeeds_iff: "succeeds r \<longleftrightarrow> (\<exists>x. r = Inr x)"
  by (cases r) simp_all

lemma ebind_Inr_iff [result_simps]: "ebind m f = Inr y \<longleftrightarrow> (\<exists>x. m = Inr x \<and> f x = Inr y)"
  by (cases m) simp_all

lemma ebind_Inl_iff: "ebind m f = Inl e \<longleftrightarrow> m = Inl e \<or> (\<exists>x. m = Inr x \<and> f x = Inl e)"
  by (cases m) simp_all

lemma throw_when_Inr_iff [result_simps]: "throw_when c e k = Inr y \<longleftrightarrow> \<not> c \<and> k = Inr y"
  by (simp add: throw_when_def)

lemma throw_when_simps [simp]:
  "throw_when True e k = Inl e" "throw_when False e k = k"
  by (simp_all add: throw_when_def)

lemma succeeds_throw_when [result_simps]: "succeeds (throw_when c e k) \<longleftrightarrow> \<not> c \<and> succeeds k"
  by (simp add: throw_when_def)

lemma succeeds_ebind [result_simps]:
  "succeeds (ebind m f) \<longleftrightarrow> (\<exists>x. m = Inr x \<and> succeeds (f x))"
  by (cases m) simp_all

lemma efold_append: "efold f (xs @ ys) s = ebind (efold f xs s) (efold f ys)"
  by (induction xs arbitrary: s) (simp_all, case_tac "f a s", simp_all)

text \<open>The invariant rule for a loop that did not throw.\<close>

lemma efold_invariant:
  assumes run: "efold f xs s = Inr s'"
    and init: "P [] s"
    and step: "\<And>ys x zs t t'. xs = ys @ x # zs \<Longrightarrow> P ys t \<Longrightarrow> f x t = Inr t' \<Longrightarrow> P (ys @ [x]) t'"
  shows "P xs s'"
  using run step
proof (induction xs arbitrary: s' rule: rev_induct)
  case Nil
  then show ?case using init by simp
next
  case (snoc x xs)
  from snoc.prems(1) obtain t where t: "efold f xs s = Inr t" and x: "f x t = Inr s'"
    by (auto simp: efold_append ebind_Inr_iff)
  have "P xs t"
  proof (rule snoc.IH [OF t])
    fix ys z zs u u'
    assume "xs = ys @ z # zs" and "P ys u" and "f z u = Inr u'"
    then show "P (ys @ [z]) u'" using snoc.prems(2) [of ys z "zs @ [x]" u u'] by simp
  qed
  then show ?case using x snoc.prems(2) [of xs x "[]" t s'] by simp
qed

text \<open>The loop runs through when no step from a state of the invariant throws.\<close>

lemma efold_total:
  assumes init: "P [] s"
    and step: "\<And>ys x zs t. xs = ys @ x # zs \<Longrightarrow> P ys t \<Longrightarrow> \<exists>t'. f x t = Inr t' \<and> P (ys @ [x]) t'"
  shows "\<exists>s'. efold f xs s = Inr s' \<and> P xs s'"
  using step
proof (induction xs rule: rev_induct)
  case Nil
  then show ?case using init by simp
next
  case (snoc x xs)
  have "\<exists>t. efold f xs s = Inr t \<and> P xs t"
  proof (rule snoc.IH)
    fix ys z zs u
    assume "xs = ys @ z # zs" and "P ys u"
    then show "\<exists>t'. f z u = Inr t' \<and> P (ys @ [z]) t'"
      using snoc.prems [of ys z "zs @ [x]" u] by simp
  qed
  then obtain t where "efold f xs s = Inr t" and "P xs t" by blast
  moreover obtain t' where "f x t = Inr t'" and "P (xs @ [x]) t'"
    using snoc.prems [of xs x "[]" t] \<open>P xs t\<close> by auto
  ultimately show ?case by (auto simp: efold_append)
qed

text \<open>
  A loop whose guard depends on the element alone, as long as the invariant holds: it runs
  through when every element passes, and its result is the fold of the state updates.
\<close>

lemma efold_guarded:
  assumes "I s"
    and step: "\<And>x t t'. I t \<Longrightarrow> f x t = Inr t' \<longleftrightarrow> ok x \<and> t' = g x t"
    and keep: "\<And>x t. I t \<Longrightarrow> ok x \<Longrightarrow> I (g x t)"
  shows "efold f xs s = Inr s' \<longleftrightarrow> (\<forall>x \<in> set xs. ok x) \<and> s' = fold g xs s"
  using assms(1)
proof (induction xs arbitrary: s)
  case (Cons x xs)
  then show ?case using step [of s x] keep [of s x] by (auto simp: ebind_Inr_iff)
qed auto

text \<open>An error of a loop is an error of one of its steps.\<close>

lemma efold_Inl: "efold f xs s = Inl e \<Longrightarrow> \<exists>x \<in> set xs. \<exists>t. f x t = Inl e"
  by (induction xs arbitrary: s) (auto simp: ebind_Inl_iff)

lemma emap_Inl: "emap f xs = Inl e \<Longrightarrow> \<exists>x \<in> set xs. f x = Inl e"
  by (induction xs) (auto simp: ebind_Inl_iff)

lemma emap_Inr_ex: "(\<exists>ys. emap f xs = Inr ys) \<longleftrightarrow> (\<forall>x \<in> set xs. \<exists>y. f x = Inr y)"
  by (induction xs) (auto simp: ebind_Inr_iff)

lemma fold_invariant_set:
  "I s \<Longrightarrow> (\<And>x t. x \<in> set xs \<Longrightarrow> I t \<Longrightarrow> I (g x t)) \<Longrightarrow> I (fold g xs s)"
  by (induction xs arbitrary: s) auto

lemma emap_Inr_iff:
  "emap f xs = Inr ys \<longleftrightarrow> list_all2 (\<lambda>x y. f x = Inr y) xs ys"
  by (induction xs arbitrary: ys) (auto simp: ebind_Inr_iff list_all2_Cons1)

lemma emap_guarded:
  "emap (\<lambda>x. throw_when (bad x) e (Inr (h x))) xs = Inr ys \<longleftrightarrow>
    (\<forall>x \<in> set xs. \<not> bad x) \<and> ys = map h xs"
  by (induction xs arbitrary: ys) (auto simp: ebind_Inr_iff throw_when_Inr_iff)

lemma emap_length: "emap f xs = Inr ys \<Longrightarrow> length ys = length xs"
  by (simp add: emap_Inr_iff list_all2_lengthD)

lemma emap_nth: "emap f xs = Inr ys \<Longrightarrow> i < length xs \<Longrightarrow> f (xs ! i) = Inr (ys ! i)"
  by (auto simp: emap_Inr_iff list_all2_conv_all_nth)

lemma emap_in_set:
  "emap f xs = Inr ys \<Longrightarrow> y \<in> set ys \<Longrightarrow> \<exists>x \<in> set xs. f x = Inr y"
  by (auto simp: emap_Inr_iff list_all2_conv_all_nth in_set_conv_nth intro!: bexI [OF _ nth_mem])

lemma emap_total: "(\<And>x. x \<in> set xs \<Longrightarrow> succeeds (f x)) \<Longrightarrow> succeeds (emap f xs)"
  by (induction xs) (fastforce simp: succeeds_iff)+

section \<open>Maps and sets in insertion order\<close>

definition map_of_pairs :: "('k \<times> 'v) list \<Rightarrow> ('k \<times> 'v) list" where
  "map_of_pairs ps = fold (\<lambda>(k, v) m. AList.update k v m) ps []"

definition map_has :: "('k \<times> 'v) list \<Rightarrow> 'k \<Rightarrow> bool" where
  "map_has m k = (map_of m k \<noteq> None)"

definition map_values :: "('k \<times> 'v) list \<Rightarrow> 'v list" where
  "map_values m = map snd m"

definition set_add :: "'a \<Rightarrow> 'a list \<Rightarrow> 'a list" where
  "set_add x s = (if x \<in> set s then s else s @ [x])"

definition set_of_list :: "'a list \<Rightarrow> 'a list" where
  "set_of_list xs = fold set_add xs []"

lemma map_of_update [simp]: "map_of (AList.update k v m) = (map_of m)(k \<mapsto> v)"
  by (rule update_conv')

lemma map_has_iff: "map_has m k \<longleftrightarrow> k \<in> fst ` set m"
  by (simp add: map_has_def map_of_eq_None_iff)

lemma keys_update_new: "k \<notin> fst ` set m \<Longrightarrow> AList.update k v m = m @ [(k, v)]"
  by (induction m) auto

lemma map_of_pairs_Nil [simp]: "map_of_pairs [] = []"
  by (simp add: map_of_pairs_def)

lemma map_of_pairs_snoc:
  "map_of_pairs (ps @ [(k, v)]) = AList.update k v (map_of_pairs ps)"
  by (simp add: map_of_pairs_def)

lemma keys_map_of_pairs: "fst ` set (map_of_pairs ps) = fst ` set ps"
proof (induction ps rule: rev_induct)
  case (snoc p ps)
  then show ?case by (cases p) (simp add: map_of_pairs_snoc dom_update)
qed simp

lemma distinct_map_of_pairs: "distinct (map fst (map_of_pairs ps))"
proof (induction ps rule: rev_induct)
  case (snoc p ps)
  then show ?case by (cases p) (simp add: map_of_pairs_snoc distinct_update)
qed simp

lemma map_of_pairs_distinct: "distinct (map fst ps) \<Longrightarrow> map_of_pairs ps = ps"
proof (induction ps rule: rev_induct)
  case (snoc p ps)
  obtain k v where p: "p = (k, v)" by (cases p)
  from snoc.prems p have "k \<notin> fst ` set ps" and "map_of_pairs ps = ps"
    using snoc.IH by auto
  with p show ?case by (simp add: map_of_pairs_snoc keys_update_new)
qed simp

text \<open>The size test \<open>map.size !== values.length\<close> is the test that no key repeats.\<close>

lemma length_map_of_pairs_eq:
  "length (map_of_pairs ps) = length ps \<longleftrightarrow> distinct (map fst ps)"
proof
  assume len: "length (map_of_pairs ps) = length ps"
  have "card (fst ` set ps) = length (map fst (map_of_pairs ps))"
    using distinct_card [OF distinct_map_of_pairs, of ps] keys_map_of_pairs [of ps]
    by simp
  with len have "card (set (map fst ps)) = length (map fst ps)" by simp
  then show "distinct (map fst ps)" by (rule card_distinct)
qed (simp add: map_of_pairs_distinct)

lemma map_of_map_of_pairs: "map_of (map_of_pairs ps) = map_of (rev ps)"
proof (induction ps rule: rev_induct)
  case (snoc p ps)
  then show ?case by (cases p) (simp add: map_of_pairs_snoc)
qed simp

lemma map_of_keyed:
  "distinct (map key xs) \<Longrightarrow> x \<in> set xs \<Longrightarrow> map_of (map (\<lambda>x. (key x, f x)) xs) (key x) = Some (f x)"
  by (induction xs) (auto simp: image_iff)

lemma set_of_list_Nil [simp]: "set_of_list [] = []"
  by (simp add: set_of_list_def)

lemma set_of_list_snoc: "set_of_list (xs @ [x]) = set_add x (set_of_list xs)"
  by (simp add: set_of_list_def)

lemma set_set_add [simp]: "set (set_add x s) = insert x (set s)"
  by (auto simp: set_add_def)

lemma distinct_set_add [simp]: "distinct (set_add x s) \<longleftrightarrow> distinct s"
  by (auto simp: set_add_def)

lemma set_set_of_list [simp]: "set (set_of_list xs) = set xs"
  by (induction xs rule: rev_induct) (simp_all add: set_of_list_snoc)

lemma distinct_set_of_list [simp]: "distinct (set_of_list xs)"
  by (induction xs rule: rev_induct) (simp_all add: set_of_list_snoc)

lemma length_set_of_list_eq: "length (set_of_list xs) = length xs \<longleftrightarrow> distinct xs"
proof -
  have "length (set_of_list xs) = card (set xs)"
    by (metis distinct_card distinct_set_of_list set_set_of_list)
  then show ?thesis by (auto simp: distinct_card card_distinct)
qed

section \<open>Strings\<close>

text \<open>\<open>String.prototype.trim\<close>: white space and line terminators go at both ends.\<close>

definition js_space :: "char \<Rightarrow> bool" where
  "js_space c \<longleftrightarrow> of_char c \<in> {9, 10, 11, 12, 13, 32, 160 :: nat}"

definition js_trim :: "string \<Rightarrow> string" where
  "js_trim s = rev (dropWhile js_space (rev (dropWhile js_space s)))"

text \<open>The decimal notation of a template literal \<open>${n}\<close>.\<close>

text \<open>\<open>parts.join(separator)\<close>\<close>

fun js_join :: "string \<Rightarrow> string list \<Rightarrow> string" where
  "js_join sep [] = []"
| "js_join sep [s] = s"
| "js_join sep (s # t # parts) = s @ sep @ js_join sep (t # parts)"

definition digit_char :: "nat \<Rightarrow> char" where
  "digit_char d = char_of (48 + d)"

fun js_decimal :: "nat \<Rightarrow> string" where
  "js_decimal n = (if n < 10 then [digit_char n] else js_decimal (n div 10) @ [digit_char (n mod 10)])"

declare js_decimal.simps [simp del]

definition js_int :: "int \<Rightarrow> string" where
  "js_int i = (if i < 0 then CHR ''-'' # js_decimal (nat (- i)) else js_decimal (nat i))"

definition digit_value :: "char \<Rightarrow> nat" where
  "digit_value c = of_char c - 48"

definition decimal_value :: "string \<Rightarrow> nat" where
  "decimal_value = foldl (\<lambda>n c. 10 * n + digit_value c) 0"

lemma digit_value_char [simp]: "d < 10 \<Longrightarrow> digit_value (digit_char d) = d"
  by (simp add: digit_value_def digit_char_def)

lemma decimal_value_decimal [simp]: "decimal_value (js_decimal n) = n"
  unfolding decimal_value_def
proof (induction n rule: js_decimal.induct)
  case (1 n)
  then show ?case by (subst js_decimal.simps) auto
qed

lemma js_decimal_inject [simp]: "js_decimal m = js_decimal n \<longleftrightarrow> m = n"
  by (metis decimal_value_decimal)

lemma js_decimal_not_Nil [simp]: "js_decimal n \<noteq> []"
  by (subst js_decimal.simps) auto

section \<open>Filling a set, refusing what it already has\<close>

definition reserve :: "'e \<Rightarrow> 'a \<Rightarrow> 'a list \<Rightarrow> 'e + 'a list" where
  "reserve e x taken = throw_when (x \<in> set taken) e (Inr (set_add x taken))"

lemma reserve_loop:
  "efold (reserve e) xs taken = Inr taken' \<longleftrightarrow>
    distinct xs \<and> set xs \<inter> set taken = {} \<and> taken' = taken @ xs"
proof (induction xs arbitrary: taken)
  case (Cons x xs)
  then show ?case by (auto simp: ebind_Inr_iff reserve_def throw_when_Inr_iff set_add_def)
qed auto

lemma efold_map: "efold f (map g xs) s = efold (\<lambda>x. f (g x)) xs s"
  by (induction xs arbitrary: s) (simp_all, metis)

section \<open>Stable sorting with a comparator\<close>

text \<open>
  A comparator returns a number whose sign orders its arguments; \<open>f || g\<close> falls through to
  \<open>g\<close> where \<open>f\<close> is 0.
\<close>

definition js_or :: "'n::zero \<Rightarrow> 'n \<Rightarrow> 'n" where
  "js_or a b = (if a = 0 then b else a)"

definition js_number :: "bool \<Rightarrow> int" where
  "js_number b = (if b then 1 else 0)"

primrec js_insert :: "('a \<Rightarrow> 'a \<Rightarrow> 'n::linordered_idom) \<Rightarrow> 'a \<Rightarrow> 'a list \<Rightarrow> 'a list" where
  "js_insert cmp x [] = [x]"
| "js_insert cmp x (y # ys) = (if cmp x y \<le> 0 then x # y # ys else y # js_insert cmp x ys)"

primrec js_sort :: "('a \<Rightarrow> 'a \<Rightarrow> 'n::linordered_idom) \<Rightarrow> 'a list \<Rightarrow> 'a list" where
  "js_sort cmp [] = []"
| "js_sort cmp (x # xs) = js_insert cmp x (js_sort cmp xs)"

abbreviation sorted_by :: "('a \<Rightarrow> 'a \<Rightarrow> 'n::linordered_idom) \<Rightarrow> 'a list \<Rightarrow> bool" where
  "sorted_by cmp \<equiv> sorted_wrt (\<lambda>x y. cmp x y \<le> 0)"

lemma mset_js_insert [simp]: "mset (js_insert cmp x xs) = add_mset x (mset xs)"
  by (induction xs) simp_all

lemma mset_js_sort [simp]: "mset (js_sort cmp xs) = mset xs"
  by (induction xs) simp_all

lemma set_js_sort [simp]: "set (js_sort cmp xs) = set xs"
  by (metis mset_js_sort set_mset_mset)

lemma length_js_sort [simp]: "length (js_sort cmp xs) = length xs"
  by (metis mset_js_sort size_mset)

lemma js_sort_Nil_iff [simp]: "js_sort cmp xs = [] \<longleftrightarrow> xs = []"
  by (metis mset_js_sort mset_zero_iff)

lemma distinct_map_js_sort [simp]: "distinct (map f (js_sort cmp xs)) \<longleftrightarrow> distinct (map f xs)"
  by (metis mset_js_sort mset_map mset_eq_imp_distinct_iff)

text \<open>
  The contract of \<open>sort\<close>: on the values it is used with, the comparator is reflexive,
  antisymmetric in sign and transitive. Outside the contract the order is up to the engine.
\<close>

locale js_comparator =
  fixes S :: "'a set" and cmp :: "'a \<Rightarrow> 'a \<Rightarrow> 'n::linordered_idom"
  assumes refl: "x \<in> S \<Longrightarrow> cmp x x = 0"
    and sign: "x \<in> S \<Longrightarrow> y \<in> S \<Longrightarrow> cmp x y \<le> 0 \<longleftrightarrow> 0 \<le> cmp y x"
    and trans: "x \<in> S \<Longrightarrow> y \<in> S \<Longrightarrow> z \<in> S \<Longrightarrow> cmp x y \<le> 0 \<Longrightarrow> cmp y z \<le> 0 \<Longrightarrow> cmp x z \<le> 0"
begin

lemma total: "x \<in> S \<Longrightarrow> y \<in> S \<Longrightarrow> \<not> cmp x y \<le> 0 \<Longrightarrow> cmp y x \<le> 0"
  using sign [of x y] sign [of y x] by linarith

lemma zero_sym: "x \<in> S \<Longrightarrow> y \<in> S \<Longrightarrow> cmp x y = 0 \<longleftrightarrow> cmp y x = 0"
  using sign [of x y] sign [of y x] by linarith

lemma sorted_js_insert:
  "x \<in> S \<Longrightarrow> set ys \<subseteq> S \<Longrightarrow> sorted_by cmp ys \<Longrightarrow> sorted_by cmp (js_insert cmp x ys)"
proof (induction ys)
  case (Cons y ys)
  show ?case
  proof (cases "cmp x y \<le> 0")
    case True
    with Cons.prems show ?thesis by (auto intro: trans [of x y])
  next
    case False
    have "set (js_insert cmp x ys) = insert x (set ys)"
      by (metis mset_js_insert set_mset_add_mset_insert set_mset_mset)
    with False Cons show ?thesis by (auto intro: total)
  qed
qed simp

lemma sorted_js_sort: "set xs \<subseteq> S \<Longrightarrow> sorted_by cmp (js_sort cmp xs)"
  by (induction xs) (simp_all add: sorted_js_insert)

text \<open>What a slice off the front leaves out comes after everything it takes.\<close>

lemma take_js_sort:
  assumes "set xs \<subseteq> S" and "x \<in> set (take n (js_sort cmp xs))" and "y \<in> set (drop n (js_sort cmp xs))"
  shows "cmp x y \<le> 0"
proof -
  have "sorted_by cmp (take n (js_sort cmp xs) @ drop n (js_sort cmp xs))"
    using sorted_js_sort [OF assms(1)] by simp
  then show ?thesis using assms(2,3) unfolding sorted_wrt_append by blast
qed

lemma js_insert_filter_equal:
  "x \<in> S \<Longrightarrow> z \<in> S \<Longrightarrow> set ys \<subseteq> S \<Longrightarrow> cmp z x = 0 \<Longrightarrow>
    filter (\<lambda>y. cmp z y = 0) (js_insert cmp x ys) = x # filter (\<lambda>y. cmp z y = 0) ys"
proof (induction ys)
  case (Cons y ys)
  have "cmp x y \<le> 0" if "cmp z y = 0"
    using that Cons.prems trans [of x z y] zero_sym [of z x] by simp
  with Cons show ?case by auto
qed simp

lemma js_insert_filter_other:
  "cmp z x \<noteq> 0 \<Longrightarrow>
    filter (\<lambda>y. cmp z y = 0) (js_insert cmp x ys) = filter (\<lambda>y. cmp z y = 0) ys"
  by (induction ys) simp_all

text \<open>Stability: elements that compare equal keep their order.\<close>

lemma stable_js_sort:
  "z \<in> S \<Longrightarrow> set xs \<subseteq> S \<Longrightarrow>
    filter (\<lambda>y. cmp z y = 0) (js_sort cmp xs) = filter (\<lambda>y. cmp z y = 0) xs"
proof (induction xs)
  case (Cons x xs)
  then show ?case
    by (cases "cmp z x = 0") (simp_all add: js_insert_filter_equal js_insert_filter_other)
qed simp

end

text \<open>
  A comparator that ends in a unique key leaves no choice: the sorted list is a function of
  the multiset of its elements.
\<close>

locale js_keyed_comparator = js_comparator S cmp
  for S :: "'a set" and cmp :: "'a \<Rightarrow> 'a \<Rightarrow> 'n::linordered_idom" +
  fixes key :: "'a \<Rightarrow> 'k"
  assumes zero_key: "x \<in> S \<Longrightarrow> y \<in> S \<Longrightarrow> cmp x y = 0 \<Longrightarrow> key x = key y"
begin

lemma sorted_unique:
  "set xs \<subseteq> S \<Longrightarrow> inj_on key (set xs) \<Longrightarrow> mset xs = mset ys \<Longrightarrow>
    sorted_by cmp xs \<Longrightarrow> sorted_by cmp ys \<Longrightarrow> xs = ys"
proof (induction xs arbitrary: ys)
  case (Cons x xs)
  have sets: "set ys = insert x (set xs)"
    using Cons.prems(3) by (metis list.simps(15) set_mset_mset)
  then obtain y ys' where ys: "ys = y # ys'" by (cases ys) auto
  have y: "y \<in> set (x # xs)" and x: "x \<in> set (y # ys')" using sets ys by auto
  have "cmp x y \<le> 0" using y Cons.prems(1,4) by (auto simp: refl)
  moreover have "cmp y x \<le> 0" using x y Cons.prems(1,5) ys by (auto simp: refl)
  ultimately have "cmp x y = 0"
    using sign [of x y] sign [of y x] x y Cons.prems(1) by auto
  then have "x = y" using zero_key [of x y] y Cons.prems(1,2) by (auto simp: inj_on_def)
  moreover have "xs = ys'"
    using Cons.prems ys \<open>x = y\<close> by (intro Cons.IH) auto
  ultimately show ?case using ys by simp
qed simp

lemma js_sort_unique:
  assumes "set xs \<subseteq> S" and "inj_on key (set xs)" and perm: "mset xs = mset ys"
  shows "js_sort cmp xs = js_sort cmp ys"
proof (rule sorted_unique)
  have "set ys = set xs" using perm by (metis set_mset_mset)
  then show "sorted_by cmp (js_sort cmp xs)" and "sorted_by cmp (js_sort cmp ys)"
    using assms(1) by (simp_all add: sorted_js_sort)
qed (use assms in simp_all)

end

subsection \<open>Building comparators\<close>

lemma comparator_key_asc [comparator_intros]: "js_comparator S (\<lambda>a b. k a - k b)"
  by unfold_locales (auto simp: algebra_simps)

lemma comparator_key_desc [comparator_intros]: "js_comparator S (\<lambda>a b. k b - k a)"
  by unfold_locales (auto simp: algebra_simps)

lemma comparator_or [comparator_intros]:
  assumes "js_comparator S f" and "js_comparator S g"
  shows "js_comparator S (\<lambda>a b. js_or (f a b) (g a b))"
proof -
  note f = js_comparator.refl [OF assms(1)] js_comparator.sign [OF assms(1)]
    js_comparator.trans [OF assms(1)]
  note g = js_comparator.refl [OF assms(2)] js_comparator.sign [OF assms(2)]
    js_comparator.trans [OF assms(2)]
  show ?thesis
  proof
    fix x assume "x \<in> S"
    then show "js_or (f x x) (g x x) = 0" by (simp add: f g js_or_def)
  next
    fix x y assume "x \<in> S" and "y \<in> S"
    then show "js_or (f x y) (g x y) \<le> 0 \<longleftrightarrow> 0 \<le> js_or (f y x) (g y x)"
      using f(2) [of x y] f(2) [of y x] g(2) [of x y] by (auto simp: js_or_def)
  next
    fix x y z
    assume S: "x \<in> S" "y \<in> S" "z \<in> S"
      and xy: "js_or (f x y) (g x y) \<le> 0" and yz: "js_or (f y z) (g y z) \<le> 0"
    have le: "f x y \<le> 0" "f y z \<le> 0" using xy yz by (auto simp: js_or_def split: if_splits)
    then have xz: "f x z \<le> 0" using S f(3) by blast
    show "js_or (f x z) (g x z) \<le> 0"
    proof (cases "f x z = 0")
      case True
      have zx: "f z x \<le> 0" using iffD2 [OF f(2) [OF S(3,1)]] True by simp
      have "f y x \<le> 0" using f(3) [OF S(2,3,1) le(2) zx] .
      then have xy0: "0 \<le> f x y" by (rule iffD1 [OF f(2) [OF S(2,1)]])
      have "f z y \<le> 0" using f(3) [OF S(3,1,2) zx le(1)] .
      then have yz0: "0 \<le> f y z" by (rule iffD1 [OF f(2) [OF S(3,2)]])
      have "f x y = 0" and "f y z = 0"
        by (rule order_antisym [OF le(1) xy0], rule order_antisym [OF le(2) yz0])
      then have "g x y \<le> 0" and "g y z \<le> 0" using xy yz by (simp_all add: js_or_def)
      then have "g x z \<le> 0" by (rule g(3) [OF S])
      with True show ?thesis by (simp add: js_or_def)
    qed (simp add: js_or_def xz)
  qed
qed

lemma js_or_zero_iff: "js_or a b = 0 \<longleftrightarrow> a = 0 \<and> b = 0"
  by (auto simp: js_or_def)

text \<open>Comparators that agree on the values in question owe the same contract.\<close>

lemma comparator_cong:
  assumes "js_comparator S f" and eq: "\<And>x y. x \<in> S \<Longrightarrow> y \<in> S \<Longrightarrow> g x y = f x y"
  shows "js_comparator S g"
proof
  fix x y z
  show "x \<in> S \<Longrightarrow> g x x = 0" using js_comparator.refl [OF assms(1)] eq by simp
  show "g x y \<le> 0 \<longleftrightarrow> 0 \<le> g y x" if S: "x \<in> S" "y \<in> S"
    unfolding eq [OF S] eq [OF S(2,1)] using js_comparator.sign [OF assms(1) S] .
  show "g x z \<le> 0"
    if S: "x \<in> S" "y \<in> S" "z \<in> S" and le: "g x y \<le> 0" "g y z \<le> 0"
    using js_comparator.trans [OF assms(1) S] le
    unfolding eq [OF S(1,2)] eq [OF S(2,3)] eq [OF S(1,3)] by blast
qed

end
