(* ===== verification/PublicTypes.thy ===== *)
theory PublicTypes
  imports JsPrelude
begin

text \<open>
  \<open>apps/web/src/lib/publication/types.ts\<close>: the public wire contracts, versions 1 to 3, and the
  normalised reader model. An interface is a record, an optional or nullable field an
  \<open>option\<close>, the discriminated union \<open>Content\<close> a record whose \<open>payload\<close> is a datatype with one
  constructor per \<open>type\<close>. Ids, orders and timestamps are integers (the schema admits no
  others); the closed string unions \<open>difficulty\<close> and \<open>rating\<close> stay strings.
\<close>

record author =
  author_id :: int
  author_slug :: string
  displayName :: string
  bioMarkdown :: string
  avatarUrl :: string
  websiteUrl :: string

record asset =
  asset_id :: int
  asset_url :: string
  mimeType :: string
  asset_width :: int
  asset_height :: int
  byteSize :: int

record tag_v1 =
  tag_id :: int
  tag_name :: string
  tag_slug :: string
  tag_description :: string

record tag = tag_v1 +
  tag_nameEn :: string
  tag_descriptionEn :: string

record localized_taxonomy =
  taxonomy_name :: string
  taxonomy_description :: string
  taxonomy_nameEn :: string
  taxonomy_descriptionEn :: string

record note_group =
  group_id :: "int option"
  group_slug :: string
  group_name :: string
  group_description :: string
  group_nameEn :: string
  group_descriptionEn :: string
  group_order :: int

record note_payload =
  groupSlug :: string
  note_order :: int

record note_payload_v1 = note_payload +
  note_group :: string
  groupDescription :: string
  groupOrder :: int

record related_link =
  link_label :: string
  link_url :: string

record curated_payload =
  sourceUrl :: string
  originalUrl :: string
  sourceAuthor :: string
  sourceName :: string
  sourcePublishedAt :: string
  sourceLanguage :: string
  difficulty :: string
  rating :: string
  mustRead :: bool
  relatedLinks :: "related_link list"

record topic_payload =
  topic_order :: int
  recommendedCount :: int

record english_labels =
  en_sourceAuthor :: string
  en_sourceName :: string
  en_relatedLinks :: "related_link list"

record editorial_english =
  en_enabled :: bool
  en_title :: string
  en_summary :: string
  en_bodyMarkdown :: string
  en_seoTitle :: string
  en_seoDescription :: string
  en_labels :: english_labels

record topic_entry =
  entry_position :: int
  targetContentId :: int

datatype content_type = Post | Note | CuratedArticle | Topic

datatype payload =
    PostPayload
  | NotePayload note_payload
  | CuratedPayload curated_payload
  | TopicPayload topic_payload

datatype payload_v1 =
    PostPayloadV1
  | NotePayloadV1 note_payload_v1
  | CuratedPayloadV1 curated_payload
  | TopicPayloadV1 topic_payload

record content_fields =
  editorialEn :: "editorial_english option"
  content_id :: int
  revisionNo :: int
  canonicalPath :: string
  content_title :: string
  content_slug :: string
  content_summary :: string
  bodyMarkdown :: string
  authorId :: int
  content_language :: string
  featured :: bool
  seoTitle :: string
  seoDescription :: string
  coverAssetId :: "int option"
  firstPublishedAt :: int
  lastPublishedAt :: int
  tagIds :: "int list"
  topicEntries :: "topic_entry list"

record content = content_fields +
  payload :: payload

record content_v1 = content_fields +
  payload_v1 :: payload_v1

definition content_type :: "content \<Rightarrow> content_type" where
  "content_type c = (case payload c of
     PostPayload \<Rightarrow> Post
   | NotePayload _ \<Rightarrow> Note
   | CuratedPayload _ \<Rightarrow> CuratedArticle
   | TopicPayload _ \<Rightarrow> Topic)"

datatype route_kind = Canonical | Redirect

record route =
  route_path :: string
  route_kind :: route_kind
  route_contentId :: int

record snapshot_fields =
  generation :: int
  exportedAt :: string
  snapshot_authors :: "author list"
  snapshot_assets :: "asset list"
  snapshot_routes :: "route list"

text \<open>
  The wire snapshot by \<open>schemaVersion\<close>; \<open>SnapshotOther\<close> is a value whose version is none of
  the three. The groups of versions 2 and 3 carry an id, which \<open>group_id\<close> holds as \<open>Some\<close>.
\<close>

datatype snapshot =
    SnapshotV1 snapshot_fields "tag_v1 list" "content_v1 list"
  | SnapshotV2 snapshot_fields "tag list" "note_group list" "content list"
  | SnapshotV3 snapshot_fields "tag list" "note_group list" "content list"
  | SnapshotOther snapshot_fields int

record normalized_snapshot = snapshot_fields +
  schemaVersion :: int
  snapshot_tags :: "tag list"
  snapshot_groups :: "note_group list"
  snapshot_content :: "content list"

text \<open>The errors the publication modules throw, by their message.\<close>

datatype public_error =
    PublicSnapshotVersion
  | PublicNoteGroupConflict
  | PublicReferenceMissing
  | PublicIdentityConflict
  | PublicSlugConflict
  | PublicRouteConflict
  | PublicCanonicalMissing
  | PublicTopicInvalid
  | PublicPageConflict
  | PublicRedirectLimit
  | PublicRedirectInvalid
  | PublicRedirectLineLimit
  | PublicDateInvalid
  | TypeErrorThrown

lemma content_type_simps [simp]:
  "payload c = PostPayload \<Longrightarrow> content_type c = Post"
  "payload c = NotePayload n \<Longrightarrow> content_type c = Note"
  "payload c = CuratedPayload q \<Longrightarrow> content_type c = CuratedArticle"
  "payload c = TopicPayload t \<Longrightarrow> content_type c = Topic"
  by (simp_all add: content_type_def)

lemma content_type_cases:
  "content_type c = Note \<longleftrightarrow> (\<exists>n. payload c = NotePayload n)"
  "content_type c = Topic \<longleftrightarrow> (\<exists>t. payload c = TopicPayload t)"
  "content_type c = CuratedArticle \<longleftrightarrow> (\<exists>q. payload c = CuratedPayload q)"
  "content_type c = Post \<longleftrightarrow> payload c = PostPayload"
  by (auto simp: content_type_def split: payload.splits)

end
