(* ===== verification/PublicNormalize.thy ===== *)
theory PublicNormalize
  imports PublicTypes
begin

text \<open>
  \<open>apps/web/src/lib/publication/normalize.ts\<close>: a version 1 snapshot is adapted to the reader
  model, versions 2 and 3 pass unchanged. Version 1 has no group list: the groups are
  collected from the notes, which must agree on each group's metadata.
\<close>

definition adapt_tag_v1 :: "tag_v1 \<Rightarrow> tag" where
  "adapt_tag_v1 t = tag_v1.extend t (tag.fields '''' '''')"

definition adapt_payload_v1 :: "payload_v1 \<Rightarrow> payload" where
  "adapt_payload_v1 p = (case p of
     PostPayloadV1 \<Rightarrow> PostPayload
   | NotePayloadV1 n \<Rightarrow> NotePayload (note_payload.truncate n)
   | CuratedPayloadV1 q \<Rightarrow> CuratedPayload q
   | TopicPayloadV1 t \<Rightarrow> TopicPayload t)"

definition adapt_content_v1 :: "content_v1 \<Rightarrow> content" where
  "adapt_content_v1 c =
     content_fields.extend (content_fields.truncate c)
       (content.fields (adapt_payload_v1 (payload_v1 c)))"

definition group_of_v1 :: "note_payload_v1 \<Rightarrow> note_group" where
  "group_of_v1 p = \<lparr>group_id = None, group_slug = groupSlug p, group_name = note_group p,
     group_description = groupDescription p, group_nameEn = '''', group_descriptionEn = '''',
     group_order = groupOrder p\<rparr>"

text \<open>One turn of the loop over the content: notes only, and a prior group must agree.\<close>

definition collect_group ::
  "content_v1 \<Rightarrow> (string \<times> note_group) list \<Rightarrow> public_error + (string \<times> note_group) list" where
  "collect_group item groups = (case payload_v1 item of
     NotePayloadV1 p \<Rightarrow>
       throw_when
         (case map_of groups (groupSlug p) of
            None \<Rightarrow> False
          | Some prior \<Rightarrow> group_name prior \<noteq> note_group p
              \<or> group_description prior \<noteq> groupDescription p
              \<or> group_order prior \<noteq> groupOrder p)
         PublicNoteGroupConflict
         (Inr (AList.update (groupSlug p) (group_of_v1 p) groups))
   | _ \<Rightarrow> Inr groups)"

definition normalized ::
  "snapshot_fields \<Rightarrow> int \<Rightarrow> tag list \<Rightarrow> note_group list \<Rightarrow> content list \<Rightarrow> normalized_snapshot" where
  "normalized f v tags groups content =
     snapshot_fields.extend f (normalized_snapshot.fields v tags groups content)"

definition normalize_snapshot :: "snapshot \<Rightarrow> public_error + normalized_snapshot" where
  "normalize_snapshot s = (case s of
     SnapshotV2 f tags groups content \<Rightarrow> Inr (normalized f 2 tags groups content)
   | SnapshotV3 f tags groups content \<Rightarrow> Inr (normalized f 3 tags groups content)
   | SnapshotOther f v \<Rightarrow> Inl PublicSnapshotVersion
   | SnapshotV1 f tags content \<Rightarrow>
       ebind (efold collect_group content [])
         (\<lambda>groups. Inr (normalized f 1 (map adapt_tag_v1 tags) (map_values groups)
            (map adapt_content_v1 content))))"

lemma normalized_simps [simp]:
  "schemaVersion (normalized f v tags groups content) = v"
  "snapshot_tags (normalized f v tags groups content) = tags"
  "snapshot_groups (normalized f v tags groups content) = groups"
  "snapshot_content (normalized f v tags groups content) = content"
  "snapshot_authors (normalized f v tags groups content) = snapshot_authors f"
  "snapshot_assets (normalized f v tags groups content) = snapshot_assets f"
  "snapshot_routes (normalized f v tags groups content) = snapshot_routes f"
  "generation (normalized f v tags groups content) = generation f"
  "exportedAt (normalized f v tags groups content) = exportedAt f"
  by (simp_all add: normalized_def snapshot_fields.defs normalized_snapshot.defs)

section \<open>The groups of a version 1 snapshot\<close>

definition notes_v1 :: "content_v1 list \<Rightarrow> note_payload_v1 list" where
  "notes_v1 items = concat (map (\<lambda>c. case payload_v1 c of NotePayloadV1 p \<Rightarrow> [p] | _ \<Rightarrow> []) items)"

definition notes_agree :: "content_v1 list \<Rightarrow> bool" where
  "notes_agree items \<longleftrightarrow> (\<forall>p \<in> set (notes_v1 items). \<forall>q \<in> set (notes_v1 items).
     groupSlug p = groupSlug q \<longrightarrow> note_group p = note_group q
       \<and> groupDescription p = groupDescription q \<and> groupOrder p = groupOrder q)"

definition collected_groups :: "content_v1 list \<Rightarrow> (string \<times> note_group) list" where
  "collected_groups items = map_of_pairs (map (\<lambda>p. (groupSlug p, group_of_v1 p)) (notes_v1 items))"

lemma notes_agreeD:
  "notes_agree items \<Longrightarrow> p \<in> set (notes_v1 items) \<Longrightarrow> q \<in> set (notes_v1 items) \<Longrightarrow>
    groupSlug p = groupSlug q \<Longrightarrow> note_group p = note_group q
      \<and> groupDescription p = groupDescription q \<and> groupOrder p = groupOrder q"
  unfolding notes_agree_def by blast

lemma notes_agree_cong: "set (notes_v1 xs) = set (notes_v1 ys) \<Longrightarrow> notes_agree xs = notes_agree ys"
  unfolding notes_agree_def by simp

lemma notes_agree_prefix: "notes_agree (items @ [c]) \<Longrightarrow> notes_agree items"
  unfolding notes_agree_def by (auto simp: notes_v1_def split: payload_v1.split)

lemma notes_v1_snoc:
  "notes_v1 (items @ [c]) = notes_v1 items @ (case payload_v1 c of NotePayloadV1 p \<Rightarrow> [p] | _ \<Rightarrow> [])"
  by (simp add: notes_v1_def split: payload_v1.split)

lemma group_of_v1_eq:
  "group_of_v1 p = group_of_v1 q \<longleftrightarrow> groupSlug p = groupSlug q \<and> note_group p = note_group q
    \<and> groupDescription p = groupDescription q \<and> groupOrder p = groupOrder q"
  by (auto simp: group_of_v1_def)

lemma notes_agree_alt:
  "notes_agree items \<longleftrightarrow> (\<forall>p \<in> set (notes_v1 items). \<forall>q \<in> set (notes_v1 items).
     groupSlug p = groupSlug q \<longrightarrow> group_of_v1 p = group_of_v1 q)"
  unfolding notes_agree_def group_of_v1_eq by blast

lemma notes_agree_snoc:
  assumes "notes_agree items" and "payload_v1 c = NotePayloadV1 p"
  shows "notes_agree (items @ [c]) \<longleftrightarrow>
    (\<forall>q \<in> set (notes_v1 items). groupSlug q = groupSlug p \<longrightarrow> group_of_v1 q = group_of_v1 p)"
proof -
  have inserted: "set (notes_v1 (items @ [c])) = insert p (set (notes_v1 items))"
    using assms(2) by (simp add: notes_v1_snoc)
  show ?thesis using assms(1) unfolding notes_agree_alt inserted by (metis insert_iff)
qed

lemma collected_lookup:
  assumes "notes_agree items"
  shows "map_of (collected_groups items) slug = Some g \<longleftrightarrow>
    (\<exists>p \<in> set (notes_v1 items). groupSlug p = slug \<and> g = group_of_v1 p)"
proof -
  let ?ps = "rev (map (\<lambda>p. (groupSlug p, group_of_v1 p)) (notes_v1 items))"
  have lookup: "map_of (collected_groups items) slug = map_of ?ps slug"
    by (simp add: collected_groups_def map_of_map_of_pairs)
  show ?thesis
  proof
    assume "map_of (collected_groups items) slug = Some g"
    then show "\<exists>p \<in> set (notes_v1 items). groupSlug p = slug \<and> g = group_of_v1 p"
      unfolding lookup by (auto dest!: map_of_SomeD)
  next
    assume "\<exists>p \<in> set (notes_v1 items). groupSlug p = slug \<and> g = group_of_v1 p"
    then obtain p where p: "p \<in> set (notes_v1 items)" "groupSlug p = slug" "g = group_of_v1 p" by blast
    then have "map_of ?ps slug \<noteq> None" unfolding map_of_eq_None_iff by force
    then obtain h where h: "map_of ?ps slug = Some h" by blast
    then obtain q where q: "q \<in> set (notes_v1 items)" "groupSlug q = slug" "h = group_of_v1 q"
      by (auto dest!: map_of_SomeD)
    from q(1,2) p(1,2) have "group_of_v1 q = group_of_v1 p"
      unfolding group_of_v1_eq by (metis notes_agreeD [OF assms])
    with p(3) q(3) have "h = g" by simp
    with h show "map_of (collected_groups items) slug = Some g" unfolding lookup by simp
  qed
qed

lemma collect_group_loop:
  "efold collect_group items [] = Inr m \<longleftrightarrow> notes_agree items \<and> m = collected_groups items"
proof (induction items arbitrary: m rule: rev_induct)
  case Nil
  show ?case by (auto simp: notes_agree_def notes_v1_def collected_groups_def)
next
  case (snoc c items)
  have step: "collect_group c (collected_groups items) = Inr m \<longleftrightarrow>
      notes_agree (items @ [c]) \<and> m = collected_groups (items @ [c])" if agree: "notes_agree items" for m
  proof (cases "payload_v1 c")
    case (NotePayloadV1 p)
    have "(case map_of (collected_groups items) (groupSlug p) of None \<Rightarrow> False
        | Some prior \<Rightarrow> group_name prior \<noteq> note_group p \<or> group_description prior \<noteq> groupDescription p
            \<or> group_order prior \<noteq> groupOrder p) \<longleftrightarrow> \<not> notes_agree (items @ [c])"
    proof (cases "map_of (collected_groups items) (groupSlug p)")
      case None
      then have "groupSlug q \<noteq> groupSlug p" if "q \<in> set (notes_v1 items)" for q
        using that collected_lookup [OF agree, of "groupSlug p" "group_of_v1 q"] by auto
      with None show ?thesis unfolding notes_agree_snoc [OF agree NotePayloadV1] by simp
    next
      case (Some prior)
      then obtain q where q: "q \<in> set (notes_v1 items)" "groupSlug q = groupSlug p"
          "prior = group_of_v1 q"
        using collected_lookup [OF agree] by blast
      have "notes_agree (items @ [c]) \<longleftrightarrow> group_of_v1 q = group_of_v1 p"
        unfolding notes_agree_snoc [OF agree NotePayloadV1] group_of_v1_eq
        using q(1,2) by (metis notes_agreeD [OF agree])
      with Some q(2,3) show ?thesis by (simp add: group_of_v1_eq) (simp add: group_of_v1_def)
    qed
    with NotePayloadV1 show ?thesis
      by (auto simp: collect_group_def throw_when_Inr_iff collected_groups_def notes_v1_snoc
          map_of_pairs_snoc)
  qed (use agree notes_agree_cong [of "items @ [c]" items] in
      \<open>auto simp: collect_group_def notes_v1_snoc collected_groups_def\<close>)
  from step snoc notes_agree_prefix [of items c] show ?case
    by (auto simp: efold_append ebind_Inr_iff)
qed

lemma collected_groups_values:
  assumes "notes_agree items"
  shows "set (map_values (collected_groups items)) = group_of_v1 ` set (notes_v1 items)"
    and "distinct (map group_slug (map_values (collected_groups items)))"
proof -
  have dist: "distinct (map fst (collected_groups items))"
    by (simp add: collected_groups_def distinct_map_of_pairs)
  have lookup: "(slug, g) \<in> set (collected_groups items) \<longleftrightarrow>
      (\<exists>p \<in> set (notes_v1 items). groupSlug p = slug \<and> g = group_of_v1 p)" for slug g
    using collected_lookup [OF assms, of slug g] map_of_eq_Some_iff [OF dist, of slug g] by simp
  show "set (map_values (collected_groups items)) = group_of_v1 ` set (notes_v1 items)"
    using lookup by (force simp: map_values_def image_iff)
  have "map (\<lambda>x. group_slug (snd x)) (collected_groups items) = map fst (collected_groups items)"
    using lookup by (auto simp: group_of_v1_def)
  with dist show "distinct (map group_slug (map_values (collected_groups items)))"
    unfolding map_values_def map_map comp_def by (simp only:)
qed

lemma adapt_content_simps [simp]:
  "content_id (adapt_content_v1 c) = content_id c"
  "canonicalPath (adapt_content_v1 c) = canonicalPath c"
  "content_fields.truncate (adapt_content_v1 c) = content_fields.truncate c"
  "payload (adapt_content_v1 c) = adapt_payload_v1 (payload_v1 c)"
  by (simp_all add: adapt_content_v1_def content_fields.defs content.defs)

text \<open>
  What the adaption has to keep, field by field: all of an item that both versions have, its payload
  without the metadata of the group, and a tag with empty English texts.
\<close>

definition keeps_payload :: "payload_v1 \<Rightarrow> payload \<Rightarrow> bool" where
  "keeps_payload p q \<longleftrightarrow> (case (p, q) of
     (PostPayloadV1, PostPayload) \<Rightarrow> True
   | (NotePayloadV1 n, NotePayload m) \<Rightarrow> groupSlug m = groupSlug n \<and> note_order m = note_order n
   | (CuratedPayloadV1 a, CuratedPayload b) \<Rightarrow> b = a
   | (TopicPayloadV1 a, TopicPayload b) \<Rightarrow> b = a
   | _ \<Rightarrow> False)"

definition keeps_content :: "content_v1 \<Rightarrow> content \<Rightarrow> bool" where
  "keeps_content old new \<longleftrightarrow>
     editorialEn new = editorialEn old \<and> content_id new = content_id old \<and> revisionNo new = revisionNo old
     \<and> canonicalPath new = canonicalPath old \<and> content_title new = content_title old
     \<and> content_slug new = content_slug old \<and> content_summary new = content_summary old
     \<and> bodyMarkdown new = bodyMarkdown old \<and> authorId new = authorId old
     \<and> content_language new = content_language old \<and> featured new = featured old
     \<and> seoTitle new = seoTitle old \<and> seoDescription new = seoDescription old
     \<and> coverAssetId new = coverAssetId old \<and> firstPublishedAt new = firstPublishedAt old
     \<and> lastPublishedAt new = lastPublishedAt old \<and> tagIds new = tagIds old
     \<and> topicEntries new = topicEntries old \<and> keeps_payload (payload_v1 old) (payload new)"

definition keeps_tag :: "tag_v1 \<Rightarrow> tag \<Rightarrow> bool" where
  "keeps_tag old new \<longleftrightarrow> tag_id new = tag_id old \<and> tag_name new = tag_name old \<and> tag_slug new = tag_slug old
     \<and> tag_description new = tag_description old \<and> tag_nameEn new = [] \<and> tag_descriptionEn new = []"

definition keeps_fields :: "snapshot_fields \<Rightarrow> normalized_snapshot \<Rightarrow> bool" where
  "keeps_fields f s \<longleftrightarrow> generation s = generation f \<and> exportedAt s = exportedAt f
     \<and> snapshot_authors s = snapshot_authors f \<and> snapshot_assets s = snapshot_assets f
     \<and> snapshot_routes s = snapshot_routes f"

lemma keeps_payload_iff: "keeps_payload p q \<longleftrightarrow> q = adapt_payload_v1 p"
  by (cases p; cases q) (auto simp: keeps_payload_def adapt_payload_v1_def note_payload.defs)

lemma keeps_content_iff: "keeps_content old new \<longleftrightarrow> new = adapt_content_v1 old"
  by (cases old; cases new) (auto simp: keeps_content_def keeps_payload_iff adapt_content_v1_def content_fields.defs content.defs)

lemma keeps_tag_iff: "keeps_tag old new \<longleftrightarrow> new = adapt_tag_v1 old"
  by (cases old; cases new) (auto simp: keeps_tag_def adapt_tag_v1_def tag_v1.defs tag.defs)

lemma list_all2_graph: "list_all2 (\<lambda>x y. y = f x) xs ys \<longleftrightarrow> ys = map f xs"
  by (auto simp: list_all2_conv_all_nth list_eq_iff_nth_eq)

lemma normalized_iff:
  "s = normalized f v tags groups items \<longleftrightarrow> keeps_fields f s \<and> schemaVersion s = v \<and> snapshot_tags s = tags
    \<and> snapshot_groups s = groups \<and> snapshot_content s = items"
  by (cases s) (auto simp: keeps_fields_def normalized_def snapshot_fields.defs normalized_snapshot.defs)

text \<open>
  C10. A version 1 snapshot is adapted without loss: it is accepted exactly when all notes of a
  group agree on the group's name, description and order; and the result is exactly the snapshot that
  keeps the authors, assets, routes, generation and export time, every tag (with empty English texts)
  and, in order, every field of every item, and whose group list holds exactly the notes' groups, each
  slug once, in the order of their first notes.
\<close>

theorem normalize_v1_faithful:
  "normalize_snapshot (SnapshotV1 f tags items) = Inr s \<longleftrightarrow>
    notes_agree items
    \<and> schemaVersion s = 1 \<and> keeps_fields f s
    \<and> list_all2 keeps_tag tags (snapshot_tags s) \<and> list_all2 keeps_content items (snapshot_content s)
    \<and> snapshot_groups s = map_values (collected_groups items)
    \<and> set (snapshot_groups s) = group_of_v1 ` set (notes_v1 items)
    \<and> distinct (map group_slug (snapshot_groups s))"
proof -
  have "list_all2 keeps_tag tags ts \<longleftrightarrow> ts = map adapt_tag_v1 tags" for ts
    by (simp add: keeps_tag_iff [abs_def] list_all2_graph)
  moreover have "list_all2 keeps_content items cs \<longleftrightarrow> cs = map adapt_content_v1 items" for cs
    by (simp add: keeps_content_iff [abs_def] list_all2_graph)
  moreover have "normalize_snapshot (SnapshotV1 f tags items) = Inr s \<longleftrightarrow> notes_agree items
      \<and> s = normalized f 1 (map adapt_tag_v1 tags) (map_values (collected_groups items)) (map adapt_content_v1 items)"
    by (auto simp: normalize_snapshot_def ebind_Inr_iff collect_group_loop)
  ultimately show ?thesis
    using collected_groups_values [of items] unfolding normalized_iff by auto
qed

end
