(* ===== verification/Publication.thy ===== *)
theory Publication
  imports PublicNormalize
begin

text \<open>
  \<open>apps/web/src/lib/publication/indexes.ts\<close>: the orders of the public collections and
  \<open>createPublication\<close>, which checks every reference of a validated snapshot once and builds
  the indexes all pages read. The mutable maps of the function are state records passed through
  the loops; each \<open>throw\<close> is a branch. \<open>well_formed\<close> is the abstract contract: the function
  succeeds on exactly the snapshots that satisfy it.
\<close>

section \<open>Orders\<close>

definition compare_text :: "string \<Rightarrow> string \<Rightarrow> int" where
  "compare_text a b = (if a < b then -1 else if b < a then 1 else 0)"

definition recent :: "content \<Rightarrow> content \<Rightarrow> int" where
  "recent a b = js_or (lastPublishedAt b - lastPublishedAt a) (content_id b - content_id a)"

definition featured_recent :: "content \<Rightarrow> content \<Rightarrow> int" where
  "featured_recent a b = js_or (js_number (featured b) - js_number (featured a)) (recent a b)"

definition titled :: "content \<Rightarrow> content \<Rightarrow> int" where
  "titled a b = js_or (compare_text (content_title a) (content_title b)) (content_id a - content_id b)"

record group_page = note_group +
  group_content :: "content list"

text \<open>
  \<open>groups.get(slug)!.order\<close>: the code asserts the entry. Every note has had its group looked up
  before anything is sorted, so the \<open>None\<close> branch is never taken (every note's group resolves).
\<close>

definition order_of_group :: "(string \<times> group_page) list \<Rightarrow> string \<Rightarrow> int" where
  "order_of_group groups slug = (case map_of groups slug of Some g \<Rightarrow> group_order g | None \<Rightarrow> 0)"

definition ordered :: "(string \<times> group_page) list \<Rightarrow> content \<Rightarrow> content \<Rightarrow> int" where
  "ordered groups a b = (case (payload a, payload b) of
     (NotePayload p, NotePayload q) \<Rightarrow>
       js_or (order_of_group groups (groupSlug p) - order_of_group groups (groupSlug q))
         (js_or (compare_text (groupSlug p) (groupSlug q))
           (js_or (note_order p - note_order q) (titled a b)))
   | (TopicPayload p, TopicPayload q) \<Rightarrow> js_or (topic_order p - topic_order q) (titled a b)
   | _ \<Rightarrow> featured_recent a b)"

section \<open>Lookups and indexes\<close>

definition required :: "(int \<times> 'v) list \<Rightarrow> int \<Rightarrow> public_error + 'v" where
  "required m i = (case map_of m i of None \<Rightarrow> Inl PublicReferenceMissing | Some v \<Rightarrow> Inr v)"

definition index_by :: "('a \<Rightarrow> int) \<Rightarrow> 'a list \<Rightarrow> public_error + (int \<times> 'a) list" where
  "index_by key values =
     (let m = map_of_pairs (map (\<lambda>v. (key v, v)) values)
      in throw_when (length m \<noteq> length values) PublicIdentityConflict (Inr m))"

definition check_slugs :: "('a \<Rightarrow> string) \<Rightarrow> 'a list \<Rightarrow> public_error + unit" where
  "check_slugs slug values =
     throw_when (length (set_of_list (map slug values)) \<noteq> length values) PublicSlugConflict (Inr ())"

definition append_to :: "'k \<Rightarrow> 'v \<Rightarrow> ('k \<times> 'v list) list \<Rightarrow> ('k \<times> 'v list) list" where
  "append_to k v m = (case map_of m k of
     Some rows \<Rightarrow> AList.update k (rows @ [v]) m
   | None \<Rightarrow> AList.update k [v] m)"

section \<open>The loop over the routes\<close>

record route_state =
  canonicalRouteByContentId :: "(int \<times> string) list"
  seen_paths :: "string list"

definition add_route ::
  "(int \<times> content) list \<Rightarrow> route \<Rightarrow> route_state \<Rightarrow> public_error + route_state" where
  "add_route contentById r st =
     ebind (required contentById (route_contentId r)) (\<lambda>item.
     throw_when (route_path r \<in> set (seen_paths st)) PublicRouteConflict
     (let st = st\<lparr>seen_paths := set_add (route_path r) (seen_paths st)\<rparr>
      in if route_kind r = Canonical then
           throw_when
             (map_has (canonicalRouteByContentId st) (content_id item)
               \<or> route_path r \<noteq> canonicalPath item)
             PublicRouteConflict
             (Inr (st\<lparr>canonicalRouteByContentId :=
               AList.update (content_id item) (route_path r) (canonicalRouteByContentId st)\<rparr>))
         else Inr st))"

section \<open>The loop over the content\<close>

record collections =
  byType :: "(content_type \<times> content list) list"
  byAuthor :: "(int \<times> content list) list"
  byTag :: "(int \<times> content list) list"
  byGroup :: "(string \<times> group_page) list"

definition add_tag :: "(int \<times> tag) list \<Rightarrow> content \<Rightarrow> int \<Rightarrow> collections \<Rightarrow> public_error + collections" where
  "add_tag tagById item i cs =
     ebind (required tagById i) (\<lambda>_. Inr (cs\<lparr>byTag := append_to i item (byTag cs)\<rparr>))"

definition add_to_group :: "content \<Rightarrow> collections \<Rightarrow> public_error + collections" where
  "add_to_group item cs = (case payload item of
     NotePayload p \<Rightarrow>
       (case map_of (byGroup cs) (groupSlug p) of
          None \<Rightarrow> Inl PublicReferenceMissing
        | Some g \<Rightarrow> Inr (cs\<lparr>byGroup :=
            AList.update (groupSlug p) (g\<lparr>group_content := group_content g @ [item]\<rparr>) (byGroup cs)\<rparr>))
   | _ \<Rightarrow> Inr cs)"

definition add_content ::
  "(int \<times> author) list \<Rightarrow> (int \<times> asset) list \<Rightarrow> (int \<times> tag) list \<Rightarrow> (int \<times> string) list
    \<Rightarrow> content \<Rightarrow> collections \<Rightarrow> public_error + collections" where
  "add_content authorById assetById tagById canonical item cs =
     ebind (required authorById (authorId item)) (\<lambda>_.
     throw_when (\<not> map_has canonical (content_id item)) PublicCanonicalMissing
     (ebind (case coverAssetId item of None \<Rightarrow> Inr () | Some a \<Rightarrow>
               ebind (required assetById a) (\<lambda>_. Inr ())) (\<lambda>_.
      let cs = cs\<lparr>byType := append_to (content_type item) item (byType cs)\<rparr>;
          cs = cs\<lparr>byAuthor := append_to (authorId item) item (byAuthor cs)\<rparr>
      in ebind (efold (add_tag tagById item) (tagIds item) cs) (add_to_group item))))"

definition empty_collections :: "note_group list \<Rightarrow> collections" where
  "empty_collections groups =
     \<lparr>byType = map (\<lambda>t. (t, [])) [Post, Note, CuratedArticle, Topic],
      byAuthor = [], byTag = [],
      byGroup = map_of_pairs
        (map (\<lambda>g. (group_slug g, note_group.extend g (group_page.fields []))) groups)\<rparr>"

section \<open>Sorting the collections\<close>

definition sort_types ::
  "(string \<times> group_page) list \<Rightarrow> (content_type \<times> content list) list \<Rightarrow> (content_type \<times> content list) list"
where
  "sort_types groups m = map (\<lambda>(t, rows). (t, js_sort (ordered groups) rows)) m"

definition sort_groups ::
  "(string \<times> group_page) list \<Rightarrow> public_error + (string \<times> group_page) list" where
  "sort_groups groups = emap (\<lambda>(slug, g).
     throw_when (group_content g = []) PublicReferenceMissing
       (Inr (slug, g\<lparr>group_content := js_sort (ordered groups) (group_content g)\<rparr>))) groups"

section \<open>The topics' reading paths\<close>

record topic_target =
  target_position :: int
  target_content :: content

record entry_state =
  positions :: "int list"
  targets :: "int list"
  resolved :: "topic_target list"

definition add_entry ::
  "(int \<times> content) list \<Rightarrow> content \<Rightarrow> topic_entry \<Rightarrow> entry_state \<Rightarrow> public_error + entry_state" where
  "add_entry contentById item e st =
     throw_when (targetContentId e = content_id item
         \<or> entry_position e \<in> set (positions st)
         \<or> targetContentId e \<in> set (targets st)) PublicTopicInvalid
     (let st = st\<lparr>positions := set_add (entry_position e) (positions st),
                  targets := set_add (targetContentId e) (targets st)\<rparr>
      in ebind (required contentById (targetContentId e)) (\<lambda>c.
         throw_when (content_type c \<noteq> CuratedArticle) PublicTopicInvalid
         (Inr (st\<lparr>resolved := resolved st
            @ [\<lparr>target_position = entry_position e, target_content = c\<rparr>]\<rparr>))))"

definition by_position :: "topic_entry \<Rightarrow> topic_entry \<Rightarrow> int" where
  "by_position a b = entry_position a - entry_position b"

definition topic_path ::
  "(int \<times> content) list \<Rightarrow> content \<Rightarrow> public_error + topic_target list" where
  "topic_path contentById item =
     ebind (efold (add_entry contentById item) (js_sort by_position (topicEntries item))
        \<lparr>positions = [], targets = [], resolved = []\<rparr>)
       (\<lambda>st. Inr (resolved st))"

definition add_topic ::
  "(int \<times> content) list \<Rightarrow> content \<Rightarrow> (int \<times> topic_target list) list
    \<Rightarrow> public_error + (int \<times> topic_target list) list" where
  "add_topic contentById item m = (case payload item of
     TopicPayload p \<Rightarrow>
       throw_when (recommendedCount p < 0 \<or> recommendedCount p > int (length (topicEntries item)))
         PublicTopicInvalid
       (ebind (topic_path contentById item) (\<lambda>ts. Inr (AList.update (content_id item) ts m)))
   | _ \<Rightarrow> Inr m)"

section \<open>createPublication\<close>

record publication =
  pub_snapshot :: normalized_snapshot
  contentById :: "(int \<times> content) list"
  authorById :: "(int \<times> author) list"
  assetById :: "(int \<times> asset) list"
  tagById :: "(int \<times> tag) list"
  canonicalRoutes :: "(int \<times> string) list"
  contentByType :: "(content_type \<times> content list) list"
  contentByAuthor :: "(int \<times> content list) list"
  contentByTag :: "(int \<times> content list) list"
  topicTargets :: "(int \<times> topic_target list) list"
  notesByGroup :: "(string \<times> group_page) list"
  pub_groups :: "group_page list"
  pub_authors :: "author list"
  pub_tags :: "tag list"
  pub_feed :: "content list"

definition group_page_order :: "group_page \<Rightarrow> group_page \<Rightarrow> int" where
  "group_page_order a b =
     js_or (group_order a - group_order b) (compare_text (group_slug a) (group_slug b))"

definition author_order :: "author \<Rightarrow> author \<Rightarrow> int" where
  "author_order a b = js_or (compare_text (displayName a) (displayName b)) (author_id a - author_id b)"

definition tag_order :: "tag \<Rightarrow> tag \<Rightarrow> int" where
  "tag_order a b = js_or (compare_text (tag_name a) (tag_name b)) (tag_id a - tag_id b)"

definition index_publication :: "normalized_snapshot \<Rightarrow> public_error + publication" where
  "index_publication s =
     ebind (index_by content_id (snapshot_content s)) (\<lambda>contents.
     ebind (index_by author_id (snapshot_authors s)) (\<lambda>authors.
     ebind (index_by asset_id (snapshot_assets s)) (\<lambda>assets.
     ebind (index_by tag_id (snapshot_tags s)) (\<lambda>tags.
     ebind (check_slugs author_slug (snapshot_authors s)) (\<lambda>_.
     ebind (check_slugs tag_slug (snapshot_tags s)) (\<lambda>_.
     ebind (check_slugs group_slug (snapshot_groups s)) (\<lambda>_.
     ebind (efold (add_route contents) (snapshot_routes s)
        \<lparr>canonicalRouteByContentId = [], seen_paths = []\<rparr>) (\<lambda>rt.
     ebind (efold (add_content authors assets tags (canonicalRouteByContentId rt))
        (js_sort featured_recent (snapshot_content s))
        (empty_collections (snapshot_groups s))) (\<lambda>cs.
     ebind (sort_groups (byGroup cs)) (\<lambda>groups.
     ebind (efold (add_topic contents) (snapshot_content s) []) (\<lambda>topics.
     Inr \<lparr>pub_snapshot = s,
          contentById = contents, authorById = authors, assetById = assets, tagById = tags,
          canonicalRoutes = canonicalRouteByContentId rt,
          contentByType = sort_types (byGroup cs) (byType cs),
          contentByAuthor = byAuthor cs,
          contentByTag = byTag cs,
          topicTargets = topics,
          notesByGroup = groups,
          pub_groups = js_sort group_page_order (map_values groups),
          pub_authors = js_sort author_order (snapshot_authors s),
          pub_tags = js_sort tag_order (snapshot_tags s),
          pub_feed = js_sort recent (filter (\<lambda>c. content_type c = Note \<or> content_type c = CuratedArticle)
            (snapshot_content s))\<rparr>)))))))))))"

definition create_publication :: "snapshot \<Rightarrow> public_error + publication" where
  "create_publication input = ebind (normalize_snapshot input) index_publication"

definition highlights :: "publication \<Rightarrow> content_type \<Rightarrow> nat \<Rightarrow> content list" where
  "highlights p t n = take n (js_sort featured_recent
     (case map_of (contentByType p) t of Some rows \<Rightarrow> rows | None \<Rightarrow> []))"

definition seo :: "content \<Rightarrow> string \<times> string" where
  "seo c =
     ((if js_trim (seoTitle c) = '''' then content_title c else js_trim (seoTitle c)),
      (if js_trim (seoDescription c) = '''' then content_summary c else js_trim (seoDescription c)))"

section \<open>The comparators keep the contract of sort\<close>

lemma comparator_text [comparator_intros]:
  "js_comparator S (\<lambda>a b. compare_text (k a) (k b))"
  by unfold_locales (auto simp: compare_text_def split: if_splits)

lemma compare_text_zero [simp]: "compare_text a b = 0 \<longleftrightarrow> a = b"
  by (auto simp: compare_text_def)

lemma comparator_recent [comparator_intros]: "js_comparator S recent"
  unfolding recent_def [abs_def] by (intro comparator_intros)

lemma comparator_featured_recent [comparator_intros]: "js_comparator S featured_recent"
  unfolding featured_recent_def [abs_def] by (intro comparator_intros)

lemma comparator_titled [comparator_intros]: "js_comparator S titled"
  unfolding titled_def [abs_def] by (intro comparator_intros)

lemma zero_simps:
  "recent a b = 0 \<longleftrightarrow> lastPublishedAt a = lastPublishedAt b \<and> content_id a = content_id b"
  "featured_recent a b = 0 \<longleftrightarrow> featured a = featured b \<and> recent a b = 0"
  "titled a b = 0 \<longleftrightarrow> content_title a = content_title b \<and> content_id a = content_id b"
  by (auto simp: recent_def featured_recent_def titled_def js_or_zero_iff js_number_def)

text \<open>Within one content type the collection order is one comparator chain.\<close>

definition note_of :: "content \<Rightarrow> note_payload" where
  "note_of c = (case payload c of NotePayload p \<Rightarrow> p)"

definition topic_of :: "content \<Rightarrow> topic_payload" where
  "topic_of c = (case payload c of TopicPayload p \<Rightarrow> p)"

lemma ordered_by_type:
  "content_type a = Note \<Longrightarrow> content_type b = Note \<Longrightarrow> ordered groups a b =
     js_or (order_of_group groups (groupSlug (note_of a)) - order_of_group groups (groupSlug (note_of b)))
       (js_or (compare_text (groupSlug (note_of a)) (groupSlug (note_of b)))
         (js_or (note_order (note_of a) - note_order (note_of b)) (titled a b)))"
  "content_type a = Topic \<Longrightarrow> content_type b = Topic \<Longrightarrow> ordered groups a b =
     js_or (topic_order (topic_of a) - topic_order (topic_of b)) (titled a b)"
  "content_type a = t \<Longrightarrow> content_type b = t \<Longrightarrow> t \<noteq> Note \<Longrightarrow> t \<noteq> Topic \<Longrightarrow>
     ordered groups a b = featured_recent a b"
  by (auto simp: content_type_def ordered_def note_of_def topic_of_def split: payload.splits)

lemma comparator_ordered [comparator_intros]:
  "js_comparator {c. content_type c = t} (ordered groups)"
proof (cases t)
  case Note
  show ?thesis
    by (rule comparator_cong [rotated], rule ordered_by_type(1))
      (simp_all add: Note comparator_intros)
next
  case Topic
  show ?thesis
    by (rule comparator_cong [rotated], rule ordered_by_type(2))
      (simp_all add: Topic comparator_intros)
qed (rule comparator_cong [OF comparator_featured_recent]; simp add: ordered_by_type)+

lemma comparator_ordered_id:
  "content_type a = content_type b \<Longrightarrow> ordered groups a b = 0 \<Longrightarrow> content_id a = content_id b"
  by (cases "content_type b")
    (simp_all add: ordered_by_type(3) [where t = Post] ordered_by_type(3) [where t = CuratedArticle]
      ordered_by_type(1,2) js_or_zero_iff zero_simps)

interpretation recent_order: js_keyed_comparator UNIV recent content_id
  by (intro js_keyed_comparator.intro js_keyed_comparator_axioms.intro comparator_intros)
    (simp add: zero_simps)

interpretation featured_order: js_keyed_comparator UNIV featured_recent content_id
  by (intro js_keyed_comparator.intro js_keyed_comparator_axioms.intro comparator_intros)
    (simp add: zero_simps)

interpretation type_order: js_keyed_comparator "{c. content_type c = t}" "ordered groups" content_id
  for t groups
  by (intro js_keyed_comparator.intro js_keyed_comparator_axioms.intro comparator_intros)
    (simp add: comparator_ordered_id)

interpretation group_order: js_keyed_comparator UNIV group_page_order group_slug
  unfolding group_page_order_def [abs_def]
  by (intro js_keyed_comparator.intro js_keyed_comparator_axioms.intro comparator_intros)
    (simp add: js_or_zero_iff)

interpretation authors_order: js_keyed_comparator UNIV author_order author_id
  unfolding author_order_def [abs_def]
  by (intro js_keyed_comparator.intro js_keyed_comparator_axioms.intro comparator_intros)
    (simp add: js_or_zero_iff)

interpretation tags_order: js_keyed_comparator UNIV tag_order tag_id
  unfolding tag_order_def [abs_def]
  by (intro js_keyed_comparator.intro js_keyed_comparator_axioms.intro comparator_intros)
    (simp add: js_or_zero_iff)

interpretation position_order: js_keyed_comparator UNIV by_position entry_position
  unfolding by_position_def [abs_def]
  by (intro js_keyed_comparator.intro js_keyed_comparator_axioms.intro comparator_intros)
    simp

end
