(* ===== verification/PublicationFacts.thy ===== *)
theory PublicationFacts
  imports Publication
begin

text \<open>
  What \<open>createPublication\<close> computes. Each loop is shown to succeed on exactly the inputs that
  meet a declarative condition and to return a declarative value; together they give
  \<open>index_publication s = Inr p\<close> if and only if \<open>s\<close> is \<open>well_formed\<close> and \<open>p = publication_of s\<close>.
  The properties of the index are then read off \<open>publication_of\<close>.
\<close>

named_theorems loop_results \<open>when a loop of createPublication succeeds, and with what\<close>

section \<open>Collecting rows under keys\<close>

definition rows_at :: "('k \<times> 'v list) list \<Rightarrow> 'k \<Rightarrow> 'v list" where
  "rows_at m k = (case map_of m k of None \<Rightarrow> [] | Some rows \<Rightarrow> rows)"

definition collect_by ::
  "('a \<Rightarrow> 'k list) \<Rightarrow> 'a list \<Rightarrow> ('k \<times> 'a list) list \<Rightarrow> ('k \<times> 'a list) list" where
  "collect_by keys items m = fold (\<lambda>item. fold (\<lambda>k. append_to k item) (keys item)) items m"

lemma rows_at_Nil [simp]: "rows_at [] k = []"
  by (simp add: rows_at_def)

lemma rows_at_append_to:
  "rows_at (append_to k v m) k' = rows_at m k' @ (if k' = k then [v] else [])"
  by (auto simp: rows_at_def append_to_def split: option.splits)

lemma has_append_to: "map_has (append_to k v m) k' \<longleftrightarrow> k' = k \<or> map_has m k'"
  by (auto simp: map_has_def append_to_def split: option.splits)

lemma rows_at_append_all:
  "rows_at (fold (\<lambda>k. append_to k v) ks m) k' = rows_at m k' @ replicate (count_list ks k') v"
  by (induction ks arbitrary: m) (auto simp: rows_at_append_to replicate_app_Cons_same)

lemma has_append_all: "map_has (fold (\<lambda>k. append_to k v) ks m) k' \<longleftrightarrow> k' \<in> set ks \<or> map_has m k'"
  by (induction ks arbitrary: m) (auto simp: has_append_to)

lemma rows_at_collect_by:
  "rows_at (collect_by keys items m) k =
    rows_at m k @ concat (map (\<lambda>c. replicate (count_list (keys c) k) c) items)"
  unfolding collect_by_def
  by (induction items arbitrary: m) (auto simp: rows_at_append_all)

lemma has_collect_by:
  "map_has (collect_by keys items m) k \<longleftrightarrow> map_has m k \<or> (\<exists>c \<in> set items. k \<in> set (keys c))"
  unfolding collect_by_def
  by (induction items arbitrary: m) (auto simp: has_append_all)

lemma count_list_distinct: "distinct ks \<Longrightarrow> count_list ks k = (if k \<in> set ks then 1 else 0)"
  by (induction ks) auto

lemma concat_replicate_filter:
  "(\<And>c. c \<in> set items \<Longrightarrow> distinct (keys c)) \<Longrightarrow>
    concat (map (\<lambda>c. replicate (count_list (keys c) k) c) items) = filter (\<lambda>c. k \<in> set (keys c)) items"
  by (induction items) (simp_all add: count_list_distinct)

section \<open>The indexes by id\<close>

lemma index_by_Inr [loop_results]:
  "index_by key xs = Inr m \<longleftrightarrow> distinct (map key xs) \<and> m = map (\<lambda>x. (key x, x)) xs"
proof -
  let ?ps = "map (\<lambda>x. (key x, x)) xs"
  have keys: "map fst ?ps = map key xs" by (simp add: comp_def)
  have "length (map_of_pairs ?ps) = length xs \<longleftrightarrow> distinct (map key xs)"
    using length_map_of_pairs_eq [of ?ps] unfolding keys by simp
  moreover have "map_of_pairs ?ps = ?ps" if "distinct (map key xs)"
    using that by (intro map_of_pairs_distinct) (simp add: comp_def)
  ultimately show ?thesis by (auto simp: index_by_def throw_when_Inr_iff Let_def)
qed

lemma check_slugs_Inr [loop_results]: "check_slugs slug xs = Inr u \<longleftrightarrow> distinct (map slug xs)"
  using length_set_of_list_eq [of "map slug xs"]
  by (auto simp: check_slugs_def throw_when_Inr_iff)

lemma required_Inr: "required m i = Inr v \<longleftrightarrow> map_of m i = Some v"
  by (auto simp: required_def split: option.splits)

lemma map_of_index:
  "distinct (map key xs) \<Longrightarrow> map_of (map (\<lambda>x. (key x, x)) xs) i = Some x \<longleftrightarrow> x \<in> set xs \<and> key x = i"
  by (induction xs) (auto simp: image_iff)

lemma has_index: "map_has (map (\<lambda>x. (key x, x)) xs) i \<longleftrightarrow> i \<in> key ` set xs"
  by (auto simp: map_has_iff image_iff)

section \<open>The routes\<close>

definition canonical_of :: "route list \<Rightarrow> route list" where
  "canonical_of rs = filter (\<lambda>r. route_kind r = Canonical) rs"

definition routes_ok :: "(int \<times> content) list \<Rightarrow> route list \<Rightarrow> bool" where
  "routes_ok contents rs \<longleftrightarrow>
     (\<forall>r \<in> set rs. map_has contents (route_contentId r))
     \<and> distinct (map route_path rs)
     \<and> (\<forall>r \<in> set (canonical_of rs).
          map_option canonicalPath (map_of contents (route_contentId r)) = Some (route_path r))
     \<and> distinct (map route_contentId (canonical_of rs))"

definition route_result :: "route list \<Rightarrow> route_state" where
  "route_result rs =
     \<lparr>canonicalRouteByContentId = map (\<lambda>r. (route_contentId r, route_path r)) (canonical_of rs),
      seen_paths = map route_path rs\<rparr>"

lemma routes_loop:
  assumes ids: "\<And>i c. map_of contents i = Some c \<Longrightarrow> content_id c = i"
  shows "efold (add_route contents) rs \<lparr>canonicalRouteByContentId = [], seen_paths = []\<rparr> = Inr st
    \<longleftrightarrow> routes_ok contents rs \<and> st = route_result rs"
proof (induction rs arbitrary: st rule: rev_induct)
  case Nil
  show ?case by (auto simp: routes_ok_def route_result_def canonical_of_def)
next
  case (snoc r rs)
  have canonical_has: "map_has (canonicalRouteByContentId (route_result rs)) i \<longleftrightarrow>
      i \<in> route_contentId ` set (canonical_of rs)" for i
    by (auto simp: route_result_def map_has_iff image_iff)
  have step: "add_route contents r (route_result rs) = Inr st \<longleftrightarrow>
      routes_ok contents (rs @ [r]) \<and> st = route_result (rs @ [r])" if ok: "routes_ok contents rs" for st
  proof (cases "map_of contents (route_contentId r)")
    case None
    then show ?thesis by (auto simp: add_route_def required_def routes_ok_def map_has_def)
  next
    case (Some c)
    with ids have "content_id c = route_contentId r" by blast
    moreover have "\<exists>x\<in>set contents. route_contentId r = fst x"
      using map_of_SomeD [OF Some] by force
    ultimately show ?thesis using Some ok canonical_has
      by (auto simp: add_route_def required_def throw_when_Inr_iff routes_ok_def route_result_def
          canonical_of_def map_has_def Let_def set_add_def keys_update_new map_of_eq_None_iff image_iff)
  qed
  show ?case
  proof (cases "routes_ok contents rs")
    case True
    with step [of st] snoc show ?thesis by (auto simp: efold_append ebind_Inr_iff)
  next
    case False
    then have "\<not> routes_ok contents (rs @ [r])" by (auto simp: routes_ok_def canonical_of_def)
    with False snoc show ?thesis by (auto simp: efold_append ebind_Inr_iff)
  qed
qed

section \<open>The content\<close>

definition in_group :: "string \<Rightarrow> content \<Rightarrow> bool" where
  "in_group slug c = (case payload c of NotePayload p \<Rightarrow> groupSlug p = slug | _ \<Rightarrow> False)"

definition item_ok ::
  "(int \<times> author) list \<Rightarrow> (int \<times> asset) list \<Rightarrow> (int \<times> tag) list \<Rightarrow> (int \<times> string) list
    \<Rightarrow> string set \<Rightarrow> content \<Rightarrow> bool" where
  "item_ok authors assets tags canonical slugs c \<longleftrightarrow>
     map_has authors (authorId c) \<and> map_has canonical (content_id c)
     \<and> (\<forall>a. coverAssetId c = Some a \<longrightarrow> map_has assets a)
     \<and> (\<forall>i \<in> set (tagIds c). map_has tags i)
     \<and> (\<forall>p. payload c = NotePayload p \<longrightarrow> groupSlug p \<in> slugs)"

definition add_note :: "content \<Rightarrow> (string \<times> group_page) list \<Rightarrow> (string \<times> group_page) list" where
  "add_note c m = map (\<lambda>(s, g). (s, g\<lparr>group_content :=
     group_content g @ (if in_group s c then [c] else [])\<rparr>)) m"

definition place :: "content \<Rightarrow> collections \<Rightarrow> collections" where
  "place c cs = cs\<lparr>byType := append_to (content_type c) c (byType cs),
     byAuthor := append_to (authorId c) c (byAuthor cs),
     byTag := fold (\<lambda>i. append_to i c) (tagIds c) (byTag cs),
     byGroup := add_note c (byGroup cs)\<rparr>"

definition slugs_are :: "string set \<Rightarrow> collections \<Rightarrow> bool" where
  "slugs_are slugs cs \<longleftrightarrow> distinct (map fst (byGroup cs)) \<and> fst ` set (byGroup cs) = slugs"

lemma update_distinct_keys:
  "distinct (map fst m) \<Longrightarrow> map_of m k = Some g \<Longrightarrow>
    AList.update k v m = map (\<lambda>(s, h). (s, if s = k then v else h)) m"
proof (induction m)
  case (Cons p m)
  obtain s h where p: "p = (s, h)" by (cases p)
  have "map (\<lambda>(s, h). (s, if s = k then v else h)) m = m" if "k \<notin> fst ` set m"
    using that by (intro map_idI) force
  with Cons p show ?case by (auto split: if_splits)
qed simp

lemma add_note_update:
  assumes "distinct (map fst m)" and "payload c = NotePayload p" and "map_of m (groupSlug p) = Some g"
  shows "AList.update (groupSlug p) (g\<lparr>group_content := group_content g @ [c]\<rparr>) m = add_note c m"
proof -
  have "h = g" if "(groupSlug p, h) \<in> set m" for h
    using that assms(1,3) by (simp add: map_of_is_SomeI)
  then show ?thesis using assms(2)
    by (auto simp: update_distinct_keys [OF assms(1,3)] add_note_def in_group_def)
qed

lemma add_note_other: "(\<And>p. payload c \<noteq> NotePayload p) \<Longrightarrow> add_note c m = m"
  by (induction m) (auto simp: add_note_def in_group_def split: payload.splits)

lemma keys_add_note [simp]: "map fst (add_note c m) = map fst m"
  by (auto simp: add_note_def)

lemma slugs_are_place [simp]: "slugs_are slugs (place c cs) \<longleftrightarrow> slugs_are slugs cs"
proof -
  have "fst ` set (add_note c m) = fst ` set m" for m
    by (metis keys_add_note list.set_map)
  then show ?thesis by (simp add: slugs_are_def place_def)
qed

lemma add_tags_Inr:
  "efold (add_tag tags c) ids cs = Inr cs' \<longleftrightarrow>
    (\<forall>i \<in> set ids. map_has tags i)
      \<and> cs' = cs\<lparr>byTag := fold (\<lambda>i. append_to i c) ids (byTag cs)\<rparr>"
  by (induction ids arbitrary: cs)
    (auto simp: ebind_Inr_iff add_tag_def required_def map_has_def split: option.splits)

lemma add_to_group_Inr:
  "slugs_are slugs cs \<Longrightarrow> add_to_group c cs = Inr cs' \<longleftrightarrow>
    (\<forall>p. payload c = NotePayload p \<longrightarrow> groupSlug p \<in> slugs)
      \<and> cs' = cs\<lparr>byGroup := add_note c (byGroup cs)\<rparr>"
proof (cases "payload c")
  case (NotePayload p)
  assume slugs: "slugs_are slugs cs"
  show ?thesis
  proof (cases "map_of (byGroup cs) (groupSlug p)")
    case None
    then have "groupSlug p \<notin> slugs"
      using slugs by (auto simp: slugs_are_def map_of_eq_None_iff)
    with None NotePayload show ?thesis by (simp add: add_to_group_def)
  next
    case (Some g)
    then have "groupSlug p \<in> slugs" using slugs by (force simp: slugs_are_def dest: map_of_SomeD)
    with Some NotePayload slugs show ?thesis
      by (auto simp: add_to_group_def slugs_are_def add_note_update)
  qed
qed (auto simp: add_to_group_def add_note_other)

lemma add_content_Inr:
  assumes "slugs_are slugs cs"
  shows "add_content authors assets tags canonical c cs = Inr cs' \<longleftrightarrow>
    item_ok authors assets tags canonical slugs c \<and> cs' = place c cs"
proof -
  have group: "add_to_group c (cs\<lparr>byType := a, byAuthor := b, byTag := d\<rparr>) = Inr cs' \<longleftrightarrow>
      (\<forall>p. payload c = NotePayload p \<longrightarrow> groupSlug p \<in> slugs)
        \<and> cs' = cs\<lparr>byType := a, byAuthor := b, byTag := d, byGroup := add_note c (byGroup cs)\<rparr>"
    for a b d
    using assms by (subst add_to_group_Inr) (simp_all add: slugs_are_def)
  show ?thesis
    by (auto simp: add_content_def item_ok_def place_def Let_def ebind_Inr_iff throw_when_Inr_iff
        required_def map_has_def add_tags_Inr group split: option.splits)
qed

lemma content_loop:
  assumes "slugs_are slugs cs"
  shows "efold (add_content authors assets tags canonical) items cs = Inr cs' \<longleftrightarrow>
    (\<forall>c \<in> set items. item_ok authors assets tags canonical slugs c) \<and> cs' = fold place items cs"
  by (rule efold_guarded [where I = "slugs_are slugs"])
    (simp_all add: assms add_content_Inr)

text \<open>The four collections are independent folds.\<close>

lemma fold_add_note:
  "fold add_note items m =
    map (\<lambda>(s, g). (s, g\<lparr>group_content := group_content g @ filter (in_group s) items\<rparr>)) m"
proof (induction items arbitrary: m)
  case (Cons c items)
  then show ?case by (auto simp: add_note_def)
qed (simp add: map_idI split_def)

lemma fold_place:
  "fold place items cs = cs\<lparr>
     byType := collect_by (\<lambda>c. [content_type c]) items (byType cs),
     byAuthor := collect_by (\<lambda>c. [authorId c]) items (byAuthor cs),
     byTag := collect_by tagIds items (byTag cs),
     byGroup := fold add_note items (byGroup cs)\<rparr>"
  unfolding collect_by_def by (induction items arbitrary: cs) (simp_all add: place_def)

section \<open>The groups\<close>

lemma sort_groups_Inr:
  "sort_groups gs = Inr gs' \<longleftrightarrow>
    (\<forall>(s, g) \<in> set gs. group_content g \<noteq> [])
    \<and> gs' = map (\<lambda>(s, g). (s, g\<lparr>group_content := js_sort (ordered gs) (group_content g)\<rparr>)) gs"
proof -
  have "sort_groups gs = emap (\<lambda>x. throw_when (group_content (snd x) = []) PublicReferenceMissing
      (Inr (fst x, (snd x)\<lparr>group_content := js_sort (ordered gs) (group_content (snd x))\<rparr>))) gs"
    by (simp add: sort_groups_def split_def)
  then show ?thesis by (simp only: emap_guarded) (simp add: split_def)
qed

section \<open>The topics\<close>

definition entries_ok :: "(int \<times> content) list \<Rightarrow> content \<Rightarrow> topic_entry list \<Rightarrow> bool" where
  "entries_ok contents item es \<longleftrightarrow>
     distinct (map entry_position es) \<and> distinct (map targetContentId es)
     \<and> (\<forall>e \<in> set es. targetContentId e \<noteq> content_id item
          \<and> (\<exists>c. map_of contents (targetContentId e) = Some c \<and> content_type c = CuratedArticle))"

definition resolve :: "(int \<times> content) list \<Rightarrow> topic_entry \<Rightarrow> topic_target" where
  "resolve contents e = \<lparr>target_position = entry_position e,
     target_content = the (map_of contents (targetContentId e))\<rparr>"

definition entries_result :: "(int \<times> content) list \<Rightarrow> topic_entry list \<Rightarrow> entry_state" where
  "entries_result contents es = \<lparr>positions = map entry_position es,
     targets = map targetContentId es, resolved = map (resolve contents) es\<rparr>"

lemma entries_loop:
  "efold (add_entry contents item) es \<lparr>positions = [], targets = [], resolved = []\<rparr> = Inr st
    \<longleftrightarrow> entries_ok contents item es \<and> st = entries_result contents es"
proof (induction es arbitrary: st rule: rev_induct)
  case Nil
  show ?case by (auto simp: entries_ok_def entries_result_def)
next
  case (snoc e es)
  have "add_entry contents item e (entries_result contents es) = Inr st \<longleftrightarrow>
      entries_ok contents item (es @ [e]) \<and> st = entries_result contents (es @ [e])"
    if "entries_ok contents item es" for st
    using that
    by (auto simp: add_entry_def entries_result_def entries_ok_def throw_when_Inr_iff ebind_Inr_iff
        required_Inr Let_def set_add_def resolve_def)
  moreover have "entries_ok contents item es" if "entries_ok contents item (es @ [e])"
    using that by (simp add: entries_ok_def)
  ultimately show ?case using snoc by (auto simp: efold_append ebind_Inr_iff)
qed

lemma entries_ok_sorted [simp]:
  "entries_ok contents item (js_sort by_position es) \<longleftrightarrow> entries_ok contents item es"
  by (simp add: entries_ok_def)

lemma topic_path_Inr:
  "topic_path contents item = Inr ts \<longleftrightarrow> entries_ok contents item (topicEntries item)
    \<and> ts = map (resolve contents) (js_sort by_position (topicEntries item))"
  by (auto simp: topic_path_def ebind_Inr_iff entries_loop entries_result_def)

definition topic_ok :: "(int \<times> content) list \<Rightarrow> content \<Rightarrow> bool" where
  "topic_ok contents item \<longleftrightarrow> (\<forall>p. payload item = TopicPayload p \<longrightarrow>
     0 \<le> recommendedCount p \<and> recommendedCount p \<le> int (length (topicEntries item))
     \<and> entries_ok contents item (topicEntries item))"

definition reading_path :: "(int \<times> content) list \<Rightarrow> content \<Rightarrow> topic_target list" where
  "reading_path contents item = map (resolve contents) (js_sort by_position (topicEntries item))"

definition put_topic ::
  "(int \<times> content) list \<Rightarrow> content \<Rightarrow> (int \<times> topic_target list) list \<Rightarrow> (int \<times> topic_target list) list"
where
  "put_topic contents item m =
     (if content_type item = Topic then AList.update (content_id item) (reading_path contents item) m
      else m)"

lemma add_topic_Inr:
  "add_topic contents item m = Inr m' \<longleftrightarrow> topic_ok contents item \<and> m' = put_topic contents item m"
  by (cases "payload item")
    (auto simp: add_topic_def topic_ok_def put_topic_def throw_when_Inr_iff ebind_Inr_iff
      topic_path_Inr reading_path_def)

lemma fold_put_topic:
  "fold (put_topic contents) items [] = map_of_pairs
    (map (\<lambda>c. (content_id c, reading_path contents c)) (filter (\<lambda>c. content_type c = Topic) items))"
  by (induction items rule: rev_induct) (simp_all add: put_topic_def map_of_pairs_snoc)

lemma topics_loop:
  assumes "distinct (map content_id items)"
  shows "efold (add_topic contents) items [] = Inr m \<longleftrightarrow>
    (\<forall>c \<in> set items. topic_ok contents c)
    \<and> m = map (\<lambda>c. (content_id c, reading_path contents c))
        (filter (\<lambda>c. content_type c = Topic) items)"
proof -
  have "distinct (map fst (map (\<lambda>c. (content_id c, reading_path contents c))
      (filter (\<lambda>c. content_type c = Topic) items)))"
    using assms by (simp add: comp_def distinct_map_filter)
  from map_of_pairs_distinct [OF this] show ?thesis
    using efold_guarded [where I = "\<lambda>_. True" and s = "[]" and f = "add_topic contents"
        and ok = "topic_ok contents" and g = "put_topic contents"]
    by (simp add: add_topic_Inr fold_put_topic)
qed

section \<open>The contract of createPublication\<close>

text \<open>The snapshots whose references, routes, groups and topics hang together.\<close>

definition routes_well_formed :: "normalized_snapshot \<Rightarrow> bool" where
  "routes_well_formed s \<longleftrightarrow>
     distinct (map route_path (snapshot_routes s))
     \<and> (\<forall>r \<in> set (snapshot_routes s). \<exists>c \<in> set (snapshot_content s). content_id c = route_contentId r
          \<and> (route_kind r = Canonical \<longrightarrow> canonicalPath c = route_path r))
     \<and> distinct (map route_contentId (canonical_of (snapshot_routes s)))"

definition content_well_formed :: "normalized_snapshot \<Rightarrow> content \<Rightarrow> bool" where
  "content_well_formed s c \<longleftrightarrow>
     authorId c \<in> author_id ` set (snapshot_authors s)
     \<and> (\<exists>r \<in> set (snapshot_routes s). route_kind r = Canonical \<and> route_contentId r = content_id c)
     \<and> (\<forall>a. coverAssetId c = Some a \<longrightarrow> a \<in> asset_id ` set (snapshot_assets s))
     \<and> set (tagIds c) \<subseteq> tag_id ` set (snapshot_tags s)
     \<and> (\<forall>p. payload c = NotePayload p \<longrightarrow> groupSlug p \<in> group_slug ` set (snapshot_groups s))"

definition topic_well_formed :: "normalized_snapshot \<Rightarrow> content \<Rightarrow> bool" where
  "topic_well_formed s c \<longleftrightarrow> (\<forall>p. payload c = TopicPayload p \<longrightarrow>
     0 \<le> recommendedCount p \<and> recommendedCount p \<le> int (length (topicEntries c))
     \<and> distinct (map entry_position (topicEntries c)) \<and> distinct (map targetContentId (topicEntries c))
     \<and> (\<forall>e \<in> set (topicEntries c). targetContentId e \<noteq> content_id c
          \<and> (\<exists>d \<in> set (snapshot_content s). content_id d = targetContentId e
               \<and> content_type d = CuratedArticle)))"

definition well_formed :: "normalized_snapshot \<Rightarrow> bool" where
  "well_formed s \<longleftrightarrow>
     distinct (map content_id (snapshot_content s))
     \<and> distinct (map author_id (snapshot_authors s))
     \<and> distinct (map asset_id (snapshot_assets s))
     \<and> distinct (map tag_id (snapshot_tags s))
     \<and> distinct (map author_slug (snapshot_authors s))
     \<and> distinct (map tag_slug (snapshot_tags s))
     \<and> distinct (map group_slug (snapshot_groups s))
     \<and> routes_well_formed s
     \<and> (\<forall>c \<in> set (snapshot_content s). content_well_formed s c)
     \<and> (\<forall>g \<in> set (snapshot_groups s). \<exists>c \<in> set (snapshot_content s). in_group (group_slug g) c)
     \<and> (\<forall>c \<in> set (snapshot_content s). topic_well_formed s c)"

text \<open>The index, stated without loops.\<close>

definition content_index :: "normalized_snapshot \<Rightarrow> (int \<times> content) list" where
  "content_index s = map (\<lambda>c. (content_id c, c)) (snapshot_content s)"

definition content_rows :: "normalized_snapshot \<Rightarrow> content list" where
  "content_rows s = js_sort featured_recent (snapshot_content s)"

definition page_of_group :: "note_group \<Rightarrow> content list \<Rightarrow> group_page" where
  "page_of_group g rows = note_group.extend g (group_page.fields rows)"

definition filled_groups :: "normalized_snapshot \<Rightarrow> (string \<times> group_page) list" where
  "filled_groups s = map (\<lambda>g. (group_slug g,
     page_of_group g (filter (in_group (group_slug g)) (content_rows s)))) (snapshot_groups s)"

definition sorted_groups :: "normalized_snapshot \<Rightarrow> (string \<times> group_page) list" where
  "sorted_groups s = map (\<lambda>g. (group_slug g,
     page_of_group g (js_sort (ordered (filled_groups s))
       (filter (in_group (group_slug g)) (content_rows s))))) (snapshot_groups s)"

definition type_rows :: "normalized_snapshot \<Rightarrow> content_type \<Rightarrow> content list" where
  "type_rows s t = js_sort (ordered (filled_groups s))
     (filter (\<lambda>c. content_type c = t) (content_rows s))"

definition publication_of :: "normalized_snapshot \<Rightarrow> publication" where
  "publication_of s = \<lparr>pub_snapshot = s,
     contentById = content_index s,
     authorById = map (\<lambda>a. (author_id a, a)) (snapshot_authors s),
     assetById = map (\<lambda>a. (asset_id a, a)) (snapshot_assets s),
     tagById = map (\<lambda>t. (tag_id t, t)) (snapshot_tags s),
     canonicalRoutes = map (\<lambda>r. (route_contentId r, route_path r)) (canonical_of (snapshot_routes s)),
     contentByType = map (\<lambda>t. (t, type_rows s t)) [Post, Note, CuratedArticle, Topic],
     contentByAuthor = collect_by (\<lambda>c. [authorId c]) (content_rows s) [],
     contentByTag = collect_by tagIds (content_rows s) [],
     topicTargets = map (\<lambda>c. (content_id c, reading_path (content_index s) c))
       (filter (\<lambda>c. content_type c = Topic) (snapshot_content s)),
     notesByGroup = sorted_groups s,
     pub_groups = js_sort group_page_order (map snd (sorted_groups s)),
     pub_authors = js_sort author_order (snapshot_authors s),
     pub_tags = js_sort tag_order (snapshot_tags s),
     pub_feed = js_sort recent (filter (\<lambda>c. content_type c = Note \<or> content_type c = CuratedArticle)
       (snapshot_content s))\<rparr>"

lemma page_of_group_simps [simp]:
  "group_slug (page_of_group g rows) = group_slug g"
  "group_order (page_of_group g rows) = group_order g"
  "group_name (page_of_group g rows) = group_name g"
  "group_content (page_of_group g rows) = rows"
  "(page_of_group g rows)\<lparr>group_content := rows'\<rparr> = page_of_group g rows'"
  "note_group.truncate (page_of_group g rows) = g"
  by (simp_all add: page_of_group_def note_group.defs group_page.defs)

lemma collect_types:
  "collect_by (\<lambda>c. [content_type c]) items (map (\<lambda>t. (t, f t)) [Post, Note, CuratedArticle, Topic]) =
    map (\<lambda>t. (t, f t @ filter (\<lambda>c. content_type c = t) items)) [Post, Note, CuratedArticle, Topic]"
proof (induction items arbitrary: f)
  case (Cons c items)
  have step: "append_to (content_type c) c (map (\<lambda>t. (t, f t)) [Post, Note, CuratedArticle, Topic]) =
      map (\<lambda>t. (t, f t @ (if content_type c = t then [c] else []))) [Post, Note, CuratedArticle, Topic]"
    by (cases "content_type c") (simp_all add: append_to_def)
  have rec: "collect_by (\<lambda>c. [content_type c]) (c # items) m =
      collect_by (\<lambda>c. [content_type c]) items (append_to (content_type c) c m)" for m
    by (simp add: collect_by_def)
  show ?case by (simp only: rec step Cons.IH) (cases "content_type c"; simp)
qed (simp add: collect_by_def)

lemma empty_groups:
  "distinct (map group_slug gs) \<Longrightarrow>
    byGroup (empty_collections gs) = map (\<lambda>g. (group_slug g, page_of_group g [])) gs"
  unfolding empty_collections_def page_of_group_def
  by (simp add: map_of_pairs_distinct comp_def)

lemma content_loop_result:
  assumes "distinct (map group_slug (snapshot_groups s))"
  shows "byType (fold place (content_rows s) (empty_collections (snapshot_groups s))) =
      map (\<lambda>t. (t, filter (\<lambda>c. content_type c = t) (content_rows s))) [Post, Note, CuratedArticle, Topic]"
    and "byGroup (fold place (content_rows s) (empty_collections (snapshot_groups s))) = filled_groups s"
    and "byAuthor (fold place (content_rows s) (empty_collections (snapshot_groups s))) =
      collect_by (\<lambda>c. [authorId c]) (content_rows s) []"
    and "byTag (fold place (content_rows s) (empty_collections (snapshot_groups s))) =
      collect_by tagIds (content_rows s) []"
proof -
  show "byType (fold place (content_rows s) (empty_collections (snapshot_groups s))) =
      map (\<lambda>t. (t, filter (\<lambda>c. content_type c = t) (content_rows s))) [Post, Note, CuratedArticle, Topic]"
    using collect_types [of "content_rows s" "\<lambda>_. []"] by (simp add: fold_place empty_collections_def)
  show "byGroup (fold place (content_rows s) (empty_collections (snapshot_groups s))) = filled_groups s"
    by (simp add: fold_place empty_groups [OF assms] fold_add_note filled_groups_def)
qed (simp_all add: fold_place empty_collections_def)

lemma filled_groups_content:
  "(\<forall>(slug, g) \<in> set (filled_groups s). group_content g \<noteq> []) \<longleftrightarrow>
    (\<forall>g \<in> set (snapshot_groups s). \<exists>c \<in> set (snapshot_content s). in_group (group_slug g) c)"
  by (auto simp: filled_groups_def content_rows_def filter_empty_conv)

lemma sorted_filled_groups:
  "map (\<lambda>(slug, g). (slug, g\<lparr>group_content := js_sort (ordered (filled_groups s)) (group_content g)\<rparr>))
    (filled_groups s) = sorted_groups s"
proof -
  have "map (\<lambda>(slug, g). (slug, g\<lparr>group_content := js_sort cmp (group_content g)\<rparr>)) (filled_groups s) =
      map (\<lambda>g. (group_slug g, page_of_group g (js_sort cmp
        (filter (in_group (group_slug g)) (content_rows s))))) (snapshot_groups s)" for cmp
    by (simp add: filled_groups_def)
  then show ?thesis by (simp only: sorted_groups_def)
qed

lemma entries_ok_iff:
  assumes "distinct (map content_id (snapshot_content s))"
  shows "topic_ok (content_index s) c \<longleftrightarrow> topic_well_formed s c"
  using map_of_index [OF assms]
  by (auto simp: topic_ok_def topic_well_formed_def entries_ok_def content_index_def) blast+

lemma routes_ok_iff:
  assumes "distinct (map content_id (snapshot_content s))"
  shows "routes_ok (content_index s) (snapshot_routes s) \<longleftrightarrow> routes_well_formed s"
  using map_of_index [OF assms]
  by (auto simp: routes_ok_def routes_well_formed_def content_index_def canonical_of_def map_has_def) blast+

lemma has_canonical:
  "map_has (canonicalRouteByContentId (route_result rs)) i \<longleftrightarrow>
    (\<exists>r \<in> set rs. route_kind r = Canonical \<and> route_contentId r = i)"
  by (force simp: map_has_iff route_result_def canonical_of_def)

lemma item_ok_iff:
  "item_ok (map (\<lambda>a. (author_id a, a)) (snapshot_authors s))
      (map (\<lambda>a. (asset_id a, a)) (snapshot_assets s)) (map (\<lambda>t. (tag_id t, t)) (snapshot_tags s))
      (canonicalRouteByContentId (route_result (snapshot_routes s)))
      (group_slug ` set (snapshot_groups s)) c
    \<longleftrightarrow> content_well_formed s c"
  by (simp add: item_ok_def content_well_formed_def has_index has_canonical subset_eq)

lemma slugs_of_empty:
  "distinct (map group_slug gs) \<Longrightarrow> slugs_are (group_slug ` set gs) (empty_collections gs)"
  by (auto simp: slugs_are_def empty_groups comp_def image_iff)

lemma index_publication_iff:
  "index_publication s = Inr p \<longleftrightarrow> well_formed s \<and> p = publication_of s"
proof (cases "distinct (map content_id (snapshot_content s))
    \<and> distinct (map group_slug (snapshot_groups s))")
  case True
  then have ids: "distinct (map content_id (snapshot_content s))"
    and slugs: "distinct (map group_slug (snapshot_groups s))" by auto
  have rows_ids: "\<And>i c. map_of (content_index s) i = Some c \<Longrightarrow> content_id c = i"
    using map_of_index [OF ids] by (simp add: content_index_def)
  note loops = index_by_Inr check_slugs_Inr content_loop [OF slugs_of_empty [OF slugs]] sort_groups_Inr topics_loop [OF ids]
  have "index_publication s = Inr p \<longleftrightarrow>
      distinct (map author_id (snapshot_authors s)) \<and> distinct (map asset_id (snapshot_assets s))
      \<and> distinct (map tag_id (snapshot_tags s)) \<and> distinct (map author_slug (snapshot_authors s))
      \<and> distinct (map tag_slug (snapshot_tags s)) \<and> routes_well_formed s
      \<and> (\<forall>c \<in> set (content_rows s). content_well_formed s c)
      \<and> (\<forall>(slug, g) \<in> set (filled_groups s). group_content g \<noteq> [])
      \<and> (\<forall>c \<in> set (snapshot_content s). topic_well_formed s c)
      \<and> p = publication_of s"
    unfolding index_publication_def ebind_Inr_iff loops
      content_index_def [symmetric] content_rows_def [symmetric]
    by (simp add: ids slugs sorted_filled_groups content_loop_result [OF slugs]
        routes_loop [OF rows_ids] entries_ok_iff [OF ids] routes_ok_iff [OF ids] item_ok_iff)
      (auto simp: publication_of_def route_result_def sort_types_def type_rows_def map_values_def)
  moreover have "set (content_rows s) = set (snapshot_content s)"
    by (simp add: content_rows_def)
  ultimately show ?thesis
    using ids slugs by (simp only: well_formed_def filled_groups_content) blast
next
  case False
  then show ?thesis
    by (auto simp: index_publication_def ebind_Inr_iff index_by_Inr check_slugs_Inr well_formed_def)
qed

end
