(* ===== verification/PublicationSample.thy ===== *)
theory PublicationSample
  imports PublicationFacts
begin

text \<open>
  A small snapshot with one item of each reading type, a redirect and a topic, on which the
  properties of the publication are instantiated.
\<close>

definition sample_author :: author where
  "sample_author = \<lparr>author_id = 1, author_slug = ''ann'', displayName = ''Ann'', bioMarkdown = '''',
     avatarUrl = '''', websiteUrl = ''''\<rparr>"

definition sample_tag :: tag where
  "sample_tag = \<lparr>tag_id = 4, tag_name = ''Go'', tag_slug = ''go'', tag_description = ''about go'',
     tag_nameEn = '''', tag_descriptionEn = ''''\<rparr>"

definition sample_group :: note_group where
  "sample_group = \<lparr>group_id = Some 9, group_slug = ''basics'', group_name = ''Basics'',
     group_description = '''', group_nameEn = '''', group_descriptionEn = '''', group_order = 1\<rparr>"

definition sample_content ::
  "int \<Rightarrow> string \<Rightarrow> string \<Rightarrow> int \<Rightarrow> int list \<Rightarrow> topic_entry list \<Rightarrow> payload \<Rightarrow> content" where
  "sample_content i path name ms tags entries p =
     \<lparr>editorialEn = None, content_id = i, revisionNo = 1, canonicalPath = path, content_title = name,
      content_slug = name, content_summary = name, bodyMarkdown = name, authorId = 1,
      content_language = ''en'', featured = False, seoTitle = '''', seoDescription = '''',
      coverAssetId = None, firstPublishedAt = ms, lastPublishedAt = ms, tagIds = tags,
      topicEntries = entries, payload = p\<rparr>"

definition sample_curated :: curated_payload where
  "sample_curated = \<lparr>sourceUrl = ''https://go.dev/'', originalUrl = '''', sourceAuthor = '''',
     sourceName = '''', sourcePublishedAt = ''2024-01-02'', sourceLanguage = ''en'', difficulty = '''',
     rating = ''A'', mustRead = False, relatedLinks = []\<rparr>"

definition sample_note :: content where
  "sample_note = sample_content 11 ''/notes/basics/first/'' ''first'' 100 [4] []
     (NotePayload \<lparr>groupSlug = ''basics'', note_order = 1\<rparr>)"

definition sample_article :: content where
  "sample_article = sample_content 12 ''/articles/memory/'' ''memory'' 200 [4] []
     (CuratedPayload sample_curated)"

definition sample_topic :: content where
  "sample_topic = sample_content 13 ''/topics/runtime/'' ''runtime'' 300 [4]
     [\<lparr>entry_position = 1, targetContentId = 12\<rparr>]
     (TopicPayload \<lparr>topic_order = 1, recommendedCount = 1\<rparr>)"

definition sample_fields :: snapshot_fields where
  "sample_fields = \<lparr>generation = 7, exportedAt = ''2024-02-03T04:05:06Z'',
     snapshot_authors = [sample_author], snapshot_assets = [],
     snapshot_routes =
       [\<lparr>route_path = ''/notes/basics/first/'', route_kind = Canonical, route_contentId = 11\<rparr>,
        \<lparr>route_path = ''/articles/memory/'', route_kind = Canonical, route_contentId = 12\<rparr>,
        \<lparr>route_path = ''/topics/runtime/'', route_kind = Canonical, route_contentId = 13\<rparr>,
        \<lparr>route_path = ''/old/memory/'', route_kind = Redirect, route_contentId = 12\<rparr>]\<rparr>"

definition sample_items :: "content list" where
  "sample_items = [sample_note, sample_article, sample_topic]"

definition sample_snapshot :: snapshot where
  "sample_snapshot = SnapshotV3 sample_fields [sample_tag] [sample_group] sample_items"

definition sample_normalized :: normalized_snapshot where
  "sample_normalized = normalized sample_fields 3 [sample_tag] [sample_group] sample_items"

lemmas sample_defs = sample_author_def sample_tag_def sample_group_def sample_content_def
  sample_curated_def sample_note_def sample_article_def sample_topic_def sample_fields_def
  sample_items_def sample_normalized_def

lemma sample_normalizes: "normalize_snapshot sample_snapshot = Inr sample_normalized"
  by (simp add: normalize_snapshot_def sample_snapshot_def sample_normalized_def)

lemma sample_well_formed: "well_formed sample_normalized"
  by (simp add: well_formed_def routes_well_formed_def content_well_formed_def topic_well_formed_def
      canonical_of_def in_group_def content_type_def sample_defs)

lemma sample_publication: "create_publication sample_snapshot = Inr (publication_of sample_normalized)"
  using sample_well_formed
  by (simp add: create_publication_def sample_normalizes index_publication_iff)

lemma sample_item_fields [simp]:
  "content_id sample_note = 11" "content_id sample_article = 12" "content_id sample_topic = 13"
  "authorId sample_note = 1" "authorId sample_article = 1" "authorId sample_topic = 1"
  "tagIds sample_note = [4]" "tagIds sample_article = [4]" "tagIds sample_topic = [4]"
  "content_type sample_note = Note" "content_type sample_article = CuratedArticle"
  "content_type sample_topic = Topic"
  "canonicalPath sample_note = ''/notes/basics/first/''"
  "canonicalPath sample_article = ''/articles/memory/''"
  "canonicalPath sample_topic = ''/topics/runtime/''"
  "lastPublishedAt sample_note = 100" "lastPublishedAt sample_article = 200"
  "lastPublishedAt sample_topic = 300"
  "featured sample_note = False" "featured sample_article = False" "featured sample_topic = False"
  by (simp_all add: sample_note_def sample_article_def sample_topic_def sample_content_def
      content_type_def)

lemma sample_normalized_fields [simp]:
  "snapshot_content sample_normalized = [sample_note, sample_article, sample_topic]"
  "snapshot_authors sample_normalized = [sample_author]"
  "snapshot_tags sample_normalized = [sample_tag]"
  "snapshot_groups sample_normalized = [sample_group]"
  "author_id sample_author = 1" "author_slug sample_author = ''ann''"
  "tag_id sample_tag = 4" "tag_slug sample_tag = ''go''" "group_slug sample_group = ''basics''"
  by (simp_all add: sample_normalized_def sample_items_def sample_fields_def sample_author_def
      sample_tag_def sample_group_def)

lemma sample_payloads:
  "payload sample_note = NotePayload \<lparr>groupSlug = ''basics'', note_order = 1\<rparr>"
  "payload sample_article = CuratedPayload sample_curated"
  "payload sample_topic = TopicPayload \<lparr>topic_order = 1, recommendedCount = 1\<rparr>"
  by (simp_all add: sample_note_def sample_article_def sample_topic_def sample_content_def)

lemma sample_rows: "content_rows sample_normalized = [sample_topic, sample_article, sample_note]"
  by (simp add: content_rows_def featured_recent_def recent_def js_or_def)

end
