(* ===== verification/PublicI18n.thy ===== *)
theory PublicI18n
  imports JsPrelude
begin

text \<open>
  \<open>apps/web/src/lib/i18n.ts\<close>: the two locales, the locale prefix of a path, and the chrome
  paths that exist in both locales. The display words and the \<open>Intl\<close> date format are text
  and are not modelled.
\<close>

datatype site_locale = Zh | En

definition locale_of :: "string \<Rightarrow> site_locale" where
  "locale_of path = (if prefix ''/en/'' path then En else Zh)"

text \<open>\<open>path.replace(/^\/en(?=\/|$)/, '') || '/'\<close>\<close>

definition without_locale :: "string \<Rightarrow> string" where
  "without_locale path =
     (let rest =
        (if prefix ''/en'' path \<and> (drop 3 path = [] \<or> hd (drop 3 path) = CHR ''/'')
         then drop 3 path else path)
      in if rest = [] then ''/'' else rest)"

definition localized :: "string \<Rightarrow> site_locale \<Rightarrow> string" where
  "localized path l = (case l of En \<Rightarrow> ''/en'' @ without_locale path | Zh \<Rightarrow> without_locale path)"

definition chrome_paths :: "string list" where
  "chrome_paths =
     [''/'', ''/articles/'', ''/topics/'', ''/notes/'', ''/about/'', ''/contribute/'',
      ''/legal/'', ''/stats/'', ''/search/'']"

definition alternate_chrome :: "string \<Rightarrow> site_locale \<Rightarrow> string" where
  "alternate_chrome path l = localized path l"

section \<open>Locale prefixes come and go without loss\<close>

text \<open>A path of the site that carries no locale prefix of its own.\<close>

definition neutral_path :: "string \<Rightarrow> bool" where
  "neutral_path path \<longleftrightarrow> prefix ''/'' path \<and> path \<noteq> ''/en'' \<and> \<not> prefix ''/en/'' path"

lemma without_locale_neutral [simp]:
  assumes "neutral_path path"
  shows "without_locale path = path"
proof (cases "prefix ''/en'' path")
  case True
  then obtain zs where zs: "path = CHR ''/'' # CHR ''e'' # CHR ''n'' # zs"
    by (auto simp: prefix_def)
  with assms show ?thesis by (cases zs) (auto simp: without_locale_def neutral_path_def)
next
  case False
  with assms show ?thesis by (auto simp: without_locale_def neutral_path_def)
qed

lemma without_locale_en [simp]:
  "prefix ''/'' path \<Longrightarrow> without_locale (CHR ''/'' # CHR ''e'' # CHR ''n'' # path) = path"
  by (auto simp: without_locale_def prefix_def)

lemma localized_simps:
  "localized path Zh = without_locale path"
  "localized path En = ''/en'' @ without_locale path"
  by (simp_all add: localized_def)

lemma locale_of_en [simp]:
  "prefix ''/'' path \<Longrightarrow> locale_of (CHR ''/'' # CHR ''e'' # CHR ''n'' # path) = En"
  by (auto simp: locale_of_def prefix_def)

lemma locale_of_neutral: "neutral_path path \<Longrightarrow> locale_of path = Zh"
  by (simp add: locale_of_def neutral_path_def)

lemma neutral_slash: "neutral_path path \<Longrightarrow> prefix ''/'' path"
  by (simp add: neutral_path_def)

lemma neutral_chrome: "path \<in> set chrome_paths \<Longrightarrow> neutral_path path"
  by (auto simp: chrome_paths_def neutral_path_def prefix_def)

text \<open>
  Locale switching is lossless: for every path without a locale prefix, the page of either
  locale is recognised as that locale, stripping the prefix returns the path, and switching to
  another locale from there lands on that locale's page of the same path.
\<close>

lemma localized_round_trip:
  assumes "neutral_path path"
  shows "locale_of (localized path l) = l
    \<and> without_locale (localized path l) = path
    \<and> alternate_chrome (localized path l) l' = localized path l'"
  using assms neutral_slash [OF assms]
  by (cases l; cases l')
    (simp_all add: localized_simps alternate_chrome_def locale_of_neutral)

end
