(* ===== verification/JsRegex.thy ===== *)
theory JsRegex
  imports JsPrelude
begin

text \<open>
  Regular expressions, so that each pattern of the source is a term of the same shape.
  \<open>rx_test r s\<close> is \<open>/^r$/.test(s)\<close>: membership of the whole string, decided by derivatives
  and proved to agree with the language \<open>rx_lang\<close>. The patterns modelled use classes,
  grouping, alternation, \<open>*\<close>, \<open>+\<close>, \<open>?\<close> and fixed repetition, and no back reference.
\<close>

datatype rx =
    Void
  | Emp
  | Cls "(char \<times> char) list"
  | Seq rx rx
  | Alt rx rx
  | Star rx

fun in_class :: "(char \<times> char) list \<Rightarrow> char \<Rightarrow> bool" where
  "in_class [] c = False"
| "in_class ((lo, hi) # rs) c = ((lo \<le> c \<and> c \<le> hi) \<or> in_class rs c)"

definition Lit :: "char \<Rightarrow> rx" where
  "Lit c = Cls [(c, c)]"

fun Word :: "string \<Rightarrow> rx" where
  "Word [] = Emp"
| "Word [c] = Lit c"
| "Word (c # cs) = Seq (Lit c) (Word cs)"

definition Plus :: "rx \<Rightarrow> rx" where
  "Plus r = Seq r (Star r)"

definition Opt :: "rx \<Rightarrow> rx" where
  "Opt r = Alt Emp r"

fun Times :: "nat \<Rightarrow> rx \<Rightarrow> rx" where
  "Times 0 r = Emp"
| "Times (Suc n) r = Seq r (Times n r)"

fun rx_nullable :: "rx \<Rightarrow> bool" where
  "rx_nullable Void = False"
| "rx_nullable Emp = True"
| "rx_nullable (Cls rs) = False"
| "rx_nullable (Seq r s) = (rx_nullable r \<and> rx_nullable s)"
| "rx_nullable (Alt r s) = (rx_nullable r \<or> rx_nullable s)"
| "rx_nullable (Star r) = True"

text \<open>Sequencing and alternation that drop the empty language keep derivatives small.\<close>

fun rx_seq :: "rx \<Rightarrow> rx \<Rightarrow> rx" where
  "rx_seq Void s = Void"
| "rx_seq Emp s = s"
| "rx_seq r s = Seq r s"

fun rx_alt :: "rx \<Rightarrow> rx \<Rightarrow> rx" where
  "rx_alt Void s = s"
| "rx_alt r Void = r"
| "rx_alt r s = (if r = s then r else Alt r s)"

fun rx_deriv :: "char \<Rightarrow> rx \<Rightarrow> rx" where
  "rx_deriv c Void = Void"
| "rx_deriv c Emp = Void"
| "rx_deriv c (Cls rs) = (if in_class rs c then Emp else Void)"
| "rx_deriv c (Seq r s) =
     (if rx_nullable r then rx_alt (rx_seq (rx_deriv c r) s) (rx_deriv c s)
      else rx_seq (rx_deriv c r) s)"
| "rx_deriv c (Alt r s) = rx_alt (rx_deriv c r) (rx_deriv c s)"
| "rx_deriv c (Star r) = rx_seq (rx_deriv c r) (Star r)"

fun rx_test :: "rx \<Rightarrow> string \<Rightarrow> bool" where
  "rx_test r [] = rx_nullable r"
| "rx_test r (c # cs) = rx_test (rx_deriv c r) cs"

section \<open>The language of an expression\<close>

inductive rx_lang :: "rx \<Rightarrow> string \<Rightarrow> bool" where
  eps: "rx_lang Emp []"
| cls: "in_class rs c \<Longrightarrow> rx_lang (Cls rs) [c]"
| seq: "rx_lang r u \<Longrightarrow> rx_lang s v \<Longrightarrow> rx_lang (Seq r s) (u @ v)"
| alt1: "rx_lang r u \<Longrightarrow> rx_lang (Alt r s) u"
| alt2: "rx_lang s u \<Longrightarrow> rx_lang (Alt r s) u"
| star0: "rx_lang (Star r) []"
| star1: "rx_lang r u \<Longrightarrow> rx_lang (Star r) v \<Longrightarrow> rx_lang (Star r) (u @ v)"

inductive_simps rx_lang_Void [simp]: "rx_lang Void s"
inductive_simps rx_lang_Emp [simp]: "rx_lang Emp s"
inductive_simps rx_lang_Cls: "rx_lang (Cls rs) s"
inductive_simps rx_lang_Seq: "rx_lang (Seq r s) u"
inductive_simps rx_lang_Alt: "rx_lang (Alt r s) u"
inductive_cases rx_lang_StarE: "rx_lang (Star r) u"

lemma rx_lang_Lit [simp]: "rx_lang (Lit c) s \<longleftrightarrow> s = [c]"
  by (auto simp: Lit_def rx_lang_Cls)

lemma rx_lang_Word: "rx_lang (Word w) s \<longleftrightarrow> s = w"
  by (induction w arbitrary: s rule: Word.induct) (auto simp: rx_lang_Seq)

lemma rx_lang_Opt: "rx_lang (Opt r) s \<longleftrightarrow> s = [] \<or> rx_lang r s"
  by (auto simp: Opt_def rx_lang_Alt)

lemma rx_nullable_lang: "rx_nullable r \<longleftrightarrow> rx_lang r []"
proof (induction r)
  case (Star r)
  then show ?case by (simp add: rx_lang.star0)
qed (auto simp: rx_lang_Cls rx_lang_Seq rx_lang_Alt)

lemma rx_lang_rx_seq [simp]: "rx_lang (rx_seq r s) u \<longleftrightarrow> rx_lang (Seq r s) u"
  by (cases r) (auto simp: rx_lang_Seq)

lemma rx_lang_rx_alt [simp]: "rx_lang (rx_alt r s) u \<longleftrightarrow> rx_lang (Alt r s) u"
  by (cases r; cases s) (auto simp: rx_lang_Alt)

lemma rx_lang_Star_Cons:
  "rx_lang (Star r) (c # cs) \<longleftrightarrow> (\<exists>u v. cs = u @ v \<and> rx_lang r (c # u) \<and> rx_lang (Star r) v)"
proof
  have "w = c # cs \<Longrightarrow> \<exists>u v. cs = u @ v \<and> rx_lang r (c # u) \<and> rx_lang (Star r) v"
    if "rx_lang (Star r) w" for w
    using that
  proof (induction "Star r" w rule: rx_lang.induct)
    case (star1 u v)
    then show ?case by (cases u) auto
  qed simp
  then show "rx_lang (Star r) (c # cs) \<Longrightarrow>
      \<exists>u v. cs = u @ v \<and> rx_lang r (c # u) \<and> rx_lang (Star r) v" by simp
next
  assume "\<exists>u v. cs = u @ v \<and> rx_lang r (c # u) \<and> rx_lang (Star r) v"
  then show "rx_lang (Star r) (c # cs)"
    using rx_lang.star1 [of r "c # _"] by fastforce
qed

lemma rx_deriv_lang: "rx_lang (rx_deriv c r) s \<longleftrightarrow> rx_lang r (c # s)"
proof (induction r arbitrary: s)
  case (Seq r1 r2)
  have "rx_lang (Seq r1 r2) (c # s) \<longleftrightarrow>
      (rx_lang r1 [] \<and> rx_lang r2 (c # s)) \<or> (\<exists>u v. s = u @ v \<and> rx_lang r1 (c # u) \<and> rx_lang r2 v)"
    by (auto simp: rx_lang_Seq Cons_eq_append_conv)
  with Seq show ?case by (auto simp: rx_nullable_lang rx_lang_Seq rx_lang_Alt)
next
  case (Star r)
  then show ?case by (auto simp: rx_lang_Star_Cons rx_lang_Seq)
qed (auto simp: rx_lang_Cls rx_lang_Alt)

text \<open>The executable test decides the language.\<close>

lemma rx_test_lang: "rx_test r s \<longleftrightarrow> rx_lang r s"
  by (induction s arbitrary: r) (simp_all add: rx_nullable_lang rx_deriv_lang)

lemma rx_lang_Star_append: "rx_lang (Star r) u \<Longrightarrow> rx_lang (Star r) v \<Longrightarrow> rx_lang (Star r) (u @ v)"
proof (induction "Star r" u rule: rx_lang.induct)
  case (star1 u w)
  then show ?case using rx_lang.star1 [of r u "w @ v"] by simp
qed simp

lemma rx_lang_Star_single: "rx_lang r u \<Longrightarrow> rx_lang (Star r) u"
  using rx_lang.star1 [OF _ rx_lang.star0, of r u] by simp

lemma rx_lang_Plus_Star: "rx_lang (Plus r) u \<Longrightarrow> rx_lang (Star r) u"
  by (auto simp: Plus_def rx_lang_Seq intro: rx_lang.star1)

text \<open>A property of the pieces of a repetition holds of the pieces of the whole.\<close>

lemma rx_lang_Star_induct [consumes 1, case_names empty step]:
  assumes "rx_lang (Star r) u" and "P []"
    and "\<And>u v. rx_lang r u \<Longrightarrow> rx_lang (Star r) v \<Longrightarrow> P v \<Longrightarrow> P (u @ v)"
  shows "P u"
  using assms by (induction "Star r" u rule: rx_lang.induct) auto

lemma rx_lang_Star_set:
  "rx_lang (Star r) u \<Longrightarrow> (\<And>w. rx_lang r w \<Longrightarrow> set w \<subseteq> A) \<Longrightarrow> set u \<subseteq> A"
  by (induction rule: rx_lang_Star_induct) auto

lemma rx_lang_Times_length:
  "rx_lang (Times n (Cls rs)) u \<longleftrightarrow> length u = n \<and> list_all (in_class rs) u"
proof (induction n arbitrary: u)
  case (Suc n)
  show ?case
  proof (cases u)
    case (Cons a w)
    have "rx_lang (Times (Suc n) (Cls rs)) u \<longleftrightarrow> in_class rs a \<and> rx_lang (Times n (Cls rs)) w"
      using Cons by (simp add: rx_deriv_lang [symmetric] rx_lang_Seq)
    with Cons Suc show ?thesis by auto
  qed (auto simp: rx_lang_Seq rx_lang_Cls)
qed auto

section \<open>The character classes and path pieces the source uses\<close>

definition digit_class :: "(char \<times> char) list" where
  "digit_class = [(CHR ''0'', CHR ''9'')]"

definition lower_alnum :: "(char \<times> char) list" where
  "lower_alnum = [(CHR ''a'', CHR ''z''), (CHR ''0'', CHR ''9'')]"

definition hex_class :: "(char \<times> char) list" where
  "hex_class = [(CHR ''a'', CHR ''f''), (CHR ''0'', CHR ''9'')]"

definition any_class :: "(char \<times> char) list" where
  "any_class = [(CHR 0x00, CHR 0xFF)]"

text \<open>\<open>[a-z0-9]+(?:-[a-z0-9]+)*\<close>, one segment of a public path.\<close>

definition slug_rx :: rx where
  "slug_rx = Seq (Plus (Cls lower_alnum)) (Star (Seq (Lit CHR ''-'') (Plus (Cls lower_alnum))))"

definition segment_rx :: rx where
  "segment_rx = Seq slug_rx (Lit CHR ''/'')"

lemma in_class_any [simp]: "in_class any_class c"
proof -
  have "(of_char c :: nat) < 256" by (rule nat_of_char_less_256)
  then have "(of_char c :: nat) \<le> 255" by linarith
  then show ?thesis by (simp add: any_class_def less_eq_char_def del: nat_of_char_less_256)
qed

end
