(* ===== verification/PublicRoutes.thy ===== *)
theory PublicRoutes
  imports PublicationSample PublicI18n JsRegex
begin

text \<open>
  \<open>apps/web/src/lib/publication/routes.ts\<close>: the pages of the site and the redirect file.
  The Chinese titles and descriptions of \<open>typeInfo\<close> and of the templates are display text,
  given to \<open>public_pages\<close> as \<open>page_texts\<close>; the paths and the English text are written out.
\<close>

section \<open>Pages\<close>

record page_texts =
  type_title :: "content_type \<Rightarrow> string"
  type_description :: "content_type \<Rightarrow> string"
  group_intro :: "string \<Rightarrow> string"
  author_intro :: "string \<Rightarrow> string"

record page_extra =
  page_author :: "author option"
  page_tag :: "tag option"
  page_group :: "group_page option"

definition no_extra :: page_extra where
  "no_extra = \<lparr>page_author = None, page_tag = None, page_group = None\<rparr>"

record collection_page = page_extra +
  coll_path :: string
  coll_title :: string
  coll_description :: string
  coll_content :: "content list"
  coll_page :: nat
  coll_total :: nat
  coll_previous :: "string option"
  coll_next :: "string option"

datatype public_page =
    CollectionPage collection_page
  | DetailPage string content

fun page_path :: "public_page \<Rightarrow> string" where
  "page_path (CollectionPage c) = coll_path c"
| "page_path (DetailPage path c) = path"

definition page_size :: nat where
  "page_size = 24"

definition page_at :: "string \<Rightarrow> nat \<Rightarrow> string" where
  "page_at path n = (if n = 1 then path else path @ ''page/'' @ js_decimal n @ ''/'')"

definition collection_pages ::
  "string \<Rightarrow> string \<Rightarrow> string \<Rightarrow> content list \<Rightarrow> page_extra \<Rightarrow> collection_page list" where
  "collection_pages path title description items extra =
     (let total = max 1 ((length items + page_size - 1) div page_size)
      in map (\<lambda>i. page_extra.extend extra (collection_page.fields
           (page_at path (i + 1)) title description
           (take page_size (drop (i * page_size) items))
           (i + 1) total
           (if i > 0 then Some (page_at path i) else None)
           (if i + 1 < total then Some (page_at path (i + 2)) else None)))
         [0..<total])"

definition type_path :: "content_type \<Rightarrow> string" where
  "type_path t = (case t of CuratedArticle \<Rightarrow> ''/articles/'' | Post \<Rightarrow> ''/posts/''
     | Note \<Rightarrow> ''/notes/'' | Topic \<Rightarrow> ''/topics/'')"

definition detail_pages :: "publication \<Rightarrow> public_page list" where
  "detail_pages p = map (\<lambda>c. DetailPage (canonicalPath c) c) (snapshot_content (pub_snapshot p))"

text \<open>
  \<open>map.get(key)!\<close> asserts an entry; where there is none the value is \<open>undefined\<close> and reading
  its length throws a \<open>TypeError\<close>.
\<close>

definition rows_of :: "('k \<times> content list) list \<Rightarrow> 'k \<Rightarrow> public_error + content list" where
  "rows_of m k = (case map_of m k of None \<Rightarrow> Inl TypeErrorThrown | Some rows \<Rightarrow> Inr rows)"

definition type_pages :: "page_texts \<Rightarrow> publication \<Rightarrow> content_type \<Rightarrow> public_error + public_page list" where
  "type_pages texts p t = ebind (rows_of (contentByType p) t) (\<lambda>rows. Inr
     (if t \<noteq> Post then
        [CollectionPage (page_extra.extend no_extra (collection_page.fields
           (type_path t) (type_title texts t) (type_description texts t) rows 1 1 None None))]
      else map CollectionPage (collection_pages (type_path t) (type_title texts t)
             (type_description texts t) rows no_extra)))"

definition group_pages :: "page_texts \<Rightarrow> group_page \<Rightarrow> public_page list" where
  "group_pages texts g = map CollectionPage (collection_pages
     (''/notes/'' @ group_slug g @ ''/'') (group_name g) (group_intro texts (group_name g))
     (group_content g) (no_extra\<lparr>page_group := Some g\<rparr>))"

definition author_pages :: "page_texts \<Rightarrow> publication \<Rightarrow> author \<Rightarrow> public_error + public_page list" where
  "author_pages texts p a = ebind (rows_of (contentByAuthor p) (author_id a)) (\<lambda>rows. Inr
     (map CollectionPage (collection_pages (''/authors/'' @ author_slug a @ ''/'') (displayName a)
        (author_intro texts (displayName a)) rows (no_extra\<lparr>page_author := Some a\<rparr>))))"

definition tag_pages :: "publication \<Rightarrow> tag \<Rightarrow> public_error + public_page list" where
  "tag_pages p t = ebind (rows_of (contentByTag p) (tag_id t)) (\<lambda>rows. Inr
     (map CollectionPage (collection_pages (''/tags/'' @ tag_slug t @ ''/'') (tag_name t)
        (tag_description t) rows (no_extra\<lparr>page_tag := Some t\<rparr>))))"

definition all_pages :: "page_texts \<Rightarrow> publication \<Rightarrow> public_error + public_page list" where
  "all_pages texts p =
     ebind (emap (type_pages texts p) [CuratedArticle, Post, Topic]) (\<lambda>types.
     ebind (emap (author_pages texts p) (pub_authors p)) (\<lambda>authors.
     ebind (emap (tag_pages p) (pub_tags p)) (\<lambda>tags.
     Inr (detail_pages p @ concat types @ concat (map (group_pages texts) (pub_groups p))
       @ concat authors @ concat tags))))"

definition reserved_paths :: "string list" where
  "reserved_paths = [''/'', ''/about/'', ''/contribute/'', ''/legal/'', ''/stats/'', ''/search/'',
     ''/notes/'', ''/tags/'', ''/authors/'', ''/404/'']
     @ map (\<lambda>path. ''/en'' @ path) chrome_paths"

definition reserve_alias :: "string \<Rightarrow> string list \<Rightarrow> public_error + string list" where
  "reserve_alias path reserved =
     (if path \<in> set chrome_paths then Inr reserved
      else reserve PublicPageConflict (''/en'' @ path) reserved)"

definition page_order :: "public_page \<Rightarrow> public_page \<Rightarrow> int" where
  "page_order a b = compare_text (page_path a) (page_path b)"

definition public_pages :: "page_texts \<Rightarrow> publication \<Rightarrow> public_error + public_page list" where
  "public_pages texts p =
     ebind (all_pages texts p) (\<lambda>pages.
     ebind (efold (\<lambda>page. reserve PublicPageConflict (page_path page)) pages reserved_paths) (\<lambda>reserved.
     ebind (efold reserve_alias (map page_path pages @ [''/tags/'', ''/authors/'']) reserved) (\<lambda>reserved.
     throw_when (list_ex (\<lambda>r. route_kind r = Redirect \<and> route_path r \<in> set reserved)
         (snapshot_routes (pub_snapshot p)))
       PublicPageConflict
       (Inr (js_sort page_order pages)))))"

section \<open>Redirects\<close>

definition static_redirect_limit :: nat where
  "static_redirect_limit = 2000"

definition bilingual_route :: "int \<Rightarrow> (int \<times> content) list \<Rightarrow> int \<Rightarrow> bool" where
  "bilingual_route version contents i = (version = 3 \<and> (case map_of contents i of
     None \<Rightarrow> False
   | Some c \<Rightarrow> content_type c = CuratedArticle \<or> content_type c = Topic))"

text \<open>\<open>/^\/(?:[a-z0-9]+(?:-[a-z0-9]+)*\/)+$/\<close>\<close>

definition safe_path_rx :: rx where
  "safe_path_rx = Seq (Lit CHR ''/'') (Plus segment_rx)"

definition redirect_line :: "string \<Rightarrow> string \<Rightarrow> string" where
  "redirect_line source target = source @ '' '' @ target @ '' 301''"

definition redirect_row ::
  "int \<Rightarrow> (int \<times> content) list \<Rightarrow> (string \<times> route) list \<Rightarrow> route \<Rightarrow> public_error + string" where
  "redirect_row version contents paths r =
     (case map_of contents (route_contentId r) of
        None \<Rightarrow> Inl PublicRedirectInvalid
      | Some c \<Rightarrow>
          let target = canonicalPath c in
          throw_when (target = '''' \<or> \<not> rx_test safe_path_rx (route_path r)
              \<or> \<not> rx_test safe_path_rx target \<or> route_path r = target
              \<or> (case map_of paths target of
                   None \<Rightarrow> True
                 | Some canonical \<Rightarrow> route_kind canonical \<noteq> Canonical
                     \<or> route_contentId canonical \<noteq> route_contentId r))
            PublicRedirectInvalid
            (let lines = redirect_line (route_path r) target
                   # (if bilingual_route version contents (route_contentId r)
                      then [redirect_line (''/en'' @ route_path r) (''/en'' @ target)] else [])
             in throw_when (list_ex (\<lambda>line. length line > 1000) lines) PublicRedirectLineLimit
                  (Inr (concat (map (\<lambda>line. line @ [CHR 0x0A]) lines)))))"

definition route_order :: "route \<Rightarrow> route \<Rightarrow> int" where
  "route_order a b = compare_text (route_path a) (route_path b)"

definition redirects :: "int \<Rightarrow> content list \<Rightarrow> route list \<Rightarrow> public_error + string" where
  "redirects version items routes =
     (let contents = map_of_pairs (map (\<lambda>c. (content_id c, c)) items);
          paths = map_of_pairs (map (\<lambda>r. (route_path r, r)) routes)
      in throw_when (length contents \<noteq> length items \<or> length paths \<noteq> length routes)
           PublicRedirectInvalid
         (let rows = filter (\<lambda>r. route_kind r = Redirect) routes
          in throw_when (foldl (\<lambda>count r. count
                 + (if bilingual_route version contents (route_contentId r) then 2 else 1)) 0 rows
               > static_redirect_limit) PublicRedirectLimit
             (ebind (emap (redirect_row version contents paths) (js_sort route_order rows))
               (\<lambda>texts. Inr (concat texts)))))"

end
