(* ===== verification/PublicationProps.thy ===== *)
theory PublicationProps
  imports PublicationSample
begin

text \<open>
  The properties of \<open>createPublication\<close>: when it succeeds and with what, that every reference of
  the result resolves, that canonical paths identify content, that the collections are complete
  and ordered independently of the order of the snapshot, and what a topic's reading path is.
\<close>

lemma create_publicationE:
  assumes "create_publication input = Inr p"
  obtains s where "normalize_snapshot input = Inr s" and "well_formed s" and "p = publication_of s"
  using assms by (auto simp: create_publication_def ebind_Inr_iff index_publication_iff)

lemma publication_of_simps [simp]:
  "pub_snapshot (publication_of s) = s"
  "contentById (publication_of s) = content_index s"
  "authorById (publication_of s) = map (\<lambda>a. (author_id a, a)) (snapshot_authors s)"
  "assetById (publication_of s) = map (\<lambda>a. (asset_id a, a)) (snapshot_assets s)"
  "tagById (publication_of s) = map (\<lambda>t. (tag_id t, t)) (snapshot_tags s)"
  "canonicalRoutes (publication_of s) =
    map (\<lambda>r. (route_contentId r, route_path r)) (canonical_of (snapshot_routes s))"
  "contentByType (publication_of s) = map (\<lambda>t. (t, type_rows s t)) [Post, Note, CuratedArticle, Topic]"
  "contentByAuthor (publication_of s) = collect_by (\<lambda>c. [authorId c]) (content_rows s) []"
  "contentByTag (publication_of s) = collect_by tagIds (content_rows s) []"
  "topicTargets (publication_of s) = map (\<lambda>c. (content_id c, reading_path (content_index s) c))
     (filter (\<lambda>c. content_type c = Topic) (snapshot_content s))"
  "notesByGroup (publication_of s) = sorted_groups s"
  "pub_groups (publication_of s) = js_sort group_page_order (map snd (sorted_groups s))"
  "pub_authors (publication_of s) = js_sort author_order (snapshot_authors s)"
  "pub_tags (publication_of s) = js_sort tag_order (snapshot_tags s)"
  "pub_feed (publication_of s) = js_sort recent
     (filter (\<lambda>c. content_type c = Note \<or> content_type c = CuratedArticle) (snapshot_content s))"
  by (simp_all only: publication_of_def publication.simps)

lemma well_formedD:
  assumes "well_formed s"
  shows "distinct (map content_id (snapshot_content s))"
    and "distinct (map author_id (snapshot_authors s))"
    and "distinct (map asset_id (snapshot_assets s))"
    and "distinct (map tag_id (snapshot_tags s))"
    and "distinct (map group_slug (snapshot_groups s))"
    and "distinct (map tag_slug (snapshot_tags s))"
    and "distinct (map author_slug (snapshot_authors s))"
    and "routes_well_formed s"
    and "c \<in> set (snapshot_content s) \<Longrightarrow> content_well_formed s c"
    and "c \<in> set (snapshot_content s) \<Longrightarrow> topic_well_formed s c"
  using assms by (simp_all add: well_formed_def)

text \<open>
  C1. \<open>createPublication\<close> is correct and total on its contract: it returns exactly on the inputs
  that normalise to a well-formed snapshot (unique ids and slugs, unique route paths, one
  canonical route per item that repeats the item's own path, every reference present, no empty
  group, valid topics), and then returns the declarative index of that snapshot.
\<close>

theorem create_publication_iff:
  "create_publication input = Inr p \<longleftrightarrow>
    (\<exists>s. normalize_snapshot input = Inr s \<and> well_formed s \<and> p = publication_of s)"
  by (auto simp: create_publication_def ebind_Inr_iff index_publication_iff)

section \<open>References\<close>

lemma canonical_lookup:
  assumes wf: "well_formed s" and c: "c \<in> set (snapshot_content s)"
  shows "map_of (map (\<lambda>r. (route_contentId r, route_path r)) (canonical_of (snapshot_routes s)))
    (content_id c) = Some (canonicalPath c)"
proof -
  note routes = well_formedD(8) [OF wf, unfolded routes_well_formed_def]
  obtain r where r: "r \<in> set (snapshot_routes s)" "route_kind r = Canonical"
      "route_contentId r = content_id c"
    using well_formedD(9) [OF wf c] by (auto simp: content_well_formed_def)
  then obtain d where "d \<in> set (snapshot_content s)" "content_id d = content_id c"
      "canonicalPath d = route_path r"
    using routes by fastforce
  moreover have "d = c" if "d \<in> set (snapshot_content s)" "content_id d = content_id c" for d
    using that c well_formedD(1) [OF wf] by (auto simp: distinct_map inj_on_def)
  ultimately have path: "canonicalPath c = route_path r" by auto
  have "distinct (map route_contentId (canonical_of (snapshot_routes s)))"
    and "r \<in> set (canonical_of (snapshot_routes s))"
    using routes r by (simp_all add: canonical_of_def)
  from map_of_keyed [OF this, of route_path] show ?thesis using r path by simp
qed

lemma map_of_index_ex:
  "distinct (map key xs) \<Longrightarrow> i \<in> key ` set xs \<Longrightarrow>
    \<exists>x \<in> set xs. key x = i \<and> map_of (map (\<lambda>x. (key x, x)) xs) i = Some x"
  using map_of_index [of key xs i] by fastforce

text \<open>
  C2. No page can meet a dangling reference: for every item of a created publication, the maps
  return the item itself under its id, its author, each of its tags, its cover when it has one,
  its own canonical path as the canonical route, and the group of a note with the note in it.
\<close>

theorem publication_references_resolve:
  assumes "create_publication input = Inr p" and "c \<in> set (snapshot_content (pub_snapshot p))"
  shows "map_of (contentById p) (content_id c) = Some c
    \<and> (\<exists>a. map_of (authorById p) (authorId c) = Some a \<and> author_id a = authorId c)
    \<and> (\<forall>i \<in> set (tagIds c). \<exists>t. map_of (tagById p) i = Some t \<and> tag_id t = i)
    \<and> (\<forall>i. coverAssetId c = Some i \<longrightarrow> (\<exists>a. map_of (assetById p) i = Some a \<and> asset_id a = i))
    \<and> map_of (canonicalRoutes p) (content_id c) = Some (canonicalPath c)
    \<and> (\<forall>n. payload c = NotePayload n \<longrightarrow>
         (\<exists>g. map_of (notesByGroup p) (groupSlug n) = Some g \<and> c \<in> set (group_content g)))"
proof -
  from assms(1) obtain s where wf: "well_formed s" and p: "p = publication_of s"
    by (rule create_publicationE)
  have c: "c \<in> set (snapshot_content s)" using assms(2) p by simp
  note ok = well_formedD(9) [OF wf c, unfolded content_well_formed_def]
  have group: "\<exists>g. map_of (sorted_groups s) (groupSlug n) = Some g \<and> c \<in> set (group_content g)"
    if n: "payload c = NotePayload n" for n
  proof -
    obtain g where g: "g \<in> set (snapshot_groups s)" "group_slug g = groupSlug n" using ok n by auto
    have "map_of (sorted_groups s) (groupSlug n) = Some (page_of_group g
        (js_sort (ordered (filled_groups s)) (filter (in_group (groupSlug n)) (content_rows s))))"
      unfolding sorted_groups_def g(2) [symmetric]
      by (rule map_of_keyed [OF well_formedD(5) [OF wf] g(1)])
    then show ?thesis using n c by (simp add: in_group_def content_rows_def)
  qed
  have self: "map_of (content_index s) (content_id c) = Some c"
    unfolding content_index_def by (rule map_of_keyed [OF well_formedD(1) [OF wf] c])
  have author: "\<exists>a. map_of (map (\<lambda>a. (author_id a, a)) (snapshot_authors s)) (authorId c) = Some a
      \<and> author_id a = authorId c"
    using ok map_of_index_ex [OF well_formedD(2) [OF wf]] by blast
  have cover: "\<exists>a. map_of (map (\<lambda>a. (asset_id a, a)) (snapshot_assets s)) i = Some a \<and> asset_id a = i"
    if "coverAssetId c = Some i" for i
    using that ok map_of_index_ex [OF well_formedD(3) [OF wf]] by blast
  have tag: "\<exists>t. map_of (map (\<lambda>t. (tag_id t, t)) (snapshot_tags s)) i = Some t \<and> tag_id t = i"
    if "i \<in> set (tagIds c)" for i
    using that ok map_of_index_ex [OF well_formedD(4) [OF wf]] by blast
  show ?thesis
    unfolding p publication_of_simps
    using self author cover tag group canonical_lookup [OF wf c] by blast
qed

theorem publication_references_resolve_witness:
  "map_of (authorById (publication_of sample_normalized)) 1 = Some sample_author
    \<and> map_of (canonicalRoutes (publication_of sample_normalized)) 11 = Some ''/notes/basics/first/''"
proof -
  have "sample_note \<in> set (snapshot_content (pub_snapshot (publication_of sample_normalized)))"
    by (simp add: sample_normalized_def sample_items_def)
  from publication_references_resolve [OF sample_publication this]
  show ?thesis by (simp add: sample_defs canonical_of_def)
qed

text \<open>
  C3. A canonical path identifies its item: in a created publication two items with the same
  canonical path are the same item, so no detail page can overwrite another.
\<close>

theorem canonical_paths_identify:
  assumes "create_publication input = Inr p"
    and "c \<in> set (snapshot_content (pub_snapshot p))" and "d \<in> set (snapshot_content (pub_snapshot p))"
    and "canonicalPath c = canonicalPath d"
  shows "c = d"
proof -
  from assms(1) obtain s where wf: "well_formed s" and p: "p = publication_of s"
    by (rule create_publicationE)
  let ?rs = "snapshot_routes s"
  have route: "\<exists>r \<in> set ?rs. route_contentId r = content_id x \<and> route_path r = canonicalPath x"
    if "x \<in> set (snapshot_content s)" for x
    using map_of_SomeD [OF canonical_lookup [OF wf that]] by (auto simp: canonical_of_def)
  have c: "c \<in> set (snapshot_content s)" and d: "d \<in> set (snapshot_content s)"
    using assms(2,3) p by simp_all
  obtain r where r: "r \<in> set ?rs" "route_contentId r = content_id c" "route_path r = canonicalPath c"
    using route [OF c] by blast
  obtain q where q: "q \<in> set ?rs" "route_contentId q = content_id d" "route_path q = canonicalPath d"
    using route [OF d] by blast
  have "inj_on route_path (set ?rs)"
    using well_formedD(8) [OF wf] by (simp add: routes_well_formed_def distinct_map)
  then have "r = q" by (rule inj_onD) (simp_all add: r q assms(4))
  then have "content_id c = content_id d" using r q by simp
  then show ?thesis using c d well_formedD(1) [OF wf] by (auto simp: distinct_map dest: inj_onD)
qed

theorem canonical_paths_identify_witness:
  "\<exists>!c. c \<in> set sample_items \<and> canonicalPath c = ''/articles/memory/''"
proof (rule ex1I [of _ sample_article])
  show "sample_article \<in> set sample_items \<and> canonicalPath sample_article = ''/articles/memory/''"
    by (simp add: sample_items_def sample_article_def sample_content_def)
  then show "c = sample_article" if "c \<in> set sample_items \<and> canonicalPath c = ''/articles/memory/''" for c
    using that canonical_paths_identify [OF sample_publication, of c sample_article]
    by (simp add: sample_normalized_def)
qed

section \<open>Collections\<close>

lemma ordered_cong_groups:
  "(\<And>slug. order_of_group gs slug = order_of_group gs' slug) \<Longrightarrow> ordered gs = ordered gs'"
  by (intro ext) (simp add: ordered_def split: payload.splits)

lemma order_of_pages:
  "order_of_group (map (\<lambda>g. (group_slug g, page_of_group g (f g))) gs) slug =
    order_of_group (map (\<lambda>g. (group_slug g, page_of_group g (h g))) gs) slug"
  unfolding order_of_group_def by (induction gs) simp_all

lemma ordered_sorted_groups: "ordered (sorted_groups s) = ordered (filled_groups s)"
  unfolding sorted_groups_def filled_groups_def by (rule ordered_cong_groups) (rule order_of_pages)

lemma sorted_type_rows: "sorted_by (ordered (filled_groups s)) (type_rows s t)"
  unfolding type_rows_def by (rule type_order.sorted_js_sort [where t = t]) auto

lemma mset_type_rows: "mset (type_rows s t) = mset (filter (\<lambda>c. content_type c = t) (snapshot_content s))"
  by (simp add: type_rows_def content_rows_def mset_filter)

lemma rows_of_author: "rows_at (collect_by (\<lambda>c. [authorId c]) xs []) i = filter (\<lambda>c. authorId c = i) xs"
  by (subst rows_at_collect_by, subst concat_replicate_filter) (simp_all add: eq_commute)

lemma rows_of_tag:
  "(\<And>c. c \<in> set xs \<Longrightarrow> distinct (tagIds c)) \<Longrightarrow>
    rows_at (collect_by tagIds xs []) i = filter (\<lambda>c. i \<in> set (tagIds c)) xs"
  by (simp add: rows_at_collect_by concat_replicate_filter)

lemma sorted_repeated:
  "sorted_by cmp xs \<Longrightarrow> (\<And>x. cmp x x = 0) \<Longrightarrow> sorted_by cmp (concat (map (\<lambda>x. replicate (n x) x) xs))"
proof (induction xs)
  case (Cons x xs)
  have "sorted_by cmp (replicate k x)" for k
    by (induction k) (simp_all add: Cons.prems(2))
  then show ?case using Cons by (auto simp: sorted_wrt_append)
qed simp

lemma mset_repeated:
  "mset (concat (map (\<lambda>x. replicate (n x) x) xs)) = (\<Sum>x\<in>#mset xs. replicate_mset (n x) x)"
  by (induction xs) simp_all

text \<open>
  C4. The collections are complete and ordered: the rows of a type are exactly the items of that type,
  sorted by that type's order (group order and position for notes, topic order for topics, featured
  then most recent otherwise); the rows of an author are exactly that author's items, and the rows of a
  tag hold every item as often as it names the tag, which for an item with distinct tag ids is once;
  both come featured and recent first; the feed holds every note and article, newest first.
\<close>

theorem collections_complete_and_sorted:
  assumes "create_publication input = Inr p"
  shows "(\<exists>rows. map_of (contentByType p) t = Some rows
        \<and> mset rows = mset (filter (\<lambda>c. content_type c = t) (snapshot_content (pub_snapshot p)))
        \<and> sorted_by (ordered (notesByGroup p)) rows)
    \<and> mset (rows_at (contentByAuthor p) a)
        = mset (filter (\<lambda>c. authorId c = a) (snapshot_content (pub_snapshot p)))
    \<and> sorted_by featured_recent (rows_at (contentByAuthor p) a)
    \<and> mset (rows_at (contentByTag p) i)
        = (\<Sum>c\<in>#mset (snapshot_content (pub_snapshot p)). replicate_mset (count_list (tagIds c) i) c)
    \<and> set (rows_at (contentByTag p) i) = {c \<in> set (snapshot_content (pub_snapshot p)). i \<in> set (tagIds c)}
    \<and> sorted_by featured_recent (rows_at (contentByTag p) i)
    \<and> ((\<forall>c \<in> set (snapshot_content (pub_snapshot p)). distinct (tagIds c)) \<longrightarrow>
        mset (rows_at (contentByTag p) i)
          = mset (filter (\<lambda>c. i \<in> set (tagIds c)) (snapshot_content (pub_snapshot p))))
    \<and> mset (pub_feed p) = mset (filter (\<lambda>c. content_type c \<in> {Note, CuratedArticle})
        (snapshot_content (pub_snapshot p)))
    \<and> sorted_by recent (pub_feed p)"
proof -
  from assms obtain s where p: "p = publication_of s" by (rule create_publicationE)
  have "map_of (map (\<lambda>t. (t, type_rows s t)) [Post, Note, CuratedArticle, Topic]) t = Some (type_rows s t)"
    by (cases t) simp_all
  moreover have sorted: "sorted_by featured_recent (content_rows s)"
    unfolding content_rows_def by (rule featured_order.sorted_js_sort) simp
  then have "sorted_by featured_recent (filter (\<lambda>c. authorId c = a) (content_rows s))"
    by (rule sorted_wrt_filter)
  moreover have "mset (filter (\<lambda>c. authorId c = a) (content_rows s))
      = mset (filter (\<lambda>c. authorId c = a) (snapshot_content s))"
    by (simp add: content_rows_def mset_filter)
  moreover have "set (rows_at (collect_by tagIds (content_rows s) []) i) =
      {c \<in> set (snapshot_content s). i \<in> set (tagIds c)}"
    by (auto simp: rows_at_collect_by content_rows_def count_list_0_iff)
  moreover have "mset (rows_at (collect_by tagIds (content_rows s) []) i) =
      (\<Sum>c\<in>#mset (snapshot_content s). replicate_mset (count_list (tagIds c) i) c)"
    by (simp add: rows_at_collect_by mset_repeated content_rows_def)
  moreover have "sorted_by featured_recent (rows_at (collect_by tagIds (content_rows s) []) i)"
    using sorted_repeated [OF sorted] by (simp add: rows_at_collect_by featured_order.refl)
  moreover have "mset (rows_at (collect_by tagIds (content_rows s) []) i) =
      mset (filter (\<lambda>c. i \<in> set (tagIds c)) (snapshot_content s))"
    if "\<forall>c \<in> set (snapshot_content s). distinct (tagIds c)"
    using that rows_of_tag [of "content_rows s" i] by (simp add: content_rows_def mset_filter)
  moreover have "sorted_by recent (js_sort recent (filter (\<lambda>c. content_type c = Note
      \<or> content_type c = CuratedArticle) (snapshot_content s)))"
    by (rule recent_order.sorted_js_sort) simp
  ultimately show ?thesis
    unfolding p publication_of_simps ordered_sorted_groups rows_of_author
    using sorted_type_rows mset_type_rows by (simp add: mset_filter)
qed

theorem collections_complete_and_sorted_witness:
  "\<exists>rows. map_of (contentByType (publication_of sample_normalized)) Note = Some rows
    \<and> mset rows = {#sample_note#}"
  using collections_complete_and_sorted [OF sample_publication, of Note]
  by (auto simp: sample_normalized_def sample_items_def content_type_def sample_note_def
      sample_article_def sample_topic_def sample_content_def)

section \<open>Topics\<close>

lemma resolve_entries:
  assumes ids: "distinct (map content_id (snapshot_content s))" and e: "e \<in> set es"
    and ok: "\<forall>e \<in> set es. \<exists>d \<in> set (snapshot_content s). content_id d = targetContentId e
      \<and> content_type d = CuratedArticle"
  shows "target_content (resolve (content_index s) e) \<in> set (snapshot_content s)
    \<and> content_type (target_content (resolve (content_index s) e)) = CuratedArticle
    \<and> content_id (target_content (resolve (content_index s) e)) = targetContentId e"
proof -
  obtain d where d: "d \<in> set (snapshot_content s)" "content_id d = targetContentId e"
      "content_type d = CuratedArticle"
    using ok e by blast
  have "map_of (content_index s) (targetContentId e) = Some d"
    using d map_of_index [OF ids] by (simp add: content_index_def)
  with d show ?thesis by (simp add: resolve_def)
qed

text \<open>
  C8. A topic's reading path is its entry list in strictly increasing position, with every
  target resolved to a published article of the snapshot other than the topic, no target twice,
  and at least as many steps as the topic recommends.
\<close>

theorem topic_reading_path:
  assumes "create_publication input = Inr p" and "c \<in> set (snapshot_content (pub_snapshot p))"
    and "payload c = TopicPayload t"
  shows "\<exists>ts. map_of (topicTargets p) (content_id c) = Some ts
    \<and> sorted_wrt (<) (map target_position ts)
    \<and> mset (map (\<lambda>x. (target_position x, content_id (target_content x))) ts)
        = mset (map (\<lambda>e. (entry_position e, targetContentId e)) (topicEntries c))
    \<and> distinct (map (\<lambda>x. content_id (target_content x)) ts)
    \<and> set (map target_content ts)
        \<subseteq> {d \<in> set (snapshot_content (pub_snapshot p)). content_type d = CuratedArticle} - {c}
    \<and> 0 \<le> recommendedCount t \<and> recommendedCount t \<le> int (length ts)"
proof -
  from assms(1) obtain s where wf: "well_formed s" and p: "p = publication_of s"
    by (rule create_publicationE)
  have c: "c \<in> set (snapshot_content s)" using assms(2) p by simp
  let ?es = "js_sort by_position (topicEntries c)"
  let ?ts = "reading_path (content_index s) c"
  have topic: "0 \<le> recommendedCount t" "recommendedCount t \<le> int (length (topicEntries c))"
      "distinct (map entry_position ?es)" "distinct (map targetContentId ?es)"
      "\<forall>e \<in> set ?es. targetContentId e \<noteq> content_id c"
      "\<forall>e \<in> set ?es. \<exists>d \<in> set (snapshot_content s). content_id d = targetContentId e
        \<and> content_type d = CuratedArticle"
    using well_formedD(10) [OF wf c] assms(3) by (simp_all add: topic_well_formed_def)
  note target = resolve_entries [OF well_formedD(1) [OF wf] _ topic(6)]
  have "map_of (topicTargets p) (content_id c) = Some ?ts"
    unfolding p publication_of_simps
    by (rule map_of_keyed) (use well_formedD(1) [OF wf] c assms(3) in
        \<open>simp_all add: distinct_map_filter content_type_def\<close>)
  moreover have "sorted_wrt (<) (map target_position ?ts)"
  proof -
    have "sorted_by by_position ?es" by (rule position_order.sorted_js_sort) simp
    then have "sorted (map entry_position ?es)" by (simp add: by_position_def sorted_wrt_map)
    with topic(3) have "sorted_wrt (<) (map entry_position ?es)"
      by (simp add: strict_sorted_iff)
    then show ?thesis by (simp add: reading_path_def comp_def resolve_def)
  qed
  moreover have "map (\<lambda>x. (target_position x, content_id (target_content x))) ?ts =
      map (\<lambda>e. (entry_position e, targetContentId e)) ?es"
    using target by (simp add: reading_path_def) (simp add: resolve_def)
  then have "mset (map (\<lambda>x. (target_position x, content_id (target_content x))) ?ts) =
      mset (map (\<lambda>e. (entry_position e, targetContentId e)) (topicEntries c))"
    by simp
  moreover have "map (\<lambda>x. content_id (target_content x)) ?ts = map targetContentId ?es"
    using target by (simp add: reading_path_def)
  then have "distinct (map (\<lambda>x. content_id (target_content x)) ?ts)" using topic(4) by simp
  moreover have "set (map target_content ?ts)
      \<subseteq> {d \<in> set (snapshot_content s). content_type d = CuratedArticle} - {c}"
    using target topic(5) by (fastforce simp: reading_path_def)
  moreover have "length ?ts = length (topicEntries c)" by (simp add: reading_path_def)
  ultimately show ?thesis using topic(1,2) p by auto
qed

theorem topic_reading_path_witness:
  "\<exists>ts. map_of (topicTargets (publication_of sample_normalized)) 13 = Some ts
    \<and> map (\<lambda>x. content_id (target_content x)) ts = [12]"
proof -
  have topic: "sample_topic \<in> set (snapshot_content (pub_snapshot (publication_of sample_normalized)))"
    by (simp add: sample_normalized_def sample_items_def)
  have "payload sample_topic = TopicPayload \<lparr>topic_order = 1, recommendedCount = 1\<rparr>"
    by (simp add: sample_topic_def sample_content_def)
  from topic_reading_path [OF sample_publication topic this]
  obtain ts where ts: "map_of (topicTargets (publication_of sample_normalized)) (content_id sample_topic) = Some ts"
      "mset (map (\<lambda>x. (target_position x, content_id (target_content x))) ts) =
        mset (map (\<lambda>e. (entry_position e, targetContentId e)) (topicEntries sample_topic))"
    by blast
  have ids: "content_id sample_topic = 13" "map (\<lambda>e. (entry_position e, targetContentId e)) (topicEntries sample_topic) = [(1, 12)]"
    by (simp_all add: sample_topic_def sample_content_def)
  have "map (\<lambda>x. (target_position x, content_id (target_content x))) ts = [(1, 12)]"
    using ts(2) unfolding ids mset.simps add_mset_add_single [symmetric] mset_single_iff .
  then have "map (\<lambda>x. content_id (target_content x)) ts = [12]" by auto
  with ts(1) ids(1) show ?thesis by auto
qed

section \<open>The order of the snapshot does not matter\<close>

lemma well_formed_perm:
  assumes "mset items = mset (snapshot_content s)"
  shows "well_formed (s\<lparr>snapshot_content := items\<rparr>) = well_formed s"
proof -
  have sets: "set items = set (snapshot_content s)" using assms by (metis set_mset_mset)
  have dist: "distinct (map content_id items) = distinct (map content_id (snapshot_content s))"
    using assms by (metis mset_map mset_eq_imp_distinct_iff)
  show ?thesis
    by (simp add: well_formed_def routes_well_formed_def content_well_formed_def
        topic_well_formed_def sets dist)
qed

text \<open>
  C9. The exporter may list the content in any order: a permuted snapshot yields a publication
  too, with the same collections, groups and feed.
\<close>

theorem content_order_irrelevant:
  assumes "index_publication s = Inr p" and "mset items = mset (snapshot_content s)"
  shows "\<exists>q. index_publication (s\<lparr>snapshot_content := items\<rparr>) = Inr q
    \<and> contentByType q = contentByType p \<and> contentByAuthor q = contentByAuthor p
    \<and> contentByTag q = contentByTag p \<and> notesByGroup q = notesByGroup p
    \<and> pub_groups q = pub_groups p \<and> pub_feed q = pub_feed p"
proof -
  let ?s = "s\<lparr>snapshot_content := items\<rparr>"
  from assms(1) have wf: "well_formed s" and p: "p = publication_of s"
    by (simp_all add: index_publication_iff)
  have sets: "set items = set (snapshot_content s)" using assms(2) by (metis set_mset_mset)
  have inj: "inj_on content_id (set (snapshot_content s))"
    using well_formedD(1) [OF wf] by (simp add: distinct_map)
  have rows: "content_rows ?s = content_rows s"
    unfolding content_rows_def by (rule featured_order.js_sort_unique) (simp_all add: assms(2) sets inj)
  have filled: "filled_groups ?s = filled_groups s" by (simp add: filled_groups_def rows)
  have feed: "js_sort recent (filter P items) = js_sort recent (filter P (snapshot_content s))" for P
    by (rule recent_order.js_sort_unique)
      (use inj in \<open>auto simp: sets assms(2) mset_filter intro: inj_on_subset\<close>)
  have "index_publication ?s = Inr (publication_of ?s)"
    using wf well_formed_perm [OF assms(2)] by (simp add: index_publication_iff)
  moreover have "type_rows ?s = type_rows s" and "sorted_groups ?s = sorted_groups s"
    by (intro ext, simp add: type_rows_def rows filled) (simp add: sorted_groups_def rows filled)
  ultimately show ?thesis
    unfolding p by (intro exI [of _ "publication_of ?s"]) (simp add: rows feed)
qed

theorem content_order_irrelevant_witness:
  "\<exists>q. index_publication (sample_normalized\<lparr>snapshot_content :=
      [sample_topic, sample_article, sample_note]\<rparr>) = Inr q
    \<and> pub_feed q = pub_feed (publication_of sample_normalized)"
proof -
  have "index_publication sample_normalized = Inr (publication_of sample_normalized)"
    by (simp add: index_publication_iff sample_well_formed)
  moreover have "mset [sample_topic, sample_article, sample_note] = mset (snapshot_content sample_normalized)"
    by (simp add: sample_normalized_def sample_items_def)
  ultimately show ?thesis by (blast dest: content_order_irrelevant)
qed

end
