(* ===== verification/PublicRoutesProps.thy ===== *)
theory PublicRoutesProps
  imports PublicRoutes PublicationProps
begin

text \<open>
  The properties of the pages and of the redirect file: pagination loses nothing and links its
  pages, the pages of a site have distinct paths in both locales, generation fails on exactly
  the conflicts it names, and the redirect file is a one-step map into canonical pages.
\<close>

section \<open>Pagination\<close>

lemma concat_slices:
  "concat (map (\<lambda>i. take n (drop (i * n) xs)) [0..<k]) = take (k * n) xs"
proof (induction k)
  case (Suc k)
  have "take (k * n) xs @ take n (drop (k * n) xs) = take (k * n + n) xs"
    by (rule take_add [symmetric])
  with Suc show ?case by (simp add: add.commute)
qed simp

definition page_total :: "content list \<Rightarrow> nat" where
  "page_total items = max 1 ((length items + page_size - 1) div page_size)"

lemma page_total_pos [simp]: "0 < page_total items"
  by (simp add: page_total_def)

lemma page_total_covers: "length items \<le> page_total items * page_size"
proof -
  have "length items \<le> ((length items + 23) div 24) * 24" by presburger
  then show ?thesis by (auto simp: page_total_def page_size_def)
qed

lemma collection_pages_eq:
  "collection_pages path title description items extra =
     map (\<lambda>i. page_extra.extend extra (collection_page.fields
           (page_at path (i + 1)) title description
           (take page_size (drop (i * page_size) items)) (i + 1) (page_total items)
           (if i > 0 then Some (page_at path i) else None)
           (if i + 1 < page_total items then Some (page_at path (i + 2)) else None)))
         [0..<page_total items]"
  by (simp add: collection_pages_def page_total_def Let_def)

lemma collection_fields [simp]:
  "coll_path (page_extra.extend e (collection_page.fields a b c d f g h i)) = a"
  "coll_content (page_extra.extend e (collection_page.fields a b c d f g h i)) = d"
  "coll_page (page_extra.extend e (collection_page.fields a b c d f g h i)) = f"
  "coll_total (page_extra.extend e (collection_page.fields a b c d f g h i)) = g"
  "coll_previous (page_extra.extend e (collection_page.fields a b c d f g h i)) = h"
  "coll_next (page_extra.extend e (collection_page.fields a b c d f g h i)) = i"
  "page_author (page_extra.extend e (collection_page.fields a b c d f g h i)) = page_author e"
  "page_tag (page_extra.extend e (collection_page.fields a b c d f g h i)) = page_tag e"
  "page_group (page_extra.extend e (collection_page.fields a b c d f g h i)) = page_group e"
  by (simp_all add: page_extra.defs collection_page.defs)

lemma page_at_inject [simp]: "page_at path i = page_at path j \<longleftrightarrow> i = j"
  by (auto simp: page_at_def)

lemma collection_paths:
  "map coll_path (collection_pages path title description items extra) =
    map (\<lambda>i. page_at path (i + 1)) [0..<page_total items]"
  by (simp add: collection_pages_eq)

lemma pages_next:
  "0 < k \<Longrightarrow> map (\<lambda>i. if i + 1 < k then Some (f (i + 2)) else None) [0..<k] =
    map Some (tl (map (\<lambda>i. f (i + 1)) [0..<k])) @ [None]"
  by (rule nth_equalityI) (auto simp: nth_append nth_tl)

lemma pages_previous:
  "0 < k \<Longrightarrow> map (\<lambda>i. if i > 0 then Some (f i) else None) [0..<k] =
    None # map Some (butlast (map (\<lambda>i. f (i + 1)) [0..<k]))"
  by (rule nth_equalityI) (auto simp: nth_Cons nth_butlast split: nat.splits)

text \<open>
  C7. Pagination loses, repeats and reorders nothing: the pages' items in page order are the
  collection, no page has more than 24, all paths differ and the first is the collection's own;
  every page links the path of the page before it and of the page after it, and the ends link
  nothing.
\<close>

theorem collection_pages_partition:
  "concat (map coll_content (collection_pages path title description items extra)) = items
    \<and> list_all (\<lambda>c. length (coll_content c) \<le> page_size)
        (collection_pages path title description items extra)
    \<and> distinct (map coll_path (collection_pages path title description items extra))
    \<and> hd (map coll_path (collection_pages path title description items extra)) = path
    \<and> map coll_next (collection_pages path title description items extra) =
        map Some (tl (map coll_path (collection_pages path title description items extra))) @ [None]
    \<and> map coll_previous (collection_pages path title description items extra) =
        None # map Some (butlast (map coll_path (collection_pages path title description items extra)))"
proof -
  have "concat (map coll_content (collection_pages path title description items extra)) = items"
    using page_total_covers [of items] by (simp add: collection_pages_eq comp_def concat_slices)
  moreover have "distinct (map coll_path (collection_pages path title description items extra))"
    by (simp add: collection_paths distinct_map inj_on_def)
  moreover have "hd (map coll_path (collection_pages path title description items extra)) = path"
    by (simp add: collection_paths hd_map upt_conv_Cons page_at_def)
  moreover have "list_all (\<lambda>c. length (coll_content c) \<le> page_size)
      (collection_pages path title description items extra)"
    by (simp add: collection_pages_eq list_all_iff)
  moreover have "map coll_next (collection_pages path title description items extra) =
      map (\<lambda>i. if i + 1 < page_total items then Some (page_at path (i + 2)) else None) [0..<page_total items]"
    "map coll_previous (collection_pages path title description items extra) =
      map (\<lambda>i. if i > 0 then Some (page_at path i) else None) [0..<page_total items]"
    by (simp_all add: collection_pages_eq)
  ultimately show ?thesis
    by (simp only: collection_paths pages_next pages_previous page_total_pos simp_thms)
qed

section \<open>The pages of the site\<close>

definition alias_paths :: "public_page list \<Rightarrow> string list" where
  "alias_paths pages = map (\<lambda>path. ''/en'' @ path)
     (filter (\<lambda>path. path \<notin> set chrome_paths) (map page_path pages @ [''/tags/'', ''/authors/'']))"

lemma alias_loop:
  "efold reserve_alias paths =
    efold (reserve PublicPageConflict)
      (map (\<lambda>path. ''/en'' @ path) (filter (\<lambda>path. path \<notin> set chrome_paths) paths))"
proof (induction paths)
  case (Cons path paths)
  show ?case by (rule ext, simp only: efold.simps Cons.IH) (simp add: reserve_alias_def)
qed (rule ext, simp)

lemma public_pages_iff:
  "public_pages texts p = Inr pages \<longleftrightarrow> (\<exists>ps. all_pages texts p = Inr ps
    \<and> distinct (map page_path ps @ alias_paths ps)
    \<and> set (map page_path ps @ alias_paths ps) \<inter> set reserved_paths = {}
    \<and> route_path ` {r \<in> set (snapshot_routes (pub_snapshot p)). route_kind r = Redirect}
        \<inter> set (reserved_paths @ map page_path ps @ alias_paths ps) = {}
    \<and> pages = js_sort page_order ps)"
proof -
  have redirect: "list_ex (\<lambda>r. route_kind r = Redirect \<and> route_path r \<in> A) rs \<longleftrightarrow>
      route_path ` {r \<in> set rs. route_kind r = Redirect} \<inter> A \<noteq> {}" for rs A
    by (auto simp: list_ex_iff)
  have loop: "efold (\<lambda>page. reserve PublicPageConflict (page_path page)) ps taken =
      efold (reserve PublicPageConflict) (map page_path ps) taken" for ps taken
    by (simp add: efold_map)
  have "public_pages texts p = Inr pages \<longleftrightarrow> (\<exists>ps. all_pages texts p = Inr ps
      \<and> (distinct (map page_path ps) \<and> set (map page_path ps) \<inter> set reserved_paths = {})
      \<and> (distinct (alias_paths ps)
          \<and> set (alias_paths ps) \<inter> set (reserved_paths @ map page_path ps) = {})
      \<and> \<not> list_ex (\<lambda>r. route_kind r = Redirect
            \<and> route_path r \<in> set ((reserved_paths @ map page_path ps) @ alias_paths ps))
          (snapshot_routes (pub_snapshot p))
      \<and> pages = js_sort page_order ps)"
    unfolding public_pages_def ebind_Inr_iff loop alias_loop reserve_loop alias_paths_def
      throw_when_Inr_iff by (simp only: sum.inject) blast
  also have "\<dots> \<longleftrightarrow> (\<exists>ps. all_pages texts p = Inr ps
    \<and> distinct (map page_path ps @ alias_paths ps)
    \<and> set (map page_path ps @ alias_paths ps) \<inter> set reserved_paths = {}
    \<and> route_path ` {r \<in> set (snapshot_routes (pub_snapshot p)). route_kind r = Redirect}
        \<inter> set (reserved_paths @ map page_path ps @ alias_paths ps) = {}
    \<and> pages = js_sort page_order ps)"
    unfolding redirect distinct_append set_append by (rule ex_cong) blast
  finally show ?thesis .
qed

lemma all_pages_Inr:
  "all_pages texts p = Inr ps \<longleftrightarrow> (\<exists>types authors tags.
    emap (type_pages texts p) [CuratedArticle, Post, Topic] = Inr types
    \<and> emap (author_pages texts p) (pub_authors p) = Inr authors
    \<and> emap (tag_pages p) (pub_tags p) = Inr tags
    \<and> ps = detail_pages p @ concat types @ concat (map (group_pages texts) (pub_groups p))
        @ concat authors @ concat tags)"
  by (auto simp: all_pages_def ebind_Inr_iff)

lemma no_detail_pages:
  "type_pages texts p t = Inr ps \<Longrightarrow> DetailPage path c \<notin> set ps"
  "author_pages texts p a = Inr ps \<Longrightarrow> DetailPage path c \<notin> set ps"
  "tag_pages p i = Inr ps \<Longrightarrow> DetailPage path c \<notin> set ps"
  "DetailPage path c \<notin> set (group_pages texts g)"
  by (auto simp: type_pages_def author_pages_def tag_pages_def group_pages_def ebind_Inr_iff
      split: if_splits)

lemma details_of_all_pages:
  assumes "all_pages texts p = Inr ps"
  shows "DetailPage path c \<in> set ps \<longleftrightarrow>
    c \<in> set (snapshot_content (pub_snapshot p)) \<and> path = canonicalPath c"
proof -
  obtain types authors tags where parts:
      "emap (type_pages texts p) [CuratedArticle, Post, Topic] = Inr types"
      "emap (author_pages texts p) (pub_authors p) = Inr authors"
      "emap (tag_pages p) (pub_tags p) = Inr tags"
      "ps = detail_pages p @ concat types @ concat (map (group_pages texts) (pub_groups p))
        @ concat authors @ concat tags"
    using assms by (auto simp: all_pages_Inr)
  have "DetailPage path c \<notin> set (concat types)"
    using emap_in_set [OF parts(1)] no_detail_pages(1) by fastforce
  moreover have "DetailPage path c \<notin> set (concat authors)"
    using emap_in_set [OF parts(2)] no_detail_pages(2) by fastforce
  moreover have "DetailPage path c \<notin> set (concat tags)"
    using emap_in_set [OF parts(3)] no_detail_pages(3) by fastforce
  ultimately show ?thesis using no_detail_pages(4)
    by (auto simp: parts(4) detail_pages_def)
qed

lemma compare_text_le: "compare_text a b \<le> 0 \<longleftrightarrow> a \<le> b"
  by (auto simp: compare_text_def)

lemma page_order_sorted: "sorted_by page_order ps \<longleftrightarrow> sorted (map page_path ps)"
  by (simp add: sorted_wrt_map page_order_def compare_text_le)

lemma sorted_pages: "sorted (map page_path (js_sort page_order ps))"
  unfolding page_order_sorted [symmetric]
  by (rule js_comparator.sorted_js_sort [where S = UNIV])
    (simp_all add: page_order_def [abs_def] comparator_text)

text \<open>
  C6. The generated site has no path conflict: the pages come in strictly increasing path order,
  so no path is generated twice; neither a page nor an English alias takes a reserved path; no
  alias equals a page path or another alias; no redirect starts at a served path; and the detail
  pages are exactly the items, each at its canonical path.
\<close>

theorem public_pages_conflict_free:
  assumes "public_pages texts p = Inr pages"
  shows "sorted_wrt (<) (map page_path pages)
    \<and> distinct (map page_path pages @ alias_paths pages @ reserved_paths)
    \<and> route_path ` {r \<in> set (snapshot_routes (pub_snapshot p)). route_kind r = Redirect}
        \<inter> set (map page_path pages @ alias_paths pages @ reserved_paths) = {}
    \<and> {(path, c). DetailPage path c \<in> set pages} =
        (\<lambda>c. (canonicalPath c, c)) ` set (snapshot_content (pub_snapshot p))"
proof -
  obtain ps where ps: "all_pages texts p = Inr ps" "pages = js_sort page_order ps"
      "distinct (map page_path ps @ alias_paths ps)"
      "set (map page_path ps @ alias_paths ps) \<inter> set reserved_paths = {}"
      "route_path ` {r \<in> set (snapshot_routes (pub_snapshot p)). route_kind r = Redirect}
        \<inter> set (reserved_paths @ map page_path ps @ alias_paths ps) = {}"
    using assms by (auto simp only: public_pages_iff)
  have perm: "mset (map page_path pages) = mset (map page_path ps)"
    by (simp add: ps(2))
  then have aliases: "mset (alias_paths pages) = mset (alias_paths ps)"
    by (simp add: alias_paths_def mset_filter)
  have "distinct reserved_paths" by (simp add: reserved_paths_def chrome_paths_def)
  with ps(3,4) have "distinct (map page_path ps @ alias_paths ps @ reserved_paths)" by auto
  moreover have "mset (map page_path pages @ alias_paths pages @ reserved_paths) =
      mset (map page_path ps @ alias_paths ps @ reserved_paths)"
    by (simp only: mset_append perm aliases)
  ultimately have dist: "distinct (map page_path pages @ alias_paths pages @ reserved_paths)"
    by (metis mset_eq_imp_distinct_iff)
  have sets: "set (map page_path pages) = set (map page_path ps)" "set (alias_paths pages) = set (alias_paths ps)"
    using perm aliases by (metis set_mset_mset)+
  have "sorted_wrt (<) (map page_path pages)"
    using dist sorted_pages [of ps] by (simp only: strict_sorted_iff ps(2) distinct_append)
  moreover have "route_path ` {r \<in> set (snapshot_routes (pub_snapshot p)). route_kind r = Redirect}
        \<inter> set (map page_path pages @ alias_paths pages @ reserved_paths) = {}"
    using ps(5) unfolding set_append sets by blast
  moreover have "{(path, c). DetailPage path c \<in> set pages} =
        (\<lambda>c. (canonicalPath c, c)) ` set (snapshot_content (pub_snapshot p))"
    using details_of_all_pages [OF ps(1)] by (auto simp: ps(2))
  ultimately show ?thesis using dist by blast
qed

definition sample_texts :: page_texts where
  "sample_texts = \<lparr>type_title = (\<lambda>_. []), type_description = (\<lambda>_. []),
     group_intro = (\<lambda>name. name), author_intro = (\<lambda>name. name)\<rparr>"

lemma collection_pages_short:
  "length items \<le> page_size \<Longrightarrow> collection_pages path title description items extra =
    [page_extra.extend extra (collection_page.fields path title description items 1 1 None None)]"
proof -
  assume short: "length items \<le> page_size"
  then have "page_total items = 1" by (simp add: page_total_def page_size_def)
  then show ?thesis using short by (simp add: collection_pages_eq page_at_def)
qed

lemma public_pages_one_redirect:
  assumes "all_pages texts p = Inr ps" and "distinct (map page_path ps @ alias_paths ps)"
    and "set (map page_path ps @ alias_paths ps) \<inter> set reserved_paths = {}"
    and "route_path ` {r \<in> set (snapshot_routes (pub_snapshot p)). route_kind r = Redirect} = {path}"
    and "path \<notin> set (reserved_paths @ map page_path ps @ alias_paths ps)"
  shows "\<exists>pages. public_pages texts p = Inr pages"
  unfolding public_pages_iff using assms by auto

lemma sample_path_list:
  "\<exists>ps. all_pages sample_texts (publication_of sample_normalized) = Inr ps
    \<and> map page_path ps = [''/notes/basics/first/'', ''/articles/memory/'', ''/topics/runtime/'',
        ''/articles/'', ''/posts/'', ''/topics/'', ''/notes/basics/'', ''/authors/ann/'', ''/tags/go/'']"
proof -
  have authors: "collect_by (\<lambda>c. [authorId c]) (content_rows sample_normalized) [] =
      [(1, [sample_topic, sample_article, sample_note])]"
    by (simp add: sample_rows collect_by_def append_to_def)
  have tags: "collect_by tagIds (content_rows sample_normalized) [] =
      [(4, [sample_topic, sample_article, sample_note])]"
    by (simp add: sample_rows collect_by_def append_to_def)
  have posts: "type_rows sample_normalized Post = []"
    by (simp add: type_rows_def sample_rows)
  have "\<exists>g. js_sort group_page_order (map snd (sorted_groups sample_normalized)) = [g]
      \<and> group_slug g = ''basics'' \<and> length (group_content g) = 1"
    by (simp add: sorted_groups_def sample_rows sample_payloads in_group_def)
  then obtain g where g: "js_sort group_page_order (map snd (sorted_groups sample_normalized)) = [g]"
      "group_slug g = ''basics''" "length (group_content g) = 1" by blast
  show ?thesis
    by (simp add: all_pages_def authors tags posts g type_pages_def author_pages_def tag_pages_def
        rows_of_def group_pages_def collection_pages_short page_size_def detail_pages_def type_path_def)
qed

lemma sample_pages_exist:
  "\<exists>pages. public_pages sample_texts (publication_of sample_normalized) = Inr pages"
proof -
  obtain ps where ps: "all_pages sample_texts (publication_of sample_normalized) = Inr ps"
      "map page_path ps = [''/notes/basics/first/'', ''/articles/memory/'', ''/topics/runtime/'',
        ''/articles/'', ''/posts/'', ''/topics/'', ''/notes/basics/'', ''/authors/ann/'', ''/tags/go/'']"
    using sample_path_list by (elim exE conjE) (rule that)
  have "route_path ` {r \<in> set (snapshot_routes sample_normalized). route_kind r = Redirect} =
      {''/old/memory/''}"
    unfolding set_filter [symmetric] by (simp add: sample_normalized_def sample_fields_def)
  moreover have aliases: "alias_paths ps = [''/en/notes/basics/first/'', ''/en/articles/memory/'',
      ''/en/topics/runtime/'', ''/en/posts/'', ''/en/notes/basics/'', ''/en/authors/ann/'',
      ''/en/tags/go/'', ''/en/tags/'', ''/en/authors/'']"
    unfolding alias_paths_def ps(2) by (simp add: chrome_paths_def)
  have "distinct (map page_path ps @ alias_paths ps)"
      "set (map page_path ps @ alias_paths ps) \<inter> set reserved_paths = {}"
      "''/old/memory/'' \<notin> set (reserved_paths @ map page_path ps @ alias_paths ps)"
    unfolding ps(2) aliases reserved_paths_def chrome_paths_def by simp_all
  ultimately show ?thesis
    using ps(1) by (intro public_pages_one_redirect [of _ _ ps "''/old/memory/''"])
      (simp_all only: publication_of_simps not_False_eq_True)
qed

theorem public_pages_conflict_free_witness:
  "\<exists>pages. public_pages sample_texts (publication_of sample_normalized) = Inr pages
    \<and> sorted_wrt (<) (map page_path pages)
    \<and> DetailPage ''/articles/memory/'' sample_article \<in> set pages"
proof -
  obtain pages where pages: "public_pages sample_texts (publication_of sample_normalized) = Inr pages"
    using sample_pages_exist by blast
  note result = public_pages_conflict_free [OF pages]
  have "(''/articles/memory/'', sample_article) \<in>
      (\<lambda>c. (canonicalPath c, c)) ` set (snapshot_content sample_normalized)"
    by (rule image_eqI [of _ _ sample_article]) simp_all
  then have "(''/articles/memory/'', sample_article) \<in> {(path, c). DetailPage path c \<in> set pages}"
    using result by (simp only: publication_of_simps)
  with pages result show ?thesis by blast
qed

section \<open>The missing author and tag pages\<close>

lemma rows_of_error: "rows_of m k = Inl e \<Longrightarrow> e = TypeErrorThrown"
  by (auto simp: rows_of_def split: option.splits)

lemma rows_of_Inr_ex: "(\<exists>rows. rows_of m k = Inr rows) \<longleftrightarrow> map_has m k"
  by (auto simp: rows_of_def map_has_def split: option.splits)

lemma page_makers_succeed:
  "(\<exists>ps. type_pages texts p t = Inr ps) \<longleftrightarrow> map_has (contentByType p) t"
  "(\<exists>ps. author_pages texts p a = Inr ps) \<longleftrightarrow> map_has (contentByAuthor p) (author_id a)"
  "(\<exists>ps. tag_pages p i = Inr ps) \<longleftrightarrow> map_has (contentByTag p) (tag_id i)"
  by (simp_all add: type_pages_def author_pages_def tag_pages_def ebind_Inr_iff
      rows_of_Inr_ex [symmetric])

lemma all_pages_error:
  "all_pages texts p = Inl e \<Longrightarrow> e = TypeErrorThrown"
  by (auto simp: all_pages_def ebind_Inl_iff type_pages_def author_pages_def tag_pages_def
      dest!: emap_Inl rows_of_error)

lemma all_pages_succeeds:
  "(\<exists>ps. all_pages texts p = Inr ps) \<longleftrightarrow>
    (\<forall>t \<in> {CuratedArticle, Post, Topic}. map_has (contentByType p) t)
    \<and> (\<forall>a \<in> set (pub_authors p). map_has (contentByAuthor p) (author_id a))
    \<and> (\<forall>i \<in> set (pub_tags p). map_has (contentByTag p) (tag_id i))"
proof -
  have "(\<exists>ps. all_pages texts p = Inr ps) \<longleftrightarrow>
      (\<exists>ys. emap (type_pages texts p) [CuratedArticle, Post, Topic] = Inr ys)
      \<and> (\<exists>ys. emap (author_pages texts p) (pub_authors p) = Inr ys)
      \<and> (\<exists>ys. emap (tag_pages p) (pub_tags p) = Inr ys)"
    unfolding all_pages_Inr by blast
  then show ?thesis by (simp only: emap_Inr_ex page_makers_succeed list.set)
qed

lemma reserve_errors:
  "efold (\<lambda>page. reserve PublicPageConflict (page_path page)) ps taken = Inl e \<Longrightarrow> e = PublicPageConflict"
  "efold reserve_alias paths taken = Inl e \<Longrightarrow> e = PublicPageConflict"
  by (auto simp: reserve_alias_def reserve_def throw_when_def dest!: efold_Inl split: if_splits)

lemma public_pages_type_error_iff:
  "public_pages texts p = Inl TypeErrorThrown \<longleftrightarrow> \<not> (\<exists>ps. all_pages texts p = Inr ps)"
proof (cases "all_pages texts p")
  case (Inl e)
  with all_pages_error [OF Inl] show ?thesis by (simp add: public_pages_def)
next
  case (Inr ps)
  then have "public_pages texts p \<noteq> Inl TypeErrorThrown"
    by (auto simp: public_pages_def ebind_Inl_iff throw_when_def dest!: reserve_errors split: if_splits)
  with Inr show ?thesis by simp
qed

lemma all_pages_of_used:
  "(\<exists>ps. all_pages texts (publication_of s) = Inr ps) \<longleftrightarrow>
    author_id ` set (snapshot_authors s) \<subseteq> authorId ` set (snapshot_content s)
    \<and> tag_id ` set (snapshot_tags s) \<subseteq> (\<Union>c \<in> set (snapshot_content s). set (tagIds c))"
proof -
  let ?p = "publication_of s"
  have "map_has (contentByType ?p) t" for t
    unfolding publication_of_simps by (cases t) (simp_all add: map_has_def)
  moreover have "map_has (contentByAuthor ?p) i \<longleftrightarrow> i \<in> authorId ` set (snapshot_content s)" for i
    unfolding publication_of_simps has_collect_by by (auto simp: map_has_def content_rows_def)
  moreover have "map_has (contentByTag ?p) i \<longleftrightarrow> i \<in> (\<Union>c \<in> set (snapshot_content s). set (tagIds c))" for i
    unfolding publication_of_simps has_collect_by by (simp add: map_has_def content_rows_def)
  moreover have "set (pub_authors ?p) = set (snapshot_authors s)" "set (pub_tags ?p) = set (snapshot_tags s)"
    unfolding publication_of_simps by simp_all
  ultimately show ?thesis unfolding all_pages_succeeds by (simp add: subset_eq)
qed

text \<open>
  C11. Page generation reads an absent collection in exactly one case: an author or a tag of the
  snapshot that no item uses. On every publication whose authors and tags are all used it
  cannot fail with a \<open>TypeError\<close>, only with a path conflict.
\<close>

theorem unused_author_or_tag_fails:
  assumes "create_publication input = Inr p"
  shows "public_pages texts p = Inl TypeErrorThrown \<longleftrightarrow>
    \<not> (author_id ` set (snapshot_authors (pub_snapshot p))
        \<subseteq> authorId ` set (snapshot_content (pub_snapshot p))
      \<and> tag_id ` set (snapshot_tags (pub_snapshot p))
        \<subseteq> (\<Union>c \<in> set (snapshot_content (pub_snapshot p)). set (tagIds c)))"
proof -
  from assms obtain s where p: "p = publication_of s" by (rule create_publicationE)
  show ?thesis unfolding p public_pages_type_error_iff all_pages_of_used by simp
qed

theorem unused_author_or_tag_fails_witness:
  "public_pages sample_texts (publication_of sample_normalized) \<noteq> Inl TypeErrorThrown"
  using unused_author_or_tag_fails [OF sample_publication, of sample_texts] by simp

section \<open>The redirect file\<close>

text \<open>The rules of a redirect row: the Chinese path, and the English one where both exist.\<close>

definition redirect_rules ::
  "int \<Rightarrow> (int \<times> content) list \<Rightarrow> route \<Rightarrow> (string \<times> string) list" where
  "redirect_rules version contents r = (case map_of contents (route_contentId r) of
     None \<Rightarrow> []
   | Some c \<Rightarrow> (route_path r, canonicalPath c)
       # (if bilingual_route version contents (route_contentId r)
          then [(''/en'' @ route_path r, ''/en'' @ canonicalPath c)] else []))"

definition rule_text :: "string \<times> string \<Rightarrow> string" where
  "rule_text rule = redirect_line (fst rule) (snd rule) @ [CHR 0x0A]"

definition redirect_ok ::
  "int \<Rightarrow> (int \<times> content) list \<Rightarrow> (string \<times> route) list \<Rightarrow> route \<Rightarrow> bool" where
  "redirect_ok version contents paths r \<longleftrightarrow> (\<exists>c q. map_of contents (route_contentId r) = Some c
     \<and> rx_test safe_path_rx (route_path r) \<and> rx_test safe_path_rx (canonicalPath c)
     \<and> route_path r \<noteq> canonicalPath c
     \<and> map_of paths (canonicalPath c) = Some q \<and> route_kind q = Canonical
     \<and> route_contentId q = route_contentId r
     \<and> list_all (\<lambda>(a, b). length (redirect_line a b) \<le> 1000) (redirect_rules version contents r))"

lemma safe_path_not_Nil: "\<not> rx_test safe_path_rx []"
  by (simp add: safe_path_rx_def rx_test_lang rx_lang_Seq)

lemma redirect_row_Inr:
  "redirect_row version contents paths r = Inr text \<longleftrightarrow> redirect_ok version contents paths r
    \<and> text = concat (map rule_text (redirect_rules version contents r))"
proof (cases "map_of contents (route_contentId r)")
  case None
  then show ?thesis by (simp add: redirect_row_def redirect_ok_def)
next
  case (Some c)
  then show ?thesis using safe_path_not_Nil
    by (cases "map_of paths (canonicalPath c)")
      (auto simp: redirect_row_def redirect_ok_def redirect_rules_def rule_text_def
        throw_when_Inr_iff Let_def not_less)
qed

lemma foldl_count: "foldl (\<lambda>n r. n + f r) (k :: nat) rs = k + sum_list (map f rs)"
  by (induction rs arbitrary: k) simp_all

definition redirect_routes :: "route list \<Rightarrow> route list" where
  "redirect_routes routes = js_sort route_order (filter (\<lambda>r. route_kind r = Redirect) routes)"

definition all_rules :: "int \<Rightarrow> content list \<Rightarrow> route list \<Rightarrow> (string \<times> string) list" where
  "all_rules version items routes = concat (map
     (redirect_rules version (map (\<lambda>c. (content_id c, c)) items)) (redirect_routes routes))"

lemma set_redirect_routes [simp]:
  "set (redirect_routes routes) = {r \<in> set routes. route_kind r = Redirect}"
  by (simp add: redirect_routes_def)

lemma length_redirect_rules:
  "redirect_ok version contents paths r \<Longrightarrow>
    length (redirect_rules version contents r) = (if bilingual_route version contents (route_contentId r) then 2 else 1)"
  by (auto simp: redirect_ok_def redirect_rules_def)

lemma sum_list_js_sort: "sum_list (map f (js_sort cmp xs)) = (sum_list (map f xs) :: nat)"
  by (metis mset_js_sort mset_map sum_mset_sum_list)

lemma emap_rows:
  "emap (redirect_row version contents paths) rs = Inr texts \<longleftrightarrow>
    list_all (redirect_ok version contents paths) rs
    \<and> texts = map (\<lambda>r. concat (map rule_text (redirect_rules version contents r))) rs"
  by (induction rs arbitrary: texts) (auto simp: ebind_Inr_iff redirect_row_Inr)

lemma count_rules:
  assumes "list_all (redirect_ok version contents paths) (redirect_routes routes)"
  shows "foldl (\<lambda>count r. count + (if bilingual_route version contents (route_contentId r) then 2 else 1)) 0
      (filter (\<lambda>r. route_kind r = Redirect) routes) =
    length (concat (map (redirect_rules version contents) (redirect_routes routes)))"
proof -
  have "map (\<lambda>r. length (redirect_rules version contents r)) (redirect_routes routes) =
      map (\<lambda>r. if bilingual_route version contents (route_contentId r) then 2 else 1) (redirect_routes routes)"
    using assms by (auto simp: list_all_iff length_redirect_rules)
  moreover have "sum_list (map g (redirect_routes routes)) =
      (sum_list (map g (filter (\<lambda>r. route_kind r = Redirect) routes)) :: nat)" for g
    by (simp add: redirect_routes_def sum_list_js_sort)
  ultimately show ?thesis by (simp only: foldl_count length_concat map_map comp_def add_0)
qed

lemma redirects_Inr:
  "redirects version items routes = Inr text \<longleftrightarrow>
    distinct (map content_id items) \<and> distinct (map route_path routes)
    \<and> list_all (redirect_ok version (map (\<lambda>c. (content_id c, c)) items)
        (map (\<lambda>r. (route_path r, r)) routes)) (redirect_routes routes)
    \<and> length (all_rules version items routes) \<le> static_redirect_limit
    \<and> text = concat (map rule_text (all_rules version items routes))"
proof (cases "distinct (map content_id items) \<and> distinct (map route_path routes)")
  case True
  then have contents: "map_of_pairs (map (\<lambda>c. (content_id c, c)) items) = map (\<lambda>c. (content_id c, c)) items"
    and paths: "map_of_pairs (map (\<lambda>r. (route_path r, r)) routes) = map (\<lambda>r. (route_path r, r)) routes"
    by (simp_all add: map_of_pairs_distinct comp_def)
  have texts: "concat (map (\<lambda>r. concat (map rule_text (redirect_rules version cs r))) rs) =
      concat (map rule_text (concat (map (redirect_rules version cs) rs)))" for cs rs
    by (induction rs) simp_all
  show ?thesis
    unfolding redirects_def contents paths Let_def throw_when_Inr_iff ebind_Inr_iff
      redirect_routes_def [symmetric] emap_rows all_rules_def
    using True count_rules by (auto simp: texts not_less)
next
  case False
  then have "length (map_of_pairs (map (\<lambda>c. (content_id c, c)) items)) \<noteq> length items
      \<or> length (map_of_pairs (map (\<lambda>r. (route_path r, r)) routes)) \<noteq> length routes"
    using length_map_of_pairs_eq [of "map (\<lambda>c. (content_id c, c)) items"]
      length_map_of_pairs_eq [of "map (\<lambda>r. (route_path r, r)) routes"] by (auto simp: comp_def)
  with False show ?thesis by (auto simp: redirects_def throw_when_Inr_iff Let_def)
qed

lemma redirect_rule_cases:
  assumes "rule \<in> set (all_rules version items routes)"
    and "list_all (redirect_ok version (map (\<lambda>c. (content_id c, c)) items)
      (map (\<lambda>r. (route_path r, r)) routes)) (redirect_routes routes)"
  obtains r c q l where "r \<in> set routes" "route_kind r = Redirect" "c \<in> set items"
    "q \<in> set routes" "route_kind q = Canonical" "route_path q = canonicalPath c"
    "rule = (l @ route_path r, l @ canonicalPath c)" "l = [] \<or> l = ''/en''"
    "length (redirect_line (fst rule) (snd rule)) \<le> 1000"
    "rx_test safe_path_rx (route_path r)" "rx_test safe_path_rx (canonicalPath c)"
proof -
  let ?contents = "map (\<lambda>c. (content_id c, c)) items"
  obtain r where r: "r \<in> set routes" "route_kind r = Redirect" "rule \<in> set (redirect_rules version ?contents r)"
    using assms(1) by (auto simp: all_rules_def)
  then obtain c q where ok: "map_of ?contents (route_contentId r) = Some c"
      "map_of (map (\<lambda>r. (route_path r, r)) routes) (canonicalPath c) = Some q" "route_kind q = Canonical"
      "rx_test safe_path_rx (route_path r)" "rx_test safe_path_rx (canonicalPath c)"
      "list_all (\<lambda>(a, b). length (redirect_line a b) \<le> 1000) (redirect_rules version ?contents r)"
    using assms(2) by (auto simp: list_all_iff redirect_ok_def)
  have c: "c \<in> set items" and q: "q \<in> set routes" "route_path q = canonicalPath c"
    using map_of_SomeD [OF ok(1)] map_of_SomeD [OF ok(2)] by auto
  have short: "length (redirect_line (fst rule) (snd rule)) \<le> 1000"
    using ok(6) r(3) by (auto simp: list_all_iff)
  have "rule = ([] @ route_path r, [] @ canonicalPath c) \<or> rule = (''/en'' @ route_path r, ''/en'' @ canonicalPath c)"
    using r(3) ok(1) by (auto simp: redirect_rules_def split: if_splits)
  then show thesis
    using that [OF r(1,2) c q(1) ok(3) q(2) _ _ short ok(4,5)] by blast
qed

lemma safe_path_not_en: "\<not> rx_test safe_path_rx ''/en''"
  by code_simp

lemma safe_path_slash: "rx_test safe_path_rx path \<Longrightarrow> prefix ''/'' path"
  by (auto simp: safe_path_rx_def rx_test_lang rx_lang_Seq)

lemma safe_path_en: "rx_test safe_path_rx path \<Longrightarrow> prefix ''/en/'' (''/en'' @ path)"
  using safe_path_slash by (auto simp: prefix_def)

text \<open>
  C5. The redirect file is a one-step map into canonical pages, within the host's limits. For
  routes outside the English prefix: at most 2000 rules, each line at most 1000 characters;
  every Chinese rule leads from a redirect route to an item's canonical path; and no rule's
  target is the source of a rule, so a redirect never leads to another one.
\<close>

theorem redirects_single_step:
  assumes "redirects version items routes = Inr text"
    and "list_all (\<lambda>r. \<not> prefix ''/en/'' (route_path r)) routes"
  shows "text = concat (map rule_text (all_rules version items routes))
    \<and> length (all_rules version items routes) \<le> 2000
    \<and> list_all (\<lambda>(a, b). length (redirect_line a b) \<le> 1000) (all_rules version items routes)
    \<and> fst ` set (all_rules version items routes) \<inter> snd ` set (all_rules version items routes) = {}
    \<and> map_prod without_locale without_locale ` set (all_rules version items routes)
        \<subseteq> route_path ` {r \<in> set routes. route_kind r = Redirect} \<times> canonicalPath ` set items"
proof -
  note ok = iffD1 [OF redirects_Inr assms(1)]
  have rows: "list_all (redirect_ok version (map (\<lambda>c. (content_id c, c)) items)
      (map (\<lambda>r. (route_path r, r)) routes)) (redirect_routes routes)"
    using ok by blast
  have paths: "r = q" if "r \<in> set routes" "q \<in> set routes" "route_path r = route_path q" for r q
    using ok that by (auto simp: distinct_map dest: inj_onD)
  have apart: "fst a \<noteq> snd b"
    if a: "a \<in> set (all_rules version items routes)" and b: "b \<in> set (all_rules version items routes)" for a b
  proof -
    from a rows obtain r c l where a: "r \<in> set routes" "route_kind r = Redirect" "l = [] \<or> l = ''/en''"
        "fst a = l @ route_path r" "rx_test safe_path_rx (route_path r)"
      by (rule redirect_rule_cases) simp
    from b rows obtain q k and d :: content where b: "q \<in> set routes" "route_kind q = Canonical"
        "route_path q = canonicalPath d" "k = [] \<or> k = ''/en''" "snd b = k @ canonicalPath d"
        "rx_test safe_path_rx (canonicalPath d)"
    proof (rule redirect_rule_cases)
      fix r' q l and c :: content
      assume "q \<in> set routes" "route_kind q = Canonical" "route_path q = canonicalPath c"
        "l = [] \<or> l = ''/en''" "b = (l @ route_path r', l @ canonicalPath c)"
        "rx_test safe_path_rx (canonicalPath c)"
      then show ?thesis using that [of q c l] by simp
    qed
    have "route_path r \<noteq> route_path q" using paths [of r q] a b by auto
    moreover have outside: "\<not> prefix ''/en/'' (route_path r)" "\<not> prefix ''/en/'' (route_path q)"
      using assms(2) a(1) b(1) by (auto simp: list_all_iff)
    have "''/en'' @ route_path r \<noteq> route_path q" "''/en'' @ canonicalPath d \<noteq> route_path r"
      using outside safe_path_en [OF a(5)] safe_path_en [OF b(6)] by (metis, metis)
    ultimately show ?thesis
      using a(3) b(4) unfolding a(4) b(5) b(3) [symmetric] by auto
  qed
  have "(without_locale (fst a), without_locale (snd a)) \<in>
      route_path ` {r \<in> set routes. route_kind r = Redirect} \<times> canonicalPath ` set items"
    if "a \<in> set (all_rules version items routes)" for a
    using that rows
  proof (rule redirect_rule_cases)
    fix r c q l
    assume r: "r \<in> set routes" "route_kind r = Redirect" "c \<in> set items" "q \<in> set routes"
      "route_path q = canonicalPath c" "a = (l @ route_path r, l @ canonicalPath c)"
      "l = [] \<or> l = ''/en''" "rx_test safe_path_rx (route_path r)" "rx_test safe_path_rx (canonicalPath c)"
    have "without_locale (l @ path) = path" if "rx_test safe_path_rx path" "\<not> prefix ''/en/'' path" for path
    proof -
      have "path \<noteq> ''/en''" using that(1) safe_path_not_en by metis
      with that have "neutral_path path" by (simp add: neutral_path_def safe_path_slash)
      with r(7) show ?thesis using neutral_slash by auto
    qed
    moreover have "\<not> prefix ''/en/'' (route_path r)" "\<not> prefix ''/en/'' (canonicalPath c)"
      using assms(2) r(1,4,5) by (auto simp: list_all_iff)
    ultimately show ?thesis using r by auto
  qed
  moreover have "list_all (\<lambda>(a, b). length (redirect_line a b) \<le> 1000) (all_rules version items routes)"
  proof -
    have "length (redirect_line (fst a) (snd a)) \<le> 1000" if "a \<in> set (all_rules version items routes)" for a
      using that rows by (rule redirect_rule_cases)
    then show ?thesis by (simp add: list_all_iff split_def)
  qed
  moreover have "fst ` set (all_rules version items routes) \<inter> snd ` set (all_rules version items routes) = {}"
    using apart by blast
  ultimately show ?thesis using ok by (simp add: static_redirect_limit_def image_subset_iff map_prod_def split_def)
qed

theorem redirects_single_step_witness:
  "\<exists>text. redirects 3 sample_items (snapshot_routes sample_fields) = Inr text
    \<and> text = ''/old/memory/ /articles/memory/ 301'' @ [CHR 0x0A]
        @ ''/en/old/memory/ /en/articles/memory/ 301'' @ [CHR 0x0A]"
proof -
  let ?rules = "all_rules 3 sample_items (snapshot_routes sample_fields)"
  have run: "redirects 3 sample_items (snapshot_routes sample_fields) = Inr (concat (map rule_text ?rules))"
    by code_simp
  have "list_all (\<lambda>r. \<not> prefix ''/en/'' (route_path r)) (snapshot_routes sample_fields)"
    by (simp add: sample_fields_def)
  note result = redirects_single_step [OF run this]
  have "concat (map rule_text ?rules) = ''/old/memory/ /articles/memory/ 301'' @ [CHR 0x0A]
        @ ''/en/old/memory/ /en/articles/memory/ 301'' @ [CHR 0x0A]"
    by code_simp
  with run result show ?thesis by auto
qed

end
