(* ===== verification/PublicEditorial.thy ===== *)
theory PublicEditorial
  imports PublicRoutesProps
begin

text \<open>
  The reader's views of the content: \<open>publication/editorial.ts\<close> (the English view of an
  article or topic), \<open>publication/taxonomy.ts\<close> and \<open>collectionText\<close> of
  \<open>publication/routes.ts\<close> (localised names), \<open>publication/home.ts\<close> (the home page).
\<close>

section \<open>Editorial views\<close>

definition is_editorial :: "content \<Rightarrow> bool" where
  "is_editorial c = (content_type c = CuratedArticle \<or> content_type c = Topic)"

definition has_english :: "content \<Rightarrow> bool" where
  "has_english c = (is_editorial c \<and> (case editorialEn c of Some e \<Rightarrow> en_enabled e | None \<Rightarrow> False))"

definition content_path :: "content \<Rightarrow> site_locale \<Rightarrow> string" where
  "content_path c l =
     (if l = En \<and> is_editorial c \<and> \<not> has_english c then canonicalPath c
      else localized (canonicalPath c) l)"

text \<open>\<open>a.trim() || b\<close>\<close>

definition trimmed_or :: "string \<Rightarrow> string \<Rightarrow> string" where
  "trimmed_or a b = (if js_trim a = [] then b else js_trim a)"

definition localized_link :: "english_labels \<Rightarrow> related_link \<Rightarrow> related_link" where
  "localized_link labels link = link\<lparr>link_label :=
     (case List.find (\<lambda>en. link_url en = link_url link) (en_relatedLinks labels) of
        None \<Rightarrow> link_label link
      | Some en \<Rightarrow> trimmed_or (link_label en) (link_label link))\<rparr>"

definition english_payload :: "english_labels \<Rightarrow> curated_payload \<Rightarrow> curated_payload" where
  "english_payload labels q = q\<lparr>
     sourceAuthor := trimmed_or (en_sourceAuthor labels) (sourceAuthor q),
     sourceName := trimmed_or (en_sourceName labels) (sourceName q),
     relatedLinks := map (localized_link labels) (relatedLinks q)\<rparr>"

definition editorial_view :: "content \<Rightarrow> site_locale \<Rightarrow> content" where
  "editorial_view item l =
     (if l \<noteq> En \<or> \<not> has_english item then item
      else case editorialEn item of
        None \<Rightarrow> item
      | Some e \<Rightarrow>
          let view = item\<lparr>content_title := en_title e, content_summary := en_summary e,
                bodyMarkdown := en_bodyMarkdown e, seoTitle := en_seoTitle e,
                seoDescription := en_seoDescription e, content_language := ''en''\<rparr>
          in case payload view of
               CuratedPayload q \<Rightarrow> view\<lparr>payload := CuratedPayload (english_payload (en_labels e) q)\<rparr>
             | _ \<Rightarrow> view)"

section \<open>Localised names\<close>

definition taxonomy_text :: "localized_taxonomy \<Rightarrow> site_locale \<Rightarrow> string \<times> string" where
  "taxonomy_text v l =
     ((if l = En \<and> js_trim (taxonomy_nameEn v) \<noteq> [] then taxonomy_nameEn v else taxonomy_name v),
      (if l = En \<and> js_trim (taxonomy_descriptionEn v) \<noteq> [] then taxonomy_descriptionEn v
       else taxonomy_description v))"

definition taxonomy_of_tag :: "tag \<Rightarrow> localized_taxonomy" where
  "taxonomy_of_tag t = \<lparr>taxonomy_name = tag_name t, taxonomy_description = tag_description t,
     taxonomy_nameEn = tag_nameEn t, taxonomy_descriptionEn = tag_descriptionEn t\<rparr>"

definition taxonomy_of_group :: "group_page \<Rightarrow> localized_taxonomy" where
  "taxonomy_of_group g = \<lparr>taxonomy_name = group_name g, taxonomy_description = group_description g,
     taxonomy_nameEn = group_nameEn g, taxonomy_descriptionEn = group_descriptionEn g\<rparr>"

definition collection_text :: "page_texts \<Rightarrow> collection_page \<Rightarrow> site_locale \<Rightarrow> string \<times> string" where
  "collection_text texts page l =
     (case (case page_tag page of Some t \<Rightarrow> Some (taxonomy_of_tag t)
            | None \<Rightarrow> map_option taxonomy_of_group (page_group page)) of
        None \<Rightarrow> (coll_title page, coll_description page)
      | Some taxonomy \<Rightarrow>
          let (name, description) = taxonomy_text taxonomy l
          in (name,
              if description \<noteq> [] then description
              else if page_group page \<noteq> None then
                (if l = En then ''Engineering notes in '' @ name @ '', arranged in reading order.''
                 else group_intro texts name)
              else []))"

section \<open>Home\<close>

record home =
  home_notes :: "content list"
  home_articles :: "content list"
  home_topics :: "content list"

definition home_content :: "publication \<Rightarrow> home" where
  "home_content p =
     \<lparr>home_notes = take 4 (js_sort recent
        (filter (\<lambda>c. content_type c = Note) (snapshot_content (pub_snapshot p)))),
      home_articles = take 4 (js_sort recent
        (filter (\<lambda>c. content_type c = CuratedArticle) (snapshot_content (pub_snapshot p)))),
      home_topics = take 4 (case map_of (contentByType p) Topic of Some rows \<Rightarrow> rows | None \<Rightarrow> [])\<rparr>"

section \<open>Properties\<close>

lemma localized_link_url [simp]: "link_url (localized_link labels link) = link_url link"
  by (simp add: localized_link_def)

lemma localized_link_idem: "localized_link labels (localized_link labels link) = localized_link labels link"
  by (simp add: localized_link_def trimmed_or_def split: option.split)

lemma english_payload_idem: "english_payload labels (english_payload labels q) = english_payload labels q"
  by (simp add: english_payload_def trimmed_or_def localized_link_idem)

lemma has_english_cong:
  "content_type c = content_type d \<Longrightarrow> editorialEn c = editorialEn d \<Longrightarrow> has_english c = has_english d"
  by (simp add: has_english_def is_editorial_def)

lemma view_payload:
  "content_type (editorial_view c l) = content_type c"
  by (cases "payload c") (simp_all add: editorial_view_def Let_def split: option.split)

lemma view_editorialEn: "editorialEn (editorial_view c l) = editorialEn c"
  by (simp add: editorial_view_def Let_def split: option.split payload.split)

text \<open>
  The English view is a view only: it changes neither the identity of an item nor its type,
  path, relations or dates, nor the urls and the number of its related links; the Chinese view is
  the item itself, and taking the view twice changes nothing more.
\<close>

lemma editorial_view_is_a_view:
  "content_id (editorial_view c l) = content_id c
    \<and> canonicalPath (editorial_view c l) = canonicalPath c
    \<and> content_slug (editorial_view c l) = content_slug c
    \<and> content_type (editorial_view c l) = content_type c
    \<and> authorId (editorial_view c l) = authorId c
    \<and> tagIds (editorial_view c l) = tagIds c
    \<and> topicEntries (editorial_view c l) = topicEntries c
    \<and> lastPublishedAt (editorial_view c l) = lastPublishedAt c
    \<and> (case (payload c, payload (editorial_view c l)) of
         (CuratedPayload q, CuratedPayload q') \<Rightarrow>
           map link_url (relatedLinks q') = map link_url (relatedLinks q) \<and> sourceUrl q' = sourceUrl q
       | (old, new) \<Rightarrow> new = old)
    \<and> editorial_view c Zh = c
    \<and> editorial_view (editorial_view c l) l = editorial_view c l"
proof -
  have idem: "editorial_view (editorial_view c l) l = editorial_view c l"
  proof (cases "l \<noteq> En \<or> \<not> has_english c")
    case False
    have "has_english (editorial_view c l)"
      using has_english_cong [OF view_payload view_editorialEn, of c l] False by simp
    then show ?thesis using False view_editorialEn [of c l]
      by (cases "payload c"; cases "editorialEn c")
        (simp_all add: editorial_view_def Let_def english_payload_idem)
  qed (simp add: editorial_view_def)
  have payloads: "case (payload c, payload (editorial_view c l)) of
         (CuratedPayload q, CuratedPayload q') \<Rightarrow>
           map link_url (relatedLinks q') = map link_url (relatedLinks q) \<and> sourceUrl q' = sourceUrl q
       | (old, new) \<Rightarrow> new = old"
    by (cases "payload c") (auto simp: editorial_view_def Let_def english_payload_def split: option.split)
  have "content_id (editorial_view c l) = content_id c" "canonicalPath (editorial_view c l) = canonicalPath c"
    "content_slug (editorial_view c l) = content_slug c" "authorId (editorial_view c l) = authorId c"
    "tagIds (editorial_view c l) = tagIds c" "topicEntries (editorial_view c l) = topicEntries c"
    "lastPublishedAt (editorial_view c l) = lastPublishedAt c" "editorial_view c Zh = c"
    by (simp_all add: editorial_view_def Let_def split: option.split payload.split)
  with idem payloads view_payload show ?thesis by blast
qed

text \<open>
  A localised link always leads to a page of the item: the link of either locale strips
  to the item's canonical path, and an English link carries the English prefix exactly when
  the item has an English page.
\<close>

lemma content_path_reaches_item:
  assumes "neutral_path (canonicalPath c)"
  shows "without_locale (content_path c l) = canonicalPath c
    \<and> (locale_of (content_path c l) = En \<longleftrightarrow> l = En \<and> (is_editorial c \<longrightarrow> has_english c))"
  using assms neutral_slash [OF assms]
  by (cases l) (auto simp: content_path_def localized_simps locale_of_neutral)

lemma content_path_reaches_item_witness:
  "content_path sample_note En = ''/en/notes/basics/first/''
    \<and> locale_of (content_path sample_article En) = Zh"
proof -
  have n: "neutral_path (canonicalPath sample_note)" and a: "neutral_path (canonicalPath sample_article)"
    by (simp_all add: neutral_path_def)
  have "\<not> has_english sample_article"
    by (simp add: has_english_def sample_article_def sample_content_def)
  then have "locale_of (content_path sample_article En) \<noteq> En"
    using content_path_reaches_item [OF a, of En] by (simp add: is_editorial_def)
  then have "locale_of (content_path sample_article En) = Zh"
    by (cases "locale_of (content_path sample_article En)") simp_all
  then show ?thesis using n
    by (simp add: content_path_def is_editorial_def localized_simps)
qed

text \<open>
  Home shows the newest work: of the notes and of the articles four each (or all, where
  there are fewer), newest first, and no item left out is newer than one that is shown.
\<close>

lemma home_shows_newest:
  "length (home_notes (home_content p)) =
      min 4 (length (filter (\<lambda>c. content_type c = Note) (snapshot_content (pub_snapshot p))))
    \<and> sorted_by recent (home_notes (home_content p))
    \<and> sorted_by recent (home_articles (home_content p))
    \<and> (\<exists>older. mset (home_notes (home_content p) @ older) =
          mset (filter (\<lambda>c. content_type c = Note) (snapshot_content (pub_snapshot p)))
        \<and> list_all (\<lambda>x. list_all (\<lambda>y. recent x y \<le> 0) older) (home_notes (home_content p)))
    \<and> (\<exists>older. mset (home_articles (home_content p) @ older) =
          mset (filter (\<lambda>c. content_type c = CuratedArticle) (snapshot_content (pub_snapshot p)))
        \<and> list_all (\<lambda>x. list_all (\<lambda>y. recent x y \<le> 0) older) (home_articles (home_content p)))"
proof -
  have newest: "sorted_by recent (take 4 (js_sort recent xs))
      \<and> (\<exists>older. mset (take 4 (js_sort recent xs) @ older) = mset xs
        \<and> list_all (\<lambda>x. list_all (\<lambda>y. recent x y \<le> 0) older) (take 4 (js_sort recent xs)))" for xs
  proof (intro conjI exI)
    show "sorted_by recent (take 4 (js_sort recent xs))"
      by (rule sorted_wrt_take) (rule recent_order.sorted_js_sort, simp)
    show "mset (take 4 (js_sort recent xs) @ drop 4 (js_sort recent xs)) = mset xs"
      by (simp only: append_take_drop_id mset_js_sort)
    show "list_all (\<lambda>x. list_all (\<lambda>y. recent x y \<le> 0) (drop 4 (js_sort recent xs))) (take 4 (js_sort recent xs))"
      unfolding list_all_iff by (intro ballI) (rule recent_order.take_js_sort, simp_all)
  qed
  show ?thesis
    unfolding home_content_def home.simps
    by (intro conjI newest [THEN conjunct1] newest [THEN conjunct2]) simp
qed

end
