(* ===== verification/Autosave.thy ===== *)
theory Autosave
  imports JsPrelude
begin

text \<open>
  \<open>apps/admin/src/features/content/autosave.ts\<close>: the autosave queue of the editor. The object is
  a record; each method is a function on it. JavaScript runs a method to the end before the next
  event, so the points where other events come in between are where \<open>drain\<close> awaits \<open>save\<close> and
  where the promise of \<open>drain\<close> has settled but its \<open>finally\<close> callback has not run yet:
  \<open>Awaiting\<close> and \<open>Settling\<close>. The functions \<open>save_ok\<close>, \<open>save_failed\<close> and \<open>settle\<close> are the code after
  those points. The snapshots are JSON values, compared by the code with a structural \<open>equal\<close>;
  here they are values of a type \<open>'d\<close> with its equality. Listeners are identified by numbers, and
  \<open>calls\<close> lists the listeners called so far; a listener is assumed not to call the queue back.
\<close>

datatype save_status = Saved | Pending | Saving | SaveError | Conflict

datatype save_failure =
    ContentVersionConflict string
  | OtherFailure string
  | ReadOnly

datatype 'd flight = NoFlight | Awaiting 'd int | Settling

record 'd autosave =
  latest :: 'd
  acknowledged :: 'd
  timer :: bool
  flight :: "'d flight"
  disposed :: bool
  enabled :: bool
  listeners :: "nat list"
  calls :: "nat list"
  status :: save_status
  dirty :: bool
  inFlight :: bool
  version :: int
  lastSaved :: int
  failure :: "save_failure option"

definition new_queue :: "'d \<Rightarrow> int \<Rightarrow> int \<Rightarrow> 'd autosave" where
  "new_queue initial v saved =
     \<lparr>latest = initial, acknowledged = initial, timer = False, flight = NoFlight,
      disposed = False, enabled = True, listeners = [], calls = [],
      status = Saved, dirty = False, inFlight = False, version = v, lastSaved = saved,
      failure = None\<rparr>"

definition subscribe :: "nat \<Rightarrow> 'd autosave \<Rightarrow> 'd autosave" where
  "subscribe l q = q\<lparr>listeners := set_add l (listeners q)\<rparr>"

definition unsubscribe :: "nat \<Rightarrow> 'd autosave \<Rightarrow> 'd autosave" where
  "unsubscribe l q = q\<lparr>listeners := removeAll l (listeners q)\<rparr>"

definition emit :: "'d autosave \<Rightarrow> 'd autosave" where
  "emit q = (if disposed q then q else q\<lparr>calls := calls q @ listeners q\<rparr>)"

definition set_enabled :: "bool \<Rightarrow> 'd autosave \<Rightarrow> 'd autosave" where
  "set_enabled b q = (let q = q\<lparr>enabled := b\<rparr> in if b then q else q\<lparr>timer := False\<rparr>)"

definition update :: "'d \<Rightarrow> 'd autosave \<Rightarrow> 'd autosave" where
  "update snapshot q =
     (if disposed q \<or> snapshot = latest q then q
      else
        let q = q\<lparr>latest := snapshot\<rparr>;
            d = (latest q \<noteq> acknowledged q);
            q = emit (q\<lparr>dirty := d,
                  status := (if status q = Conflict then Conflict
                             else if status q = SaveError then SaveError
                             else if inFlight q then Saving
                             else if d then Pending else Saved)\<rparr>);
            q = q\<lparr>timer := False\<rparr>
        in if d \<and> enabled q \<and> status q \<noteq> Conflict \<and> status q \<noteq> SaveError \<and> flight q = NoFlight
           then q\<lparr>timer := True\<rparr> else q)"

text \<open>One turn of the loop of \<open>drain\<close>, up to the call of \<open>save\<close> or to the return.\<close>

definition drain :: "'d autosave \<Rightarrow> 'd autosave" where
  "drain q =
     (if dirty q \<and> enabled q \<and> \<not> disposed q
      then (emit (q\<lparr>status := Saving, inFlight := True, failure := None\<rparr>))
             \<lparr>flight := Awaiting (latest q) (version q)\<rparr>
      else q\<lparr>flight := Settling\<rparr>)"

datatype flush_result =
    Rejected "save_failure option"
  | SameFlight
  | Resolved int
  | NewFlight

definition flush :: "'d autosave \<Rightarrow> flush_result \<times> 'd autosave" where
  "flush q = (let q = q\<lparr>timer := False\<rparr> in
     if disposed q \<or> \<not> enabled q then (Rejected (Some ReadOnly), q)
     else if status q = Conflict then (Rejected (failure q), q)
     else if flight q \<noteq> NoFlight then (SameFlight, q)
     else if \<not> dirty q then (Resolved (version q), q)
     else (NewFlight, drain q))"

text \<open>The timer runs out: its callback flushes and ignores the outcome.\<close>

definition timer_fires :: "'d autosave \<Rightarrow> 'd autosave" where
  "timer_fires q = (if timer q then snd (flush (q\<lparr>timer := False\<rparr>)) else q)"

definition save_ok :: "int \<Rightarrow> int \<Rightarrow> 'd autosave \<Rightarrow> 'd autosave" where
  "save_ok v updated q = (case flight q of
     Awaiting snapshot sent \<Rightarrow>
       let q = q\<lparr>acknowledged := snapshot\<rparr>;
           d = (latest q \<noteq> snapshot);
           q = emit (q\<lparr>version := v, lastSaved := updated, dirty := d, inFlight := False,
                 status := (if d then Pending else Saved)\<rparr>)
       in drain q
   | _ \<Rightarrow> q)"

definition save_failed :: "save_failure \<Rightarrow> 'd autosave \<Rightarrow> 'd autosave" where
  "save_failed e q = (case flight q of
     Awaiting snapshot sent \<Rightarrow>
       (emit (q\<lparr>status := (case e of ContentVersionConflict _ \<Rightarrow> Conflict | _ \<Rightarrow> SaveError),
          failure := Some e, inFlight := False, dirty := True\<rparr>))\<lparr>flight := Settling\<rparr>
   | _ \<Rightarrow> q)"

definition settle :: "'d autosave \<Rightarrow> 'd autosave" where
  "settle q = (if flight q = Settling then
     let q = q\<lparr>flight := NoFlight\<rparr>
     in if dirty q \<and> status q = Pending \<and> enabled q \<and> \<not> disposed q then q\<lparr>timer := True\<rparr> else q
   else q)"

definition reload :: "'d \<Rightarrow> int \<Rightarrow> int \<Rightarrow> 'd autosave \<Rightarrow> string + 'd autosave" where
  "reload snapshot v saved q = throw_when (flight q \<noteq> NoFlight) ''Wait for the current save''
     (Inr (emit (q\<lparr>timer := False, latest := snapshot, acknowledged := snapshot, status := Saved,
        dirty := False, inFlight := False, failure := None, version := v, lastSaved := saved\<rparr>)))"

definition conflict :: "save_failure \<Rightarrow> 'd autosave \<Rightarrow> 'd autosave" where
  "conflict e q = emit (q\<lparr>timer := False, status := Conflict, failure := Some e\<rparr>)"

definition activate :: "'d autosave \<Rightarrow> 'd autosave" where
  "activate q = q\<lparr>disposed := False\<rparr>"

definition dispose :: "'d autosave \<Rightarrow> 'd autosave" where
  "dispose q = q\<lparr>disposed := True, timer := False, listeners := []\<rparr>"

section \<open>Runs\<close>

datatype 'd event =
    Subscribe nat
  | Unsubscribe nat
  | SetEnabled bool
  | Update 'd
  | Flush
  | TimerFires
  | SaveOk int int
  | SaveFailed save_failure
  | Settle
  | Reload 'd int int
  | ReportConflict save_failure
  | Activate
  | Dispose

definition event :: "'d event \<Rightarrow> 'd autosave \<Rightarrow> 'd autosave" where
  "event ev q = (case ev of
     Subscribe l \<Rightarrow> subscribe l q
   | Unsubscribe l \<Rightarrow> unsubscribe l q
   | SetEnabled b \<Rightarrow> set_enabled b q
   | Update d \<Rightarrow> update d q
   | Flush \<Rightarrow> snd (flush q)
   | TimerFires \<Rightarrow> timer_fires q
   | SaveOk v t \<Rightarrow> save_ok v t q
   | SaveFailed e \<Rightarrow> save_failed e q
   | Settle \<Rightarrow> settle q
   | Reload d v t \<Rightarrow> (case reload d v t q of Inl _ \<Rightarrow> q | Inr q' \<Rightarrow> q')
   | ReportConflict e \<Rightarrow> conflict e q
   | Activate \<Rightarrow> activate q
   | Dispose \<Rightarrow> dispose q)"

text \<open>
  The server keeps a content per version, \<open>stored\<close>. Its contract: a save that succeeds returns a
  version under which the sent snapshot is stored, and a reload passes a stored content with its
  version. Nothing is assumed about failed saves or about other writers.
\<close>

definition honest :: "(int \<Rightarrow> 'd option) \<Rightarrow> 'd event \<Rightarrow> 'd autosave \<Rightarrow> bool" where
  "honest stored ev q = (case ev of
     SaveOk v t \<Rightarrow> (case flight q of Awaiting d sent \<Rightarrow> stored v = Some d | _ \<Rightarrow> True)
   | Reload d v t \<Rightarrow> stored v = Some d
   | _ \<Rightarrow> True)"

inductive reachable :: "(int \<Rightarrow> 'd option) \<Rightarrow> 'd autosave \<Rightarrow> bool" for stored where
  start: "stored v = Some d \<Longrightarrow> reachable stored (new_queue d v saved)"
| step: "reachable stored q \<Longrightarrow> honest stored ev q \<Longrightarrow> reachable stored (event ev q)"

definition awaiting :: "'d autosave \<Rightarrow> bool" where
  "awaiting q = (case flight q of Awaiting _ _ \<Rightarrow> True | _ \<Rightarrow> False)"

text \<open>The invariant of the queue.\<close>

definition sound :: "(int \<Rightarrow> 'd option) \<Rightarrow> 'd autosave \<Rightarrow> bool" where
  "sound stored q \<longleftrightarrow>
     stored (version q) = Some (acknowledged q)
     \<and> (latest q \<noteq> acknowledged q \<longrightarrow> dirty q)
     \<and> (status q = Saved \<longrightarrow> \<not> dirty q)
     \<and> (status q = Saving \<longrightarrow> inFlight q)
     \<and> (inFlight q \<longrightarrow> status q = Saving \<or> status q = Conflict)
     \<and> (inFlight q \<longleftrightarrow> awaiting q)
     \<and> (timer q \<longrightarrow> flight q = NoFlight \<and> dirty q \<and> status q = Pending \<and> enabled q \<and> \<not> disposed q)
     \<and> (\<forall>d v. flight q = Awaiting d v \<longrightarrow> v = version q)"

lemma emit_simps [simp]:
  "latest (emit q) = latest q" "acknowledged (emit q) = acknowledged q" "timer (emit q) = timer q"
  "flight (emit q) = flight q" "disposed (emit q) = disposed q" "enabled (emit q) = enabled q"
  "listeners (emit q) = listeners q" "status (emit q) = status q" "dirty (emit q) = dirty q"
  "inFlight (emit q) = inFlight q" "version (emit q) = version q" "lastSaved (emit q) = lastSaved q"
  "failure (emit q) = failure q"
  by (simp_all add: emit_def)

lemmas queue_defs = subscribe_def unsubscribe_def set_enabled_def update_def drain_def flush_def
  timer_fires_def save_ok_def save_failed_def settle_def conflict_def activate_def
  dispose_def Let_def

lemma sound_event:
  assumes "sound stored q" and "honest stored ev q"
  shows "sound stored (event ev q)"
proof (cases ev)
  case (Update d)
  with assms show ?thesis
    by (auto simp: event_def update_def Let_def sound_def awaiting_def split: flight.splits)
next
  case Flush
  with assms show ?thesis
    by (auto simp: event_def flush_def drain_def Let_def sound_def awaiting_def split: flight.splits)
next
  case TimerFires
  with assms show ?thesis
    by (auto simp: event_def timer_fires_def flush_def drain_def Let_def sound_def awaiting_def
        split: flight.splits)
next
  case (SaveOk v t)
  with assms show ?thesis
    by (auto simp: event_def save_ok_def drain_def Let_def sound_def awaiting_def honest_def
        split: flight.splits)
next
  case (SaveFailed e)
  with assms show ?thesis
    by (auto simp: event_def save_failed_def sound_def awaiting_def
        split: flight.splits save_failure.splits)
next
  case Settle
  with assms show ?thesis
    by (auto simp: event_def settle_def Let_def sound_def awaiting_def split: flight.splits)
next
  case (Reload d v t)
  with assms show ?thesis
    by (auto simp: event_def reload_def throw_when_def sound_def awaiting_def honest_def
        split: flight.splits)
next
  case (ReportConflict e)
  with assms show ?thesis
    by (auto simp: event_def conflict_def sound_def awaiting_def split: flight.splits)
qed (use assms in \<open>auto simp: event_def queue_defs sound_def awaiting_def split: flight.splits\<close>)

lemma reachable_sound: "reachable stored q \<Longrightarrow> sound stored q"
proof (induction rule: reachable.induct)
  case (start v d saved)
  then show ?case by (auto simp: new_queue_def sound_def awaiting_def)
next
  case (step q ev)
  from step.IH step.hyps(2) show ?case by (rule sound_event)
qed

section \<open>Properties\<close>

text \<open>
  C12. "Saved" is true: in every state the queue can reach with an honest server, whatever
  saves failed and whoever else wrote, a queue that reports Saved holds exactly the content the
  server stores under the version the queue holds, and has neither a timer nor a save under way.
\<close>

theorem saved_means_stored:
  assumes "reachable stored q" and "status q = Saved"
  shows "stored (version q) = Some (latest q) \<and> \<not> dirty q \<and> \<not> timer q \<and> \<not> inFlight q"
  using reachable_sound [OF assms(1)] assms(2) by (auto simp: sound_def awaiting_def)

definition sample_stored :: "int \<Rightarrow> string option" where
  "sample_stored v = (if v = 5 then Some ''old'' else if v = 6 then Some ''new'' else None)"

definition sample_events :: "string event list" where
  "sample_events = [Update ''new'', TimerFires, SaveOk 6 100, Settle]"

lemma sample_start: "reachable sample_stored (new_queue ''old'' 5 0)"
  by (rule reachable.start) (simp add: sample_stored_def)

lemma sample_reachable:
  "reachable sample_stored (event Settle (event (SaveOk 6 100)
    (event TimerFires (event (Update ''new'') (new_queue ''old'' 5 0)))))"
  by (intro reachable.step sample_start)
    (simp_all add: honest_def event_def update_def timer_fires_def flush_def drain_def Let_def
      new_queue_def sample_stored_def)

lemma sample_final:
  "fold event sample_events (new_queue ''old'' 5 0) =
    event Settle (event (SaveOk 6 100) (event TimerFires (event (Update ''new'') (new_queue ''old'' 5 0))))"
  by (simp add: sample_events_def)

theorem saved_means_stored_witness:
  "sample_stored (version (fold event sample_events (new_queue ''old'' 5 0))) = Some ''new''"
proof -
  let ?q = "fold event sample_events (new_queue ''old'' 5 0)"
  have r: "reachable sample_stored ?q"
    unfolding sample_final by (rule sample_reachable)
  have "status ?q = Saved" and l: "latest ?q = ''new''" by code_simp+
  from saved_means_stored [OF r this(1)] show ?thesis by (simp only: l)
qed

text \<open>
  C13. Saves form a chain of versions, one at a time: a save under way was sent with the version
  under which the server stores the last acknowledged content, and a flush during it starts no
  second save.
\<close>

theorem saves_are_chained:
  assumes "reachable stored q" and "flight q = Awaiting d v"
  shows "v = version q \<and> stored v = Some (acknowledged q) \<and> inFlight q \<and> \<not> timer q
    \<and> flight (snd (flush q)) = Awaiting d v
    \<and> flight (event (Update e) q) = Awaiting d v"
  using reachable_sound [OF assms(1)] assms(2)
  by (auto simp: sound_def awaiting_def flush_def event_def update_def Let_def)

theorem saves_are_chained_witness:
  "flight (snd (flush (event TimerFires (event (Update ''new'') (new_queue ''old'' 5 0))))) = Awaiting ''new'' 5"
proof -
  let ?q = "event TimerFires (event (Update ''new'') (new_queue ''old'' 5 0))"
  have "reachable sample_stored ?q"
    by (intro reachable.step sample_start)
      (simp_all add: honest_def)
  moreover have "flight ?q = Awaiting ''new'' 5" by code_simp
  ultimately show ?thesis by (rule saves_are_chained [THEN conjunct2, THEN conjunct2, THEN conjunct2,
    THEN conjunct2, THEN conjunct1])
qed

text \<open>
  Edits made while a save is under way are coalesced into one further save: after any edits,
  the success of the first save either ends the flight, when the last edit is what was sent, or
  sends the last edit with the version just returned.
\<close>

lemma updates_keep:
  assumes "inFlight q" and "flight q = Awaiting d w" and "\<not> disposed q" and "enabled q"
  shows "flight (fold event (map Update ds) q) = Awaiting d w
    \<and> latest (fold event (map Update ds) q) = last (latest q # ds)
    \<and> \<not> disposed (fold event (map Update ds) q) \<and> enabled (fold event (map Update ds) q)"
  using assms
proof (induction ds arbitrary: q)
  case (Cons e ds)
  have "inFlight (event (Update e) q)" "flight (event (Update e) q) = Awaiting d w"
      "\<not> disposed (event (Update e) q)" "enabled (event (Update e) q)" "latest (event (Update e) q) = e"
    using Cons.prems by (auto simp: event_def update_def Let_def)
  from Cons.IH [OF this(1-4)] this(5) show ?case by simp
qed simp

lemma edits_are_coalesced:
  assumes "reachable stored q" and "flight q = Awaiting d w" and "enabled q" and "\<not> disposed q"
  shows "flight (event (SaveOk v t) (fold event (map Update ds) q)) =
      (if last (latest q # ds) = d then Settling else Awaiting (last (latest q # ds)) v)
    \<and> acknowledged (event (SaveOk v t) (fold event (map Update ds) q)) = d
    \<and> version (event (SaveOk v t) (fold event (map Update ds) q)) = v"
proof -
  have "inFlight q" using reachable_sound [OF assms(1)] assms(2) by (simp add: sound_def awaiting_def)
  from updates_keep [OF this assms(2,4,3), of ds] show ?thesis
    by (simp add: event_def save_ok_def drain_def Let_def)
qed

lemma edits_are_coalesced_witness:
  "flight (event (SaveOk 6 1) (fold event (map Update [''ab'', ''abc''])
    (event Flush (event (Update ''new'') (new_queue ''old'' 5 0))))) = Awaiting ''abc'' 6"
proof -
  let ?q = "event Flush (event (Update ''new'') (new_queue ''old'' 5 0))"
  have r: "reachable sample_stored ?q"
    by (intro reachable.step sample_start) (simp_all add: honest_def)
  have "flight ?q = Awaiting ''new'' 5" "enabled ?q" "\<not> disposed ?q" by code_simp+
  from edits_are_coalesced [OF r this, of 6 1 "[''ab'', ''abc'']"] show ?thesis by simp
qed

definition is_reload :: "'d event \<Rightarrow> bool" where
  "is_reload ev = (case ev of Reload _ _ _ \<Rightarrow> True | _ \<Rightarrow> False)"

definition is_answer :: "'d event \<Rightarrow> bool" where
  "is_answer ev = (case ev of SaveOk _ _ \<Rightarrow> True | SaveFailed _ \<Rightarrow> True | _ \<Rightarrow> False)"

lemma conflict_event:
  assumes "status q = Conflict" and "\<not> is_reload ev" and "awaiting q \<longrightarrow> \<not> is_answer ev"
  shows "status (event ev q) = Conflict \<and> version (event ev q) = version q
    \<and> acknowledged (event ev q) = acknowledged q
    \<and> (flight (event ev q) = flight q \<or> flight q = Settling \<and> flight (event ev q) = NoFlight)"
  using assms
  by (cases ev) (auto simp: event_def queue_defs is_reload_def is_answer_def awaiting_def split: flight.splits)

lemma save_ok_awaiting:
  assumes "flight q = Awaiting d sent"
  shows "version (event (SaveOk v t) q) = v \<and> acknowledged (event (SaveOk v t) q) = d
    \<and> status (event (SaveOk v t) q) \<in> {Saved, Pending, Saving}"
  using assms
  by (cases "latest q = d"; cases "enabled q \<and> \<not> disposed q") (auto simp: event_def save_ok_def drain_def Let_def)

text \<open>
  C14. A conflict stops the queue until a reload, or until the answer of a save that was already
  under way when it was reported. Up to then, whatever is edited, flushed, enabled or reported,
  the queue keeps reporting the conflict, keeps its version and what it holds as acknowledged, and
  starts no save: the save under way, if any, stays the only one, and with none under way none
  ever is. A successful answer of that save overwrites the conflict: its version and content are
  taken over and the queue is saved, pending or saving again.
\<close>

theorem conflict_stops_saving:
  assumes "status q = Conflict" and "\<not> list_ex is_reload evs"
    and "awaiting q \<longrightarrow> \<not> list_ex is_answer evs"
  shows "status (fold event evs q) = Conflict
    \<and> version (fold event evs q) = version q
    \<and> acknowledged (fold event evs q) = acknowledged q
    \<and> (flight (fold event evs q) = flight q
        \<or> flight q = Settling \<and> flight (fold event evs q) = NoFlight)
    \<and> (\<forall>d sent v t. flight q = Awaiting d sent \<longrightarrow>
        version (event (SaveOk v t) (fold event evs q)) = v
        \<and> acknowledged (event (SaveOk v t) (fold event evs q)) = d
        \<and> status (event (SaveOk v t) (fold event evs q)) \<in> {Saved, Pending, Saving})"
proof -
  have "status (fold event evs q) = Conflict \<and> version (fold event evs q) = version q
    \<and> acknowledged (fold event evs q) = acknowledged q
    \<and> (flight (fold event evs q) = flight q \<or> flight q = Settling \<and> flight (fold event evs q) = NoFlight)"
    using assms
  proof (induction evs arbitrary: q)
    case (Cons ev evs)
    then have "status (event ev q) = Conflict \<and> version (event ev q) = version q
        \<and> acknowledged (event ev q) = acknowledged q
        \<and> (flight (event ev q) = flight q \<or> flight q = Settling \<and> flight (event ev q) = NoFlight)"
      by (intro conflict_event) auto
    with Cons.IH [of "event ev q"] Cons.prems show ?case by (auto simp: awaiting_def)
  qed simp
  then show ?thesis
    using save_ok_awaiting [of "fold event evs q"] by (cases "flight q") (simp_all del: fold_simps)
qed

theorem conflict_stops_saving_witness:
  "status (fold event [Update ''x'', Flush, TimerFires, SetEnabled True]
      (fold event [Update ''local'', Flush, SaveFailed (ContentVersionConflict ''Conflict''), Settle]
        (new_queue ''old'' 5 0))) = Conflict
    \<and> version (event (SaveOk 6 1) (fold event [Update ''y'']
      (fold event [Update ''local'', Flush, ReportConflict (ContentVersionConflict ''Conflict'')]
        (new_queue ''old'' 5 0)))) = 6"
proof -
  let ?q = "fold event [Update ''local'', Flush, SaveFailed (ContentVersionConflict ''Conflict''), Settle]
      (new_queue ''old'' 5 0)"
  let ?r = "fold event [Update ''local'', Flush, ReportConflict (ContentVersionConflict ''Conflict'')]
      (new_queue ''old'' 5 0)"
  have "status ?q = Conflict" "\<not> awaiting ?q" by code_simp+
  with conflict_stops_saving [of ?q "[Update ''x'', Flush, TimerFires, SetEnabled True]"]
  have "status (fold event [Update ''x'', Flush, TimerFires, SetEnabled True] ?q) = Conflict"
    by (simp add: is_reload_def del: fold_simps)
  moreover have "status ?r = Conflict" "flight ?r = Awaiting ''local'' 5" by code_simp+
  with conflict_stops_saving [of ?r "[Update ''y'']"]
  have "version (event (SaveOk 6 1) (fold event [Update ''y''] ?r)) = 6"
    by (simp add: is_reload_def is_answer_def del: fold_simps)
  ultimately show ?thesis ..
qed

text \<open>
  C15. No pending edit is forgotten while the queue stays enabled: as long as nothing re-enables
  or re-activates it, a queue that reports Pending and may save has its timer running or a save
  under way.
\<close>

definition armed :: "'d autosave \<Rightarrow> bool" where
  "armed q \<longleftrightarrow> (status q = Pending \<and> enabled q \<and> \<not> disposed q \<longrightarrow> timer q \<or> flight q \<noteq> NoFlight)"

definition re_enables :: "'d event \<Rightarrow> bool" where
  "re_enables ev = (case ev of SetEnabled b \<Rightarrow> b | Activate \<Rightarrow> True | _ \<Rightarrow> False)"

definition pending_dirty :: "'d autosave \<Rightarrow> bool" where
  "pending_dirty q \<longleftrightarrow> (status q = Pending \<longrightarrow> dirty q) \<and> (inFlight q \<longleftrightarrow> awaiting q)"

lemma pending_dirty_event: "pending_dirty q \<Longrightarrow> pending_dirty (event ev q)"
  by (cases ev) (auto simp: event_def queue_defs reload_def throw_when_def pending_dirty_def
      awaiting_def split: flight.splits save_failure.splits)

lemma armed_event:
  assumes "armed q" and "pending_dirty q" and "\<not> re_enables ev"
  shows "armed (event ev q)"
proof (cases ev)
  case (SaveOk v t)
  with assms show ?thesis
    by (cases "flight q") (auto simp: event_def armed_def save_ok_def drain_def Let_def)
next
  case (SaveFailed e)
  with assms show ?thesis
    by (cases "flight q"; cases e) (auto simp: event_def armed_def save_failed_def)
next
  case (Update d)
  with assms show ?thesis
    by (auto simp: event_def armed_def update_def Let_def pending_dirty_def awaiting_def)
next
  case (Reload d v t)
  with assms show ?thesis
    by (auto simp: event_def armed_def reload_def throw_when_def)
next
  case Flush
  with assms show ?thesis
    by (auto simp: event_def armed_def flush_def drain_def Let_def pending_dirty_def)
next
  case TimerFires
  with assms show ?thesis
    by (auto simp: event_def armed_def timer_fires_def flush_def drain_def Let_def pending_dirty_def)
next
  case Settle
  with assms show ?thesis
    by (auto simp: event_def armed_def settle_def Let_def pending_dirty_def)
qed (use assms in \<open>auto simp: event_def armed_def re_enables_def subscribe_def unsubscribe_def
    set_enabled_def conflict_def dispose_def Let_def\<close>)

theorem pending_edits_are_armed:
  assumes "\<not> list_ex re_enables evs"
  shows "armed (fold event evs (new_queue d v saved))"
proof -
  have "armed (fold event evs q) \<and> pending_dirty (fold event evs q)"
    if "armed q \<and> pending_dirty q" for q :: "'a autosave"
    using assms that
  proof (induction evs arbitrary: q)
    case (Cons ev evs)
    then show ?case using armed_event [of q ev] pending_dirty_event [of q ev] by simp
  qed simp
  moreover have "armed (new_queue d v saved) \<and> pending_dirty (new_queue d v saved)"
    by (simp add: armed_def pending_dirty_def new_queue_def awaiting_def)
  ultimately show ?thesis by blast
qed

theorem pending_edits_are_armed_witness:
  "timer (fold event [Update ''a'', Flush, Update ''ab'', SaveOk 6 1, SaveOk 7 2, Update ''x'', Settle]
    (new_queue ''old'' 5 0))"
proof -
  let ?q = "fold event [Update ''a'', Flush, Update ''ab'', SaveOk 6 1, SaveOk 7 2, Update ''x'', Settle]
    (new_queue ''old'' 5 0)"
  have "armed ?q" by (rule pending_edits_are_armed) (simp add: re_enables_def)
  moreover have "status ?q = Pending" "enabled ?q" "\<not> disposed ?q" "flight ?q = NoFlight"
    by code_simp+
  ultimately show ?thesis by (simp only: armed_def simp_thms)
qed

text \<open>
  Enabling the queue again does not restart the timer: an edit made while saving is disabled
  stays pending, with no timer and no save, until the next edit or an explicit flush.
\<close>

lemma reenabled_edit_waits:
  assumes "d \<noteq> initial"
  shows "\<not> armed (fold event [SetEnabled False, Update d, SetEnabled True] (new_queue initial v saved))
    \<and> dirty (fold event [SetEnabled False, Update d, SetEnabled True] (new_queue initial v saved))"
  using assms
  by (simp add: armed_def event_def set_enabled_def update_def new_queue_def Let_def)

lemma reenabled_edit_waits_witness:
  "\<not> timer (fold event [SetEnabled False, Update ''b'', SetEnabled True] (new_queue ''a'' 1 0))"
  using reenabled_edit_waits [of "''b''" "''a''" 1 0] by (auto simp: armed_def)

end
