(* ===== verification/TopicOrder.thy ===== *)
theory TopicOrder
  imports JsPrelude
begin

text \<open>
  \<open>apps/admin/src/features/content/topic-order.ts\<close>: moving one entry of a topic's reading list.
  The list has one boundary: the first \<open>recommendedCount\<close> entries are the recommended ones.
  Indexes are integers, as a drag may point before the start or past the end.
\<close>

text \<open>\<open>list.splice(index, 0, x)\<close>: a negative index counts from the end, a large one is the end.\<close>

definition js_insert_at :: "int \<Rightarrow> 'a \<Rightarrow> 'a list \<Rightarrow> 'a list" where
  "js_insert_at index x xs =
     (let n = int (length xs);
          k = nat (if index < 0 then max 0 (n + index) else min index n)
      in take k xs @ x # drop k xs)"

definition reorder_topic ::
  "'e list \<Rightarrow> int \<Rightarrow> int \<Rightarrow> int \<Rightarrow> bool \<Rightarrow> 'e list \<times> int" where
  "reorder_topic entries recommendedCount source target recommended =
     (if source < 0 \<or> source \<ge> int (length entries) then (entries, recommendedCount)
      else
        let item = entries ! nat source;
            rest = take (nat source) entries @ drop (Suc (nat source)) entries;
            count = recommendedCount - js_number (source < recommendedCount);
            index = (if recommended then min (max 0 target) count
                     else max count (min target (int (length rest))))
        in (js_insert_at index item rest, count + js_number recommended))"

section \<open>One move\<close>

text \<open>The two sections of a list with its boundary.\<close>

definition recommended_part :: "'e list \<times> int \<Rightarrow> 'e list" where
  "recommended_part r = take (nat (snd r)) (fst r)"

definition other_part :: "'e list \<times> int \<Rightarrow> 'e list" where
  "other_part r = drop (nat (snd r)) (fst r)"

lemma removeAll_middle: "distinct (xs @ e # ys) \<Longrightarrow> removeAll e (xs @ e # ys) = xs @ ys"
  by simp

lemma sections_of_rest:
  assumes "distinct (xs @ e # ys)"
  shows "take (if length xs < c then c - 1 else c) (xs @ ys) = removeAll e (take c (xs @ e # ys))"
    and "drop (if length xs < c then c - 1 else c) (xs @ ys) = removeAll e (drop c (xs @ e # ys))"
proof -
  have e: "e \<notin> set xs" "e \<notin> set ys" using assms by auto
  then have parts: "e \<notin> set (take n xs)" "e \<notin> set (drop n xs)" "e \<notin> set (take n ys)"
      "e \<notin> set (drop n ys)" for n
    by (auto dest: in_set_takeD in_set_dropD)
  have "take (if length xs < c then c - 1 else c) (xs @ ys) = removeAll e (take c (xs @ e # ys))
    \<and> drop (if length xs < c then c - 1 else c) (xs @ ys) = removeAll e (drop c (xs @ e # ys))"
  proof (cases "length xs < c")
    case True
    then obtain d where "c = Suc (length xs + d)" using less_iff_Suc_add by blast
    then show ?thesis using e parts by simp
  qed (use e parts in simp)
  then show "take (if length xs < c then c - 1 else c) (xs @ ys) = removeAll e (take c (xs @ e # ys))"
    and "drop (if length xs < c then c - 1 else c) (xs @ ys) = removeAll e (drop c (xs @ e # ys))"
    by blast+
qed

lemma insert_sections:
  assumes "e \<notin> set rest" and "k \<le> length rest" and "c \<le> length rest"
    and "if recommended then k \<le> c else c \<le> k"
  shows "removeAll e (take (c + (if recommended then 1 else 0)) (take k rest @ e # drop k rest)) = take c rest
    \<and> removeAll e (drop (c + (if recommended then 1 else 0)) (take k rest @ e # drop k rest)) = drop c rest
    \<and> (e \<in> set (take (c + (if recommended then 1 else 0)) (take k rest @ e # drop k rest)) \<longleftrightarrow> recommended)"
proof -
  have parts: "e \<notin> set (take n rest)" "e \<notin> set (drop n rest)" "e \<notin> set (take n (drop k rest))"
      "e \<notin> set (drop n (drop k rest))"
      "e \<notin> set (drop n (take k rest))" for n
    using assms(1) by (auto dest: in_set_takeD in_set_dropD)
  show ?thesis
  proof (cases recommended)
    case True
    then have k: "k \<le> c" using assms(4) by simp
    have "take c rest = take k rest @ take (c - k) (drop k rest)"
      using take_add [of k "c - k" rest] k by simp
    moreover have "drop (c - k) (drop k rest) = drop c rest" using k by simp
    ultimately show ?thesis using True k parts assms(2)
      by (simp add: Suc_diff_le min_absorb2)
  next
    case False
    then have k: "c \<le> k" using assms(4) by simp
    have "take c (take k rest) = take c rest" using k by (simp add: min_absorb1)
    moreover have "drop c rest = drop c (take k rest) @ drop k rest"
      using k assms(2) by (metis append_take_drop_id drop_append diff_is_0_eq drop_0 length_take min_absorb2)
    ultimately show ?thesis using False k parts assms(2)
      by (auto simp: min_absorb2 dest: in_set_dropD in_set_takeD)
  qed
qed

lemma js_insert_at_inside:
  "0 \<le> i \<Longrightarrow> i \<le> int (length xs) \<Longrightarrow> js_insert_at i x xs = take (nat i) xs @ x # drop (nat i) xs"
  by (simp add: js_insert_at_def Let_def)

text \<open>
  C16. Moving an entry, within a section or across the boundary, loses and duplicates nothing:
  the new list is a permutation of the old one with a valid boundary, the moved entry is in the
  section it was dropped on, and both sections are otherwise unchanged, in order.
\<close>

theorem reorder_topic_correct:
  assumes "distinct entries" and "0 \<le> rc" and "rc \<le> int (length entries)"
    and "0 \<le> source" and "source < int (length entries)"
  shows "mset (fst (reorder_topic entries rc source target rec)) = mset entries
    \<and> 0 \<le> snd (reorder_topic entries rc source target rec)
    \<and> snd (reorder_topic entries rc source target rec) \<le> int (length entries)
    \<and> (entries ! nat source \<in> set (recommended_part (reorder_topic entries rc source target rec)) \<longleftrightarrow> rec)
    \<and> removeAll (entries ! nat source) (recommended_part (reorder_topic entries rc source target rec)) =
        removeAll (entries ! nat source) (recommended_part (entries, rc))
    \<and> removeAll (entries ! nat source) (other_part (reorder_topic entries rc source target rec)) =
        removeAll (entries ! nat source) (other_part (entries, rc))"
proof -
  let ?i = "nat source" and ?e = "entries ! nat source"
  let ?xs = "take ?i entries" and ?ys = "drop (Suc ?i) entries"
  have i: "?i < length entries" using assms(4,5) by linarith
  have split: "entries = ?xs @ ?e # ?ys" using i by (simp add: id_take_nth_drop [symmetric])
  have dist: "distinct (?xs @ ?e # ?ys)" using assms(1) split by simp
  let ?rest = "?xs @ ?ys"
  have e: "?e \<notin> set ?rest" using dist by auto
  define c where "c = (if length ?xs < nat rc then nat rc - 1 else nat rc)"
  have len: "length ?xs = ?i" "length ?rest = length entries - 1" using i by auto
  have c: "rc - js_number (source < rc) = int c"
    using assms(2,4) len(1) by (auto simp: c_def js_number_def)
  have c_le: "c \<le> length ?rest" using assms(2,3) len i by (auto simp: c_def)
  define index where "index = (if rec then min (max 0 target) (int c)
    else max (int c) (min target (int (length ?rest))))"
  have index: "0 \<le> index" "index \<le> int (length ?rest)" using c_le
    by (simp_all add: index_def min_def max_def del: length_append)
  have side: "if rec then nat index \<le> c else c \<le> nat index" by (auto simp: index_def)
  have result: "reorder_topic entries rc source target rec =
      (take (nat index) ?rest @ ?e # drop (nat index) ?rest, int (c + (if rec then 1 else 0)))"
  proof -
    have "\<not> (source < 0 \<or> int (length entries) \<le> source)" using assms(4,5) by simp
    then have "reorder_topic entries rc source target rec =
        (js_insert_at index ?e ?rest, int c + js_number rec)"
      unfolding reorder_topic_def Let_def c index_def by (simp only: if_False)
    then show ?thesis using js_insert_at_inside [OF index] by (simp add: js_number_def)
  qed
  have "nat index \<le> length ?rest" using index by linarith
  note sections = insert_sections [OF e this c_le side]
  have "mset (take (nat index) ?rest @ ?e # drop (nat index) ?rest) = add_mset ?e (mset ?rest)"
    by (metis append_take_drop_id mset.simps(2) mset_append union_mset_add_mset_right)
  also have "\<dots> = mset (?xs @ ?e # ?ys)" by simp
  finally have perm: "mset (take (nat index) ?rest @ ?e # drop (nat index) ?rest) = mset entries"
    by (simp only: split [symmetric])
  have bound: "c + (if rec then 1 else 0) \<le> length entries" using c_le len(2) i by auto
  have old: "take c ?rest = removeAll ?e (take (nat rc) entries)"
      "drop c ?rest = removeAll ?e (drop (nat rc) entries)"
    unfolding c_def using sections_of_rest [OF dist, of "nat rc"] by (simp_all only: split [symmetric])
  show ?thesis
    unfolding result recommended_part_def other_part_def fst_conv snd_conv nat_int
    by (intro conjI perm sections [THEN conjunct2, THEN conjunct2]
        trans [OF sections [THEN conjunct1] old(1)]
        trans [OF sections [THEN conjunct2, THEN conjunct1] old(2)])
      (use bound in simp_all)
qed

theorem reorder_topic_correct_witness:
  "reorder_topic [10, 11, 12, 13 :: int] 2 3 0 True = ([13, 10, 11, 12], 3)
    \<and> mset (fst (reorder_topic [10, 11, 12, 13 :: int] 2 0 9 False)) = {#10, 11, 12, 13#}
    \<and> snd (reorder_topic [10, 11, 12, 13 :: int] 2 0 9 False) = 1"
proof -
  have "mset (fst (reorder_topic [10, 11, 12, 13 :: int] 2 0 9 False)) = mset [10, 11, 12, 13]"
    using reorder_topic_correct [of "[10, 11, 12, 13 :: int]" 2 0 9 False] by simp
  then show ?thesis by (simp add: reorder_topic_def js_insert_at_def js_number_def)
qed

end
