(* ===== verification/JsonValue.thy ===== *)
theory JsonValue
  imports JsPrelude
begin

text \<open>
  JavaScript values as they come out of \<open>JSON.parse\<close>, with \<open>undefined\<close> for a missing property,
  and numbers that need not be finite. A finite number is a rational; the code adds and compares
  numbers within \<open>Number.MAX_SAFE_INTEGER\<close>, where integers are exact. An object is its list of own
  properties in order.
\<close>

datatype js_num = Fin rat | PosInf | NegInf | NaN

datatype json =
    JUndef
  | JNull
  | JBool bool
  | JNum js_num
  | JStr string
  | JArr "json list"
  | JObj "(string \<times> json) list"

definition max_safe :: rat where
  "max_safe = 9007199254740991"

definition truthy :: "json \<Rightarrow> bool" where
  "truthy v = (case v of
     JUndef \<Rightarrow> False
   | JNull \<Rightarrow> False
   | JBool b \<Rightarrow> b
   | JNum n \<Rightarrow> (case n of Fin q \<Rightarrow> q \<noteq> 0 | NaN \<Rightarrow> False | _ \<Rightarrow> True)
   | JStr s \<Rightarrow> s \<noteq> []
   | _ \<Rightarrow> True)"

text \<open>\<open>o[k]\<close> for an own property of an object.\<close>

definition field :: "(string \<times> json) list \<Rightarrow> string \<Rightarrow> json" where
  "field obj k = (case map_of obj k of Some v \<Rightarrow> v | None \<Rightarrow> JUndef)"

text \<open>
  \<open>v.k\<close> for a value that is neither \<open>null\<close> nor \<open>undefined\<close>, and a name that only objects of the
  program carry.
\<close>

definition get :: "json \<Rightarrow> string \<Rightarrow> json" where
  "get v k = (case v of JObj obj \<Rightarrow> field obj k | _ \<Rightarrow> JUndef)"

definition as_string :: "json \<Rightarrow> string option" where
  "as_string v = (case v of JStr s \<Rightarrow> Some s | _ \<Rightarrow> None)"

text \<open>\<open>a === b\<close> for two values of which at least one is fresh: objects are never the same.\<close>

definition strict_equal :: "json \<Rightarrow> json \<Rightarrow> bool" where
  "strict_equal a b = (case a of JArr _ \<Rightarrow> False | JObj _ \<Rightarrow> False | JNum NaN \<Rightarrow> False | _ \<Rightarrow> a = b)"

text \<open>\<open>Number.isFinite\<close> and \<open>Number.isSafeInteger\<close>.\<close>

definition finite_number :: "json \<Rightarrow> rat option" where
  "finite_number v = (case v of JNum (Fin q) \<Rightarrow> Some q | _ \<Rightarrow> None)"

definition safe_integer :: "json \<Rightarrow> int option" where
  "safe_integer v = (case v of
     JNum (Fin q) \<Rightarrow> if q = of_int \<lfloor>q\<rfloor> \<and> \<bar>q\<bar> \<le> max_safe then Some \<lfloor>q\<rfloor> else None
   | _ \<Rightarrow> None)"

definition json_int :: "int \<Rightarrow> json" where
  "json_int i = JNum (Fin (of_int i))"

lemma safe_integer_int [simp]:
  "safe_integer (json_int i) = (if \<bar>i\<bar> \<le> 9007199254740991 then Some i else None)"
proof -
  have e: "(\<bar>of_int i\<bar> :: rat) = of_int \<bar>i\<bar>" "max_safe = of_int 9007199254740991"
    by (simp_all add: max_safe_def)
  have "(\<bar>of_int i\<bar> :: rat) \<le> max_safe \<longleftrightarrow> \<bar>i\<bar> \<le> 9007199254740991"
    unfolding e by (rule of_int_le_iff)
  then show ?thesis by (simp only: safe_integer_def json_int_def json.case js_num.case floor_of_int) simp
qed

lemma safe_integer_form: "safe_integer v = Some i \<Longrightarrow> v = json_int i"
  by (auto simp: safe_integer_def json_int_def split: json.splits js_num.splits if_splits)

lemma safe_integer_Some:
  "safe_integer v = Some i \<longleftrightarrow> v = json_int i \<and> \<bar>i\<bar> \<le> 9007199254740991"
proof
  assume s: "safe_integer v = Some i"
  then have v: "v = json_int i" by (rule safe_integer_form)
  with s show "v = json_int i \<and> \<bar>i\<bar> \<le> 9007199254740991" by (simp split: if_splits)
qed simp

lemma as_string_Some [simp]: "as_string v = Some s \<longleftrightarrow> v = JStr s"
  by (cases v) (simp_all add: as_string_def)

lemma get_JObj: "get (JObj obj) k = field obj k"
  by (simp add: get_def)

lemma field_simps [simp]:
  "field [] k = JUndef"
  "field ((k', v) # obj) k = (if k' = k then v else field obj k)"
  by (simp_all add: field_def)

lemma truthy_simps [simp]:
  "\<not> truthy JUndef" "\<not> truthy JNull" "truthy (JBool b) = b" "truthy (JObj obj)" "truthy (JArr xs)"
  "truthy (JStr s) \<longleftrightarrow> s \<noteq> []"
  by (simp_all add: truthy_def)

end
