(* ===== verification/StatsTypes.thy ===== *)
theory StatsTypes
  imports JsonValue PublicTypes
begin

text \<open>
  The data of the statistics pipeline: \<open>apps/web/src/lib/stats/readership-contract.ts\<close>,
  \<open>apps/web/stats/rum/types.ts\<close> and the types of \<open>apps/web/stats/manifest.ts\<close>. A string union is
  a datatype, \<open>T | null\<close> an option; metrics are rationals, counts and limits integers. Fields with
  one possible value (\<open>timezone\<close>, \<open>source\<close>, \<open>requestHost\<close>, \<open>schemaVersion\<close>) are left out of the
  records, except the bot filter, which the code compares.
\<close>

section \<open>The manifest\<close>

record stats_counts =
  notes_count :: int
  articles_count :: int
  topics_count :: int
  tags_count :: int

record stats_route =
  sr_path :: string
  sr_canonical :: string
  sr_title :: string

text \<open>The hash is kept as the value it was read as.\<close>

record stats_manifest =
  sm_generation :: int
  sm_sha256 :: json
  sm_counts :: stats_counts
  sm_routes :: "stats_route list"

section \<open>The readership contract\<close>

datatype stats_range = Range7 | Range30 | Range90
datatype coverage_state = Complete | Partial | Unavailable
datatype source_key = DirectUnknown | SearchSource | ExternalOther
datatype site_quality = Observed | SampledEstimate | PartialSite

definition ranges :: "stats_range list" where
  "ranges = [Range7, Range30, Range90]"

definition range_days :: "stats_range \<Rightarrow> nat" where
  "range_days r = (case r of Range7 \<Rightarrow> 7 | Range30 \<Rightarrow> 30 | Range90 \<Rightarrow> 90)"

definition rum_bot_filter :: string where
  "rum_bot_filter = ''cloudflare-rum-bot-0''"

record coverage =
  cov_available :: bool
  cov_status :: coverage_state
  cov_days :: nat
  cov_startedAt :: "string option"
  cov_lastCompleteDay :: "string option"
  cov_lastSyncedAt :: "string option"

record totals =
  tot_pageLoads :: rat
  tot_visits :: rat

record daily =
  daily_date :: string
  daily_pageLoads :: "rat option"
  daily_visits :: "rat option"
  daily_quality :: "site_quality option"

record popular_page =
  pop_path :: string
  pop_title :: string
  pop_pageLoads :: rat
  pop_share :: rat

record readership =
  rs_range :: stats_range
  rs_start :: string
  rs_end :: string
  rs_botFilter :: string
  rs_estimated :: bool
  rs_site :: coverage
  rs_pages :: coverage
  rs_referrers :: coverage
  rs_totals :: "totals option"
  rs_daily :: "daily list"
  rs_popular :: "popular_page list"
  rs_sources :: "(source_key \<times> rat) list"

section \<open>One day of RUM data\<close>

record rum_config =
  accountId :: json
  rumSiteTag :: json
  rum_token :: json
  rum_requestHost :: json
  groupLimit :: json

record rum_settings =
  maxDuration :: int
  maxPageSize :: int
  notOlderThan :: int
  maxNumberOfFields :: int

datatype rum_warning =
    SampledEstimateWarning
  | SamplingUnknown
  | SampledGroupCoverageUnverified
  | GroupLimitReached
  | PageLoadsMismatch
  | VisitsMismatch

datatype sampled = SampledYes | SampledNo | SampledUnknown

record rum_quality =
  rq_status :: coverage_state
  rq_botFilter :: string
  rq_sampled :: sampled
  rq_range :: "(rat \<times> rat) option"
  rq_warnings :: "rum_warning list"

record rum_counts =
  rc_pageLoads :: rat
  rc_visits :: rat
  rc_sampleInterval :: "rat option"

record rum_page = rum_counts +
  rp_path :: string

datatype referral_category = Internal | DirectUnknownCategory | SearchCategory | External

record rum_referral = rum_counts +
  rr_source :: string
  rr_category :: referral_category

record rum_coverage =
  rg_returnedGroups :: nat
  rg_limit :: int
  rg_pageLoads :: rat
  rg_visits :: rat
  rg_pageLoadsDelta :: rat
  rg_visitsDelta :: rat

record 'r rum_groups =
  rg_rows :: "'r list"
  rg_quality :: rum_quality
  rg_coverage :: rum_coverage

datatype rum_error =
    ServerOnly
  | InvalidConfig
  | InvalidDate
  | IncompleteDay
  | DatasetDisabled
  | FieldsUnavailable
  | QueryLimit
  | OutsideRetention
  | Unauthorized
  | Forbidden
  | RateLimited
  | HttpError
  | NetworkError
  | Timeout
  | Aborted
  | ResponseTooLarge
  | InvalidJson
  | GraphqlError
  | AccountUnavailable
  | InvalidResponse

datatype rum_stage = InputStage | SettingsStage | SiteStage | PagesStage | ReferrersStage

record rum_window =
  startInclusive :: string
  endExclusive :: string

record rum_context =
  rd_dateUtc :: "string option"
  rd_window :: "rum_window option"
  rd_settings :: "rum_settings option"
  rd_quality :: rum_quality

record rum_data =
  rd_readAt :: string
  rd_site :: rum_counts
  rd_siteQuality :: rum_quality
  rd_pages :: "rum_page rum_groups"
  rd_referrers :: "rum_referral rum_groups"

datatype rum_day =
    RumOk rum_context rum_data
  | RumFailed rum_context rum_stage rum_error

text \<open>The errors the statistics modules throw, by their message.\<close>

datatype stats_error =
    StatsManifestInvalid
  | StatsManifestUnavailable
  | StatsManifestMismatch
  | StatsRouteConflict
  | StatsFilterMismatch
  | StatsStorageUnavailable
  | StatsSyncUnavailable
  | StatsRum rum_error
  | StatsDateInvalid
  | StatsPublic public_error
  | StatsTypeError

end
