(* ===== verification/StatsManifest.thy ===== *)
theory StatsManifest
  imports StatsTypes JsRegex
begin

text \<open>
  \<open>apps/web/stats/manifest.ts\<close>: the check of the statistics manifest and its loading. The
  input of \<open>validateManifest\<close> is any JSON value. \<open>assets.fetch\<close> is the argument \<open>asset\<close>: the
  status and the parsed text of a path of the deployment.
\<close>

text \<open>\<open>/^\/(?:[a-z0-9]+(?:-[a-z0-9]+)*\/)*$/\<close> and \<open>/^\/(?:api|_private|admin)(?:\/|$)/\<close>\<close>

definition public_path_rx :: rx where
  "public_path_rx = Seq (Lit CHR ''/'') (Star segment_rx)"

definition private_prefix :: "string \<Rightarrow> bool" where
  "private_prefix path \<longleftrightarrow> list_ex (\<lambda>w. prefix (''/'' @ w) path
     \<and> (drop (length w + 1) path = [] \<or> hd (drop (length w + 1) path) = CHR ''/''))
     [''api'', ''_private'', ''admin'']"

definition public_path :: "json \<Rightarrow> string option" where
  "public_path v = (case v of
     JStr path \<Rightarrow> if rx_test public_path_rx path \<and> length path \<le> 1000 \<and> \<not> private_prefix path
       then Some path else None
   | _ \<Rightarrow> None)"

text \<open>
  \<open>/^[a-f0-9]{64}$/.test(v)\<close> turns its argument into a string: an array into the strings of its
  elements joined by commas, where \<open>null\<close> and \<open>undefined\<close> give the empty string. An object is turned
  by calling its \<open>toString\<close>; when it has a property of that name of its own, that is no function, so
  the inherited \<open>valueOf\<close> is called, which returns the object again, or its own \<open>valueOf\<close> is no
  function either: the test throws a \<open>TypeError\<close>, \<open>text_fails\<close>. So \<open>hex_text\<close> holds for a string of
  64 digits and for arrays of one element around one.
\<close>

fun text_fails :: "json \<Rightarrow> bool" where
  "text_fails (JObj obj) = map_has obj ''toString''"
| "text_fails (JArr vs) = list_ex text_fails vs"
| "text_fails _ = False"

fun hex_text :: "json \<Rightarrow> bool" where
  "hex_text (JStr s) = rx_test (Times 64 (Cls hex_class)) s"
| "hex_text (JArr [v]) = hex_text v"
| "hex_text _ = False"

lemma hex_text_text: "hex_text v \<Longrightarrow> \<not> text_fails v"
  by (induction v rule: hex_text.induct) auto

definition natural_count :: "json \<Rightarrow> int option" where
  "natural_count v = (case safe_integer v of Some i \<Rightarrow> if 0 \<le> i then Some i else None | None \<Rightarrow> None)"

definition manifest_counts :: "json \<Rightarrow> stats_counts option" where
  "manifest_counts c = (if \<not> truthy c then None else
     (case (natural_count (get c ''notes''), natural_count (get c ''curatedArticles''),
        natural_count (get c ''topics''), natural_count (get c ''tags'')) of
        (Some n, Some a, Some t, Some g) \<Rightarrow> Some \<lparr>notes_count = n, articles_count = a,
          topics_count = t, tags_count = g\<rparr>
      | _ \<Rightarrow> None))"

definition manifest_route :: "json \<Rightarrow> stats_route option" where
  "manifest_route row = (if \<not> truthy row then None else
     (case (public_path (get row ''path''), public_path (get row ''canonicalPath''),
        as_string (get row ''title'')) of
        (Some path, Some canonical, Some title) \<Rightarrow>
          if js_trim title = [] \<or> length title > 500 then None
          else Some \<lparr>sr_path = path, sr_canonical = canonical, sr_title = title\<rparr>
      | _ \<Rightarrow> None))"

definition add_manifest_route ::
  "json \<Rightarrow> stats_route list \<times> (string \<times> string) list
    \<Rightarrow> stats_error + stats_route list \<times> (string \<times> string) list" where
  "add_manifest_route row st = (case manifest_route row of
     None \<Rightarrow> Inl StatsManifestInvalid
   | Some r \<Rightarrow> throw_when (map_has (snd st) (sr_path r)) StatsManifestInvalid
       (Inr (fst st @ [r], AList.update (sr_path r) (sr_canonical r) (snd st))))"

definition validate_manifest :: "json \<Rightarrow> stats_error + stats_manifest" where
  "validate_manifest m =
     throw_when (\<not> truthy m \<or> get m ''schemaVersion'' \<noteq> json_int 1) StatsManifestInvalid
     (case safe_integer (get m ''generation'') of
        None \<Rightarrow> Inl StatsManifestInvalid
      | Some g \<Rightarrow>
          throw_when (g < 1) StatsManifestInvalid
          (throw_when (text_fails (get m ''snapshotSha256'')) StatsTypeError
          (throw_when (\<not> hex_text (get m ''snapshotSha256'')) StatsManifestInvalid
          (case (manifest_counts (get m ''counts''), get m ''routes'') of
             (Some counts, JArr rows) \<Rightarrow>
               throw_when (length rows > 50000) StatsManifestInvalid
               (ebind (efold add_manifest_route rows ([], [])) (\<lambda>st.
                throw_when (list_ex (\<lambda>target. map_of (snd st) target \<noteq> Some target) (map_values (snd st)))
                  StatsManifestInvalid
                  (Inr \<lparr>sm_generation = g, sm_sha256 = get m ''snapshotSha256'',
                     sm_counts = counts, sm_routes = fst st\<rparr>)))
           | _ \<Rightarrow> Inl StatsManifestInvalid))))"

text \<open>
  A response of the deployment: whether it is \<open>ok\<close>, its length, and the value of its text
  (\<open>None\<close> when \<open>JSON.parse\<close> throws).
\<close>

record asset_response =
  asset_ok :: bool
  asset_length :: nat
  asset_json :: "json option"

definition manifest_path :: string where
  "manifest_path = ''/.well-known/gopheratlas-stats.json''"

definition read_asset :: "(string \<Rightarrow> asset_response) \<Rightarrow> string \<Rightarrow> stats_error + json" where
  "read_asset fetch path = (let response = fetch path in
     throw_when (\<not> asset_ok response) StatsManifestUnavailable
     (throw_when (asset_length response > 8 * 1024 * 1024) StatsManifestInvalid
     (case asset_json response of None \<Rightarrow> Inl StatsTypeError | Some v \<Rightarrow> Inr v)))"

definition load_manifest :: "(string \<Rightarrow> asset_response) \<Rightarrow> stats_error + stats_manifest" where
  "load_manifest fetch =
     ebind (read_asset fetch manifest_path) (\<lambda>v.
     ebind (validate_manifest v) (\<lambda>manifest.
     ebind (read_asset fetch ''/.well-known/gopheratlas-build.json'') (\<lambda>marker.
     throw_when (marker = JNull) StatsTypeError
     (throw_when (\<not> strict_equal (get marker ''generation'') (json_int (sm_generation manifest))
         \<or> \<not> strict_equal (get marker ''snapshotSha256'') (sm_sha256 manifest))
       StatsManifestMismatch
       (Inr manifest)))))"

section \<open>What a valid manifest is\<close>

definition route_valid :: "stats_route \<Rightarrow> bool" where
  "route_valid r \<longleftrightarrow> public_path (JStr (sr_path r)) \<noteq> None \<and> public_path (JStr (sr_canonical r)) \<noteq> None
     \<and> js_trim (sr_title r) \<noteq> [] \<and> length (sr_title r) \<le> 500"

definition counts_valid :: "stats_counts \<Rightarrow> bool" where
  "counts_valid c \<longleftrightarrow> {notes_count c, articles_count c, topics_count c, tags_count c}
     \<subseteq> {0 .. 9007199254740991}"

definition manifest_valid :: "stats_manifest \<Rightarrow> bool" where
  "manifest_valid m \<longleftrightarrow> 1 \<le> sm_generation m \<and> sm_generation m \<le> 9007199254740991
     \<and> hex_text (sm_sha256 m) \<and> counts_valid (sm_counts m)
     \<and> length (sm_routes m) \<le> 50000 \<and> list_all route_valid (sm_routes m)
     \<and> distinct (map sr_path (sm_routes m))
     \<and> list_all (\<lambda>r. map_of (map (\<lambda>r. (sr_path r, sr_canonical r)) (sm_routes m)) (sr_canonical r)
          = Some (sr_canonical r)) (sm_routes m)"

text \<open>The manifest a JSON value stands for: each of its parts is the value of its property.\<close>

definition route_of :: "json \<Rightarrow> stats_route \<Rightarrow> bool" where
  "route_of row r \<longleftrightarrow> get row ''path'' = JStr (sr_path r) \<and> get row ''canonicalPath'' = JStr (sr_canonical r)
     \<and> get row ''title'' = JStr (sr_title r)"

definition counts_of :: "json \<Rightarrow> stats_counts \<Rightarrow> bool" where
  "counts_of v c \<longleftrightarrow> get v ''notes'' = json_int (notes_count c)
     \<and> get v ''curatedArticles'' = json_int (articles_count c)
     \<and> get v ''topics'' = json_int (topics_count c) \<and> get v ''tags'' = json_int (tags_count c)"

definition manifest_of :: "json \<Rightarrow> stats_manifest \<Rightarrow> bool" where
  "manifest_of v m \<longleftrightarrow> get v ''schemaVersion'' = json_int 1
     \<and> get v ''generation'' = json_int (sm_generation m) \<and> get v ''snapshotSha256'' = sm_sha256 m
     \<and> counts_of (get v ''counts'') (sm_counts m)
     \<and> (\<exists>rows. get v ''routes'' = JArr rows \<and> list_all2 route_of rows (sm_routes m))"

text \<open>The value a manifest is written as.\<close>

definition route_json :: "stats_route \<Rightarrow> json" where
  "route_json r = JObj [(''path'', JStr (sr_path r)), (''canonicalPath'', JStr (sr_canonical r)),
     (''title'', JStr (sr_title r))]"

definition counts_json :: "stats_counts \<Rightarrow> json" where
  "counts_json c = JObj [(''notes'', json_int (notes_count c)),
     (''curatedArticles'', json_int (articles_count c)),
     (''topics'', json_int (topics_count c)), (''tags'', json_int (tags_count c))]"

definition manifest_json :: "stats_manifest \<Rightarrow> json" where
  "manifest_json m = JObj [(''schemaVersion'', json_int 1), (''generation'', json_int (sm_generation m)),
     (''snapshotSha256'', sm_sha256 m), (''counts'', counts_json (sm_counts m)),
     (''routes'', JArr (map route_json (sm_routes m)))]"

lemma public_path_self: "public_path v = Some path \<Longrightarrow> public_path (JStr path) = Some path"
  by (cases v) (auto simp: public_path_def split: if_splits)

lemma public_path_eq: "public_path v = Some path \<Longrightarrow> v = JStr path"
  by (cases v) (auto simp: public_path_def split: if_splits)

lemma public_path_JStr: "public_path (JStr path) = Some p \<Longrightarrow> p = path"
  by (auto simp: public_path_def split: if_splits)

lemma json_int_inject [simp]: "json_int i = json_int j \<longleftrightarrow> i = j" "json_int i \<noteq> JUndef"
  by (simp_all add: json_int_def)

lemma truthy_get: "get v k \<noteq> JUndef \<Longrightarrow> truthy v"
  by (cases v) (auto simp: get_def)

lemma manifest_route_Some: "manifest_route row = Some r \<longleftrightarrow> route_of row r \<and> route_valid r"
proof
  assume row: "manifest_route row = Some r"
  then obtain path canonical where "public_path (get row ''path'') = Some path"
      "public_path (get row ''canonicalPath'') = Some canonical" "sr_path r = path" "sr_canonical r = canonical"
      "get row ''title'' = JStr (sr_title r)" "js_trim (sr_title r) \<noteq> []" "length (sr_title r) \<le> 500"
    by (auto simp: manifest_route_def split: if_splits option.splits)
  then show "route_of row r \<and> route_valid r"
    using public_path_self public_path_eq by (simp add: route_valid_def route_of_def)
next
  assume "route_of row r \<and> route_valid r"
  moreover from this have "truthy row" using truthy_get [of row "''path''"] by (simp add: route_of_def)
  ultimately show "manifest_route row = Some r"
    by (cases r) (auto simp: manifest_route_def route_valid_def route_of_def as_string_def dest: public_path_JStr)
qed

lemma natural_count_Some: "natural_count v = Some i \<longleftrightarrow> v = json_int i \<and> 0 \<le> i \<and> i \<le> 9007199254740991"
  by (auto simp: natural_count_def safe_integer_Some split: option.splits if_splits)

lemma manifest_counts_Some: "manifest_counts c = Some k \<longleftrightarrow> counts_of c k \<and> counts_valid k"
proof
  assume "manifest_counts c = Some k"
  then show "counts_of c k \<and> counts_valid k"
    by (auto simp: manifest_counts_def counts_valid_def counts_of_def natural_count_Some split: if_splits option.splits)
next
  assume k: "counts_of c k \<and> counts_valid k"
  then have "truthy c" using truthy_get [of c "''notes''"] by (simp add: counts_of_def)
  moreover from k have "natural_count (get c ''notes'') = Some (notes_count k)"
      "natural_count (get c ''curatedArticles'') = Some (articles_count k)"
      "natural_count (get c ''topics'') = Some (topics_count k)" "natural_count (get c ''tags'') = Some (tags_count k)"
    by (simp_all add: counts_of_def counts_valid_def natural_count_Some)
  ultimately show "manifest_counts c = Some k" by (simp add: manifest_counts_def)
qed

lemma route_of_json: "route_of (route_json r) r' \<longleftrightarrow> r' = r"
  by (cases r; cases r') (auto simp: route_of_def route_json_def get_def)

lemma counts_of_json: "counts_of (counts_json c) c' \<longleftrightarrow> c' = c"
  by (cases c; cases c') (auto simp: counts_of_def counts_json_def get_def)

lemma routes_of_json: "list_all2 route_of (map route_json rs) rs' \<longleftrightarrow> rs' = rs"
  by (induction rs arbitrary: rs') (auto simp: list_all2_Cons1 route_of_json)

lemma manifest_of_json: "manifest_of (manifest_json m) m' \<longleftrightarrow> m' = m"
  by (cases m; cases m') (auto simp: manifest_of_def manifest_json_def get_def counts_of_json routes_of_json)

lemma manifest_loop:
  "efold add_manifest_route rows ([], []) = Inr st \<longleftrightarrow>
    (\<exists>rs. map manifest_route rows = map Some rs \<and> distinct (map sr_path rs)
      \<and> st = (rs, map (\<lambda>r. (sr_path r, sr_canonical r)) rs))"
proof (induction rows arbitrary: st rule: rev_induct)
  case (snoc row rows)
  have step: "add_manifest_route row (rs, map (\<lambda>r. (sr_path r, sr_canonical r)) rs) = Inr st \<longleftrightarrow>
      (\<exists>r. manifest_route row = Some r \<and> sr_path r \<notin> sr_path ` set rs
        \<and> st = (rs @ [r], map (\<lambda>r. (sr_path r, sr_canonical r)) (rs @ [r])))" for rs st
    by (auto simp: add_manifest_route_def throw_when_Inr_iff map_has_iff image_iff keys_update_new
        split: option.split)
  have "map manifest_route (rows @ [row]) = map Some rs' \<longleftrightarrow>
      (\<exists>rs r. rs' = rs @ [r] \<and> map manifest_route rows = map Some rs \<and> manifest_route row = Some r)" for rs'
    by (cases rs' rule: rev_cases) auto
  with step show ?case by (auto simp: efold_append ebind_Inr_iff snoc.IH)
qed auto

lemma valid_targets:
  "list_ex (\<lambda>t. map_of (map (\<lambda>r. (sr_path r, sr_canonical r)) rs) t \<noteq> Some t)
      (map_values (map (\<lambda>r. (sr_path r, sr_canonical r)) rs)) \<longleftrightarrow>
    \<not> list_all (\<lambda>r. map_of (map (\<lambda>r. (sr_path r, sr_canonical r)) rs) (sr_canonical r)
        = Some (sr_canonical r)) rs"
  by (auto simp: list_ex_iff list_all_iff map_values_def)

lemma loop_rows:
  "map manifest_route rows = map Some rs \<longleftrightarrow> list_all2 route_of rows rs \<and> list_all route_valid rs"
proof (induction rows arbitrary: rs)
  case (Cons row rows)
  then show ?case by (cases rs) (simp_all add: manifest_route_Some conj_ac)
qed auto

lemma ex_image: "(\<exists>y. (\<exists>x. P x \<and> Q x \<and> y = f x) \<and> R y) \<longleftrightarrow> (\<exists>x. P x \<and> Q x \<and> R (f x))"
  by blast

lemma loop_accepts:
  "ebind (efold add_manifest_route rows ([], [])) (\<lambda>st.
      throw_when (list_ex (\<lambda>target. map_of (snd st) target \<noteq> Some target) (map_values (snd st)))
        StatsManifestInvalid (Inr \<lparr>sm_generation = g, sm_sha256 = h, sm_counts = k, sm_routes = fst st\<rparr>)) = Inr ok \<longleftrightarrow>
    (\<exists>rs. list_all2 route_of rows rs \<and> list_all route_valid rs \<and> distinct (map sr_path rs)
      \<and> list_all (\<lambda>r. map_of (map (\<lambda>r. (sr_path r, sr_canonical r)) rs) (sr_canonical r)
          = Some (sr_canonical r)) rs
      \<and> ok = \<lparr>sm_generation = g, sm_sha256 = h, sm_counts = k, sm_routes = rs\<rparr>)"
  unfolding ebind_Inr_iff manifest_loop ex_image
  unfolding loop_rows fst_conv snd_conv throw_when_Inr_iff valid_targets
    not_not sum.inject conj_assoc
  by (subst eq_commute [of ok]) (rule refl)

lemma validate_manifest_Inr: "validate_manifest v = Inr ok \<longleftrightarrow> manifest_valid ok \<and> manifest_of v ok"
proof
  assume run: "validate_manifest v = Inr ok"
  then obtain g counts rows where parts: "get v ''schemaVersion'' = json_int 1" "safe_integer (get v ''generation'') = Some g"
      "1 \<le> g" "hex_text (get v ''snapshotSha256'')"
      "manifest_counts (get v ''counts'') = Some counts" "get v ''routes'' = JArr rows" "length rows \<le> 50000"
    by (auto simp: validate_manifest_def throw_when_Inr_iff split: option.splits json.splits)
  with run obtain rs where "list_all2 route_of rows rs" "list_all route_valid rs" "distinct (map sr_path rs)"
      "list_all (\<lambda>r. map_of (map (\<lambda>r. (sr_path r, sr_canonical r)) rs) (sr_canonical r)
          = Some (sr_canonical r)) rs"
      "ok = \<lparr>sm_generation = g, sm_sha256 = get v ''snapshotSha256'', sm_counts = counts, sm_routes = rs\<rparr>"
    by (auto simp: validate_manifest_def throw_when_Inr_iff loop_accepts)
  then show "manifest_valid ok \<and> manifest_of v ok"
    using parts list_all2_lengthD [of route_of rows rs]
    by (auto simp: manifest_valid_def manifest_of_def safe_integer_Some manifest_counts_Some)
next
  assume ok: "manifest_valid ok \<and> manifest_of v ok"
  then obtain rows where rows: "get v ''routes'' = JArr rows" "list_all2 route_of rows (sm_routes ok)"
    by (auto simp: manifest_of_def)
  have "truthy v" using rows(1) truthy_get [of v "''routes''"] by simp
  moreover have "manifest_counts (get v ''counts'') = Some (sm_counts ok)"
    using ok by (simp add: manifest_counts_Some manifest_of_def manifest_valid_def)
  moreover have "length rows \<le> 50000"
    using ok list_all2_lengthD [OF rows(2)] by (simp add: manifest_valid_def)
  moreover have "ebind (efold add_manifest_route rows ([], [])) (\<lambda>st.
      throw_when (list_ex (\<lambda>target. map_of (snd st) target \<noteq> Some target) (map_values (snd st)))
        StatsManifestInvalid (Inr \<lparr>sm_generation = sm_generation ok, sm_sha256 = sm_sha256 ok,
          sm_counts = sm_counts ok, sm_routes = fst st\<rparr>)) = Inr ok"
    unfolding loop_accepts using ok rows(2) by (intro exI [of _ "sm_routes ok"]) (simp add: manifest_valid_def)
  moreover have "get v ''schemaVersion'' = json_int 1" "get v ''snapshotSha256'' = sm_sha256 ok"
      "safe_integer (get v ''generation'') = Some (sm_generation ok)" "1 \<le> sm_generation ok"
      "hex_text (sm_sha256 ok)" "\<not> text_fails (sm_sha256 ok)"
    using ok hex_text_text by (simp_all add: manifest_valid_def manifest_of_def)
  ultimately show "validate_manifest v = Inr ok"
    using rows(1) by (simp add: validate_manifest_def throw_when_def)
qed

lemma validate_manifest_sound: "validate_manifest v = Inr ok \<Longrightarrow> manifest_valid ok"
  by (simp add: validate_manifest_Inr)

lemma validate_manifest_error: "validate_manifest v = Inl e \<Longrightarrow> e = StatsManifestInvalid \<or> e = StatsTypeError"
  by (auto simp: validate_manifest_def throw_when_def ebind_Inl_iff add_manifest_route_def
      dest!: efold_Inl split: if_splits option.splits json.splits)

lemma validate_manifest_TypeError:
  "validate_manifest v = Inl StatsTypeError \<longleftrightarrow> get v ''schemaVersion'' = json_int 1
    \<and> (\<exists>g. get v ''generation'' = json_int g \<and> 1 \<le> g \<and> g \<le> 9007199254740991)
    \<and> text_fails (get v ''snapshotSha256'')"
proof
  assume "validate_manifest v = Inl StatsTypeError"
  then show "get v ''schemaVersion'' = json_int 1
      \<and> (\<exists>g. get v ''generation'' = json_int g \<and> 1 \<le> g \<and> g \<le> 9007199254740991)
      \<and> text_fails (get v ''snapshotSha256'')"
    by (auto simp: validate_manifest_def throw_when_def ebind_Inl_iff add_manifest_route_def safe_integer_Some
      dest!: efold_Inl split: if_splits option.splits json.splits)
next
  assume v: "get v ''schemaVersion'' = json_int 1
    \<and> (\<exists>g. get v ''generation'' = json_int g \<and> 1 \<le> g \<and> g \<le> 9007199254740991)
    \<and> text_fails (get v ''snapshotSha256'')"
  then have "truthy v" using truthy_get [of v "''schemaVersion''"] by simp
  with v show "validate_manifest v = Inl StatsTypeError" by (auto simp: validate_manifest_def throw_when_def)
qed

lemma validate_manifest_json: "validate_manifest (manifest_json m) = Inr m' \<longleftrightarrow> m' = m \<and> manifest_valid m"
  by (auto simp: validate_manifest_Inr manifest_of_json)

text \<open>
  C17. The manifest check is exact. A JSON value is accepted exactly when it is schema version 1 and
  its generation, hash, counts and routes are those of a valid manifest (unique public paths, every
  target a canonical route of its own, non-negative safe counts, a hash of 64 digits, at most 50000
  routes), and that manifest is the result. A value of the right version and generation whose hash
  is an object with a \<open>toString\<close> of its own, or an array with such an element, makes the check throw a
  \<open>TypeError\<close>; every other value is rejected as an invalid manifest. Of the values that manifests are
  written as it accepts exactly the valid ones, unchanged.
\<close>

theorem validate_manifest_correct:
  "(validate_manifest v = Inr ok \<longleftrightarrow> manifest_valid ok \<and> manifest_of v ok)
    \<and> (validate_manifest v = Inl StatsTypeError \<longleftrightarrow> get v ''schemaVersion'' = json_int 1
        \<and> (\<exists>g. get v ''generation'' = json_int g \<and> 1 \<le> g \<and> g \<le> 9007199254740991)
        \<and> text_fails (get v ''snapshotSha256''))
    \<and> validate_manifest v \<in> range Inr \<union> {Inl StatsManifestInvalid, Inl StatsTypeError}
    \<and> (validate_manifest (manifest_json m) = Inr m \<longleftrightarrow> manifest_valid m)"
proof -
  have "validate_manifest v \<in> range Inr \<union> {Inl StatsManifestInvalid, Inl StatsTypeError}"
    using validate_manifest_error [of v] by (cases "validate_manifest v") auto
  then show ?thesis
    using validate_manifest_Inr validate_manifest_TypeError validate_manifest_json by blast
qed

text \<open>
  A loaded manifest belongs to the deployed build: loading succeeds only with a valid manifest
  whose generation and hash equal those of the build marker, and then the hash is a string of 64
  hexadecimal digits, though the manifest check alone would take an array around one.
\<close>

lemma load_manifest_matches_build:
  assumes "load_manifest fetch = Inr m"
  shows "manifest_valid m
    \<and> (\<exists>marker. asset_json (fetch ''/.well-known/gopheratlas-build.json'') = Some marker
        \<and> get marker ''generation'' = json_int (sm_generation m)
        \<and> get marker ''snapshotSha256'' = sm_sha256 m)
    \<and> (\<exists>hex. sm_sha256 m = JStr hex \<and> length hex = 64 \<and> list_all (in_class hex_class) hex)"
proof -
  obtain v marker where parts: "validate_manifest v = Inr m"
      "asset_json (fetch ''/.well-known/gopheratlas-build.json'') = Some marker"
      "strict_equal (get marker ''generation'') (json_int (sm_generation m))"
      "strict_equal (get marker ''snapshotSha256'') (sm_sha256 m)"
    using assms
    by (auto simp: load_manifest_def read_asset_def Let_def ebind_Inr_iff throw_when_Inr_iff split: option.splits)
  have valid: "manifest_valid m" using validate_manifest_sound [OF parts(1)] .
  have eq: "get marker ''generation'' = json_int (sm_generation m)" "get marker ''snapshotSha256'' = sm_sha256 m"
    using parts(3,4) by (auto simp: strict_equal_def split: json.splits js_num.splits)
  obtain hex where hex: "sm_sha256 m = JStr hex"
  proof (cases "sm_sha256 m")
    case (JArr xs)
    then show ?thesis using parts(4) eq(2) by (simp add: strict_equal_def)
  qed (use valid that in \<open>auto simp: manifest_valid_def\<close>)
  with valid have "length hex = 64 \<and> list_all (in_class hex_class) hex"
    by (simp add: manifest_valid_def rx_test_lang rx_lang_Times_length del: Times.simps)
  with valid parts(2) eq hex show ?thesis by blast
qed

definition sample_manifest :: stats_manifest where
  "sample_manifest = \<lparr>sm_generation = 7, sm_sha256 = JStr (replicate 64 CHR ''a''),
     sm_counts = \<lparr>notes_count = 1, articles_count = 1, topics_count = 1, tags_count = 1\<rparr>,
     sm_routes = [\<lparr>sr_path = ''/notes/'', sr_canonical = ''/notes/'', sr_title = ''Notes''\<rparr>,
       \<lparr>sr_path = ''/en/notes/'', sr_canonical = ''/notes/'', sr_title = ''Notes''\<rparr>]\<rparr>"

lemma sample_paths:
  "rx_test public_path_rx ''/notes/''" "rx_test public_path_rx ''/en/notes/''"
  "\<not> private_prefix ''/notes/''" "\<not> private_prefix ''/en/notes/''"
  by code_simp+

lemma sample_hash: "hex_text (JStr (replicate 64 CHR ''a''))"
  by (simp add: rx_test_lang rx_lang_Times_length list_all_iff hex_class_def del: Times.simps)

lemma sample_manifest_valid: "manifest_valid sample_manifest"
  using sample_paths sample_hash
  by (simp add: manifest_valid_def sample_manifest_def counts_valid_def route_valid_def public_path_def
      js_trim_def js_space_def del: replicate.simps hex_text.simps)

definition sample_assets :: "string \<Rightarrow> asset_response" where
  "sample_assets path = \<lparr>asset_ok = True, asset_length = 300, asset_json = Some
     (if path = manifest_path then manifest_json sample_manifest
      else JObj [(''generation'', json_int 7), (''snapshotSha256'', sm_sha256 sample_manifest)])\<rparr>"

lemma load_manifest_matches_build_witness:
  "load_manifest sample_assets = Inr sample_manifest
    \<and> (\<exists>hex. sm_sha256 sample_manifest = JStr hex \<and> length hex = 64)"
proof -
  have fields: "sm_generation sample_manifest = 7" "sm_sha256 sample_manifest = JStr (replicate 64 CHR ''a'')"
    by (simp_all only: sample_manifest_def stats_manifest.simps)
  have "load_manifest sample_assets = Inr sample_manifest"
    using validate_manifest_json [of sample_manifest sample_manifest] sample_manifest_valid
    by (simp add: load_manifest_def read_asset_def sample_assets_def manifest_path_def get_def
        strict_equal_def fields json_int_def del: replicate.simps)
  from load_manifest_matches_build [OF this] this show ?thesis by blast
qed

end
