(* ===== verification/Calendar.thy ===== *)
theory Calendar
  imports JsPrelude
begin

text \<open>
  The part of \<open>Date\<close> the program uses, all in UTC. A time value is an integer number of
  milliseconds; \<open>NaN\<close> is \<open>None\<close>. Years, months and days follow the equations of the ECMAScript
  standard (\<open>DayFromYear\<close>, \<open>YearFromTime\<close>, \<open>MonthFromTime\<close>). \<open>iso_time\<close> is \<open>toISOString\<close>,
  \<open>iso_date\<close> its first ten characters, and \<open>date_parse\<close> is \<open>Date.parse\<close> on the three forms
  the code hands to it: a date, and a date with a time of seconds or of milliseconds.
\<close>

definition ms_per_day :: int where
  "ms_per_day = 86400000"

section \<open>Years\<close>

definition day_from_year :: "int \<Rightarrow> int" where
  "day_from_year y =
     365 * (y - 1970) + (y - 1969) div 4 - (y - 1901) div 100 + (y - 1601) div 400"

lemma div_step: "0 < n \<Longrightarrow> (x + 1) div n = x div n + (if n dvd x + 1 then 1 else 0)" for x n :: int
proof (cases "n dvd x + 1")
  case True
  assume n: "0 < n"
  from True obtain k where "x + 1 = n * k" ..
  then have "x = n * (k - 1) + (n - 1)" by (simp add: algebra_simps)
  then have "x div n = k - 1" using n by (simp add: div_add1_eq)
  with True n \<open>x + 1 = n * k\<close> show ?thesis by simp
next
  case False
  assume n: "0 < n"
  have "(x + 1) mod n \<noteq> 0" using False by (simp add: dvd_eq_mod_eq_0)
  then have "x mod n \<noteq> n - 1" using n mod_add_left_eq [of x n 1] by auto
  moreover have "x mod n < n" "0 \<le> x mod n" using n by simp_all
  ultimately have "0 \<le> x mod n + 1" "x mod n + 1 < n" by linarith+
  moreover have "x + 1 = n * (x div n) + (x mod n + 1)" by simp
  ultimately have "(x + 1) div n = x div n" using n by (metis div_pos_pos_trivial div_mult_self4 less_irrefl add.right_neutral)
  with False show ?thesis by simp
qed

definition leap :: "int \<Rightarrow> int" where
  "leap y = day_from_year (y + 1) - day_from_year y - 365"

lemma leap_eq:
  "leap y = (if 4 dvd y then 1 else 0) - (if 100 dvd y then 1 else 0) + (if 400 dvd y then 1 else 0)"
proof -
  have shift: "y + 1 - 1969 = (y - 1969) + 1" "y + 1 - 1901 = (y - 1901) + 1" "y + 1 - 1601 = (y - 1601) + 1"
    by simp_all
  have multiple: "k dvd y + k * q \<longleftrightarrow> k dvd y" for k q :: int by (simp add: dvd_add_left_iff)
  have "(y - 1969) + 1 = y + 4 * (- 492)" "(y - 1901) + 1 = y + 100 * (- 19)"
      "(y - 1601) + 1 = y + 400 * (- 4)" by simp_all
  then have d4: "4 dvd (y - 1969) + 1 \<longleftrightarrow> 4 dvd y" and d100: "100 dvd (y - 1901) + 1 \<longleftrightarrow> 100 dvd y"
    and d400: "400 dvd (y - 1601) + 1 \<longleftrightarrow> 400 dvd y" by (simp_all only: multiple)
  have "(y + 1 - 1969) div 4 = (y - 1969) div 4 + (if 4 dvd y then 1 else 0)"
    "(y + 1 - 1901) div 100 = (y - 1901) div 100 + (if 100 dvd y then 1 else 0)"
    "(y + 1 - 1601) div 400 = (y - 1601) div 400 + (if 400 dvd y then 1 else 0)"
    unfolding shift by (simp_all only: div_step zero_less_numeral d4 d100 d400)
  moreover have "a' = a + p \<Longrightarrow> b' = b + q \<Longrightarrow> c' = c + r \<Longrightarrow>
      365 * (y + 1 - 1970) + a' - b' + c' - (365 * (y - 1970) + a - b + c) - 365 = p - q + r"
    for a a' b b' c c' p q r :: int
    by (simp add: algebra_simps)
  ultimately show ?thesis unfolding leap_def day_from_year_def by blast
qed

lemma leap_cases: "leap y = 0 \<or> leap y = 1"
proof -
  have a: "\<not> 4 dvd y \<Longrightarrow> \<not> 100 dvd y" using dvd_trans [of 4 100 y] by auto
  have b: "\<not> 100 dvd y \<Longrightarrow> \<not> 400 dvd y" using dvd_trans [of 100 400 y] by auto
  show ?thesis
  proof (cases "4 dvd y")
    case True
    show ?thesis
    proof (cases "100 dvd y")
      case False
      then show ?thesis using True b [OF False] by (simp only: leap_eq) simp
    qed (simp only: leap_eq True, simp)
  next
    case False
    then show ?thesis using a [OF False] b [OF a [OF False]] by (simp only: leap_eq) simp
  qed
qed

lemma next_year: "day_from_year (y + 1) = day_from_year y + 365 + leap y"
  by (simp add: leap_def)

lemma day_from_year_step: "day_from_year y + 364 \<le> day_from_year (y + 1)"
  using leap_cases [of y] next_year [of y] by linarith

lemma day_from_year_mono: "y < z \<Longrightarrow> day_from_year y < day_from_year z"
proof (induction z rule: int_gr_induct)
  case base
  show ?case using day_from_year_step [of y] by linarith
next
  case (step z)
  then show ?case using day_from_year_step [of z] by linarith
qed

lemma day_from_year_less_iff: "day_from_year y < day_from_year z \<longleftrightarrow> y < z"
  by (metis day_from_year_mono linorder_neqE_linordered_idom order_less_asym)

function find_year :: "int \<Rightarrow> int \<Rightarrow> int" where
  "find_year y d = (if day_from_year (y + 1) \<le> d then find_year (y + 1) d else y)"
  by pat_completeness auto

termination
proof (relation "measure (\<lambda>(y, d). nat (d - day_from_year y))")
  fix y d :: int
  assume "day_from_year (y + 1) \<le> d"
  then show "((y + 1, d), (y, d)) \<in> measure (\<lambda>(y, d). nat (d - day_from_year y))"
    using day_from_year_step [of y] by simp
qed simp

declare find_year.simps [simp del]

lemma find_year_correct:
  "day_from_year y \<le> d \<Longrightarrow> day_from_year (find_year y d) \<le> d \<and> d < day_from_year (find_year y d + 1)"
proof (induction y d rule: find_year.induct)
  case (1 y d)
  then show ?case by (subst (1 2) find_year.simps) auto
qed

text \<open>The search starts at a year that is not after the day.\<close>

definition year_start :: "int \<Rightarrow> int" where
  "year_start d = 1970 + min (d div 365) (d div 366) - 1"

definition year_of_day :: "int \<Rightarrow> int" where
  "year_of_day d = find_year (year_start d) d"

lemma day_from_year_offset:
  "day_from_year (1970 + n) = 365 * n + (n + 1) div 4 - (n + 69) div 100 + (n + 369) div 400"
  by (simp add: day_from_year_def algebra_simps)

lemma div_bounds: "0 < k \<Longrightarrow> k * (x div k) \<le> x \<and> x < k * (x div k) + k" for x k :: int
  using pos_mod_bound [of k x] pos_mod_sign [of k x] mult_div_mod_eq [of k x] by linarith

lemma day_from_year_upper: "0 \<le> n \<Longrightarrow> day_from_year (1970 + n) \<le> 366 * n + 1"
  using div_bounds [of 4 "n + 1"] div_bounds [of 100 "n + 69"] div_bounds [of 400 "n + 369"]
  by (cases "n = 0") (simp add: day_from_year_def, simp add: day_from_year_offset)

lemma day_from_year_lower: "n \<le> 0 \<Longrightarrow> day_from_year (1970 + n) \<le> 365 * n + 1"
  using div_bounds [of 4 "n + 1"] div_bounds [of 100 "n + 69"] div_bounds [of 400 "n + 369"]
  by (simp add: day_from_year_offset)

lemma year_start_before: "day_from_year (year_start d) \<le> d"
proof (cases "0 \<le> d")
  case True
  define n where "n = d div 366"
  have n: "0 \<le> n" "366 * n \<le> d" "d < 366 * n + 366" using True by (auto simp: n_def)
  have "year_start d \<le> 1970 + n - 1" by (simp add: year_start_def n_def)
  then have "day_from_year (year_start d) \<le> day_from_year (1970 + n - 1)"
    by (metis day_from_year_mono order_le_less)
  moreover have "day_from_year (1970 + n - 1) + 364 \<le> day_from_year (1970 + n)"
    using day_from_year_step [of "1970 + n - 1"] by simp
  moreover have "day_from_year (1970 + n) \<le> 366 * n + 1" using n(1) by (rule day_from_year_upper)
  ultimately show ?thesis using n by linarith
next
  case False
  define n where "n = d div 365"
  have n: "n \<le> 0" "365 * n \<le> d" using False by (auto simp: n_def)
  have "year_start d \<le> 1970 + n - 1" by (simp add: year_start_def n_def)
  then have "day_from_year (year_start d) \<le> day_from_year (1970 + n - 1)"
    by (metis day_from_year_mono order_le_less)
  moreover have "day_from_year (1970 + n - 1) + 364 \<le> day_from_year (1970 + n)"
    using day_from_year_step [of "1970 + n - 1"] by simp
  moreover have "day_from_year (1970 + n) \<le> 365 * n + 1" using n(1) by (rule day_from_year_lower)
  ultimately show ?thesis using n by linarith
qed

lemma year_of_day_bounds:
  "day_from_year (year_of_day d) \<le> d" "d < day_from_year (year_of_day d + 1)"
  using find_year_correct [OF year_start_before] by (auto simp: year_of_day_def)

lemma year_of_day_unique:
  assumes "day_from_year y \<le> d" and "d < day_from_year (y + 1)"
  shows "year_of_day d = y"
proof -
  have "\<not> y < year_of_day d"
    using assms(2) year_of_day_bounds(1) [of d] day_from_year_mono [of "y + 1" "year_of_day d"]
    by (cases "y + 1 = year_of_day d") auto
  moreover have "\<not> year_of_day d < y"
    using assms(1) year_of_day_bounds(2) [of d] day_from_year_mono [of "year_of_day d + 1" y]
    by (cases "year_of_day d + 1 = y") auto
  ultimately show ?thesis by simp
qed

section \<open>Months and days\<close>

text \<open>The days of a year before a month, January being 1.\<close>

definition month_starts :: "int \<Rightarrow> int list" where
  "month_starts l = [0, 31, 59 + l, 90 + l, 120 + l, 151 + l, 181 + l, 212 + l, 243 + l, 273 + l,
     304 + l, 334 + l, 365 + l]"

fun month_index :: "int list \<Rightarrow> int \<Rightarrow> nat" where
  "month_index (a # b # rest) d = (if d < b then 1 else Suc (month_index (b # rest) d))"
| "month_index _ d = 1"

definition month_of_day :: "int \<Rightarrow> nat" where
  "month_of_day d = month_index (month_starts (leap (year_of_day d))) (d - day_from_year (year_of_day d))"

definition date_of_day :: "int \<Rightarrow> int" where
  "date_of_day d = d - day_from_year (year_of_day d)
     - month_starts (leap (year_of_day d)) ! (month_of_day d - 1) + 1"

definition day_number :: "int \<Rightarrow> nat \<Rightarrow> int \<Rightarrow> int" where
  "day_number y m d = day_from_year y + month_starts (leap y) ! (m - 1) + d - 1"

definition valid_date :: "int \<Rightarrow> nat \<Rightarrow> int \<Rightarrow> bool" where
  "valid_date y m d \<longleftrightarrow> 1 \<le> m \<and> m \<le> 12 \<and> 1 \<le> d
     \<and> d \<le> month_starts (leap y) ! m - month_starts (leap y) ! (m - 1)"

lemma month_cases:
  assumes "1 \<le> (m :: nat)" and "m \<le> 12"
  shows "m \<in> set [1, 2, 3, 4, 5, 6, 7, 8, 9, 10, 11, 12]"
proof -
  have "m \<in> set [1..<13]" using assms by simp
  also have "[1..<13] = [1, 2, 3, 4, 5, 6, 7, 8, 9, 10, 11, 12 :: nat]" by (simp add: upt_rec)
  finally show ?thesis .
qed

lemma month_index_range:
  "2 \<le> length xs \<Longrightarrow> hd xs \<le> n \<Longrightarrow> n < last xs \<Longrightarrow>
    1 \<le> month_index xs n \<and> month_index xs n < length xs
    \<and> xs ! (month_index xs n - 1) \<le> n \<and> n < xs ! month_index xs n"
proof (induction xs n rule: month_index.induct)
  case (1 a b rest n)
  show ?case
  proof (cases "n < b")
    case False
    with 1 have "1 \<le> month_index (b # rest) n \<and> month_index (b # rest) n < length (b # rest)
        \<and> (b # rest) ! (month_index (b # rest) n - 1) \<le> n \<and> n < (b # rest) ! month_index (b # rest) n"
      by (cases rest) auto
    with False show ?thesis by (auto simp: nth_Cons')
  qed (use 1 in auto)
qed auto

lemma month_starts_sorted: "l = 0 \<or> l = 1 \<Longrightarrow> sorted_wrt (<) (month_starts l)"
  by (auto simp: month_starts_def)

lemma month_index_bounds:
  assumes "l = 0 \<or> l = 1" and "0 \<le> n" and "n < 365 + l"
  shows "1 \<le> month_index (month_starts l) n \<and> month_index (month_starts l) n \<le> 12
    \<and> month_starts l ! (month_index (month_starts l) n - 1) \<le> n
    \<and> n < month_starts l ! month_index (month_starts l) n"
  using month_index_range [of "month_starts l" n] assms(2,3)
  by (auto simp: month_starts_def simp del: month_index.simps)

lemma month_index_start:
  assumes m: "1 \<le> m" "m \<le> 12" and l: "l = 0 \<or> l = 1"
    and n: "month_starts l ! (m - 1) \<le> n" "n < month_starts l ! m"
  shows "month_index (month_starts l) n = m"
proof -
  let ?xs = "month_starts l"
  have len: "length ?xs = 13" by (simp add: month_starts_def)
  have mono: "i \<le> j \<Longrightarrow> j < 13 \<Longrightarrow> ?xs ! i \<le> ?xs ! j" for i j
    using month_starts_sorted [OF l] len by (simp add: sorted_nth_mono strict_sorted_iff)
  have "m - 1 < 13" using m by simp
  then have "?xs ! 0 \<le> n" "n < ?xs ! 12"
    using mono [of 0 "m - 1"] mono [of m 12] m n by (auto intro: order_trans)
  then have "0 \<le> n" "n < 365 + l" by (simp_all add: month_starts_def)
  note b = month_index_bounds [OF l this]
  have "\<not> month_index ?xs n < m" using mono [of "month_index ?xs n" "m - 1"] m b n by fastforce
  moreover have "\<not> m < month_index ?xs n" using mono [of m "month_index ?xs n - 1"] m b n by fastforce
  ultimately show ?thesis by simp
qed

text \<open>The date of the number of a valid date is that date.\<close>

lemma day_number_inverse:
  assumes "valid_date y m d"
  shows "year_of_day (day_number y m d) = y" and "month_of_day (day_number y m d) = m"
    and "date_of_day (day_number y m d) = d"
proof -
  have m: "1 \<le> m" "m \<le> 12" and d: "1 \<le> d"
      "d \<le> month_starts (leap y) ! m - month_starts (leap y) ! (m - 1)"
    using assms by (auto simp: valid_date_def)
  have range: "0 \<le> month_starts (leap y) ! (m - 1)" "month_starts (leap y) ! m \<le> 365 + leap y"
    using month_cases [OF m] leap_cases [of y] by (auto simp: month_starts_def)
  show year: "year_of_day (day_number y m d) = y"
    by (rule year_of_day_unique) (use d range in \<open>simp_all add: day_number_def next_year\<close>)
  show month: "month_of_day (day_number y m d) = m"
    unfolding month_of_day_def year
    by (rule month_index_start [OF m leap_cases]) (use d in \<open>simp_all add: day_number_def\<close>)
  show "date_of_day (day_number y m d) = d"
    unfolding date_of_day_def year month by (simp add: day_number_def)
qed

lemma valid_date_of_day: "valid_date (year_of_day d) (month_of_day d) (date_of_day d)"
  and day_number_of_day: "day_number (year_of_day d) (month_of_day d) (date_of_day d) = d"
proof -
  have n: "0 \<le> d - day_from_year (year_of_day d)"
      "d - day_from_year (year_of_day d) < 365 + leap (year_of_day d)"
    using year_of_day_bounds [of d] by (simp_all add: next_year)
  from month_index_bounds [OF leap_cases n]
  show "valid_date (year_of_day d) (month_of_day d) (date_of_day d)"
    by (simp add: valid_date_def month_of_day_def [symmetric] date_of_day_def)
  show "day_number (year_of_day d) (month_of_day d) (date_of_day d) = d"
    by (simp add: day_number_def date_of_day_def)
qed

section \<open>Text\<close>

text \<open>The last \<open>w\<close> decimal digits of a number, with leading zeros.\<close>

fun pad :: "nat \<Rightarrow> nat \<Rightarrow> string" where
  "pad 0 n = []"
| "pad (Suc w) n = pad w (n div 10) @ [digit_char (n mod 10)]"

definition iso_year :: "int \<Rightarrow> string" where
  "iso_year y = (if 0 \<le> y \<and> y \<le> 9999 then pad 4 (nat y)
     else (if y < 0 then CHR ''-'' else CHR ''+'') # pad 6 (nat \<bar>y\<bar>))"

definition iso_day :: "int \<Rightarrow> string" where
  "iso_day d = iso_year (year_of_day d) @ ''-'' @ pad 2 (month_of_day d) @ ''-'' @ pad 2 (nat (date_of_day d))"

definition iso_clock :: "int \<Rightarrow> string" where
  "iso_clock r = ''T'' @ pad 2 (nat (r div 3600000)) @ '':'' @ pad 2 (nat (r div 60000 mod 60)) @ '':''
     @ pad 2 (nat (r div 1000 mod 60)) @ ''.'' @ pad 3 (nat (r mod 1000)) @ ''Z''"

definition iso_time :: "int \<Rightarrow> string" where
  "iso_time ms = iso_day (ms div ms_per_day) @ iso_clock (ms mod ms_per_day)"

definition iso_date :: "int \<Rightarrow> string" where
  "iso_date ms = take 10 (iso_time ms)"

text \<open>The range of time values; outside it a \<open>Date\<close> is invalid.\<close>

definition valid_time :: "int \<Rightarrow> bool" where
  "valid_time ms \<longleftrightarrow> \<bar>ms\<bar> \<le> 8640000000000000"

definition is_digit :: "char \<Rightarrow> bool" where
  "is_digit c \<longleftrightarrow> CHR ''0'' \<le> c \<and> c \<le> CHR ''9''"

definition digits :: "string \<Rightarrow> int option" where
  "digits s = (if s \<noteq> [] \<and> list_all is_digit s then Some (int (decimal_value s)) else None)"

text \<open>
  A day past the end of its month rolls over into the next one, as V8 reads it; every caller that
  takes a date from outside compares the printed result with the input.
\<close>

definition parse_day :: "string \<Rightarrow> int option" where
  "parse_day s =
     (case (digits (take 4 s), digits (take 2 (drop 5 s)), digits (drop 8 s)) of
        (Some y, Some m, Some d) \<Rightarrow>
          if length s = 10 \<and> s ! 4 = CHR ''-'' \<and> s ! 7 = CHR ''-''
             \<and> 1 \<le> m \<and> m \<le> 12 \<and> 1 \<le> d \<and> d \<le> 31
          then Some (day_number y (nat m) d) else None
      | _ \<Rightarrow> None)"

definition parse_clock :: "string \<Rightarrow> int option" where
  "parse_clock s =
     (case (digits (take 2 (drop 1 s)), digits (take 2 (drop 4 s)), digits (take 2 (drop 7 s))) of
        (Some h, Some m, Some sec) \<Rightarrow>
          if h \<le> 23 \<and> m \<le> 59 \<and> sec \<le> 59 \<and> take 1 s = ''T'' \<and> take 1 (drop 3 s) = '':''
             \<and> take 1 (drop 6 s) = '':'' then
            if drop 9 s = ''Z'' then Some (h * 3600000 + m * 60000 + sec * 1000)
            else if length s = 14 \<and> s ! 9 = CHR ''.'' \<and> s ! 13 = CHR ''Z'' then
              map_option (\<lambda>ms. h * 3600000 + m * 60000 + sec * 1000 + ms) (digits (take 3 (drop 10 s)))
            else None
          else None
      | _ \<Rightarrow> None)"

definition date_parse :: "string \<Rightarrow> int option" where
  "date_parse s = (case parse_day (take 10 s) of
     None \<Rightarrow> None
   | Some day \<Rightarrow> if length s = 10 then Some (day * ms_per_day)
       else map_option (\<lambda>clock. day * ms_per_day + clock) (parse_clock (drop 10 s)))"

subsection \<open>Digits\<close>

lemma length_pad [simp]: "length (pad w n) = w"
  by (induction w arbitrary: n) simp_all

lemma is_digit_char: "d < 10 \<Longrightarrow> is_digit (digit_char d)"
  by (simp add: is_digit_def digit_char_def less_eq_char_def)

lemma list_all_pad [simp]: "list_all is_digit (pad w n)"
  by (induction w arbitrary: n) (simp_all add: is_digit_char)

lemma decimal_value_snoc: "decimal_value (s @ [c]) = 10 * decimal_value s + digit_value c"
  by (simp add: decimal_value_def)

lemma decimal_value_pad: "decimal_value (pad w n) = n mod 10 ^ w"
proof (induction w arbitrary: n)
  case 0
  show ?case by (simp add: decimal_value_def)
next
  case (Suc w)
  then show ?case by (simp add: decimal_value_snoc mod_mult2_eq)
qed

lemma digits_pad: "0 < w \<Longrightarrow> n < 10 ^ w \<Longrightarrow> digits (pad w n) = Some (int n)"
  using length_pad [of w n] by (auto simp: digits_def decimal_value_pad simp del: length_pad)

lemma pad_inject: "m < 10 ^ w \<Longrightarrow> n < 10 ^ w \<Longrightarrow> pad w m = pad w n \<longleftrightarrow> m = n"
  by (metis decimal_value_pad mod_less)

lemma pad_decimal_value:
  "list_all is_digit s \<Longrightarrow> pad (length s) (decimal_value s) = s"
proof (induction s rule: rev_induct)
  case (snoc c s)
  have c: "digit_char (digit_value c) = c" "digit_value c < 10"
  proof -
    have "48 \<le> (of_char c :: nat)" "(of_char c :: nat) \<le> 57"
      using snoc.prems by (simp_all add: is_digit_def less_eq_char_def)
    then show "digit_char (digit_value c) = c" "digit_value c < 10"
      by (simp_all add: digit_char_def digit_value_def)
  qed
  with snoc show ?case by (simp add: decimal_value_snoc)
qed simp

lemma less_append_same_length:
  "length xs = length ys \<Longrightarrow> xs @ us < ys @ vs \<longleftrightarrow> xs < ys \<or> xs = ys \<and> us < vs"
  for xs ys us vs :: "'a::linorder list"
  by (induction xs ys rule: list_induct2) auto

lemma digit_char_less: "m < 10 \<Longrightarrow> n < 10 \<Longrightarrow> digit_char m < digit_char n \<longleftrightarrow> m < n"
  by (simp add: digit_char_def less_char_def)

lemma digit_pair_less:
  "(c :: nat) < 10 \<Longrightarrow> d < 10 \<Longrightarrow> 10 * a + c < 10 * b + d \<longleftrightarrow> a < b \<or> a = b \<and> c < d"
  by auto

lemma pad_less: "m < 10 ^ w \<Longrightarrow> n < 10 ^ w \<Longrightarrow> pad w m < pad w n \<longleftrightarrow> m < n"
proof (induction w arbitrary: m n)
  case (Suc w)
  then have "m div 10 < 10 ^ w" "n div 10 < 10 ^ w"
    by (simp_all add: less_mult_imp_div_less mult.commute)
  with Suc.IH have "pad (Suc w) m < pad (Suc w) n \<longleftrightarrow>
      m div 10 < n div 10 \<or> m div 10 = n div 10 \<and> m mod 10 < n mod 10"
    by (simp add: less_append_same_length digit_char_less pad_inject)
  also have "\<dots> \<longleftrightarrow> 10 * (m div 10) + m mod 10 < 10 * (n div 10) + n mod 10"
    by (rule digit_pair_less [symmetric]) simp_all
  finally show ?case by simp
qed simp

subsection \<open>Printing and reading days\<close>

definition four_digit_year :: "int \<Rightarrow> bool" where
  "four_digit_year d \<longleftrightarrow> 0 \<le> year_of_day d \<and> year_of_day d \<le> 9999"

lemma month_lengths:
  "valid_date y m d \<Longrightarrow> d \<le> 31"
  using month_cases [of m] leap_cases [of y] by (auto simp: valid_date_def month_starts_def)

lemma date_bounds:
  "1 \<le> month_of_day d" "month_of_day d \<le> 12" "1 \<le> date_of_day d" "date_of_day d \<le> 31"
  using valid_date_of_day [of d] month_lengths [OF valid_date_of_day [of d]]
  by (simp_all add: valid_date_def)

lemma iso_day_eq:
  "four_digit_year d \<Longrightarrow> iso_day d = pad 4 (nat (year_of_day d)) @ ''-'' @ pad 2 (month_of_day d)
     @ ''-'' @ pad 2 (nat (date_of_day d))"
  by (simp add: iso_day_def iso_year_def four_digit_year_def)

lemma length_iso_day: "four_digit_year d \<Longrightarrow> length (iso_day d) = 10"
  by (simp add: iso_day_eq del: pad.simps)

lemma parse_iso_day:
  assumes "four_digit_year d"
  shows "parse_day (iso_day d) = Some d"
proof -
  note b = date_bounds [of d]
  have y: "nat (year_of_day d) < 10 ^ 4" using assms by (auto simp: four_digit_year_def nat_less_iff)
  have m: "month_of_day d < 10 ^ 2" and dd: "nat (date_of_day d) < 10 ^ 2" using b by simp_all
  have numbers: "digits (pad 4 (nat (year_of_day d))) = Some (year_of_day d)"
      "digits (pad 2 (month_of_day d)) = Some (int (month_of_day d))"
      "digits (pad 2 (nat (date_of_day d))) = Some (date_of_day d)"
    using digits_pad [OF _ y] digits_pad [OF _ m] digits_pad [OF _ dd] assms b
    by (simp_all add: four_digit_year_def del: pad.simps)
  show ?thesis
    using b numbers by (simp add: parse_day_def iso_day_eq [OF assms] nth_append day_number_of_day del: pad.simps)
qed

lemma day_lex:
  assumes "year_of_day a < year_of_day b
    \<or> year_of_day a = year_of_day b \<and> (month_of_day a < month_of_day b
       \<or> month_of_day a = month_of_day b \<and> date_of_day a < date_of_day b)"
  shows "a < b"
proof (cases "year_of_day a = year_of_day b")
  case False
  then have "year_of_day a + 1 \<le> year_of_day b" using assms by simp
  then have "day_from_year (year_of_day a + 1) \<le> day_from_year (year_of_day b)"
    using day_from_year_mono by (cases "year_of_day a + 1 = year_of_day b") (auto simp: order_le_less)
  then show ?thesis using year_of_day_bounds [of a] year_of_day_bounds [of b] by linarith
next
  case True
  let ?xs = "month_starts (leap (year_of_day b))"
  have len: "length ?xs = 13" by (simp add: month_starts_def)
  have mono: "i \<le> j \<Longrightarrow> j < 13 \<Longrightarrow> ?xs ! i \<le> ?xs ! j" for i j
    using month_starts_sorted [OF leap_cases] len by (simp add: sorted_nth_mono strict_sorted_iff)
  have a: "a = day_from_year (year_of_day b) + ?xs ! (month_of_day a - 1) + date_of_day a - 1"
    using day_number_of_day [of a] True by (simp add: day_number_def)
  have b: "b = day_from_year (year_of_day b) + ?xs ! (month_of_day b - 1) + date_of_day b - 1"
    using day_number_of_day [of b] by (simp add: day_number_def)
  have last: "date_of_day a \<le> ?xs ! month_of_day a - ?xs ! (month_of_day a - 1)"
    using valid_date_of_day [of a] True by (simp add: valid_date_def)
  show ?thesis
  proof (cases "month_of_day a = month_of_day b")
    case True
    then show ?thesis using assms \<open>year_of_day a = year_of_day b\<close> a b by simp
  next
    case False
    then have "month_of_day a \<le> month_of_day b - 1" using assms True by simp
    then have "?xs ! month_of_day a \<le> ?xs ! (month_of_day b - 1)"
      using mono date_bounds(2) [of b] by simp
    then show ?thesis using a b last date_bounds(3) [of b] by linarith
  qed
qed

text \<open>Days compare as their printed dates do, which is what \<open>ORDER BY day_utc\<close> relies on.\<close>

lemma iso_day_less:
  assumes "four_digit_year a" and "four_digit_year b"
  shows "iso_day a < iso_day b \<longleftrightarrow> a < b"
proof -
  let ?lex = "\<lambda>a b. year_of_day a < year_of_day b
    \<or> year_of_day a = year_of_day b \<and> (month_of_day a < month_of_day b
       \<or> month_of_day a = month_of_day b \<and> date_of_day a < date_of_day b)"
  have y: "nat (year_of_day c) < 10 ^ 4" if "four_digit_year c" for c
    using that by (auto simp: four_digit_year_def nat_less_iff)
  have m: "month_of_day c < 10 ^ 2" and d: "nat (date_of_day c) < 10 ^ 2" for c
    using date_bounds [of c] by simp_all
  have "iso_day a < iso_day b \<longleftrightarrow>
      nat (year_of_day a) < nat (year_of_day b) \<or> nat (year_of_day a) = nat (year_of_day b)
      \<and> (month_of_day a < month_of_day b \<or> month_of_day a = month_of_day b
         \<and> nat (date_of_day a) < nat (date_of_day b))"
    unfolding iso_day_eq [OF assms(1)] iso_day_eq [OF assms(2)]
    using y [OF assms(1)] y [OF assms(2)] m d
    by (simp add: less_append_same_length pad_less pad_inject del: pad.simps)
  also have "\<dots> \<longleftrightarrow> ?lex a b"
    using assms date_bounds [of a] date_bounds [of b] by (auto simp: four_digit_year_def)
  also have "\<dots> \<longleftrightarrow> a < b"
  proof
    show "?lex a b \<Longrightarrow> a < b" by (rule day_lex)
  next
    assume less: "a < b"
    have "?lex a b \<or> ?lex b a \<or> year_of_day a = year_of_day b \<and> month_of_day a = month_of_day b
        \<and> date_of_day a = date_of_day b" by auto
    moreover have "\<not> ?lex b a" using less day_lex [of b a] by auto
    moreover have "\<not> (year_of_day a = year_of_day b \<and> month_of_day a = month_of_day b
        \<and> date_of_day a = date_of_day b)"
      using less day_number_of_day [of a] day_number_of_day [of b] by auto
    ultimately show "?lex a b" by blast
  qed
  finally show ?thesis .
qed

lemma iso_day_inject: "four_digit_year a \<Longrightarrow> four_digit_year b \<Longrightarrow> iso_day a = iso_day b \<longleftrightarrow> a = b"
  by (metis option.inject parse_iso_day)

lemma year_of_day_mono: "a \<le> b \<Longrightarrow> year_of_day a \<le> year_of_day b"
proof (rule ccontr)
  assume "a \<le> b" "\<not> year_of_day a \<le> year_of_day b"
  moreover from this have "day_from_year (year_of_day b + 1) \<le> day_from_year (year_of_day a)"
    using day_from_year_mono [of "year_of_day b + 1" "year_of_day a"]
    by (cases "year_of_day b + 1 = year_of_day a") auto
  ultimately show False using year_of_day_bounds [of a] year_of_day_bounds [of b] by linarith
qed

lemma four_digit_between:
  "four_digit_year a \<Longrightarrow> four_digit_year b \<Longrightarrow> a \<le> d \<Longrightarrow> d \<le> b \<Longrightarrow> four_digit_year d"
  using year_of_day_mono [of a d] year_of_day_mono [of d b] by (simp add: four_digit_year_def)

lemma four_digit_valid_time:
  assumes "four_digit_year d" shows "valid_time (d * ms_per_day)"
proof -
  have "0 \<le> year_of_day d" "year_of_day d + 1 \<le> 10000"
    using assms by (simp_all add: four_digit_year_def)
  then have "day_from_year 0 \<le> day_from_year (year_of_day d)"
      "day_from_year (year_of_day d + 1) \<le> day_from_year 10000"
    using day_from_year_less_iff not_less by metis+
  moreover have "day_from_year 0 = -719528" "day_from_year 10000 = 2932897"
    by (simp_all add: day_from_year_def)
  ultimately have "\<bar>d\<bar> \<le> 100000000"
    using year_of_day_bounds [of d] by linarith
  then show ?thesis by (simp add: valid_time_def ms_per_day_def abs_mult)
qed

subsection \<open>Printing and reading times\<close>

definition four_digit_time :: "int \<Rightarrow> bool" where
  "four_digit_time ms \<longleftrightarrow> four_digit_year (ms div ms_per_day)"

lemma length_iso_clock [simp]: "length (iso_clock r) = 14"
  by (simp add: iso_clock_def del: pad.simps)

lemma length_iso_time: "four_digit_time ms \<Longrightarrow> length (iso_time ms) = 24"
  by (simp add: iso_time_def length_iso_day four_digit_time_def)

lemma iso_date_eq: "four_digit_time ms \<Longrightarrow> iso_date ms = iso_day (ms div ms_per_day)"
  by (simp add: iso_date_def iso_time_def length_iso_day four_digit_time_def)

lemma clock_parts:
  assumes "0 \<le> r" and "r < ms_per_day"
  shows "nat (r div 3600000) < 24" "nat (r div 60000 mod 60) < 60" "nat (r div 1000 mod 60) < 60"
    "nat (r mod 1000) < 1000"
    "r = r div 3600000 * 3600000 + r div 60000 mod 60 * 60000 + r div 1000 mod 60 * 1000 + r mod 1000"
proof -
  have m: "r div 60000 = r div 1000 div 60" "r div 3600000 = r div 1000 div 60 div 60"
    by (simp_all add: zdiv_zmult2_eq [symmetric])
  show "nat (r div 3600000) < 24"
    using assms by (simp add: ms_per_day_def nat_less_iff pos_imp_zdiv_nonneg_iff div_less_iff_less_mult)
  show "nat (r div 60000 mod 60) < 60" "nat (r div 1000 mod 60) < 60" "nat (r mod 1000) < 1000"
    by (simp_all add: nat_less_iff)
  define q where "q = r div 1000"
  define u where "u = q div 60"
  have "r = 1000 * q + r mod 1000" "q = 60 * u + q mod 60" "u = 60 * (u div 60) + u mod 60"
    by (simp_all add: q_def u_def)
  then show "r = r div 3600000 * 3600000 + r div 60000 mod 60 * 60000 + r div 1000 mod 60 * 1000 + r mod 1000"
    unfolding m q_def [symmetric] u_def [symmetric] by linarith
qed

lemma digits_pad_int: "0 < w \<Longrightarrow> 0 \<le> i \<Longrightarrow> nat i < 10 ^ w \<Longrightarrow> digits (pad w (nat i)) = Some i"
  by (simp add: digits_pad)

lemma parse_clock_parts:
  assumes "0 \<le> h" "h < 24" "0 \<le> m" "m < 60" "0 \<le> sec" "sec < 60" "0 \<le> ms" "ms < 1000"
  shows "parse_clock (''T'' @ pad 2 (nat h) @ '':'' @ pad 2 (nat m) @ '':'' @ pad 2 (nat sec) @ ''.''
      @ pad 3 (nat ms) @ ''Z'') = Some (h * 3600000 + m * 60000 + sec * 1000 + ms)"
proof -
  have "nat h < 10 ^ 2" "nat m < 10 ^ 2" "nat sec < 10 ^ 2" "nat ms < 10 ^ 3"
    using assms by simp_all
  then have "digits (pad 2 (nat h)) = Some h" "digits (pad 2 (nat m)) = Some m"
      "digits (pad 2 (nat sec)) = Some sec" "digits (pad 3 (nat ms)) = Some ms"
    using assms by (simp_all only: digits_pad_int zero_less_numeral)
  then show ?thesis using assms by (simp add: parse_clock_def nth_append del: pad.simps)
qed

lemma parse_iso_clock:
  assumes "0 \<le> r" and "r < ms_per_day"
  shows "parse_clock (iso_clock r) = Some r"
proof -
  note parts = clock_parts [OF assms]
  have "0 \<le> r div 3600000" using assms(1) by (simp add: pos_imp_zdiv_nonneg_iff)
  moreover have "r div 3600000 < 24" using parts(1) by linarith
  moreover have "0 \<le> x mod 60" "x mod 60 < 60" "0 \<le> x mod 1000" "x mod 1000 < 1000" for x :: int
    by simp_all
  ultimately show ?thesis
    unfolding iso_clock_def by (subst (5) parts(5)) (intro parse_clock_parts)
qed

text \<open>\<open>Date.parse(d.toISOString())\<close> is the time of \<open>d\<close>.\<close>

lemma date_parse_iso_time:
  assumes "four_digit_time ms"
  shows "date_parse (iso_time ms) = Some ms"
proof -
  have day: "four_digit_year (ms div ms_per_day)" using assms by (simp add: four_digit_time_def)
  have "0 \<le> ms mod ms_per_day" "ms mod ms_per_day < ms_per_day" by (simp_all add: ms_per_day_def)
  then show ?thesis
    by (simp add: date_parse_def iso_time_def length_iso_day [OF day] parse_iso_day [OF day] parse_iso_clock)
qed

lemma date_parse_iso_day:
  "four_digit_year d \<Longrightarrow> date_parse (iso_day d) = Some (d * ms_per_day)"
  by (simp add: date_parse_def length_iso_day parse_iso_day)

lemma date_parse_midnight:
  "four_digit_year d \<Longrightarrow> date_parse (iso_day d @ ''T00:00:00Z'') = Some (d * ms_per_day)"
  by (simp add: date_parse_def length_iso_day parse_iso_day parse_clock_def digits_def is_digit_def
      decimal_value_def digit_value_def)

section \<open>The first days of 1970\<close>

lemma january_1970:
  assumes "0 \<le> d" and "d < 31"
  shows "iso_day d = ''1970-01-'' @ pad 2 (nat d + 1)" and "four_digit_year d"
proof -
  have v: "valid_date 1970 1 (d + 1)" using assms by (simp add: valid_date_def month_starts_def)
  have n: "day_number 1970 1 (d + 1) = d" by (simp add: day_number_def day_from_year_def leap_def month_starts_def)
  note parts = day_number_inverse [OF v, unfolded n]
  show "four_digit_year d" using parts by (simp add: four_digit_year_def)
  have n: "nat 1970 = Suc (Suc 1968)" "pad 4 1970 = ''1970''" "pad 2 1 = ''01''" by (simp, code_simp, code_simp)
  show "iso_day d = ''1970-01-'' @ pad 2 (nat d + 1)"
    using parts assms n by (simp add: iso_day_def iso_year_def nat_add_distrib del: pad.simps)
qed

lemma january_days:
  "iso_day 0 = ''1970-01-01''" "iso_day 1 = ''1970-01-02''" "iso_day 2 = ''1970-01-03''"
  "four_digit_year 0" "four_digit_year 1" "four_digit_year 2"
proof -
  have p: "pad 2 1 = ''01''" "pad 2 2 = ''02''" "pad 2 3 = ''03''" by code_simp+
  show "iso_day 0 = ''1970-01-01''" "iso_day 1 = ''1970-01-02''" "iso_day 2 = ''1970-01-03''"
    using january_1970(1) [of 0] january_1970(1) [of 1] january_1970(1) [of 2] p
    by (simp_all add: numeral_2_eq_2 numeral_3_eq_3 del: pad.simps)
qed (simp_all add: january_1970(2))

end
