(* ===== verification/ContentStats.thy ===== *)
theory ContentStats
  imports PublicationProps Calendar JsRegex
begin

text \<open>
  \<open>apps/web/src/lib/stats/content.ts\<close>: the counts of the published content and its growth
  curve, and \<open>dateLabel\<close> of \<open>publication/indexes.ts\<close>.
\<close>

definition date_label :: "int \<Rightarrow> public_error + string" where
  "date_label ms = throw_when (\<not> valid_time ms) PublicDateInvalid (Inr (iso_date ms))"

datatype growth_type = AllGrowth | NoteGrowth | ArticleGrowth | TopicGrowth

definition growth_types :: "growth_type list" where
  "growth_types = [AllGrowth, NoteGrowth, ArticleGrowth, TopicGrowth]"

record growth_series =
  gs_points :: "(string \<times> nat) list"
  gs_total :: nat
  gs_first :: "string option"
  gs_last :: "string option"

record day_counts =
  day_note :: nat
  day_article :: nat
  day_topic :: nat

record content_counts =
  cc_note :: nat
  cc_article :: nat
  cc_topic :: nat
  cc_tags :: nat

record content_stats =
  cs_counts :: content_counts
  cs_series :: "(growth_type \<times> growth_series) list"
  cs_updatedAt :: string

text \<open>\<open>/^\d{4}-\d{2}-\d{2}$/\<close>\<close>

definition plain_date_rx :: rx where
  "plain_date_rx = Seq (Times 4 (Cls digit_class)) (Seq (Lit CHR ''-'') (Seq (Times 2 (Cls digit_class))
     (Seq (Lit CHR ''-'') (Times 2 (Cls digit_class)))))"

definition count_day :: "content_type \<Rightarrow> day_counts \<Rightarrow> day_counts" where
  "count_day t d = (case t of
     Note \<Rightarrow> d\<lparr>day_note := day_note d + 1\<rparr>
   | CuratedArticle \<Rightarrow> d\<lparr>day_article := day_article d + 1\<rparr>
   | Topic \<Rightarrow> d\<lparr>day_topic := day_topic d + 1\<rparr>
   | Post \<Rightarrow> d)"

definition count_content :: "content_type \<Rightarrow> content_counts \<Rightarrow> content_counts" where
  "count_content t c = (case t of
     Note \<Rightarrow> c\<lparr>cc_note := cc_note c + 1\<rparr>
   | CuratedArticle \<Rightarrow> c\<lparr>cc_article := cc_article c + 1\<rparr>
   | Topic \<Rightarrow> c\<lparr>cc_topic := cc_topic c + 1\<rparr>
   | Post \<Rightarrow> c)"

definition count_item ::
  "content \<Rightarrow> (string \<times> day_counts) list \<times> content_counts
    \<Rightarrow> public_error + (string \<times> day_counts) list \<times> content_counts" where
  "count_item item st = (if content_type item = Post then Inr st else
     ebind (date_label (firstPublishedAt item)) (\<lambda>date.
     throw_when (\<not> rx_test plain_date_rx date) PublicDateInvalid
     (let day = (case map_of (fst st) date of Some d \<Rightarrow> d
                 | None \<Rightarrow> \<lparr>day_note = 0, day_article = 0, day_topic = 0\<rparr>)
      in Inr (AList.update date (count_day (content_type item) day) (fst st),
              count_content (content_type item) (snd st)))))"

definition day_added :: "growth_type \<Rightarrow> day_counts \<Rightarrow> nat" where
  "day_added t d = (case t of
     AllGrowth \<Rightarrow> day_note d + day_article d + day_topic d
   | NoteGrowth \<Rightarrow> day_note d
   | ArticleGrowth \<Rightarrow> day_article d
   | TopicGrowth \<Rightarrow> day_topic d)"

definition add_point ::
  "growth_type \<Rightarrow> string \<times> day_counts \<Rightarrow> nat \<times> (string \<times> nat) list \<Rightarrow> nat \<times> (string \<times> nat) list" where
  "add_point t entry st = (let added = day_added t (snd entry) in
     if added = 0 then st
     else (fst st + added, snd st @ [(fst entry, fst st + added)]))"

definition growth_series_of :: "growth_type \<Rightarrow> (string \<times> day_counts) list \<Rightarrow> growth_series" where
  "growth_series_of t days = (let (total, points) = fold (add_point t) days (0, []) in
     \<lparr>gs_points = points, gs_total = total,
      gs_first = (case points of [] \<Rightarrow> None | p # _ \<Rightarrow> Some (fst p)),
      gs_last = (if points = [] then None else Some (fst (last points)))\<rparr>)"

definition day_order :: "string \<times> day_counts \<Rightarrow> string \<times> day_counts \<Rightarrow> int" where
  "day_order a b = compare_text (fst a) (fst b)"

text \<open>\<open>None\<close> is the unavailable result of generation zero.\<close>

definition content_statistics :: "publication \<Rightarrow> public_error + content_stats option" where
  "content_statistics p =
     (if generation (pub_snapshot p) = 0 then Inr None else
      ebind (efold count_item (map_values (contentById p))
        ([], \<lparr>cc_note = 0, cc_article = 0, cc_topic = 0, cc_tags = length (tagById p)\<rparr>)) (\<lambda>st.
      let days = js_sort day_order (fst st)
      in Inr (Some \<lparr>cs_counts = snd st,
           cs_series = map (\<lambda>t. (t, growth_series_of t days)) growth_types,
           cs_updatedAt = exportedAt (pub_snapshot p)\<rparr>)))"

section \<open>What is counted\<close>

definition counted :: "growth_type \<Rightarrow> content \<Rightarrow> bool" where
  "counted t c = (case t of
     AllGrowth \<Rightarrow> content_type c \<noteq> Post
   | NoteGrowth \<Rightarrow> content_type c = Note
   | ArticleGrowth \<Rightarrow> content_type c = CuratedArticle
   | TopicGrowth \<Rightarrow> content_type c = Topic)"

definition day_of :: "content \<Rightarrow> string" where
  "day_of c = iso_date (firstPublishedAt c)"

definition countable_item :: "content \<Rightarrow> bool" where
  "countable_item c \<longleftrightarrow> content_type c = Post
     \<or> valid_time (firstPublishedAt c) \<and> rx_test plain_date_rx (day_of c)"

definition number :: "(content \<Rightarrow> bool) \<Rightarrow> content list \<Rightarrow> nat" where
  "number P items = length (filter P items)"

definition put_day :: "content \<Rightarrow> (string \<times> day_counts) list \<Rightarrow> (string \<times> day_counts) list" where
  "put_day c m = (if content_type c = Post then m else
     AList.update (day_of c) (count_day (content_type c)
       (case map_of m (day_of c) of Some d \<Rightarrow> d
        | None \<Rightarrow> \<lparr>day_note = 0, day_article = 0, day_topic = 0\<rparr>)) m)"

definition added_at :: "growth_type \<Rightarrow> (string \<times> day_counts) list \<Rightarrow> string \<Rightarrow> nat" where
  "added_at t m d = (case map_of m d of None \<Rightarrow> 0 | Some day \<Rightarrow> day_added t day)"

lemma count_items:
  "efold count_item items st = Inr st' \<longleftrightarrow> (\<forall>c \<in> set items. countable_item c)
    \<and> st' = (fold put_day items (fst st), fold (\<lambda>c. count_content (content_type c)) items (snd st))"
proof -
  have step: "count_item c st = Inr st' \<longleftrightarrow>
      countable_item c \<and> st' = (put_day c (fst st), count_content (content_type c) (snd st))" for c st st'
    by (cases st) (auto simp: count_item_def countable_item_def put_day_def date_label_def day_of_def ebind_Inr_iff
        throw_when_Inr_iff Let_def count_content_def)
  show ?thesis
  proof (induction items arbitrary: st)
    case Nil
    then show ?case by auto
  next
    case (Cons c items)
    then show ?case by (auto simp: ebind_Inr_iff step)
  qed
qed

lemma number_simps [simp]:
  "number P [] = 0" "number P (c # items) = (if P c then Suc (number P items) else number P items)"
  by (simp_all add: number_def)

lemma counts_of_items:
  "fold (\<lambda>c. count_content (content_type c)) items k = k\<lparr>
    cc_note := cc_note k + number (counted NoteGrowth) items,
    cc_article := cc_article k + number (counted ArticleGrowth) items,
    cc_topic := cc_topic k + number (counted TopicGrowth) items\<rparr>"
proof (induction items arbitrary: k)
  case (Cons c items)
  then show ?case by (cases "content_type c") (simp_all add: count_content_def counted_def)
qed simp

lemma added_at_put_day:
  "added_at t (put_day c m) d = added_at t m d + (if counted t c \<and> day_of c = d then 1 else 0)"
  by (cases "content_type c"; cases t)
    (auto simp: added_at_def put_day_def count_day_def day_added_def counted_def split: option.splits)

lemma added_at_days:
  "added_at t (fold put_day items m) d = added_at t m d + number (\<lambda>c. counted t c \<and> day_of c = d) items"
  by (induction items arbitrary: m) (auto simp: added_at_put_day)

lemma keys_put_day: "fst ` set (put_day c m) = (if content_type c = Post then {} else {day_of c}) \<union> fst ` set m"
  by (auto simp: put_day_def dom_update)

lemma keys_days:
  "fst ` set (fold put_day items m) = day_of ` {c \<in> set items. content_type c \<noteq> Post} \<union> fst ` set m"
proof (induction items arbitrary: m)
  case (Cons c items)
  then show ?case by (auto simp: keys_put_day)
qed simp

lemma distinct_days: "distinct (map fst m) \<Longrightarrow> distinct (map fst (fold put_day items m))"
  by (induction items arbitrary: m) (simp_all add: put_day_def distinct_update)

section \<open>The growth curve\<close>

fun points_from :: "growth_type \<Rightarrow> nat \<Rightarrow> (string \<times> day_counts) list \<Rightarrow> (string \<times> nat) list" where
  "points_from t n [] = []"
| "points_from t n (e # es) = (if day_added t (snd e) = 0 then points_from t n es
     else (fst e, n + day_added t (snd e)) # points_from t (n + day_added t (snd e)) es)"

definition total_added :: "growth_type \<Rightarrow> (string \<times> day_counts) list \<Rightarrow> nat" where
  "total_added t es = sum_list (map (\<lambda>e. day_added t (snd e)) es)"

lemma total_added_simps [simp]:
  "total_added t [] = 0" "total_added t (e # es) = day_added t (snd e) + total_added t es"
  by (simp_all add: total_added_def)

lemma add_points:
  "fold (add_point t) days (n, ps) = (n + total_added t days, ps @ points_from t n days)"
  by (induction days arbitrary: n ps) (simp_all add: add_point_def Let_def)

lemma points_dates: "map fst (points_from t n days) = map fst (filter (\<lambda>e. day_added t (snd e) \<noteq> 0) days)"
  by (induction days arbitrary: n) simp_all

lemma points_total:
  assumes "sorted_wrt (<) (map fst days)"
  shows "(d, k) \<in> set (points_from t n days) \<longleftrightarrow> (\<exists>day. (d, day) \<in> set days \<and> day_added t day \<noteq> 0
    \<and> k = n + total_added t (filter (\<lambda>e. fst e \<le> d) days))"
  using assms
proof (induction days arbitrary: n)
  case (Cons e days)
  have later: "fst e < fst x" if "x \<in> set days" for x using Cons.prems that by auto
  have none: "filter (\<lambda>x. fst x \<le> fst e) days = []" using later by (auto simp: filter_empty_conv not_le)
  have before: "fst e \<le> d" if "(d, day) \<in> set days" for day
    using later [OF that] by simp
  have IH: "(d, k) \<in> set (points_from t m days) \<longleftrightarrow> (\<exists>day. (d, day) \<in> set days \<and> day_added t day \<noteq> 0
      \<and> k = m + total_added t (filter (\<lambda>e. fst e \<le> d) days))" for m
    using Cons by simp
  have rest: "(\<exists>day. (d, day) \<in> set days \<and> day_added t day \<noteq> 0
        \<and> k = n + total_added t (filter (\<lambda>x. fst x \<le> d) (e # days))) \<longleftrightarrow>
      (\<exists>day. (d, day) \<in> set days \<and> day_added t day \<noteq> 0
        \<and> k = n + day_added t (snd e) + total_added t (filter (\<lambda>x. fst x \<le> d) days))"
    using before by auto
  show ?case
  proof (cases "day_added t (snd e) = 0")
    case True
    then show ?thesis using IH [of n] rest by (cases e) auto
  next
    case False
    have "d = fst e \<Longrightarrow> (d, day) \<notin> set days" for day using later [of "(d, day)"] by auto
    with False show ?thesis using IH [of "n + day_added t (snd e)"] rest none
      by (cases e) (auto split: if_splits)
  qed
qed simp

lemma sum_days:
  assumes "distinct ks" and "\<And>c. c \<in> set items \<Longrightarrow> counted t c \<Longrightarrow> day_of c \<in> set ks"
  shows "sum_list (map (\<lambda>d. number (\<lambda>c. counted t c \<and> day_of c = d) items) (filter P ks)) =
    number (\<lambda>c. counted t c \<and> P (day_of c)) items"
  using assms(2)
proof (induction items)
  case (Cons c items)
  have one: "sum_list (map (\<lambda>d. if counted t c \<and> day_of c = d then 1 else 0) (filter P ks)) =
      (if counted t c \<and> P (day_of c) then 1 else (0 :: nat))"
  proof -
    have "sum_list (map (\<lambda>d. if counted t c \<and> day_of c = d then 1 else 0) (filter P ks)) =
        (\<Sum>d \<in> set (filter P ks). if counted t c \<and> day_of c = d then 1 else (0 :: nat))"
      using assms(1) by (simp add: sum_list_distinct_conv_sum_set)
    also have "\<dots> = (if counted t c \<and> P (day_of c) then 1 else 0)"
      using Cons.prems [of c] by (cases "counted t c") (auto simp: sum.delta)
    finally show ?thesis .
  qed
  have "(\<lambda>d. number (\<lambda>c. counted t c \<and> day_of c = d) (c # items)) =
      (\<lambda>d. (if counted t c \<and> day_of c = d then 1 else 0) + number (\<lambda>c. counted t c \<and> day_of c = d) items)"
    by (rule ext) simp
  then have "sum_list (map (\<lambda>d. number (\<lambda>c. counted t c \<and> day_of c = d) (c # items)) (filter P ks)) =
      sum_list (map (\<lambda>d. if counted t c \<and> day_of c = d then 1 else 0) (filter P ks))
      + sum_list (map (\<lambda>d. number (\<lambda>c. counted t c \<and> day_of c = d) items) (filter P ks))"
    by (simp add: sum_list_addf)
  also have "\<dots> = (if counted t c \<and> P (day_of c) then 1 else 0) + number (\<lambda>c. counted t c \<and> P (day_of c)) items"
    using one Cons by simp
  finally show ?case by simp
qed simp

interpretation days_order: js_keyed_comparator UNIV day_order fst
  unfolding day_order_def [abs_def]
  by (intro js_keyed_comparator.intro js_keyed_comparator_axioms.intro comparator_intros) simp

definition sorted_days :: "content list \<Rightarrow> (string \<times> day_counts) list" where
  "sorted_days items = js_sort day_order (fold put_day items [])"

lemma sorted_days_facts:
  shows "sorted_wrt (<) (map fst (sorted_days items))"
    and "fst ` set (sorted_days items) = day_of ` {c \<in> set items. content_type c \<noteq> Post}"
    and "e \<in> set (sorted_days items) \<Longrightarrow>
      day_added t (snd e) = number (\<lambda>c. counted t c \<and> day_of c = fst e) items"
proof -
  let ?m = "fold put_day items []"
  have dist: "distinct (map fst ?m)" by (rule distinct_days) simp
  have "sorted_by day_order (sorted_days items)"
    unfolding sorted_days_def by (rule days_order.sorted_js_sort) simp
  then have "sorted (map fst (sorted_days items))"
    by (simp add: sorted_wrt_map day_order_def compare_text_def) (auto elim!: sorted_wrt_mono_rel [rotated] split: if_splits)
  then show "sorted_wrt (<) (map fst (sorted_days items))"
    using dist by (simp add: strict_sorted_iff sorted_days_def)
  show "fst ` set (sorted_days items) = day_of ` {c \<in> set items. content_type c \<noteq> Post}"
    using keys_days [of items "[]"] by (simp add: sorted_days_def)
  assume "e \<in> set (sorted_days items)"
  then have "map_of ?m (fst e) = Some (snd e)"
    using dist by (simp add: sorted_days_def)
  then have "day_added t (snd e) = added_at t ?m (fst e)" by (simp add: added_at_def)
  also have "\<dots> = number (\<lambda>c. counted t c \<and> day_of c = fst e) items"
    by (simp add: added_at_days) (simp add: added_at_def)
  finally show "day_added t (snd e) = number (\<lambda>c. counted t c \<and> day_of c = fst e) items" .
qed

lemma counted_not_post: "counted t c \<Longrightarrow> content_type c \<noteq> Post"
  by (cases t) (auto simp: counted_def)

lemma total_of_days:
  "total_added t (filter (\<lambda>e. P (fst e)) (sorted_days items)) = number (\<lambda>c. counted t c \<and> P (day_of c)) items"
proof -
  have ks: "distinct (map fst (sorted_days items))"
    using sorted_days_facts(1) by (simp add: strict_sorted_iff)
  have "total_added t (filter (\<lambda>e. P (fst e)) (sorted_days items)) =
      sum_list (map (\<lambda>d. number (\<lambda>c. counted t c \<and> day_of c = d) items) (filter P (map fst (sorted_days items))))"
    unfolding total_added_def filter_map map_map comp_def
    by (rule arg_cong [where f = sum_list], rule map_cong) (auto simp: sorted_days_facts(3))
  also have "\<dots> = number (\<lambda>c. counted t c \<and> P (day_of c)) items"
    using counted_not_post sorted_days_facts(2) [of items] by (intro sum_days [OF ks]) auto
  finally show ?thesis .
qed

lemma content_statistics_counts:
  assumes "content_statistics p = Inr (Some stats)"
  shows "cs_counts stats = \<lparr>cc_note = number (counted NoteGrowth) (map_values (contentById p)),
      cc_article = number (counted ArticleGrowth) (map_values (contentById p)),
      cc_topic = number (counted TopicGrowth) (map_values (contentById p)), cc_tags = length (tagById p)\<rparr>"
    and "cs_series stats = map (\<lambda>t. (t, growth_series_of t (sorted_days (map_values (contentById p))))) growth_types"
  using assms
  by (auto simp: content_statistics_def ebind_Inr_iff count_items counts_of_items sorted_days_def Let_def
      split: if_splits)

lemma growth_curve:
  assumes "content_statistics p = Inr (Some stats)" and "map_of (cs_series stats) t = Some series"
  shows "gs_total series = number (counted t) (map_values (contentById p))
    \<and> sorted_wrt (<) (map fst (gs_points series))
    \<and> (\<forall>d k. (d, k) \<in> set (gs_points series) \<longleftrightarrow>
         (\<exists>c \<in> set (map_values (contentById p)). counted t c \<and> day_of c = d)
         \<and> k = number (\<lambda>c. counted t c \<and> day_of c \<le> d) (map_values (contentById p)))
    \<and> cc_note (cs_counts stats) = number (counted NoteGrowth) (map_values (contentById p))
    \<and> cc_article (cs_counts stats) = number (counted ArticleGrowth) (map_values (contentById p))
    \<and> cc_topic (cs_counts stats) = number (counted TopicGrowth) (map_values (contentById p))
    \<and> cc_tags (cs_counts stats) = length (tagById p)
    \<and> list_all countable_item (map_values (contentById p))"
proof -
  let ?items = "map_values (contentById p)"
  note stats = content_statistics_counts [OF assms(1)]
  have ok: "list_all countable_item ?items"
    using assms(1) by (auto simp: content_statistics_def ebind_Inr_iff count_items list_all_iff split: if_splits)
  have series: "series = growth_series_of t (sorted_days ?items)"
    using assms(2) unfolding stats(2) by (cases t) (simp_all add: growth_types_def)
  have points: "gs_points series = points_from t 0 (sorted_days ?items)"
      and total: "gs_total series = total_added t (sorted_days ?items)"
    unfolding series growth_series_of_def add_points by simp_all
  have "sorted_wrt (<) (map fst (gs_points series))"
    unfolding points points_dates using sorted_days_facts(1) [of ?items]
    by (simp add: sorted_wrt_map sorted_wrt_filter)
  moreover have "(d, k) \<in> set (gs_points series) \<longleftrightarrow> (\<exists>c \<in> set ?items. counted t c \<and> day_of c = d)
      \<and> k = number (\<lambda>c. counted t c \<and> day_of c \<le> d) ?items" for d k
  proof -
    have some: "(\<exists>day. (d, day) \<in> set (sorted_days ?items) \<and> day_added t day \<noteq> 0) \<longleftrightarrow>
        (\<exists>c \<in> set ?items. counted t c \<and> day_of c = d)"
    proof
      assume "\<exists>day. (d, day) \<in> set (sorted_days ?items) \<and> day_added t day \<noteq> 0"
      then obtain day where "(d, day) \<in> set (sorted_days ?items)" "day_added t day \<noteq> 0" by blast
      then have "number (\<lambda>c. counted t c \<and> day_of c = d) ?items \<noteq> 0"
        using sorted_days_facts(3) [of "(d, day)" ?items t] by simp
      then show "\<exists>c \<in> set ?items. counted t c \<and> day_of c = d"
        by (auto simp: number_def filter_empty_conv)
    next
      assume "\<exists>c \<in> set ?items. counted t c \<and> day_of c = d"
      then obtain c where c: "c \<in> set ?items" "counted t c" "day_of c = d" by blast
      then have "d \<in> fst ` set (sorted_days ?items)"
        using counted_not_post sorted_days_facts(2) [of ?items] by auto
      then obtain day where day: "(d, day) \<in> set (sorted_days ?items)" by auto
      have "number (\<lambda>c. counted t c \<and> day_of c = d) ?items \<noteq> 0"
        using c by (auto simp: number_def filter_empty_conv)
      then show "\<exists>day. (d, day) \<in> set (sorted_days ?items) \<and> day_added t day \<noteq> 0"
        using day sorted_days_facts(3) [OF day, of t] by auto
    qed
    have "(d, k) \<in> set (gs_points series) \<longleftrightarrow> (\<exists>day. (d, day) \<in> set (sorted_days ?items) \<and> day_added t day \<noteq> 0)
        \<and> k = number (\<lambda>c. counted t c \<and> day_of c \<le> d) ?items"
      unfolding points points_total [OF sorted_days_facts(1)] total_of_days [where P = "\<lambda>x. x \<le> d"] by auto
    with some show ?thesis by blast
  qed
  moreover have "total_added t (sorted_days ?items) = number (counted t) ?items"
    using total_of_days [where P = "\<lambda>_. True" and items = ?items and t = t] by simp
  ultimately show ?thesis using stats(1) total ok by simp
qed

text \<open>
  C18. The growth curve is right: statistics exist only when every counted item has a
  representable four digit date; then the counts are the numbers of notes, articles and topics, and
  each curve has, in strictly increasing date order, one point for every date on which an item of
  its type was first published, carrying the number of such items up to that date.
\<close>

theorem content_statistics_correct:
  assumes "content_statistics p = Inr (Some stats)" and "map_of (cs_series stats) t = Some series"
  shows "gs_total series = number (counted t) (map_values (contentById p))
    \<and> sorted_wrt (<) (map fst (gs_points series))
    \<and> (\<forall>d k. (d, k) \<in> set (gs_points series) \<longleftrightarrow>
         (\<exists>c \<in> set (map_values (contentById p)). counted t c \<and> day_of c = d)
         \<and> k = number (\<lambda>c. counted t c \<and> day_of c \<le> d) (map_values (contentById p)))
    \<and> cc_note (cs_counts stats) = number (counted NoteGrowth) (map_values (contentById p))
    \<and> cc_article (cs_counts stats) = number (counted ArticleGrowth) (map_values (contentById p))
    \<and> cc_topic (cs_counts stats) = number (counted TopicGrowth) (map_values (contentById p))
    \<and> cc_tags (cs_counts stats) = length (tagById p)
    \<and> list_all countable_item (map_values (contentById p))"
  by (rule growth_curve [OF assms])

lemma sample_dates: "iso_date 100 = ''1970-01-01''" "iso_date 200 = ''1970-01-01''"
  "iso_date 300 = ''1970-01-01''" "rx_test plain_date_rx ''1970-01-01''"
proof -
  show "iso_date 100 = ''1970-01-01''" "iso_date 200 = ''1970-01-01''" "iso_date 300 = ''1970-01-01''"
    by (simp_all add: iso_date_eq four_digit_time_def ms_per_day_def january_days)
qed code_simp

lemma sample_first_dates [simp]:
  "firstPublishedAt sample_note = 100" "firstPublishedAt sample_article = 200"
  "firstPublishedAt sample_topic = 300"
  by (simp_all add: sample_note_def sample_article_def sample_topic_def sample_content_def)

theorem content_statistics_correct_witness:
  "\<exists>stats. content_statistics (publication_of sample_normalized) = Inr (Some stats)
    \<and> cc_note (cs_counts stats) = 1 \<and> cc_article (cs_counts stats) = 1"
proof -
  have items: "map_values (contentById (publication_of sample_normalized)) = [sample_note, sample_article, sample_topic]"
    by (simp add: content_index_def map_values_def)
  have generation: "generation sample_normalized = 7"
    by (simp add: sample_normalized_def sample_fields_def)
  have "countable_item sample_note" "countable_item sample_article" "countable_item sample_topic"
    by (simp_all add: countable_item_def day_of_def valid_time_def sample_dates del: rx_test.simps)
  then have ok: "\<forall>c \<in> set [sample_note, sample_article, sample_topic]. countable_item c" by simp
  have stats_ex: "\<exists>stats. content_statistics (publication_of sample_normalized) = Inr (Some stats)"
    unfolding content_statistics_def items
    by (simp add: generation ebind_Inr_iff count_items [THEN iffD2, OF conjI, OF ok refl] Let_def
        del: efold.simps)
  then obtain stats where stats: "content_statistics (publication_of sample_normalized) = Inr (Some stats)"
    by blast
  then obtain series where "map_of (cs_series stats) AllGrowth = Some series"
    by (auto simp: content_statistics_def growth_types_def Let_def ebind_Inr_iff split: if_splits)
  from content_statistics_correct [OF stats this] stats show ?thesis
    unfolding items by (auto simp: counted_def)
qed

end
