(* ===== verification/StatsBuild.thy ===== *)
theory StatsBuild
  imports StatsManifest ContentStats PublicRoutesProps PublicEditorial
begin

text \<open>
  \<open>scripts/stats-manifest.ts\<close>: the statistics manifest of a publication, from the pages of the
  site, the redirects and the content counts. The display words of the chrome pages, of the tag
  index and of the author index are arguments.
\<close>

record site_words =
  chrome_word :: "site_locale \<Rightarrow> nat \<Rightarrow> string"
  tags_word :: string
  authors_word :: string

definition add_stats_route ::
  "string \<times> string \<times> string \<Rightarrow> (string \<times> stats_route) list \<Rightarrow> stats_error + (string \<times> stats_route) list" where
  "add_stats_route entry rs = (case entry of (path, canonical, title) \<Rightarrow>
     throw_when (case map_of rs path of None \<Rightarrow> False | Some previous \<Rightarrow> sr_canonical previous \<noteq> canonical)
       StatsRouteConflict
       (Inr (AList.update path \<lparr>sr_path = path, sr_canonical = canonical, sr_title = title\<rparr> rs)))"

definition chrome_entries :: "site_words \<Rightarrow> (string \<times> string \<times> string) list" where
  "chrome_entries w = concat (map (\<lambda>(i, path).
     [(path, path, chrome_word w Zh i), (''/en'' @ path, ''/en'' @ path, chrome_word w En i)])
     (enumerate 0 chrome_paths))"

definition index_entries :: "site_words \<Rightarrow> (string \<times> string \<times> string) list" where
  "index_entries w = concat (map (\<lambda>(path, title). [(path, path, title), (''/en'' @ path, path, title)])
     [(''/tags/'', tags_word w), (''/authors/'', authors_word w)])"

definition page_title :: "page_texts \<Rightarrow> public_page \<Rightarrow> string" where
  "page_title texts page = (case page of
     DetailPage _ c \<Rightarrow> content_title c
   | CollectionPage c \<Rightarrow> fst (collection_text texts c Zh))"

definition page_entries :: "page_texts \<Rightarrow> public_page \<Rightarrow> (string \<times> string \<times> string) list" where
  "page_entries texts page = (page_path page, page_path page, page_title texts page)
     # (if page_path page \<in> set chrome_paths then []
        else [(''/en'' @ page_path page, page_path page, page_title texts page)])"

definition add_redirect ::
  "publication \<Rightarrow> route \<Rightarrow> (string \<times> stats_route) list \<Rightarrow> stats_error + (string \<times> stats_route) list" where
  "add_redirect p r rs = (if route_kind r \<noteq> Redirect then Inr rs else
     (case map_of (contentById p) (route_contentId r) of
        None \<Rightarrow> Inl StatsTypeError
      | Some item \<Rightarrow> add_stats_route (route_path r, canonicalPath item, content_title item) rs))"

definition stats_route_order :: "stats_route \<Rightarrow> stats_route \<Rightarrow> int" where
  "stats_route_order a b = (if sr_path a < sr_path b then - 1 else 1)"

definition from_public :: "public_error + 'a \<Rightarrow> stats_error + 'a" where
  "from_public r = (case r of Inl e \<Rightarrow> Inl (StatsPublic e) | Inr x \<Rightarrow> Inr x)"

definition build_stats_manifest ::
  "page_texts \<Rightarrow> site_words \<Rightarrow> publication \<Rightarrow> string \<Rightarrow> stats_error + stats_manifest" where
  "build_stats_manifest texts w p hash =
     ebind (from_public (content_statistics p)) (\<lambda>stats. case stats of
       None \<Rightarrow> Inl StatsManifestUnavailable
     | Some stats \<Rightarrow>
       ebind (efold add_stats_route (chrome_entries w) []) (\<lambda>rs.
       ebind (efold add_stats_route (index_entries w) rs) (\<lambda>rs.
       ebind (from_public (public_pages texts p)) (\<lambda>pages.
       ebind (efold add_stats_route (concat (map (page_entries texts) pages)) rs) (\<lambda>rs.
       ebind (efold (add_redirect p) (snapshot_routes (pub_snapshot p)) rs) (\<lambda>rs.
       validate_manifest (manifest_json
         \<lparr>sm_generation = generation (pub_snapshot p), sm_sha256 = JStr hash,
          sm_counts = \<lparr>notes_count = int (cc_note (cs_counts stats)),
            articles_count = int (cc_article (cs_counts stats)),
            topics_count = int (cc_topic (cs_counts stats)),
            tags_count = int (cc_tags (cs_counts stats))\<rparr>,
          sm_routes = js_sort stats_route_order (map_values rs)\<rparr>)))))))"

section \<open>The route map\<close>

definition targets :: "(string \<times> stats_route) list \<Rightarrow> (string \<times> string) set" where
  "targets rs = {(path, canonical). \<exists>r. map_of rs path = Some r \<and> sr_canonical r = canonical}"

definition keyed_routes :: "(string \<times> stats_route) list \<Rightarrow> bool" where
  "keyed_routes rs \<longleftrightarrow> distinct (map fst rs) \<and> (\<forall>k r. map_of rs k = Some r \<longrightarrow> sr_path r = k)"

lemma add_stats_route_targets:
  assumes "add_stats_route (path, canonical, title) rs = Inr rs'" and "keyed_routes rs"
  shows "keyed_routes rs' \<and> targets rs' = insert (path, canonical) (targets rs)"
  using assms
  by (auto simp: add_stats_route_def keyed_routes_def throw_when_Inr_iff targets_def distinct_update
      split: if_splits option.splits dest: eq_key_imp_eq_value)

lemma add_stats_routes_targets:
  "efold add_stats_route es rs = Inr rs' \<Longrightarrow> keyed_routes rs \<Longrightarrow>
    keyed_routes rs' \<and> targets rs' = (\<lambda>(path, canonical, title). (path, canonical)) ` set es \<union> targets rs"
proof (induction es arbitrary: rs)
  case (Cons e es)
  obtain path canonical title where e: "e = (path, canonical, title)" by (cases e)
  obtain rs1 where step: "add_stats_route (path, canonical, title) rs = Inr rs1"
      and rest: "efold add_stats_route es rs1 = Inr rs'"
    using Cons.prems(1) by (auto simp: e ebind_Inr_iff)
  from add_stats_route_targets [OF step Cons.prems(2)] Cons.IH [OF rest]
  show ?case by (simp add: e)
qed simp

definition redirect_targets :: "publication \<Rightarrow> route list \<Rightarrow> (string \<times> string) set" where
  "redirect_targets p routes = {(path, canonical). \<exists>r \<in> set routes. \<exists>item.
     route_kind r = Redirect \<and> path = route_path r
     \<and> map_of (contentById p) (route_contentId r) = Some item \<and> canonical = canonicalPath item}"

lemma redirect_targets_Cons:
  "redirect_targets p (r # routes) =
    (if route_kind r = Redirect then
       (case map_of (contentById p) (route_contentId r) of None \<Rightarrow> {} | Some item \<Rightarrow> {(route_path r, canonicalPath item)})
     else {}) \<union> redirect_targets p routes"
  by (auto simp: redirect_targets_def split: option.split)

lemma add_redirects_targets:
  "efold (add_redirect p) routes rs = Inr rs' \<Longrightarrow> keyed_routes rs \<Longrightarrow>
    keyed_routes rs' \<and> targets rs' = redirect_targets p routes \<union> targets rs"
proof (induction routes arbitrary: rs)
  case (Cons r routes)
  obtain rs1 where step: "add_redirect p r rs = Inr rs1"
      and rest: "efold (add_redirect p) routes rs1 = Inr rs'"
    using Cons.prems(1) by (auto simp: ebind_Inr_iff)
  have "keyed_routes rs1 \<and> targets rs1 = (if route_kind r = Redirect then
       (case map_of (contentById p) (route_contentId r) of None \<Rightarrow> {} | Some item \<Rightarrow> {(route_path r, canonicalPath item)})
     else {}) \<union> targets rs"
    using step Cons.prems(2)
    by (auto simp: add_redirect_def split: if_splits option.splits dest: add_stats_route_targets)
  with Cons.IH [OF rest] show ?case by (simp add: redirect_targets_Cons Un_ac)
qed (simp add: redirect_targets_def)

text \<open>On distinct paths the comparator, which never returns 0, sorts like \<open>compareText\<close>.\<close>

lemma js_insert_cong:
  "(\<And>y. y \<in> set ys \<Longrightarrow> f x y \<le> 0 \<longleftrightarrow> g x y \<le> 0) \<Longrightarrow> js_insert f x ys = js_insert g x ys"
  by (induction ys) simp_all

lemma sorted_stats_routes:
  assumes "distinct (map sr_path rs)"
  shows "sorted_wrt (<) (map sr_path (js_sort stats_route_order rs))"
proof -
  let ?text = "\<lambda>a b. compare_text (sr_path a) (sr_path b) :: int"
  have "js_sort stats_route_order rs = js_sort ?text rs"
    using assms
  proof (induction rs)
    case (Cons r rs)
    have "stats_route_order r y \<le> 0 \<longleftrightarrow> ?text r y \<le> 0" if "y \<in> set rs" for y
    proof -
      have "sr_path r \<noteq> sr_path y" using Cons.prems that by (auto simp: image_iff)
      then show ?thesis by (auto simp: stats_route_order_def compare_text_le)
    qed
    with Cons show ?case by (auto intro: js_insert_cong)
  qed simp
  moreover have "sorted_by ?text (js_sort ?text rs)"
    by (rule js_comparator.sorted_js_sort [where S = UNIV]) (simp_all add: comparator_text)
  ultimately have "sorted (map sr_path (js_sort stats_route_order rs))"
    by (simp add: sorted_wrt_map compare_text_le)
  with assms show ?thesis by (simp add: strict_sorted_iff)
qed

lemma keyed_routes_values:
  assumes "keyed_routes rs"
  shows "distinct (map sr_path (map_values rs))"
    and "(\<lambda>r. (sr_path r, sr_canonical r)) ` set (map_values rs) = targets rs"
proof -
  have "map sr_path (map_values rs) = map fst rs"
    using assms by (auto simp: keyed_routes_def map_values_def)
  then show "distinct (map sr_path (map_values rs))" using assms by (simp add: keyed_routes_def)
  show "(\<lambda>r. (sr_path r, sr_canonical r)) ` set (map_values rs) = targets rs"
    using assms by (force simp: keyed_routes_def map_values_def targets_def image_iff)
qed

text \<open>Where every path of the site leads: chrome pages, indexes, pages with their English alias, redirects.\<close>

definition site_targets :: "publication \<Rightarrow> public_page list \<Rightarrow> (string \<times> string) set" where
  "site_targets p pages =
     (\<lambda>path. (path, path)) ` set chrome_paths
     \<union> (\<lambda>path. (''/en'' @ path, ''/en'' @ path)) ` set chrome_paths
     \<union> {(''/tags/'', ''/tags/''), (''/en/tags/'', ''/tags/''), (''/authors/'', ''/authors/''), (''/en/authors/'', ''/authors/'')}
     \<union> (\<lambda>path. (path, path)) ` page_path ` set pages
     \<union> (\<lambda>path. (''/en'' @ path, path)) ` (page_path ` set pages - set chrome_paths)
     \<union> redirect_targets p (snapshot_routes (pub_snapshot p))"

lemma entry_targets:
  "(\<lambda>(path, canonical, title). (path, canonical)) ` set (chrome_entries w) =
    (\<lambda>path. (path, path)) ` set chrome_paths
    \<union> (\<lambda>path. (''/en'' @ path, ''/en'' @ path)) ` set chrome_paths"
  "(\<lambda>(path, canonical, title). (path, canonical)) ` set (index_entries w) =
    {(''/tags/'', ''/tags/''), (''/en/tags/'', ''/tags/''), (''/authors/'', ''/authors/''), (''/en/authors/'', ''/authors/'')}"
  "(\<lambda>(path, canonical, title). (path, canonical)) ` set (concat (map (page_entries texts) pages)) =
    (\<lambda>path. (path, path)) ` page_path ` set pages
    \<union> (\<lambda>path. (''/en'' @ path, path)) ` (page_path ` set pages - set chrome_paths)"
proof -
  have pairs: "(\<lambda>(i, path). path) ` set (enumerate 0 xs) = set xs" for xs :: "string list"
    unfolding snd_def [symmetric] set_map [symmetric] map_snd_enumerate ..
  have two: "(\<Union>x \<in> A. {f x, g x}) = f ` A \<union> g ` A" for A and f g :: "string \<Rightarrow> string \<times> string"
    by auto
  have "(\<lambda>(path, canonical, title). (path, canonical)) ` set (chrome_entries w) =
      (\<Union>path \<in> (\<lambda>(i, path). path) ` set (enumerate 0 chrome_paths). {(path, path), (''/en'' @ path, ''/en'' @ path)})"
    by (simp add: chrome_entries_def image_UN split_beta)
  then show "(\<lambda>(path, canonical, title). (path, canonical)) ` set (chrome_entries w) =
      (\<lambda>path. (path, path)) ` set chrome_paths \<union> (\<lambda>path. (''/en'' @ path, ''/en'' @ path)) ` set chrome_paths"
    unfolding pairs two .
  show "(\<lambda>(path, canonical, title). (path, canonical)) ` set (index_entries w) =
      {(''/tags/'', ''/tags/''), (''/en/tags/'', ''/tags/''), (''/authors/'', ''/authors/''), (''/en/authors/'', ''/authors/'')}"
    by (simp add: index_entries_def)
  have one: "(\<lambda>(path, canonical, title). (path, canonical)) ` set (page_entries texts page) =
      {(page_path page, page_path page)} \<union> (if page_path page \<in> set chrome_paths then {} else {(''/en'' @ page_path page, page_path page)})" for page
    by (simp add: page_entries_def)
  have cond: "(\<Union>x \<in> A. {f (h x)} \<union> (if h x \<in> B then {} else {g (h x)})) = f ` h ` A \<union> g ` (h ` A - B)"
    for A B f and g :: "string \<Rightarrow> string \<times> string" and h :: "public_page \<Rightarrow> string"
    by (auto split: if_splits)
  show "(\<lambda>(path, canonical, title). (path, canonical)) ` set (concat (map (page_entries texts) pages)) =
      (\<lambda>path. (path, path)) ` page_path ` set pages
      \<union> (\<lambda>path. (''/en'' @ path, path)) ` (page_path ` set pages - set chrome_paths)"
    unfolding set_concat set_map image_Union
    using cond [of "\<lambda>path. (path, path)" page_path "set chrome_paths" "\<lambda>path. (''/en'' @ path, path)" "set pages"]
    by (simp only: image_image one)
qed

lemma build_errors:
  assumes "build_stats_manifest texts w p hash = Inl e"
  shows "e = StatsManifestUnavailable \<longleftrightarrow> generation (pub_snapshot p) = 0"
proof (cases "generation (pub_snapshot p) = 0")
  case True
  then show ?thesis using assms by (simp add: build_stats_manifest_def content_statistics_def from_public_def)
next
  case False
  have "e \<noteq> StatsManifestUnavailable"
    using assms False
    by (auto simp: build_stats_manifest_def content_statistics_def from_public_def ebind_Inl_iff ebind_Inr_iff Let_def
        add_stats_route_def add_redirect_def throw_when_def dest!: efold_Inl validate_manifest_error
        split: sum.splits option.splits if_splits prod.splits)
  with False show ?thesis by simp
qed

text \<open>
  C19. The statistics manifest covers the site: building fails as unavailable exactly for the
  placeholder of generation zero; a built manifest is valid, with the generation and the hash of
  the publication, its routes are in strictly increasing path order, and they map exactly the
  chrome pages of both locales to themselves, the tag and author indexes and every page, with its
  English alias, to the page, and every redirect to its item's canonical path; the counts are those
  of the published items.
\<close>

theorem build_stats_manifest_correct:
  "case build_stats_manifest texts w p hash of
     Inl e \<Rightarrow> e = StatsManifestUnavailable \<longleftrightarrow> generation (pub_snapshot p) = 0
   | Inr m \<Rightarrow> manifest_valid m
      \<and> sm_generation m = generation (pub_snapshot p) \<and> sm_sha256 m = JStr hash
      \<and> sorted_wrt (<) (map sr_path (sm_routes m))
      \<and> (\<exists>pages. public_pages texts p = Inr pages
          \<and> (\<lambda>r. (sr_path r, sr_canonical r)) ` set (sm_routes m) =
              site_targets p pages)
      \<and> notes_count (sm_counts m) = int (number (counted NoteGrowth) (map_values (contentById p)))
      \<and> articles_count (sm_counts m) = int (number (counted ArticleGrowth) (map_values (contentById p)))
      \<and> topics_count (sm_counts m) = int (number (counted TopicGrowth) (map_values (contentById p)))
      \<and> tags_count (sm_counts m) = int (length (tagById p))"
proof (cases "build_stats_manifest texts w p hash")
  case (Inl e)
  with build_errors [OF Inl] show ?thesis by simp
next
  case (Inr m)
  obtain stats rs1 rs2 pages rs3 rs4 where run: "content_statistics p = Inr (Some stats)"
      "efold add_stats_route (chrome_entries w) [] = Inr rs1"
      "efold add_stats_route (index_entries w) rs1 = Inr rs2"
      "public_pages texts p = Inr pages"
      "efold add_stats_route (concat (map (page_entries texts) pages)) rs2 = Inr rs3"
      "efold (add_redirect p) (snapshot_routes (pub_snapshot p)) rs3 = Inr rs4"
      "validate_manifest (manifest_json
         \<lparr>sm_generation = generation (pub_snapshot p), sm_sha256 = JStr hash,
          sm_counts = \<lparr>notes_count = int (cc_note (cs_counts stats)),
            articles_count = int (cc_article (cs_counts stats)),
            topics_count = int (cc_topic (cs_counts stats)),
            tags_count = int (cc_tags (cs_counts stats))\<rparr>,
          sm_routes = js_sort stats_route_order (map_values rs4)\<rparr>) = Inr m"
    using Inr by (auto simp: build_stats_manifest_def from_public_def ebind_Inr_iff split: sum.splits option.splits)
  have "keyed_routes []" and none: "targets [] = {}" by (simp_all add: keyed_routes_def targets_def)
  note r1 = add_stats_routes_targets [OF run(2) this(1)]
  note r2 = add_stats_routes_targets [OF run(3) conjunct1 [OF r1]]
  note r3 = add_stats_routes_targets [OF run(5) conjunct1 [OF r2]]
  note r4 = add_redirects_targets [OF run(6) conjunct1 [OF r3]]
  note final = keyed_routes_values [OF conjunct1 [OF r4]]
  have all: "targets rs4 = site_targets p pages"
    unfolding site_targets_def conjunct2 [OF r4] conjunct2 [OF r3] conjunct2 [OF r2] conjunct2 [OF r1]
      none entry_targets
    by (simp only: Un_empty_right) (simp only: Un_ac)
  from validate_manifest_json [THEN iffD1, OF run(7)]
  show ?thesis
    using Inr all final sorted_stats_routes [OF final(1)] content_statistics_counts(1) [OF run(1)] run(4)
    by simp
qed

end
