(* ===== verification/RumNormalize.thy ===== *)
theory RumNormalize
  imports StatsTypes Calendar JsRegex
begin

text \<open>
  \<open>apps/web/stats/rum/normalize.ts\<close>: from a GraphQL response to checked rows. A \<open>RumError\<close> is
  thrown as its code. The decoded form of a path is its list of code points, because an escape may
  name any of them. Metrics are added exactly: the counts are integers of the safe range, where
  the arithmetic of the language is exact as well.
\<close>

section \<open>Reading values\<close>

definition as_record :: "json \<Rightarrow> rum_error + (string \<times> json) list" where
  "as_record v = (case v of JObj obj \<Rightarrow> Inr obj | _ \<Rightarrow> Inl InvalidResponse)"

definition metric :: "json \<Rightarrow> rum_error + rat" where
  "metric v = (case finite_number v of
     None \<Rightarrow> Inl InvalidResponse
   | Some q \<Rightarrow> throw_when (q < 0 \<or> q > max_safe) InvalidResponse (Inr q))"

definition account :: "json \<Rightarrow> rum_error + (string \<times> json) list" where
  "account body =
     ebind (as_record body) (\<lambda>envelope.
     throw_when (map_of envelope ''errors'' \<noteq> None \<and> field envelope ''errors'' \<noteq> JNull) GraphqlError
     (ebind (as_record (field envelope ''data'')) (\<lambda>data.
      ebind (as_record (field data ''viewer'')) (\<lambda>viewer.
      (case field viewer ''accounts'' of
         JArr [one] \<Rightarrow> as_record one
       | _ \<Rightarrow> Inl AccountUnavailable)))))"

section \<open>Settings\<close>

definition required_fields :: "string list" where
  "required_fields = [''dimensions_date'', ''dimensions_requestHost'', ''dimensions_requestPath'',
     ''dimensions_refererHost'', ''count'', ''sum_visits'', ''avg_sampleInterval'']"

definition positive_metric :: "json \<Rightarrow> rum_error + int" where
  "positive_metric v = ebind (metric v) (\<lambda>q. case safe_integer (JNum (Fin q)) of
     None \<Rightarrow> Inl InvalidResponse
   | Some i \<Rightarrow> throw_when (i \<le> 0) InvalidResponse (Inr i))"

definition settings_from :: "json \<Rightarrow> rum_error + rum_settings" where
  "settings_from body =
     ebind (account body) (\<lambda>acc.
     ebind (as_record (field acc ''settings'')) (\<lambda>settings.
     ebind (as_record (field settings ''rumPageloadEventsAdaptiveGroups'')) (\<lambda>node.
     throw_when (field node ''enabled'' = JBool False) DatasetDisabled
     (throw_when (field node ''enabled'' \<noteq> JBool True) InvalidResponse
     (ebind (positive_metric (field node ''maxDuration'')) (\<lambda>duration.
      ebind (positive_metric (field node ''maxPageSize'')) (\<lambda>size.
      ebind (positive_metric (field node ''notOlderThan'')) (\<lambda>older.
      ebind (positive_metric (field node ''maxNumberOfFields'')) (\<lambda>fields.
      (case field node ''availableFields'' of
         JArr available \<Rightarrow>
           throw_when (list_ex (\<lambda>f. as_string f = None) available) InvalidResponse
           (throw_when (list_ex (\<lambda>f. JStr f \<notin> set available) required_fields) FieldsUnavailable
           (Inr \<lparr>maxDuration = duration, maxPageSize = size, notOlderThan = older,
              maxNumberOfFields = fields\<rparr>))
       | _ \<Rightarrow> Inl InvalidResponse))))))))))"

section \<open>The day\<close>

text \<open>\<open>/^\d{4}-\d{2}-\d{2}$/\<close>, and \<open>s.replace('.000Z', 'Z')\<close> on a printed time.\<close>

definition day_rx :: rx where
  "day_rx = Seq (Times 4 (Cls digit_class)) (Seq (Lit CHR ''-'') (Seq (Times 2 (Cls digit_class))
     (Seq (Lit CHR ''-'') (Times 2 (Cls digit_class)))))"

definition without_millis :: "string \<Rightarrow> string" where
  "without_millis s = (if suffix ''.000Z'' s then take (length s - 5) s @ ''Z'' else s)"

definition utc_window :: "string \<Rightarrow> int \<Rightarrow> rum_error + rum_window" where
  "utc_window dateUtc now =
     throw_when (\<not> rx_test day_rx dateUtc) InvalidDate
     (case date_parse (dateUtc @ ''T00:00:00Z'') of
        None \<Rightarrow> Inl InvalidDate
      | Some start \<Rightarrow> let end = start + 86400000 in
          throw_when (start < 0 \<or> take 10 (iso_time start) \<noteq> dateUtc \<or> length (iso_time end) \<noteq> 24)
            InvalidDate
          (throw_when (end > now) IncompleteDay
          (Inr \<lparr>startInclusive = without_millis (iso_time start),
             endExclusive = without_millis (iso_time end)\<rparr>)))"

text \<open>\<open>None\<close> is a start that does not parse: comparing with \<open>NaN\<close> is false.\<close>

definition check_limits :: "rum_settings \<Rightarrow> string \<Rightarrow> int \<Rightarrow> int \<Rightarrow> rum_error + unit" where
  "check_limits settings start limit now =
     throw_when (maxDuration settings < 86400 \<or> limit > maxPageSize settings
         \<or> maxNumberOfFields settings < 6) QueryLimit
     (throw_when (case date_parse start of None \<Rightarrow> False
         | Some ms \<Rightarrow> ms < now - notOlderThan settings * 1000) OutsideRetention
     (Inr ()))"

section \<open>Paths and hosts\<close>

text \<open>\<open>decodeURIComponent\<close>: the escaped bytes of a text, then their UTF-8 decoding.\<close>

definition hex_digit :: "char \<Rightarrow> nat option" where
  "hex_digit c = (let n = of_char c in
     if 48 \<le> n \<and> n \<le> 57 then Some (n - 48)
     else if 65 \<le> n \<and> n \<le> 70 then Some (n - 55)
     else if 97 \<le> n \<and> n \<le> 102 then Some (n - 87) else None)"

fun uri_tokens :: "string \<Rightarrow> (bool \<times> nat) list option" where
  "uri_tokens [] = Some []"
| "uri_tokens (c # s) = (if c = CHR ''%'' then
     (case s of a # b # rest \<Rightarrow>
        (case (hex_digit a, hex_digit b) of
           (Some x, Some y) \<Rightarrow> map_option (\<lambda>ts. (True, 16 * x + y) # ts) (uri_tokens rest)
         | _ \<Rightarrow> None)
      | _ \<Rightarrow> None)
     else map_option (\<lambda>ts. (False, of_char c) # ts) (uri_tokens s))"

text \<open>The arguments: how many bytes are to come, the bits so far, the least point of that length.\<close>

fun utf8_points :: "nat \<Rightarrow> nat \<Rightarrow> nat \<Rightarrow> (bool \<times> nat) list \<Rightarrow> nat list option" where
  "utf8_points k v least [] = (if k = 0 then Some [] else None)"
| "utf8_points 0 v least ((escaped, b) # ts) =
     (if \<not> escaped \<or> b < 0x80 then map_option (Cons b) (utf8_points 0 0 0 ts)
      else if b < 0xC0 then None
      else if b < 0xE0 then utf8_points 1 (b - 0xC0) 0x80 ts
      else if b < 0xF0 then utf8_points 2 (b - 0xE0) 0x800 ts
      else if b < 0xF8 then utf8_points 3 (b - 0xF0) 0x10000 ts
      else None)"
| "utf8_points (Suc k) v least ((escaped, b) # ts) =
     (if \<not> escaped \<or> b < 0x80 \<or> 0xC0 \<le> b then None
      else let v' = 64 * v + (b - 0x80) in
        if 0 < k then utf8_points k v' least ts
        else if v' < least \<or> 0xD800 \<le> v' \<and> v' \<le> 0xDFFF \<or> 0x10FFFF < v' then None
        else map_option (Cons v') (utf8_points 0 0 0 ts))"

definition decode_uri :: "string \<Rightarrow> nat list option" where
  "decode_uri s = Option.bind (uri_tokens s) (utf8_points 0 0 0)"

definition space_point :: "nat \<Rightarrow> bool" where
  "space_point n \<longleftrightarrow> 9 \<le> n \<and> n \<le> 13 \<or> 0x2000 \<le> n \<and> n \<le> 0x200A
     \<or> n \<in> {32, 160, 0x1680, 0x2028, 0x2029, 0x202F, 0x205F, 0x3000, 0xFEFF}"

fun split_at :: "'a \<Rightarrow> 'a list \<Rightarrow> 'a list list" where
  "split_at x [] = [[]]"
| "split_at x (y # ys) = (if y = x then [] # split_at x ys
     else (case split_at x ys of s # ss \<Rightarrow> (y # s) # ss | [] \<Rightarrow> [[y]]))"

text \<open>92 is a backslash, 63 a question mark, 35 a hash, 47 a slash, 46 a dot.\<close>

definition path_from :: "json \<Rightarrow> rum_error + string" where
  "path_from v = (case v of
     JStr path \<Rightarrow>
       throw_when (length path > 2048 \<or> \<not> prefix ''/'' path) InvalidResponse
       (case decode_uri path of
          None \<Rightarrow> Inl InvalidResponse
        | Some decoded \<Rightarrow>
            throw_when (prefix [47, 47] decoded
                \<or> list_ex (\<lambda>n. space_point n \<or> n \<in> {92, 63, 35}) decoded
                \<or> list_ex (\<lambda>n. n < 32 \<or> n = 127) decoded
                \<or> list_ex (\<lambda>segment. segment \<in> {[46], [46, 46]}) (split_at 47 decoded))
              InvalidResponse
            (Inr path))
   | _ \<Rightarrow> Inl InvalidResponse)"

text \<open>\<open>toLowerCase\<close> on the first 256 code units.\<close>

definition js_lower :: "char \<Rightarrow> char" where
  "js_lower c = (let n = of_char c :: nat in
     if 65 \<le> n \<and> n \<le> 90 \<or> 192 \<le> n \<and> n \<le> 222 \<and> n \<noteq> 215 then char_of (n + 32) else c)"

definition up_to :: "nat \<Rightarrow> rx \<Rightarrow> rx" where
  "up_to n r = ((\<lambda>s. Alt Emp (Seq r s)) ^^ n) Emp"

definition host_rx :: rx where
  "host_rx = (let rest = Opt (Seq (up_to 61 (Cls (lower_alnum @ [(CHR ''-'', CHR ''-'')]))) (Cls lower_alnum))
     in Seq (Plus (Seq (Cls lower_alnum) (Seq rest (Lit CHR ''.''))))
          (Seq (Cls [(CHR ''a'', CHR ''z'')]) rest))"

definition referral_from :: "json \<Rightarrow> rum_error + string \<times> referral_category" where
  "referral_from v = (case v of
     JStr text \<Rightarrow> if text = [] then Inr (''direct-unknown'', DirectUnknownCategory) else
       (let lower = map js_lower text;
            source = (if suffix ''.'' lower then butlast lower else lower)
        in throw_when (length source > 253 \<or> \<not> rx_test host_rx source) InvalidResponse
           (Inr (source,
              if source \<in> {''gopheratlas.com'', ''www.gopheratlas.com''} then Internal
              else if source \<in> {''bing.com'', ''www.bing.com''} then SearchCategory
              else External)))
   | _ \<Rightarrow> Inl InvalidResponse)"

section \<open>Rows\<close>

definition sample_interval :: "json \<Rightarrow> rum_error + rat option" where
  "sample_interval v = (if v = JNull then Inr None else
     ebind (metric v) (\<lambda>q. throw_when (q < 1) InvalidResponse (Inr (Some q))))"

text \<open>The counts of a row of the right day and host, with its dimensions.\<close>

definition row_counts :: "json \<Rightarrow> string \<Rightarrow> rum_error + (string \<times> json) list \<times> rum_counts" where
  "row_counts v dateUtc =
     ebind (as_record v) (\<lambda>row.
     ebind (as_record (field row ''dimensions'')) (\<lambda>dims.
     ebind (as_record (field row ''avg'')) (\<lambda>avg.
     throw_when (field dims ''date'' \<noteq> JStr dateUtc \<or> field dims ''requestHost'' \<noteq> JStr ''gopheratlas.com'')
       InvalidResponse
     (ebind (sample_interval (field avg ''sampleInterval'')) (\<lambda>interval.
      ebind (metric (field row ''count'')) (\<lambda>loads.
      ebind (as_record (field row ''sum'')) (\<lambda>sum.
      ebind (metric (field sum ''visits'')) (\<lambda>visits.
      Inr (dims, \<lparr>rc_pageLoads = loads, rc_visits = visits, rc_sampleInterval = interval\<rparr>)))))))))"

text \<open>
  The three kinds of the request: how a row is completed from its dimensions, and the key that may
  not repeat.
\<close>

record 'r row_kind =
  single_row :: bool
  complete_row :: "(string \<times> json) list \<Rightarrow> rum_counts \<Rightarrow> rum_error + 'r"
  row_key :: "'r \<Rightarrow> string"

definition site_kind :: "rum_counts row_kind" where
  "site_kind = \<lparr>single_row = True, complete_row = (\<lambda>dims counts. Inr counts), row_key = (\<lambda>_. ''site'')\<rparr>"

definition pages_kind :: "rum_page row_kind" where
  "pages_kind = \<lparr>single_row = False,
     complete_row = (\<lambda>dims counts. ebind (path_from (field dims ''requestPath'')) (\<lambda>path.
       Inr (rum_counts.extend counts (rum_page.fields path)))),
     row_key = rp_path\<rparr>"

definition referrers_kind :: "rum_referral row_kind" where
  "referrers_kind = \<lparr>single_row = False,
     complete_row = (\<lambda>dims counts. ebind (referral_from (field dims ''refererHost'')) (\<lambda>(source, category).
       Inr (rum_counts.extend counts (rum_referral.fields source category)))),
     row_key = rr_source\<rparr>"

definition add_row ::
  "'r row_kind \<Rightarrow> string \<Rightarrow> json \<Rightarrow> string list \<times> 'r list \<Rightarrow> rum_error + string list \<times> 'r list" where
  "add_row kind dateUtc v st =
     ebind (row_counts v dateUtc) (\<lambda>(dims, counts).
     ebind (complete_row kind dims counts) (\<lambda>row.
     ebind (reserve InvalidResponse (row_key kind row) (fst st)) (\<lambda>keys.
     Inr (keys, snd st @ [row]))))"

definition rows_from :: "'r row_kind \<Rightarrow> json \<Rightarrow> string \<Rightarrow> int \<Rightarrow> rum_error + 'r list" where
  "rows_from kind body dateUtc limit =
     ebind (account body) (\<lambda>acc.
     (case field acc ''rumPageloadEventsAdaptiveGroups'' of
        JArr groups \<Rightarrow>
          throw_when (int (length groups) > limit \<or> single_row kind \<and> length groups > 1) InvalidResponse
          (ebind (efold (add_row kind dateUtc) groups ([], [])) (\<lambda>st. Inr (snd st)))
      | _ \<Rightarrow> Inl InvalidResponse))"

section \<open>Quality\<close>

definition intervals_of :: "'a rum_counts_scheme list \<Rightarrow> rat list" where
  "intervals_of rows = concat (map (\<lambda>r. case rc_sampleInterval r of None \<Rightarrow> [] | Some q \<Rightarrow> [q]) rows)"

definition quality :: "'a rum_counts_scheme list \<Rightarrow> rum_quality" where
  "quality rows =
     (let intervals = intervals_of rows;
          unknown = (rows = [] \<or> length intervals \<noteq> length rows);
          sampled = (if list_ex (\<lambda>n. n > 1) intervals then SampledYes
                     else if unknown then SampledUnknown else SampledNo)
      in \<lparr>rq_status = Complete, rq_botFilter = rum_bot_filter, rq_sampled = sampled,
          rq_range = (case intervals of [] \<Rightarrow> None
             | q # qs \<Rightarrow> Some (fold min qs q, fold max qs q)),
          rq_warnings = (if sampled = SampledYes then [SampledEstimateWarning] else [])
             @ (if unknown then [SamplingUnknown] else [])\<rparr>)"

definition sum_loads :: "'a rum_counts_scheme list \<Rightarrow> rat" where
  "sum_loads rows = fold (\<lambda>r n. n + rc_pageLoads r) rows 0"

definition sum_visits :: "'a rum_counts_scheme list \<Rightarrow> rat" where
  "sum_visits rows = fold (\<lambda>r n. n + rc_visits r) rows 0"

definition grouped ::
  "'a rum_counts_scheme list \<Rightarrow> 'b rum_counts_scheme \<Rightarrow> int \<Rightarrow> rum_error + 'a rum_counts_scheme rum_groups" where
  "grouped rows site limit =
     ebind (metric (JNum (Fin (sum_loads rows)))) (\<lambda>loads.
     ebind (metric (JNum (Fin (sum_visits rows)))) (\<lambda>visits.
     let q = quality rows;
         warnings = (if int (length rows) = limit then [GroupLimitReached] else [])
           @ (if loads \<noteq> rc_pageLoads site then [PageLoadsMismatch] else [])
           @ (if visits \<noteq> rc_visits site then [VisitsMismatch] else [])
           @ (if rows \<noteq> [] \<and> (rq_sampled q \<noteq> SampledNo \<or> rc_sampleInterval site = None
                 \<or> (\<exists>n \<in> set_option (rc_sampleInterval site). n > 1))
              then [SampledGroupCoverageUnverified] else []);
         all = rq_warnings q @ warnings
     in Inr \<lparr>rg_rows = rows,
          rg_quality = q\<lparr>rq_warnings := all,
            rq_status := (if list_ex (\<lambda>w. w \<in> {GroupLimitReached, PageLoadsMismatch, VisitsMismatch,
                SampledGroupCoverageUnverified}) all then Partial else rq_status q)\<rparr>,
          rg_coverage = \<lparr>rg_returnedGroups = length rows, rg_limit = limit, rg_pageLoads = loads,
            rg_visits = visits, rg_pageLoadsDelta = loads - rc_pageLoads site,
            rg_visitsDelta = visits - rc_visits site\<rparr>\<rparr>))"

section \<open>What is read\<close>

lemma as_record_Inr: "as_record v = Inr obj \<longleftrightarrow> v = JObj obj"
  by (cases v) (simp_all add: as_record_def)

lemma metric_Inr: "metric v = Inr q \<longleftrightarrow> v = JNum (Fin q) \<and> 0 \<le> q \<and> q \<le> max_safe"
  by (auto simp: metric_def finite_number_def throw_when_Inr_iff split: json.splits js_num.splits)

lemma metric_Inl: "metric v = Inl e \<Longrightarrow> e = InvalidResponse"
  by (auto simp: metric_def throw_when_def split: option.splits if_splits)

lemma metric_int: "metric (json_int i) = (if 0 \<le> i \<and> i \<le> 9007199254740991 then Inr (of_int i) else Inl InvalidResponse)"
proof -
  have "(of_int i :: rat) \<le> max_safe \<longleftrightarrow> (of_int i :: rat) \<le> of_int 9007199254740991"
    by (simp add: max_safe_def)
  also have "\<dots> \<longleftrightarrow> i \<le> 9007199254740991" by (rule of_int_le_iff)
  finally show ?thesis
    by (auto simp: metric_def json_int_def finite_number_def throw_when_def not_less simp flip: not_le)
qed

lemma positive_metric_int:
  "positive_metric (json_int i) = (if 1 \<le> i \<and> i \<le> 9007199254740991 then Inr i else Inl InvalidResponse)"
  using safe_integer_int [of i, unfolded json_int_def]
  by (auto simp: positive_metric_def metric_int throw_when_def)

definition counts_ok :: "'a rum_counts_scheme \<Rightarrow> bool" where
  "counts_ok r \<longleftrightarrow> 0 \<le> rc_pageLoads r \<and> rc_pageLoads r \<le> max_safe \<and> 0 \<le> rc_visits r \<and> rc_visits r \<le> max_safe
     \<and> (\<forall>q \<in> set_option (rc_sampleInterval r). 1 \<le> q \<and> q \<le> max_safe)"

lemma row_counts_ok: "row_counts v d = Inr (dims, counts) \<Longrightarrow> counts_ok counts"
  by (auto simp: row_counts_def sample_interval_def counts_ok_def ebind_Inr_iff throw_when_Inr_iff metric_Inr
      split: if_splits)

text \<open>The contract of a kind of request: completing a row keeps its counts.\<close>

locale row_completion =
  fixes kind :: "'a rum_counts_scheme row_kind"
  assumes keeps: "complete_row kind dims counts = Inr row \<Longrightarrow> counts_ok counts \<Longrightarrow> counts_ok row"
begin

lemma add_rows:
  assumes "efold (add_row kind d) groups st = Inr st'"
    and "fst st = map (row_key kind) (snd st)" "distinct (fst st)" "list_all counts_ok (snd st)"
  shows "fst st' = map (row_key kind) (snd st') \<and> distinct (fst st') \<and> list_all counts_ok (snd st')
    \<and> length (snd st') = length (snd st) + length groups"
  using assms
proof (induction groups arbitrary: st)
  case (Cons v groups)
  obtain st1 where one: "add_row kind d v st = Inr st1" and rest: "efold (add_row kind d) groups st1 = Inr st'"
    using Cons.prems(1) by (auto simp: ebind_Inr_iff)
  obtain dims counts row keys where step: "row_counts v d = Inr (dims, counts)"
      "complete_row kind dims counts = Inr row" "reserve InvalidResponse (row_key kind row) (fst st) = Inr keys"
      "st1 = (keys, snd st @ [row])"
    using one by (auto simp: add_row_def ebind_Inr_iff)
  have "keys = fst st @ [row_key kind row]" "row_key kind row \<notin> set (fst st)"
    using step(3) by (auto simp: reserve_def throw_when_Inr_iff set_add_def)
  moreover have "counts_ok row" using keeps [OF step(2) row_counts_ok [OF step(1)]] .
  ultimately show ?case using Cons.IH [OF rest] Cons.prems step(4) by auto
qed simp

lemma rows_from_ok:
  assumes "rows_from kind body d limit = Inr rows"
  shows "distinct (map (row_key kind) rows) \<and> list_all counts_ok rows \<and> int (length rows) \<le> limit
    \<and> (single_row kind \<longrightarrow> length rows \<le> 1)"
proof -
  obtain acc where acc: "account body = Inr acc" using assms by (auto simp: rows_from_def ebind_Inr_iff)
  moreover obtain groups where "field acc ''rumPageloadEventsAdaptiveGroups'' = JArr groups"
    using assms acc by (cases "field acc ''rumPageloadEventsAdaptiveGroups''") (simp_all add: rows_from_def)
  ultimately obtain st where run: "efold (add_row kind d) groups ([], []) = Inr st" "rows = snd st"
      "int (length groups) \<le> limit" "single_row kind \<longrightarrow> length groups \<le> 1"
    using assms by (auto simp: rows_from_def ebind_Inr_iff throw_when_Inr_iff)
  from add_rows [OF run(1)] run(2-4) show ?thesis by auto
qed

end

interpretation site_rows: row_completion site_kind
  by unfold_locales (simp add: site_kind_def)

lemma counts_ok_extend [simp]:
  "counts_ok (rum_counts.extend counts rest) = counts_ok counts"
  by (simp add: counts_ok_def rum_counts.extend_def)

interpretation page_rows: row_completion pages_kind
  by unfold_locales (auto simp: pages_kind_def ebind_Inr_iff)

interpretation referral_rows: row_completion referrers_kind
  by unfold_locales (auto simp: referrers_kind_def ebind_Inr_iff)

section \<open>Groups\<close>

lemma fold_plus: "fold (\<lambda>r n. n + f r) rows k = k + sum_list (map f rows)" for f :: "'a \<Rightarrow> rat"
  by (induction rows arbitrary: k) (simp_all add: algebra_simps)

lemma sums_of_rows: "sum_loads rows = sum_list (map rc_pageLoads rows)" "sum_visits rows = sum_list (map rc_visits rows)"
  by (simp_all add: sum_loads_def sum_visits_def fold_plus)

lemma quality_status [simp]: "rq_status (quality rows) = Complete" "rq_botFilter (quality rows) = rum_bot_filter"
  by (simp_all add: quality_def Let_def)

lemma quality_warnings: "set (rq_warnings (quality rows)) \<subseteq> {SampledEstimateWarning, SamplingUnknown}"
  by (simp add: quality_def Let_def)

lemma length_intervals:
  "length (intervals_of rows) \<le> length rows"
  "length (intervals_of rows) = length rows \<longleftrightarrow> (\<forall>r \<in> set rows. rc_sampleInterval r \<noteq> None)"
proof (induction rows)
  case (Cons r rows)
  {
    case 1
    show ?case using Cons(1) by (auto simp: intervals_of_def split: option.splits)
  next
    case 2
    show ?case using Cons by (auto simp: intervals_of_def split: option.splits)
  }
qed (simp_all add: intervals_of_def)

lemma set_intervals: "set (intervals_of rows) = {q. \<exists>r \<in> set rows. rc_sampleInterval r = Some q}"
  by (auto simp: intervals_of_def split: option.splits)

text \<open>Unsampled: every row reports an interval, and none is above one.\<close>

lemma quality_unsampled:
  "rq_sampled (quality rows) = SampledNo \<longleftrightarrow>
    rows \<noteq> [] \<and> (\<forall>r \<in> set rows. \<exists>q. rc_sampleInterval r = Some q \<and> q \<le> 1)"
proof -
  have sampled: "rq_sampled (quality rows) = SampledNo \<longleftrightarrow>
      \<not> list_ex (\<lambda>n. n > 1) (intervals_of rows) \<and> rows \<noteq> [] \<and> length (intervals_of rows) = length rows"
    by (simp add: quality_def Let_def)
  have one: "(\<exists>q. i = Some q \<and> q \<le> 1) \<longleftrightarrow> i \<noteq> None \<and> (\<forall>q. i = Some q \<longrightarrow> \<not> q > 1)" for i :: "rat option"
    by (cases i) (simp_all add: not_less)
  show ?thesis
    unfolding sampled length_intervals(2) list_ex_iff set_intervals one by blast
qed

definition groups_agree :: "'a rum_counts_scheme list \<Rightarrow> rum_counts \<Rightarrow> int \<Rightarrow> bool" where
  "groups_agree rows site limit \<longleftrightarrow> int (length rows) \<noteq> limit
     \<and> sum_list (map rc_pageLoads rows) = rc_pageLoads site
     \<and> sum_list (map rc_visits rows) = rc_visits site
     \<and> (rows \<noteq> [] \<longrightarrow> (\<forall>r \<in> set rows. \<exists>q. rc_sampleInterval r = Some q \<and> q \<le> 1)
          \<and> (\<exists>q. rc_sampleInterval site = Some q \<and> q \<le> 1))"

lemma grouped_rows: "grouped rows site limit = Inr g \<Longrightarrow> rg_rows g = rows"
  by (auto simp: grouped_def ebind_Inr_iff Let_def)

lemma grouped_coverage:
  "grouped rows site limit = Inr g \<Longrightarrow> rg_coverage g = \<lparr>rg_returnedGroups = length rows, rg_limit = limit,
    rg_pageLoads = sum_list (map rc_pageLoads rows), rg_visits = sum_list (map rc_visits rows),
    rg_pageLoadsDelta = sum_list (map rc_pageLoads rows) - rc_pageLoads site,
    rg_visitsDelta = sum_list (map rc_visits rows) - rc_visits site\<rparr>"
  by (auto simp: grouped_def ebind_Inr_iff Let_def metric_Inr sums_of_rows)

lemma grouped_status:
  assumes "grouped rows site limit = Inr g"
  shows "rq_status (rg_quality g) = (if groups_agree rows site limit then Complete else Partial)"
proof -
  let ?bad = "\<lambda>w. w \<in> {GroupLimitReached, PageLoadsMismatch, VisitsMismatch, SampledGroupCoverageUnverified}"
  define more where "more = (if int (length rows) = limit then [GroupLimitReached] else [])
    @ (if sum_list (map rc_pageLoads rows) \<noteq> rc_pageLoads site then [PageLoadsMismatch] else [])
    @ (if sum_list (map rc_visits rows) \<noteq> rc_visits site then [VisitsMismatch] else [])
    @ (if rows \<noteq> [] \<and> (rq_sampled (quality rows) \<noteq> SampledNo \<or> rc_sampleInterval site = None
          \<or> (\<exists>n \<in> set_option (rc_sampleInterval site). n > 1)) then [SampledGroupCoverageUnverified] else [])"
  have "\<not> list_ex ?bad (rq_warnings (quality rows))"
    using quality_warnings [of rows] by (auto simp: list_ex_iff)
  then have status: "rq_status (rg_quality g) = (if list_ex ?bad more then Partial else Complete)"
    using assms
    by (auto simp: grouped_def ebind_Inr_iff Let_def metric_Inr sums_of_rows more_def simp del: quality_status(2))
  have site: "(rc_sampleInterval site = None \<or> (\<exists>n \<in> set_option (rc_sampleInterval site). n > 1)) \<longleftrightarrow>
      \<not> (\<exists>q. rc_sampleInterval site = Some q \<and> q \<le> 1)"
    by (cases "rc_sampleInterval site") auto
  have "list_ex ?bad more \<longleftrightarrow> more \<noteq> []" by (auto simp: more_def)
  also have "\<dots> \<longleftrightarrow> \<not> groups_agree rows site limit"
    unfolding more_def groups_agree_def site quality_unsampled by auto
  finally show ?thesis using status by simp
qed

section \<open>Days\<close>

lemma rx_lang_Times_Seq:
  "rx_lang (Seq (Times n (Cls rs)) r) s \<longleftrightarrow>
    n \<le> length s \<and> list_all (in_class rs) (take n s) \<and> rx_lang r (drop n s)"
proof -
  have "rx_lang (Seq (Times n (Cls rs)) r) s \<longleftrightarrow>
      (\<exists>u v. s = u @ v \<and> length u = n \<and> list_all (in_class rs) u \<and> rx_lang r v)"
    by (auto simp: rx_lang_Seq rx_lang_Times_length)
  also have "\<dots> \<longleftrightarrow> n \<le> length s \<and> list_all (in_class rs) (take n s) \<and> rx_lang r (drop n s)"
    by (metis append_take_drop_id append_eq_conv_conj length_append le_add1 length_take min.absorb2)
  finally show ?thesis .
qed

lemma rx_lang_Lit_Seq: "rx_lang (Seq (Lit c) r) s \<longleftrightarrow> (\<exists>t. s = c # t \<and> rx_lang r t)"
  by (auto simp: rx_lang_Seq)

lemma in_digit_class: "in_class digit_class c \<longleftrightarrow> is_digit c"
  by (simp add: digit_class_def is_digit_def)

lemma list_all_digits: "list_all (in_class digit_class) s \<longleftrightarrow> list_all is_digit s"
  by (simp add: list_all_iff in_digit_class)

lemma day_rx_length: "rx_test day_rx s \<Longrightarrow> length s = 10"
  by (auto simp: rx_test_lang day_rx_def rx_lang_Times_Seq rx_lang_Lit_Seq rx_lang_Times_length
      simp del: Times.simps dest!: arg_cong [where f = length])

lemma day_rx_iso_day:
  assumes "four_digit_year d"
  shows "rx_test day_rx (iso_day d)"
  unfolding rx_test_lang day_rx_def iso_day_eq [OF assms]
  by (simp add: rx_lang_Times_Seq rx_lang_Lit_Seq rx_lang_Times_length list_all_digits
      del: Times.simps pad.simps)

lemma length_iso_year: "length (iso_year y) = (if 0 \<le> y \<and> y \<le> 9999 then 4 else 7)"
  by (simp add: iso_year_def del: pad.simps)

lemma length_iso_time_iff: "length (iso_time ms) = 24 \<longleftrightarrow> four_digit_time ms"
  by (simp add: iso_time_def iso_day_def length_iso_year four_digit_time_def four_digit_year_def del: pad.simps)

lemma four_digit_before:
  assumes "four_digit_year e" and "0 \<le> d" and "d \<le> e"
  shows "four_digit_year d"
proof (rule four_digit_between [OF _ assms])
  have "year_of_day 0 = 1970" by (rule year_of_day_unique) (simp_all add: day_from_year_def)
  then show "four_digit_year 0" by (simp add: four_digit_year_def)
qed

lemma without_millis_append: "without_millis (s @ ''.000Z'') = s @ ''Z''"
  by (simp add: without_millis_def suffix_def)

lemma midnight_clock: "iso_clock 0 = ''T00:00:00'' @ ''.000Z''"
  by code_simp

lemma iso_time_midnight: "iso_time (d * ms_per_day) = (iso_day d @ ''T00:00:00'') @ ''.000Z''"
  by (simp only: iso_time_def midnight_clock append_assoc) (simp add: ms_per_day_def midnight_clock)

lemma midnight_text: "without_millis (iso_time (d * ms_per_day)) = iso_day d @ ''T00:00:00Z''"
  unfolding iso_time_midnight without_millis_append by simp

lemma date_parse_at_midnight:
  assumes "length text = 10"
  shows "date_parse (text @ ''T00:00:00Z'') = map_option (\<lambda>d. d * ms_per_day) (parse_day text)"
proof -
  have "parse_clock ''T00:00:00Z'' = Some 0" by code_simp
  with assms show ?thesis by (simp add: date_parse_def split: option.split)
qed

lemma utc_window_day:
  assumes "0 \<le> d" and "four_digit_year (d + 1)"
  shows "utc_window (iso_day d) now = (if (d + 1) * 86400000 \<le> now
    then Inr \<lparr>startInclusive = iso_day d @ ''T00:00:00Z'', endExclusive = iso_day (d + 1) @ ''T00:00:00Z''\<rparr>
    else Inl IncompleteDay)"
proof -
  have four: "four_digit_year d" using four_digit_before [OF assms(2,1)] by simp
  have next_day: "d * ms_per_day + 86400000 = (d + 1) * ms_per_day" by (simp add: ms_per_day_def algebra_simps)
  have "length (iso_time ((d + 1) * ms_per_day)) = 24"
    unfolding length_iso_time_iff using assms(2) by (simp add: four_digit_time_def ms_per_day_def)
  moreover have "take 10 (iso_time (d * ms_per_day)) = iso_day d"
    using four iso_date_eq [of "d * ms_per_day"] by (simp add: iso_date_def four_digit_time_def ms_per_day_def)
  moreover have "0 \<le> d * ms_per_day" using assms(1) by (simp add: ms_per_day_def)
  ultimately show ?thesis
    unfolding utc_window_def
    by (simp add: day_rx_iso_day four date_parse_midnight Let_def next_day midnight_text throw_when_def
        not_less del: rx_test.simps)
      (simp add: ms_per_day_def not_less)
qed

lemma utc_window_is_day:
  assumes run: "utc_window text now \<noteq> Inl InvalidDate"
  shows "\<exists>d. 0 \<le> d \<and> four_digit_year (d + 1) \<and> text = iso_day d"
proof -
  have rx: "rx_test day_rx text"
    using run by (rule contrapos_np) (simp add: utc_window_def del: rx_test.simps)
  with run obtain start where start: "date_parse (text @ ''T00:00:00Z'') = Some start"
    by (cases "date_parse (text @ ''T00:00:00Z'')") (auto simp: utc_window_def simp del: rx_test.simps)
  from run rx start have parts: "0 \<le> start" "take 10 (iso_time start) = text"
      "length (iso_time (start + 86400000)) = 24"
    by (auto simp: utc_window_def throw_when_def Let_def simp del: rx_test.simps split: if_splits)
  obtain d where d: "start = d * ms_per_day"
    using start unfolding date_parse_at_midnight [OF day_rx_length [OF rx]] by auto
  have day: "0 \<le> d" using parts(1) by (simp add: d ms_per_day_def zero_le_mult_iff)
  have "start + 86400000 = (d + 1) * ms_per_day" by (simp add: d ms_per_day_def algebra_simps)
  then have four: "four_digit_year (d + 1)"
    using parts(3) by (simp only: length_iso_time_iff) (simp add: four_digit_time_def ms_per_day_def)
  have "four_digit_year d" using four_digit_before [OF four day] by simp
  then have "text = iso_day d"
    using parts(2) iso_date_eq [of start] by (simp add: iso_date_def d four_digit_time_def ms_per_day_def)
  with day four show ?thesis by blast
qed

text \<open>
  C22. The window of a day: the days are exactly the texts of the days from 1970 on whose next day
  has a four digit year; a day that is over at the time given has the window from its midnight to
  the next, any other day is incomplete, and every other text is an invalid date.
\<close>

theorem utc_window_correct:
  "(utc_window text now = Inr w \<longleftrightarrow> (\<exists>d. 0 \<le> d \<and> four_digit_year (d + 1) \<and> text = iso_day d
       \<and> (d + 1) * 86400000 \<le> now
       \<and> w = \<lparr>startInclusive = iso_day d @ ''T00:00:00Z'', endExclusive = iso_day (d + 1) @ ''T00:00:00Z''\<rparr>))
    \<and> (utc_window text now = Inl IncompleteDay \<longleftrightarrow> (\<exists>d. 0 \<le> d \<and> four_digit_year (d + 1) \<and> text = iso_day d
       \<and> now < (d + 1) * 86400000))
    \<and> (utc_window text now = Inl InvalidDate \<longleftrightarrow> \<not> (\<exists>d. 0 \<le> d \<and> four_digit_year (d + 1) \<and> text = iso_day d))"
proof (cases "\<exists>d. 0 \<le> d \<and> four_digit_year (d + 1) \<and> text = iso_day d")
  case True
  then obtain d where d: "0 \<le> d" "four_digit_year (d + 1)" "text = iso_day d" by (elim exE conjE)
  have unique: "0 \<le> e \<and> four_digit_year (e + 1) \<and> text = iso_day e \<longleftrightarrow> e = d" for e
    using d iso_day_inject [of e d] four_digit_before [of "e + 1" e] four_digit_before [of "d + 1" d] by auto
  have ex: "(\<exists>e. 0 \<le> e \<and> four_digit_year (e + 1) \<and> text = iso_day e \<and> P e) \<longleftrightarrow> P d" for P
  proof -
    have "(0 \<le> e \<and> four_digit_year (e + 1) \<and> text = iso_day e \<and> P e) = (e = d \<and> P e)" for e
      using unique [of e] by argo
    then show ?thesis by simp
  qed
  show ?thesis
    unfolding ex using True unfolding d(3) utc_window_day [OF d(1,2), of now] by (auto simp: eq_commute)
next
  case False
  then have "utc_window text now = Inl InvalidDate" using utc_window_is_day [of "text" now] by (rule contrapos_np)
  with False show ?thesis by auto
qed

end
