(* ===== verification/RumClient.thy ===== *)
theory RumClient
  imports RumNormalize PublicationProps
begin

text \<open>
  \<open>apps/web/stats/rum/client.ts\<close>: one bounded request, and the reading of one day by four of
  them. What the network does is an argument: for every query and its variables, the outcome of
  \<open>fetch\<close> and of reading the body, and the state of the two abort signals. The clock is an argument
  as well, because it is read three times; \<open>parse\<close> is the strict UTF-8 decoder followed by
  \<open>JSON.parse\<close>, \<open>None\<close> where either throws.
\<close>

section \<open>A request\<close>

datatype rum_query = SettingsQuery | SiteQuery | PagesQuery | ReferrersQuery

record rum_variables =
  var_account :: string
  var_site :: string
  var_start :: string
  var_end :: string
  var_limit :: int

text \<open>
  The reads of a body: \<open>None\<close> is a read that throws. Cancelling a body that has not been read to its
  end may throw as well; the stream of a body read to its end is closed, and cancelling it does
  nothing.
\<close>

record http_response =
  http_status :: int
  http_body :: "nat list option list option"
  http_cancel_fails :: bool

record network =
  net_response :: "http_response option"
  net_aborted_before :: bool
  net_aborted :: bool
  net_timed_out :: bool

definition max_response_bytes :: nat where
  "max_response_bytes = 8 * 1024 * 1024"

text \<open>An error is \<open>Some code\<close> for a \<open>RumError\<close> and \<open>None\<close> for any other exception.\<close>

fun read_body :: "nat list option list \<Rightarrow> nat list \<Rightarrow> rum_error option + nat list" where
  "read_body [] bytes = Inr bytes"
| "read_body (None # reads) bytes = Inl None"
| "read_body (Some chunk # reads) bytes =
     throw_when (length bytes + length chunk > max_response_bytes) (Some ResponseTooLarge)
       (read_body reads (bytes @ chunk))"

definition status_error :: "int \<Rightarrow> rum_error" where
  "status_error status = (if status = 401 then Unauthorized else if status = 403 then Forbidden
     else if status = 429 then RateLimited else HttpError)"

text \<open>The \<open>finally\<close> block: when \<open>reader.cancel()\<close> throws, its error replaces the one of the loop.\<close>

definition cancel_reader :: "http_response \<Rightarrow> rum_error option + nat list \<Rightarrow> rum_error option + nat list" where
  "cancel_reader response outcome = (case outcome of
     Inr bytes \<Rightarrow> Inr bytes
   | Inl cause \<Rightarrow> Inl (if http_cancel_fails response then None else cause))"

definition attempt :: "(nat list \<Rightarrow> json option) \<Rightarrow> network \<Rightarrow> rum_error option + json" where
  "attempt parse net =
     throw_when (net_aborted_before net) None
     (case net_response net of
        None \<Rightarrow> Inl None
      | Some response \<Rightarrow>
          throw_when (http_status response < 200 \<or> 299 < http_status response)
            (if http_body response \<noteq> None \<and> http_cancel_fails response then None
             else Some (status_error (http_status response)))
          (case http_body response of
             None \<Rightarrow> Inl (Some InvalidJson)
           | Some reads \<Rightarrow> ebind (cancel_reader response (read_body reads [])) (\<lambda>bytes.
               (case parse bytes of None \<Rightarrow> Inl (Some InvalidJson) | Some v \<Rightarrow> Inr v))))"

definition request :: "(nat list \<Rightarrow> json option) \<Rightarrow> network \<Rightarrow> rum_error + json" where
  "request parse net = (case attempt parse net of
     Inr v \<Rightarrow> Inr v
   | Inl e \<Rightarrow> Inl (if net_aborted_before net \<or> net_aborted net then Aborted
       else if net_timed_out net then Timeout
       else (case e of Some code \<Rightarrow> code | None \<Rightarrow> NetworkError)))"

section \<open>A day\<close>

text \<open>\<open>/^[a-f0-9]{32}$/i\<close> and \<open>/^[\x21-\x7e]{1,4096}$/\<close>\<close>

definition tag_rx :: rx where
  "tag_rx = Times 32 (Cls (hex_class @ [(CHR ''A'', CHR ''F'')]))"

definition token_text :: "string \<Rightarrow> bool" where
  "token_text s \<longleftrightarrow> 1 \<le> length s \<and> length s \<le> 4096
     \<and> list_all (in_class [(CHR 0x21, CHR 0x7E)]) s"

record rum_scope =
  scope_account :: string
  scope_site :: string
  scope_token :: string
  scope_limit :: int

definition check_config :: "rum_config option \<Rightarrow> rum_error + rum_scope" where
  "check_config config = (case config of
     None \<Rightarrow> Inl InvalidConfig
   | Some c \<Rightarrow>
     (case (as_string (accountId c), as_string (rumSiteTag c), as_string (rum_token c),
        safe_integer (groupLimit c)) of
        (Some acc, Some site, Some token, Some limit) \<Rightarrow>
          throw_when (rum_requestHost c \<noteq> JStr ''gopheratlas.com'' \<or> \<not> rx_test tag_rx acc
              \<or> \<not> rx_test tag_rx site \<or> \<not> token_text token \<or> limit < 1) InvalidConfig
            (Inr \<lparr>scope_account = acc, scope_site = site, scope_token = token, scope_limit = limit\<rparr>)
      | _ \<Rightarrow> Inl InvalidConfig))"

definition empty_context :: rum_context where
  "empty_context = \<lparr>rd_dateUtc = None, rd_window = None, rd_settings = None,
     rd_quality = (quality ([] :: rum_counts list))\<lparr>rq_status := Unavailable\<rparr>\<rparr>"

text \<open>The \<open>try\<close> block: an error at a stage ends the day with the context known so far.\<close>

definition at_stage :: "rum_context \<Rightarrow> rum_stage \<Rightarrow> rum_error + 'a \<Rightarrow> ('a \<Rightarrow> rum_day) \<Rightarrow> rum_day" where
  "at_stage ctx stage r k = (case r of Inl e \<Rightarrow> RumFailed ctx stage e | Inr x \<Rightarrow> k x)"

definition page_row_order :: "rum_page \<Rightarrow> rum_page \<Rightarrow> rat" where
  "page_row_order a b = js_or (rc_pageLoads b - rc_pageLoads a) (of_int (compare_text (rp_path a) (rp_path b)))"

definition referral_row_order :: "rum_referral \<Rightarrow> rum_referral \<Rightarrow> rat" where
  "referral_row_order a b = js_or (rc_visits b - rc_visits a) (of_int (compare_text (rr_source a) (rr_source b)))"

definition day_quality ::
  "rum_counts list \<Rightarrow> rum_page list \<Rightarrow> rum_referral list \<Rightarrow> rum_quality \<Rightarrow> rum_quality \<Rightarrow> rum_quality" where
  "day_quality siteRows pageRows referralRows pagesQuality referrersQuality =
     (let q = quality (siteRows @ map rum_counts.truncate pageRows @ map rum_counts.truncate referralRows)
      in q\<lparr>rq_status := (if rq_status pagesQuality = Partial \<or> rq_status referrersQuality = Partial
             then Partial else Complete),
           rq_warnings := set_of_list (rq_warnings q @ rq_warnings pagesQuality @ rq_warnings referrersQuality)\<rparr>)"

definition read_rum_day ::
  "bool \<Rightarrow> (nat list \<Rightarrow> json option) \<Rightarrow> (rum_query \<Rightarrow> rum_variables \<Rightarrow> string \<Rightarrow> network) \<Rightarrow> (nat \<Rightarrow> int)
    \<Rightarrow> rum_config option \<Rightarrow> string \<Rightarrow> rum_day" where
  "read_rum_day in_browser parse send clock config dateUtc =
     at_stage empty_context InputStage
       (throw_when in_browser ServerOnly (ebind (check_config config) (\<lambda>scope.
          ebind (utc_window dateUtc (clock 0)) (\<lambda>window. Inr (scope, window))))) (\<lambda>(scope, window).
     let ctx = empty_context\<lparr>rd_window := Some window, rd_dateUtc := Some dateUtc\<rparr>;
         none = \<lparr>var_account = scope_account scope, var_site = [], var_start = [], var_end = [], var_limit = 0\<rparr>
     in at_stage ctx SettingsStage
       (ebind (request parse (send SettingsQuery none (scope_token scope))) settings_from) (\<lambda>settings.
     let ctx = ctx\<lparr>rd_settings := Some settings\<rparr>
     in at_stage ctx SettingsStage
       (check_limits settings (startInclusive window) (scope_limit scope) (clock 1)) (\<lambda>_.
     let vars = \<lparr>var_account = scope_account scope, var_site = scope_site scope,
           var_start = startInclusive window, var_end = endExclusive window, var_limit = scope_limit scope\<rparr>;
         siteLimit = min 2 (maxPageSize settings)
     in at_stage ctx SiteStage
       (ebind (request parse (send SiteQuery (vars\<lparr>var_limit := siteLimit\<rparr>) (scope_token scope))) (\<lambda>body.
          rows_from site_kind body dateUtc siteLimit)) (\<lambda>siteRows.
     let site = (case siteRows of r # _ \<Rightarrow> r
           | [] \<Rightarrow> \<lparr>rc_pageLoads = 0, rc_visits = 0, rc_sampleInterval = None\<rparr>)
     in at_stage ctx PagesStage
       (ebind (request parse (send PagesQuery vars (scope_token scope))) (\<lambda>body.
        ebind (rows_from pages_kind body dateUtc (scope_limit scope)) (\<lambda>rows.
        grouped rows site (scope_limit scope)))) (\<lambda>pages.
     let pages = pages\<lparr>rg_rows := js_sort page_row_order (rg_rows pages)\<rparr>
     in at_stage ctx ReferrersStage
       (ebind (request parse (send ReferrersQuery vars (scope_token scope))) (\<lambda>body.
        ebind (rows_from referrers_kind body dateUtc (scope_limit scope)) (\<lambda>rows.
        ebind (grouped rows site (scope_limit scope)) (\<lambda>groups.
        throw_when (\<not> valid_time (clock 2)) InvalidResponse (Inr groups))))) (\<lambda>referrers.
     let referrers = referrers\<lparr>rg_rows := js_sort referral_row_order (rg_rows referrers)\<rparr>
     in RumOk
          (ctx\<lparr>rd_quality := day_quality siteRows (rg_rows pages) (rg_rows referrers) (rg_quality pages) (rg_quality referrers)\<rparr>)
          \<lparr>rd_readAt = iso_time (clock 2), rd_site = site, rd_siteQuality = quality siteRows,
           rd_pages = pages, rd_referrers = referrers\<rparr>))))))"

section \<open>What a request returns\<close>

lemma read_body_Inr:
  "length bytes \<le> max_response_bytes \<Longrightarrow> read_body reads bytes = Inr out \<longleftrightarrow>
    (\<exists>chunks. reads = map Some chunks \<and> out = bytes @ concat chunks \<and> length out \<le> max_response_bytes)"
proof (induction reads bytes rule: read_body.induct)
  case (1 bytes)
  then show ?case by auto
next
  case (3 chunk reads bytes)
  show ?case
  proof (cases "length bytes + length chunk \<le> max_response_bytes")
    case True
    then have "read_body (Some chunk # reads) bytes = Inr out \<longleftrightarrow>
        (\<exists>chunks. reads = map Some chunks \<and> out = (bytes @ chunk) @ concat chunks \<and> length out \<le> max_response_bytes)"
      using 3 by simp
    also have "\<dots> \<longleftrightarrow> (\<exists>chunks. Some chunk # reads = map Some chunks \<and> out = bytes @ concat chunks
        \<and> length out \<le> max_response_bytes)"
      by (auto simp: Cons_eq_map_conv intro: exI [of _ "chunk # _"])
    finally show ?thesis .
  next
    case False
    then show ?thesis by (auto simp: Cons_eq_map_conv)
  qed
qed auto

lemma cancel_reader_Inr: "cancel_reader response r = Inr bytes \<longleftrightarrow> r = Inr bytes"
  by (cases r) (simp_all add: cancel_reader_def)

lemma attempt_Inr:
  "attempt parse net = Inr v \<longleftrightarrow> \<not> net_aborted_before net \<and> (\<exists>response chunks.
      net_response net = Some response \<and> 200 \<le> http_status response \<and> http_status response \<le> 299
      \<and> http_body response = Some (map Some chunks) \<and> length (concat chunks) \<le> max_response_bytes
      \<and> parse (concat chunks) = Some v)"
  by (cases "net_response net"; cases "http_body (the (net_response net))")
    (auto simp: attempt_def throw_when_Inr_iff ebind_Inr_iff cancel_reader_Inr read_body_Inr not_less split: option.split_asm)

lemma request_Inr: "request parse net = Inr v \<longleftrightarrow> attempt parse net = Inr v"
  by (simp add: request_def split: sum.split)

text \<open>
  C21. A request yields a value exactly when no abort preceded it, the response has a success
  status and a body, every read of the body succeeds, the bytes are at most eight mebibytes, and
  they parse; the value is what they parse to. Everything else is one of the request errors, and an
  abort takes precedence over a timeout, a timeout over the error it caused.
\<close>

theorem request_outcome:
  "(request parse net = Inr v \<longleftrightarrow> \<not> net_aborted_before net \<and> (\<exists>response chunks.
      net_response net = Some response \<and> 200 \<le> http_status response \<and> http_status response \<le> 299
      \<and> http_body response = Some (map Some chunks) \<and> length (concat chunks) \<le> 8388608
      \<and> parse (concat chunks) = Some v))
    \<and> (request parse net = Inl e \<longleftrightarrow> (\<exists>cause. attempt parse net = Inl cause
      \<and> e = (if net_aborted_before net \<or> net_aborted net then Aborted
             else if net_timed_out net then Timeout
             else if cause = None then NetworkError else the cause)
      \<and> cause \<in> {None, Some Unauthorized, Some Forbidden, Some RateLimited, Some HttpError, Some InvalidJson,
          Some ResponseTooLarge}))"
proof
  have limit: "max_response_bytes = 8388608" by (simp add: max_response_bytes_def)
  show "request parse net = Inr v \<longleftrightarrow> \<not> net_aborted_before net \<and> (\<exists>response chunks.
      net_response net = Some response \<and> 200 \<le> http_status response \<and> http_status response \<le> 299
      \<and> http_body response = Some (map Some chunks) \<and> length (concat chunks) \<le> 8388608
      \<and> parse (concat chunks) = Some v)"
    unfolding limit [symmetric] request_Inr by (rule attempt_Inr)
next
  have body: "cause \<in> {None, Some ResponseTooLarge}" if "read_body reads bytes = Inl cause" for reads bytes cause
    using that by (induction reads bytes rule: read_body.induct) (auto simp: throw_when_def split: if_splits)
  have read: "cause \<in> {None, Some ResponseTooLarge}" if "cancel_reader r (read_body reads bytes) = Inl cause" for r reads bytes cause
    using that body by (auto simp: cancel_reader_def split: sum.splits if_splits)
  have cause: "cause \<in> {None, Some Unauthorized, Some Forbidden, Some RateLimited, Some HttpError, Some InvalidJson,
      Some ResponseTooLarge}" if "attempt parse net = Inl cause" for cause
    using that read
    by (auto simp: attempt_def throw_when_def status_error_def ebind_Inl_iff split: option.splits if_splits)
  show "request parse net = Inl e \<longleftrightarrow> (\<exists>cause. attempt parse net = Inl cause
      \<and> e = (if net_aborted_before net \<or> net_aborted net then Aborted
             else if net_timed_out net then Timeout
             else if cause = None then NetworkError else the cause)
      \<and> cause \<in> {None, Some Unauthorized, Some Forbidden, Some RateLimited, Some HttpError, Some InvalidJson,
          Some ResponseTooLarge})"
    using cause by (cases "attempt parse net") (auto simp: request_def split: option.splits)
qed

section \<open>What a day contains\<close>

lemma comparator_text_rat [comparator_intros]:
  "js_comparator S (\<lambda>a b. of_int (compare_text (k a) (k b)) :: rat)"
  by unfold_locales (auto simp: compare_text_def split: if_splits)

interpretation page_rows_order: js_keyed_comparator UNIV page_row_order rp_path
  unfolding page_row_order_def [abs_def]
  by (intro js_keyed_comparator.intro js_keyed_comparator_axioms.intro comparator_intros)
    (simp add: js_or_zero_iff)

interpretation referral_rows_order: js_keyed_comparator UNIV referral_row_order rr_source
  unfolding referral_row_order_def [abs_def]
  by (intro js_keyed_comparator.intro js_keyed_comparator_axioms.intro comparator_intros)
    (simp add: js_or_zero_iff)

lemma at_stage_ok: "at_stage ctx stage r k = RumOk c d \<longleftrightarrow> (\<exists>x. r = Inr x \<and> k x = RumOk c d)"
  by (cases r) (simp_all add: at_stage_def)

text \<open>The steps of a day that was read.\<close>

lemma read_rum_day_steps:
  assumes "read_rum_day in_browser parse send clock config dateUtc = RumOk ctx data"
  obtains scope window and settings :: rum_settings and siteBody siteRows site pageBody pageRows pages refBody refRows refs where
    "check_config config = Inr scope" "utc_window dateUtc (clock 0) = Inr window"
    "rows_from site_kind siteBody dateUtc (min 2 (maxPageSize settings)) = Inr siteRows"
    "site = (case siteRows of r # _ \<Rightarrow> r | [] \<Rightarrow> \<lparr>rc_pageLoads = 0, rc_visits = 0, rc_sampleInterval = None\<rparr>)"
    "rows_from pages_kind pageBody dateUtc (scope_limit scope) = Inr pageRows"
    "grouped pageRows site (scope_limit scope) = Inr pages"
    "rows_from referrers_kind refBody dateUtc (scope_limit scope) = Inr refRows"
    "grouped refRows site (scope_limit scope) = Inr refs"
    "data = \<lparr>rd_readAt = iso_time (clock 2), rd_site = site, rd_siteQuality = quality siteRows,
       rd_pages = pages\<lparr>rg_rows := js_sort page_row_order (rg_rows pages)\<rparr>,
       rd_referrers = refs\<lparr>rg_rows := js_sort referral_row_order (rg_rows refs)\<rparr>\<rparr>"
    "rd_window ctx = Some window" "rd_dateUtc ctx = Some dateUtc"
    "rq_status (rd_quality ctx) = (if rq_status (rg_quality pages) = Partial \<or> rq_status (rg_quality refs) = Partial
       then Partial else Complete)"
    "rq_botFilter (rd_quality ctx) = rum_bot_filter"
proof -
  show thesis
    using assms
    by (clarsimp simp: read_rum_day_def at_stage_ok ebind_Inr_iff throw_when_Inr_iff Let_def)
      (rule that, assumption, assumption, assumption, rule refl, assumption, assumption, assumption, assumption,
       simp_all add: day_quality_def Let_def)
qed

lemma counts_ok_first:
  "list_all counts_ok rows \<Longrightarrow>
    counts_ok (case rows of r # _ \<Rightarrow> r | [] \<Rightarrow> \<lparr>rc_pageLoads = 0, rc_visits = 0, rc_sampleInterval = None\<rparr>)"
  by (cases rows) (simp_all add: counts_ok_def max_safe_def)

lemma groups_agree_perm:
  assumes "mset rows = mset rows'"
  shows "groups_agree rows site limit = groups_agree rows' site limit"
proof -
  have "set rows = set rows'" "length rows = length rows'" "rows = [] \<longleftrightarrow> rows' = []"
    using assms by (metis set_mset_mset, metis size_mset, metis mset_zero_iff)
  moreover have "sum_list (map f rows) = sum_list (map f rows')" for f :: "_ \<Rightarrow> rat"
    using assms by (metis mset_map sum_mset_sum_list)
  ultimately show ?thesis unfolding groups_agree_def by simp
qed

lemma row_orders:
  "page_row_order a b \<le> 0 \<Longrightarrow> rc_pageLoads a \<ge> rc_pageLoads b"
  "referral_row_order c d \<le> 0 \<Longrightarrow> rc_visits c \<ge> rc_visits d"
  by (auto simp: page_row_order_def referral_row_order_def js_or_def split: if_splits)

lemma check_config_limit:
  "check_config config = Inr scope \<Longrightarrow>
    (\<exists>c. config = Some c \<and> groupLimit c = json_int (scope_limit scope)) \<and> 1 \<le> scope_limit scope"
  by (auto simp: check_config_def throw_when_Inr_iff safe_integer_Some split: option.splits)

text \<open>The rows add up to the independent totals of the site, and no row and no total is sampled.\<close>

definition groups_add_up :: "'a rum_counts_scheme list \<Rightarrow> rum_counts \<Rightarrow> bool" where
  "groups_add_up rows site \<longleftrightarrow> sum_list (map rc_pageLoads rows) = rc_pageLoads site
     \<and> sum_list (map rc_visits rows) = rc_visits site
     \<and> (rows \<noteq> [] \<longrightarrow> (\<forall>r \<in> set rows. \<exists>q. rc_sampleInterval r = Some q \<and> q \<le> 1)
          \<and> (\<exists>q. rc_sampleInterval site = Some q \<and> q \<le> 1))"

lemma groups_agree_below:
  "int (length rows) \<le> limit \<Longrightarrow>
    groups_agree rows site limit \<longleftrightarrow> int (length rows) < limit \<and> groups_add_up rows site"
  by (auto simp: groups_agree_def groups_add_up_def)

text \<open>
  C20. A day that is read is a whole past day, its rows are keyed and ordered, every metric is
  non-negative and finite, and completeness is earned: the page rows (and likewise the referral
  rows) are complete exactly when they are fewer than the group limit of the configuration, which is
  also the limit they report, add up exactly to the independent site totals and none of them was
  sampled; the day is complete when both are.
\<close>

theorem read_rum_day_sound:
  assumes "read_rum_day in_browser parse send clock config dateUtc = RumOk ctx data"
  shows "(\<exists>d. 0 \<le> d \<and> dateUtc = iso_day d \<and> (d + 1) * 86400000 \<le> clock 0
      \<and> rd_window ctx = Some \<lparr>startInclusive = iso_day d @ ''T00:00:00Z'', endExclusive = iso_day (d + 1) @ ''T00:00:00Z''\<rparr>)
    \<and> rd_dateUtc ctx = Some dateUtc
    \<and> (\<exists>c limit. config = Some c \<and> groupLimit c = json_int limit \<and> 1 \<le> limit
        \<and> rg_limit (rg_coverage (rd_pages data)) = limit \<and> rg_limit (rg_coverage (rd_referrers data)) = limit
        \<and> int (length (rg_rows (rd_pages data))) \<le> limit \<and> int (length (rg_rows (rd_referrers data))) \<le> limit
        \<and> (rq_status (rg_quality (rd_pages data)) = Complete \<longleftrightarrow>
            int (length (rg_rows (rd_pages data))) < limit \<and> groups_add_up (rg_rows (rd_pages data)) (rd_site data))
        \<and> (rq_status (rg_quality (rd_referrers data)) = Complete \<longleftrightarrow>
            int (length (rg_rows (rd_referrers data))) < limit
            \<and> groups_add_up (rg_rows (rd_referrers data)) (rd_site data)))
    \<and> (rq_status (rd_quality ctx) = Complete \<longleftrightarrow>
        rq_status (rg_quality (rd_pages data)) = Complete \<and> rq_status (rg_quality (rd_referrers data)) = Complete)
    \<and> list_all counts_ok (rg_rows (rd_pages data)) \<and> list_all counts_ok (rg_rows (rd_referrers data))
    \<and> counts_ok (rd_site data)
    \<and> distinct (map rp_path (rg_rows (rd_pages data))) \<and> distinct (map rr_source (rg_rows (rd_referrers data)))
    \<and> sorted_wrt (\<lambda>a b. rc_pageLoads a \<ge> rc_pageLoads b) (rg_rows (rd_pages data))
    \<and> sorted_wrt (\<lambda>a b. rc_visits a \<ge> rc_visits b) (rg_rows (rd_referrers data))"
proof -
  obtain scope window and settings :: rum_settings and siteBody siteRows site pageBody pageRows pages refBody refRows refs where
    steps: "check_config config = Inr scope" "utc_window dateUtc (clock 0) = Inr window"
    "rows_from site_kind siteBody dateUtc (min 2 (maxPageSize settings)) = Inr siteRows"
    "site = (case siteRows of r # _ \<Rightarrow> r | [] \<Rightarrow> \<lparr>rc_pageLoads = 0, rc_visits = 0, rc_sampleInterval = None\<rparr>)"
    "rows_from pages_kind pageBody dateUtc (scope_limit scope) = Inr pageRows"
    "grouped pageRows site (scope_limit scope) = Inr pages"
    "rows_from referrers_kind refBody dateUtc (scope_limit scope) = Inr refRows"
    "grouped refRows site (scope_limit scope) = Inr refs"
    "data = \<lparr>rd_readAt = iso_time (clock 2), rd_site = site, rd_siteQuality = quality siteRows,
       rd_pages = pages\<lparr>rg_rows := js_sort page_row_order (rg_rows pages)\<rparr>,
       rd_referrers = refs\<lparr>rg_rows := js_sort referral_row_order (rg_rows refs)\<rparr>\<rparr>"
    "rd_window ctx = Some window" "rd_dateUtc ctx = Some dateUtc"
    "rq_status (rd_quality ctx) = (if rq_status (rg_quality pages) = Partial \<or> rq_status (rg_quality refs) = Partial
       then Partial else Complete)"
    using assms by (rule read_rum_day_steps)
  note site_facts = site_rows.rows_from_ok [OF steps(3)]
  note page_facts = page_rows.rows_from_ok [OF steps(5)]
  note ref_facts = referral_rows.rows_from_ok [OF steps(7)]
  have rows: "rg_rows pages = pageRows" "rg_rows refs = refRows"
    using steps(6,8) by (simp_all add: grouped_rows)
  have agree: "groups_agree (js_sort page_row_order pageRows) site limit = groups_agree pageRows site limit"
    "groups_agree (js_sort referral_row_order refRows) site limit = groups_agree refRows site limit" for limit
    by (rule groups_agree_perm, simp)+
  have status: "rq_status (rg_quality pages) = (if groups_agree pageRows site (scope_limit scope) then Complete else Partial)"
    "rq_status (rg_quality refs) = (if groups_agree refRows site (scope_limit scope) then Complete else Partial)"
    using grouped_status [OF steps(6)] grouped_status [OF steps(8)] by simp_all
  obtain d where "0 \<le> d" "four_digit_year (d + 1)" "dateUtc = iso_day d"
    using utc_window_is_day [of dateUtc "clock 0"] steps(2) by auto
  then have day: "\<exists>d. 0 \<le> d \<and> dateUtc = iso_day d \<and> (d + 1) * 86400000 \<le> clock 0
      \<and> rd_window ctx = Some \<lparr>startInclusive = iso_day d @ ''T00:00:00Z'', endExclusive = iso_day (d + 1) @ ''T00:00:00Z''\<rparr>"
    using steps(2,10) utc_window_day [of d "clock 0"] by (intro exI [of _ d]) (auto split: if_splits)
  have sorted: "sorted_wrt (\<lambda>a b. rc_pageLoads a \<ge> rc_pageLoads b) (js_sort page_row_order pageRows)"
    "sorted_wrt (\<lambda>a b. rc_visits a \<ge> rc_visits b) (js_sort referral_row_order refRows)"
    by (rule sorted_wrt_mono_rel [OF _ page_rows_order.sorted_js_sort], auto intro: row_orders)
      (rule sorted_wrt_mono_rel [OF _ referral_rows_order.sorted_js_sort], auto intro: row_orders)
  have keys: "distinct (map rp_path pageRows)" "distinct (map rr_source refRows)"
    using page_facts ref_facts by (simp_all add: pages_kind_def referrers_kind_def)
  have ok: "list_all counts_ok pageRows" "list_all counts_ok refRows" "counts_ok site"
    using page_facts ref_facts counts_ok_first [of siteRows] site_facts by (simp_all add: steps(4))
  have bound: "int (length pageRows) \<le> scope_limit scope" "int (length refRows) \<le> scope_limit scope"
    using page_facts ref_facts by simp_all
  have below: "groups_agree (js_sort page_row_order pageRows) site (scope_limit scope) \<longleftrightarrow>
      int (length pageRows) < scope_limit scope \<and> groups_add_up (js_sort page_row_order pageRows) site"
    "groups_agree (js_sort referral_row_order refRows) site (scope_limit scope) \<longleftrightarrow>
      int (length refRows) < scope_limit scope \<and> groups_add_up (js_sort referral_row_order refRows) site"
    using bound by (simp_all add: groups_agree_below)
  have limit: "\<exists>c limit. config = Some c \<and> groupLimit c = json_int limit \<and> 1 \<le> limit
      \<and> rg_limit (rg_coverage pages) = limit \<and> rg_limit (rg_coverage refs) = limit
      \<and> int (length pageRows) \<le> limit \<and> int (length refRows) \<le> limit
      \<and> (rq_status (rg_quality pages) = Complete \<longleftrightarrow>
          int (length pageRows) < limit \<and> groups_add_up (js_sort page_row_order pageRows) site)
      \<and> (rq_status (rg_quality refs) = Complete \<longleftrightarrow>
          int (length refRows) < limit \<and> groups_add_up (js_sort referral_row_order refRows) site)"
    using bound status agree below check_config_limit [OF steps(1)]
      grouped_coverage [OF steps(6)] grouped_coverage [OF steps(8)] by auto
  show ?thesis
    unfolding steps(9) using day limit steps(11,12) sorted keys ok status by (simp add: rows list_all_iff)
qed

section \<open>A day read\<close>

definition envelope :: "(string \<times> json) list \<Rightarrow> json" where
  "envelope account_fields =
     JObj [(''data'', JObj [(''viewer'', JObj [(''accounts'', JArr [JObj account_fields])])])]"

definition sample_row :: "(string \<times> json) list \<Rightarrow> json" where
  "sample_row dims = JObj [(''dimensions'', JObj ([(''date'', JStr ''1970-01-02''),
     (''requestHost'', JStr ''gopheratlas.com'')] @ dims)), (''count'', json_int 5),
     (''sum'', JObj [(''visits'', json_int 3)]), (''avg'', JObj [(''sampleInterval'', json_int 1)])]"

definition sample_rows_json :: "(string \<times> json) list \<Rightarrow> json" where
  "sample_rows_json dims = envelope [(''rumPageloadEventsAdaptiveGroups'', JArr [sample_row dims])]"

definition sample_settings_json :: json where
  "sample_settings_json = envelope [(''settings'', JObj [(''rumPageloadEventsAdaptiveGroups'',
     JObj [(''enabled'', JBool True), (''maxDuration'', json_int 86400), (''maxPageSize'', json_int 50),
       (''notOlderThan'', json_int 864000), (''maxNumberOfFields'', json_int 8),
       (''availableFields'', JArr (map JStr required_fields))])])]"

definition sample_parse :: "nat list \<Rightarrow> json option" where
  "sample_parse bytes =
     (if bytes = [0] then Some sample_settings_json
      else if bytes = [1] then Some (sample_rows_json [])
      else if bytes = [2] then Some (sample_rows_json [(''requestPath'', JStr ''/notes/%E4%BD%A0/'')])
      else if bytes = [3] then Some (sample_rows_json [(''refererHost'', JStr ''Bing.com.'')])
      else None)"

definition sample_send :: "rum_query \<Rightarrow> rum_variables \<Rightarrow> string \<Rightarrow> network" where
  "sample_send q v token = \<lparr>net_response = Some \<lparr>http_status = 200, http_body = Some [Some
     (case q of SettingsQuery \<Rightarrow> [0] | SiteQuery \<Rightarrow> [1] | PagesQuery \<Rightarrow> [2] | ReferrersQuery \<Rightarrow> [3])],
     http_cancel_fails = False\<rparr>,
     net_aborted_before = False, net_aborted = False, net_timed_out = False\<rparr>"

definition sample_config :: rum_config where
  "sample_config = \<lparr>accountId = JStr (replicate 32 CHR ''a''), rumSiteTag = JStr (replicate 32 CHR ''B''),
     rum_token = JStr ''token'', rum_requestHost = JStr ''gopheratlas.com'', groupLimit = json_int 20\<rparr>"

lemma sample_request:
  "request sample_parse (sample_send q v token) = Inr (case q of
     SettingsQuery \<Rightarrow> sample_settings_json
   | SiteQuery \<Rightarrow> sample_rows_json []
   | PagesQuery \<Rightarrow> sample_rows_json [(''requestPath'', JStr ''/notes/%E4%BD%A0/'')]
   | ReferrersQuery \<Rightarrow> sample_rows_json [(''refererHost'', JStr ''Bing.com.'')])"
  by (cases q) (simp_all add: request_def attempt_def sample_send_def sample_parse_def max_response_bytes_def
      cancel_reader_def)

lemma sample_config_ok:
  "check_config (Some sample_config) = Inr \<lparr>scope_account = replicate 32 CHR ''a'',
     scope_site = replicate 32 CHR ''B'', scope_token = ''token'', scope_limit = 20\<rparr>"
proof -
  have "rx_test tag_rx (replicate 32 CHR ''a'')" "rx_test tag_rx (replicate 32 CHR ''B'')"
    by (simp_all add: tag_rx_def rx_test_lang rx_lang_Times_length list_all_iff hex_class_def del: Times.simps replicate.simps)
  moreover have "token_text ''token''" by code_simp
  ultimately show ?thesis
    by (simp add: check_config_def sample_config_def as_string_def del: rx_test.simps replicate.simps)
qed

lemma sample_settings_ok:
  "settings_from sample_settings_json = Inr \<lparr>maxDuration = 86400, maxPageSize = 50, notOlderThan = 864000,
     maxNumberOfFields = 8\<rparr>"
  by (simp add: settings_from_def account_def sample_settings_json_def envelope_def as_record_def
      positive_metric_int as_string_def required_fields_def)

lemma sample_row_counts:
  "row_counts (sample_row dims) ''1970-01-02'' = Inr ([(''date'', JStr ''1970-01-02''),
     (''requestHost'', JStr ''gopheratlas.com'')] @ dims,
     \<lparr>rc_pageLoads = 5, rc_visits = 3, rc_sampleInterval = Some 1\<rparr>)"
  by (simp add: row_counts_def sample_row_def as_record_def sample_interval_def metric_int)
    (simp add: json_int_def)

lemma sample_rows_from:
  "rows_from kind (sample_rows_json dims) ''1970-01-02'' limit =
    throw_when (1 > limit) InvalidResponse (ebind (complete_row kind ([(''date'', JStr ''1970-01-02''),
     (''requestHost'', JStr ''gopheratlas.com'')] @ dims)
     \<lparr>rc_pageLoads = 5, rc_visits = 3, rc_sampleInterval = Some 1\<rparr>) (\<lambda>row. Inr [row]))"
proof -
  have "account (sample_rows_json dims) = Inr [(''rumPageloadEventsAdaptiveGroups'', JArr [sample_row dims])]"
    by (simp add: account_def sample_rows_json_def envelope_def as_record_def)
  then show ?thesis
    by (cases "complete_row kind ([(''date'', JStr ''1970-01-02''), (''requestHost'', JStr ''gopheratlas.com'')] @ dims)
      \<lparr>rc_pageLoads = 5, rc_visits = 3, rc_sampleInterval = Some 1\<rparr>")
      (simp_all add: rows_from_def add_row_def sample_row_counts reserve_def set_add_def throw_when_def)
qed

lemma sample_path: "path_from (JStr ''/notes/%E4%BD%A0/'') = Inr ''/notes/%E4%BD%A0/''"
  by (simp add: path_from_def decode_uri_def hex_digit_def space_point_def throw_when_def numeral_2_eq_2)

lemma rx_lang_Cls_Seq: "rx_lang (Seq (Cls rs) r) u \<longleftrightarrow> (\<exists>a w. u = a # w \<and> in_class rs a \<and> rx_lang r w)"
  unfolding rx_lang_Seq rx_lang_Cls by (metis append_Cons append_Nil)

lemma rx_lang_up_to: "rx_lang (up_to n (Cls rs)) u \<longleftrightarrow> length u \<le> n \<and> list_all (in_class rs) u"
proof (induction n arbitrary: u)
  case 0
  show ?case by (auto simp: up_to_def)
next
  case (Suc n)
  have "rx_lang (up_to (Suc n) (Cls rs)) u \<longleftrightarrow> u = [] \<or> (\<exists>a w. u = a # w \<and> in_class rs a \<and> rx_lang (up_to n (Cls rs)) w)"
    by (simp add: up_to_def rx_lang_Alt rx_lang_Cls_Seq)
  with Suc show ?case by (cases u) auto
qed

lemma sample_host: "rx_test host_rx ''bing.com''"
proof -
  let ?rest = "Opt (Seq (up_to 61 (Cls (lower_alnum @ [(CHR ''-'', CHR ''-'')]))) (Cls lower_alnum))"
  have rest: "rx_lang ?rest (w @ [c])"
    if "length w \<le> 61" "list_all (in_class (lower_alnum @ [(CHR ''-'', CHR ''-'')])) w" "in_class lower_alnum c" for w c
    using that by (auto simp: rx_lang_Opt rx_lang_Seq rx_lang_up_to rx_lang_Cls)
  have letters: "rx_lang ?rest ''ing''" "rx_lang ?rest ''om''"
    using rest [of "''in''" "CHR ''g''"] rest [of "''o''" "CHR ''m''"] by (simp_all add: lower_alnum_def)
  have "rx_lang (Cls lower_alnum) ''b''" "rx_lang (Cls [(CHR ''a'', CHR ''z'')]) ''c''"
    by (simp_all add: rx_lang_Cls lower_alnum_def)
  moreover have "rx_lang (Seq ?rest (Lit CHR ''.'')) ''ing.''"
    using rx_lang.seq [OF letters(1), of "Lit CHR ''.''" "''.''"] by simp
  ultimately have "rx_lang (Seq (Cls lower_alnum) (Seq ?rest (Lit CHR ''.''))) ''bing.''"
      "rx_lang (Seq (Cls [(CHR ''a'', CHR ''z'')]) ?rest) ''com''"
    using rx_lang.seq [of "Cls lower_alnum" "''b''" _ "''ing.''"] rx_lang.seq [OF _ letters(2), of _ "''c''"] by simp_all
  then have "rx_lang (Plus (Seq (Cls lower_alnum) (Seq ?rest (Lit CHR ''.'')))) ''bing.''"
      "rx_lang (Seq (Cls [(CHR ''a'', CHR ''z'')]) ?rest) ''com''"
    using rx_lang.seq [OF _ rx_lang.star0] by (fastforce simp: Plus_def)+
  then show ?thesis
    using rx_lang.seq [of _ "''bing.''" _ "''com''"] by (simp add: rx_test_lang host_rx_def Let_def)
qed

lemma sample_referral: "referral_from (JStr ''Bing.com.'') = Inr (''bing.com'', SearchCategory)"
proof -
  have "map js_lower ''Bing.com.'' = ''bing.com.''" by code_simp
  then show ?thesis
    by (simp add: referral_from_def sample_host suffix_def throw_when_def del: rx_test.simps)
qed

theorem read_rum_day_sound_witness:
  "\<exists>ctx data. read_rum_day False sample_parse sample_send (\<lambda>_. 200000000) (Some sample_config) ''1970-01-02'' = RumOk ctx data
    \<and> rq_status (rd_quality ctx) = Complete \<and> map rp_path (rg_rows (rd_pages data)) = [''/notes/%E4%BD%A0/'']
    \<and> distinct (map rp_path (rg_rows (rd_pages data)))"
proof -
  let ?counts = "\<lparr>rc_pageLoads = 5, rc_visits = 3, rc_sampleInterval = Some 1\<rparr> :: rum_counts"
  let ?page = "rum_counts.extend ?counts (rum_page.fields ''/notes/%E4%BD%A0/'')"
  let ?referral = "rum_counts.extend ?counts (rum_referral.fields ''bing.com'' SearchCategory)"
  have day: "''1970-01-02'' = iso_day 1" by (simp add: january_days)
  have "four_digit_year (1 + 1)" by (simp add: january_days)
  then have window: "utc_window ''1970-01-02'' 200000000 = Inr
      \<lparr>startInclusive = iso_day 1 @ ''T00:00:00Z'', endExclusive = iso_day (1 + 1) @ ''T00:00:00Z''\<rparr>"
    unfolding day by (subst utc_window_day) simp_all
  have limits: "check_limits \<lparr>maxDuration = 86400, maxPageSize = 50, notOlderThan = 864000, maxNumberOfFields = 8\<rparr>
      (iso_day 1 @ ''T00:00:00Z'') 20 200000000 = Inr ()"
    using four_digit_before [of "1 + 1" 1] \<open>four_digit_year (1 + 1)\<close>
    by (simp add: check_limits_def date_parse_midnight ms_per_day_def)
  have rows: "rows_from site_kind (sample_rows_json []) ''1970-01-02'' 2 = Inr [?counts]"
      "rows_from pages_kind (sample_rows_json [(''requestPath'', JStr ''/notes/%E4%BD%A0/'')]) ''1970-01-02'' 20 = Inr [?page]"
      "rows_from referrers_kind (sample_rows_json [(''refererHost'', JStr ''Bing.com.'')]) ''1970-01-02'' 20 = Inr [?referral]"
    by (simp_all add: sample_rows_from site_kind_def pages_kind_def referrers_kind_def sample_path sample_referral
        del: rx_test.simps)
  have agree: "groups_agree [?page] ?counts 20" "groups_agree [?referral] ?counts 20"
    by (simp_all add: groups_agree_def rum_counts.extend_def)
  have small: "metric (JNum (Fin (sum_loads rs))) = Inr 5 \<and> metric (JNum (Fin (sum_visits rs))) = Inr 3"
    if "map rc_pageLoads rs = [5]" "map rc_visits rs = [3]" for rs :: "'z rum_counts_scheme list"
    using that by (simp add: sums_of_rows metric_Inr max_safe_def)
  have "\<exists>pages refs. grouped [?page] ?counts 20 = Inr pages \<and> grouped [?referral] ?counts 20 = Inr refs"
    using small [of "[?page]"] small [of "[?referral]"] by (simp add: grouped_def Let_def rum_counts.extend_def)
  then obtain pages refs where groups: "grouped [?page] ?counts 20 = Inr pages" "grouped [?referral] ?counts 20 = Inr refs"
    by blast
  have status: "rq_status (rg_quality pages) = Complete" "rq_status (rg_quality refs) = Complete"
    using grouped_status [OF groups(1)] grouped_status [OF groups(2)] agree by simp_all
  obtain ctx data where run: "read_rum_day False sample_parse sample_send (\<lambda>_. 200000000) (Some sample_config)
      ''1970-01-02'' = RumOk ctx data"
    and facts: "rq_status (rd_quality ctx) = Complete" "rg_rows (rd_pages data) = [?page]"
    using groups status
    by (simp add: read_rum_day_def at_stage_def sample_config_ok window sample_request sample_settings_ok limits rows
        Let_def valid_time_def day_quality_def grouped_rows del: rx_test.simps)
  have "rp_path ?page = ''/notes/%E4%BD%A0/''" by (simp add: rum_counts.extend_def rum_page.fields_def)
  with run facts read_rum_day_sound [OF run] show ?thesis by (intro exI [of _ ctx] exI [of _ data]) simp
qed

end
