(* ===== verification/StatsArchive.thy ===== *)
theory StatsArchive
  imports RumClient StatsManifest
begin

text \<open>
  \<open>apps/web/stats/worker/archive.ts\<close> with the tables of \<open>apps/web/stats/migrations\<close>: how one day
  of RUM data is stored. A table is a map from its primary key, a statement a function on the
  database that yields \<open>None\<close> where a constraint fails, and a batch a transaction: it runs all its
  statements or none. Whether the storage itself accepts a batch is an argument. Operations
  return the database and a result, because a thrown error leaves what was stored before.
\<close>

section \<open>Tables\<close>

datatype dimension = SiteDim | PagesDim | ReferrersDim

record site_row =
  st_loads :: rat
  st_visits :: rat
  st_sample_min :: "rat option"
  st_sample_max :: "rat option"
  st_filter :: string
  st_quality :: site_quality
  st_archive_at :: string
  st_window :: string

record dimension_row =
  dm_last_attempt :: string
  dm_last_success :: "string option"
  dm_last_result :: coverage_state

record content_row =
  ct_counts :: stats_counts
  ct_generation :: int
  ct_observed_at :: string

datatype run_result = RunSuccess | RunPartial | RunFailed
datatype failure_code = UpstreamUnavailable | StorageUnavailable | ManifestUnavailable | InvalidInput

record states =
  state_site :: coverage_state
  state_pages :: coverage_state
  state_referrers :: coverage_state

record sync_run =
  run_id :: nat
  run_at :: string
  run_day :: string
  run_result :: run_result
  run_states :: states
  run_error :: "failure_code option"
  run_duration :: int
  run_rerun :: bool

text \<open>\<open>next_run\<close> is the sequence of the \<open>AUTOINCREMENT\<close> key. The rows of the two traffic tables keep
  the count and the time of archiving.\<close>

record database =
  site_table :: "(string \<times> site_row) list"
  page_table :: "((string \<times> string) \<times> rat \<times> string) list"
  referral_table :: "((string \<times> source_key) \<times> rat \<times> string) list"
  dimension_table :: "((string \<times> dimension) \<times> dimension_row) list"
  content_table :: "(string \<times> content_row) list"
  sync_runs :: "sync_run list"
  next_run :: nat

type_synonym statement = "database \<Rightarrow> database option"

fun run_statements :: "statement list \<Rightarrow> statement" where
  "run_statements [] db = Some db"
| "run_statements (s # ss) db = Option.bind (s db) (run_statements ss)"

definition batch :: "bool \<Rightarrow> statement list \<Rightarrow> database \<Rightarrow> database option" where
  "batch storage_ok ss db = (if storage_ok then run_statements ss db else None)"

section \<open>Statements\<close>

definition unavailable :: states where
  "unavailable = \<lparr>state_site = Unavailable, state_pages = Unavailable, state_referrers = Unavailable\<rparr>"

definition state_of :: "states \<Rightarrow> dimension \<Rightarrow> coverage_state" where
  "state_of s d = (case d of SiteDim \<Rightarrow> state_site s | PagesDim \<Rightarrow> state_pages s | ReferrersDim \<Rightarrow> state_referrers s)"

definition prune :: statement where
  "prune db = Some (db\<lparr>sync_runs := filter (\<lambda>r. run_id r \<in>
     set (take 100 (rev (sort (map run_id (sync_runs db)))))) (sync_runs db)\<rparr>)"

definition put_state ::
  "string \<Rightarrow> dimension \<Rightarrow> coverage_state \<Rightarrow> string \<Rightarrow> bool \<Rightarrow> ((string \<times> dimension) \<times> dimension_row) list
    \<Rightarrow> ((string \<times> dimension) \<times> dimension_row) list" where
  "put_state day d state at_time saved table =
     (let success = (if saved then Some at_time else None)
      in case map_of table (day, d) of
          None \<Rightarrow> AList.update (day, d)
            \<lparr>dm_last_attempt = at_time, dm_last_success = success, dm_last_result = state\<rparr> table
        | Some row \<Rightarrow> if at_time < dm_last_attempt row then table
            else AList.update (day, d)
              \<lparr>dm_last_attempt = at_time,
               dm_last_success = (case success of Some t \<Rightarrow> Some t | None \<Rightarrow> dm_last_success row),
               dm_last_result = state\<rparr> table)"

definition state_statement ::
  "string \<Rightarrow> dimension \<Rightarrow> coverage_state \<Rightarrow> string \<Rightarrow> bool \<Rightarrow> statement" where
  "state_statement day d state at_time saved db =
     Some (db\<lparr>dimension_table := put_state day d state at_time saved (dimension_table db)\<rparr>)"

definition has_day :: "database \<Rightarrow> string \<Rightarrow> bool" where
  "has_day db day = list_ex (\<lambda>((d, _), _). d = day) (dimension_table db)"

definition audit :: "string \<Rightarrow> string \<Rightarrow> states \<Rightarrow> failure_code option \<Rightarrow> int \<Rightarrow> statement" where
  "audit day at_time s code duration db =
     Some (db\<lparr>sync_runs := sync_runs db @ [\<lparr>run_id = next_run db, run_at = at_time, run_day = day,
         run_result = (if code \<noteq> None then RunFailed
           else if state_site s = Complete \<and> state_pages s = Complete \<and> state_referrers s = Complete
           then RunSuccess else RunPartial),
         run_states = s, run_error = code, run_duration = max 0 duration,
         run_rerun = has_day db day\<rparr>],
       next_run := next_run db + 1\<rparr>)"

definition failure_statements :: "string \<Rightarrow> string \<Rightarrow> failure_code \<Rightarrow> int \<Rightarrow> statement list" where
  "failure_statements day at_time code duration =
     audit day at_time unavailable (Some code) duration
     # map (\<lambda>d. state_statement day d Unavailable at_time False) [SiteDim, PagesDim, ReferrersDim]
     @ [prune]"

text \<open>Without a \<open>catch\<close> around it, a failing batch is an error of the storage.\<close>

definition record_failure ::
  "bool \<Rightarrow> string \<Rightarrow> string \<Rightarrow> failure_code \<Rightarrow> int \<Rightarrow> database \<Rightarrow> database \<times> (stats_error + unit)" where
  "record_failure storage_ok day at_time code duration db =
     (case batch storage_ok (failure_statements day at_time code duration) db of
        None \<Rightarrow> (db, Inl StatsStorageUnavailable)
      | Some db' \<Rightarrow> (db', Inr ()))"

definition site_checks :: "string \<Rightarrow> site_row \<Rightarrow> bool" where
  "site_checks day r \<longleftrightarrow> rx_test day_rx day \<and> 0 \<le> st_loads r \<and> 0 \<le> st_visits r
     \<and> (case st_sample_min r of None \<Rightarrow> True | Some q \<Rightarrow> 1 \<le> q)
     \<and> (case (st_sample_min r, st_sample_max r) of (Some p, Some q) \<Rightarrow> p \<le> q | _ \<Rightarrow> True)
     \<and> st_filter r = rum_bot_filter"

definition put_site :: "string \<Rightarrow> site_row \<Rightarrow> (string \<times> site_row) list \<Rightarrow> (string \<times> site_row) list" where
  "put_site day r table = (case map_of table day of
     None \<Rightarrow> AList.update day r table
   | Some old \<Rightarrow> if st_archive_at r < st_archive_at old then table
       else AList.update day (r\<lparr>st_filter := st_filter old\<rparr>) table)"

definition site_statement :: "string \<Rightarrow> site_row \<Rightarrow> statement" where
  "site_statement day r db =
     (if \<not> site_checks day r then None else Some (db\<lparr>site_table := put_site day r (site_table db)\<rparr>))"

text \<open>\<open>NOT EXISTS (... last_attempt_at > ?)\<close>\<close>

definition newest ::
  "((string \<times> dimension) \<times> dimension_row) list \<Rightarrow> string \<Rightarrow> dimension \<Rightarrow> string \<Rightarrow> bool" where
  "newest table day d at_time = (case map_of table (day, d) of
     None \<Rightarrow> True | Some row \<Rightarrow> \<not> at_time < dm_last_attempt row)"

text \<open>An insert without a conflict clause fails where the key is taken or a count negative.\<close>

fun insert_rows ::
  "string \<Rightarrow> string \<Rightarrow> ('k \<times> rat) list \<Rightarrow> ((string \<times> 'k) \<times> rat \<times> string) list
    \<Rightarrow> ((string \<times> 'k) \<times> rat \<times> string) list option" where
  "insert_rows day at_time [] table = Some table"
| "insert_rows day at_time ((k, n) # rows) table =
     (if map_has table (day, k) \<or> n < 0 then None
      else insert_rows day at_time rows (table @ [((day, k), n, at_time)]))"

definition without_day :: "string \<Rightarrow> ((string \<times> 'k) \<times> 'v) list \<Rightarrow> ((string \<times> 'k) \<times> 'v) list" where
  "without_day day table = filter (\<lambda>((d, _), _). d \<noteq> day) table"

definition page_statements :: "string \<Rightarrow> string \<Rightarrow> (string \<times> rat) list \<Rightarrow> statement list" where
  "page_statements day at_time rows =
     [\<lambda>db. Some (if newest (dimension_table db) day PagesDim at_time
        then db\<lparr>page_table := without_day day (page_table db)\<rparr> else db),
      \<lambda>db. if newest (dimension_table db) day PagesDim at_time
        then map_option (\<lambda>table. db\<lparr>page_table := table\<rparr>) (insert_rows day at_time rows (page_table db))
        else Some db]"

definition referral_statements :: "string \<Rightarrow> string \<Rightarrow> (source_key \<times> rat) list \<Rightarrow> statement list" where
  "referral_statements day at_time rows =
     [\<lambda>db. Some (if newest (dimension_table db) day ReferrersDim at_time
        then db\<lparr>referral_table := without_day day (referral_table db)\<rparr> else db),
      \<lambda>db. if newest (dimension_table db) day ReferrersDim at_time
        then map_option (\<lambda>table. db\<lparr>referral_table := table\<rparr>) (insert_rows day at_time rows (referral_table db))
        else Some db]"

section \<open>Archiving a day\<close>

definition add_count :: "'k \<Rightarrow> rat \<Rightarrow> ('k \<times> rat) list \<Rightarrow> ('k \<times> rat) list" where
  "add_count k n m = AList.update k ((case map_of m k of Some x \<Rightarrow> x | None \<Rightarrow> 0) + n) m"

text \<open>Page loads by canonical path, and whether a path is unknown to the manifest.\<close>

definition count_page ::
  "(string \<times> string) list \<Rightarrow> rum_page \<Rightarrow> bool \<times> (string \<times> rat) list \<Rightarrow> bool \<times> (string \<times> rat) list" where
  "count_page routes row st = (case map_of routes (rp_path row) of
     None \<Rightarrow> (True, snd st)
   | Some path \<Rightarrow> if path = [] then (True, snd st) else (fst st, add_count path (rc_pageLoads row) (snd st)))"

definition source_key_of :: "string \<Rightarrow> source_key" where
  "source_key_of source = (if source = ''direct-unknown'' then DirectUnknown
     else if source \<in> {''bing.com'', ''www.bing.com''} then SearchSource else ExternalOther)"

definition own_host :: "string \<Rightarrow> bool" where
  "own_host source \<longleftrightarrow> source \<in> {''gopheratlas.com'', ''www.gopheratlas.com''}"

definition count_referral :: "rum_referral \<Rightarrow> (source_key \<times> rat) list \<Rightarrow> (source_key \<times> rat) list" where
  "count_referral row m = (if own_host (rr_source row) then m
     else add_count (source_key_of (rr_source row)) (rc_visits row) m)"

definition contradicted :: "rum_quality \<Rightarrow> 'r rum_groups \<Rightarrow> bool" where
  "contradicted site g \<longleftrightarrow> int (rg_returnedGroups (rg_coverage g)) \<ge> rg_limit (rg_coverage g)
     \<or> rg_pageLoadsDelta (rg_coverage g) \<noteq> 0 \<or> rg_visitsDelta (rg_coverage g) \<noteq> 0
     \<or> length (rg_rows g) > 0
       \<and> (rq_sampled (rg_quality g) \<noteq> SampledNo \<or> rq_sampled site \<noteq> SampledNo)"

definition site_quality_of :: "rum_quality \<Rightarrow> site_quality" where
  "site_quality_of q = (if rq_status q = Partial then PartialSite
     else (case rq_sampled q of SampledYes \<Rightarrow> SampledEstimate | SampledNo \<Rightarrow> Observed | SampledUnknown \<Rightarrow> PartialSite))"

definition day_states :: "(string \<times> string) list \<Rightarrow> rum_data \<Rightarrow> states" where
  "day_states routes data =
     (let unknown = fst (fold (count_page routes) (rg_rows (rd_pages data)) (False, []))
      in \<lparr>state_site = (if site_quality_of (rd_siteQuality data) = PartialSite then Partial
            else rq_status (rd_siteQuality data)),
          state_pages = (if unknown \<or> contradicted (rd_siteQuality data) (rd_pages data) then Partial
            else rq_status (rg_quality (rd_pages data))),
          state_referrers = (if contradicted (rd_siteQuality data) (rd_referrers data) then Partial
            else rq_status (rg_quality (rd_referrers data)))\<rparr>)"

definition day_pages :: "(string \<times> string) list \<Rightarrow> rum_data \<Rightarrow> (string \<times> rat) list" where
  "day_pages routes data = snd (fold (count_page routes) (rg_rows (rd_pages data)) (False, []))"

definition day_sources :: "rum_data \<Rightarrow> (source_key \<times> rat) list" where
  "day_sources data = fold count_referral (rg_rows (rd_referrers data)) []"

definition day_site :: "rum_window \<Rightarrow> rum_data \<Rightarrow> string \<Rightarrow> site_row" where
  "day_site window data at_time =
     \<lparr>st_loads = rc_pageLoads (rd_site data), st_visits = rc_visits (rd_site data),
      st_sample_min = map_option fst (rq_range (rd_siteQuality data)),
      st_sample_max = map_option snd (rq_range (rd_siteQuality data)),
      st_filter = rum_bot_filter, st_quality = site_quality_of (rd_siteQuality data),
      st_archive_at = at_time, st_window = startInclusive window @ ''/'' @ endExclusive window\<rparr>"

definition day_statements ::
  "string \<Rightarrow> rum_window \<Rightarrow> (string \<times> string) list \<Rightarrow> rum_data \<Rightarrow> string \<Rightarrow> int \<Rightarrow> statement list" where
  "day_statements day window routes data at_time duration =
     (let s = day_states routes data
      in [audit day at_time s None duration,
          site_statement day (day_site window data at_time)]
         @ (if state_pages s = Complete then page_statements day at_time (day_pages routes data) else [])
         @ (if state_referrers s = Complete then referral_statements day at_time (day_sources data) else [])
         @ map (\<lambda>d. state_statement day d (state_of s d) at_time (d = SiteDim \<or> state_of s d = Complete))
             [SiteDim, PagesDim, ReferrersDim]
         @ [prune])"

definition input_invalid :: "string \<Rightarrow> rum_window \<Rightarrow> rum_context \<Rightarrow> rum_data \<Rightarrow> bool" where
  "input_invalid day window ctx data \<longleftrightarrow> rd_dateUtc ctx \<noteq> Some day
     \<or> map_option startInclusive (rd_window ctx) \<noteq> Some (startInclusive window)
     \<or> map_option endExclusive (rd_window ctx) \<noteq> Some (endExclusive window)
     \<or> rq_status (rd_siteQuality data) = Unavailable
     \<or> list_ex (\<lambda>q. rq_botFilter q \<noteq> rum_bot_filter) [rd_quality ctx, rd_siteQuality data,
         rg_quality (rd_pages data), rg_quality (rd_referrers data)]"

text \<open>The two booleans: whether the storage accepts the first batch, and a second one after it.\<close>

definition archive_day ::
  "bool \<Rightarrow> bool \<Rightarrow> string \<Rightarrow> rum_day \<Rightarrow> stats_manifest \<Rightarrow> string \<Rightarrow> int \<Rightarrow> database
    \<Rightarrow> database \<times> (stats_error + states)" where
  "archive_day ok1 ok2 day rum manifest at_time duration db =
     (let failed = (\<lambda>code. case record_failure ok1 day at_time code duration db of
            (db', Inl e) \<Rightarrow> (db', Inl e) | (db', Inr _) \<Rightarrow> (db', Inr unavailable))
      in case (case date_parse at_time of None \<Rightarrow> Inl InvalidDate | Some now \<Rightarrow> utc_window day now) of
        Inl e \<Rightarrow> (db, Inl (StatsRum e))
      | Inr window \<Rightarrow>
      (case validate_manifest (manifest_json manifest) of
        Inl e \<Rightarrow> (db, Inl e)
      | Inr _ \<Rightarrow>
      (case rum of
        RumFailed _ _ _ \<Rightarrow> failed UpstreamUnavailable
      | RumOk ctx data \<Rightarrow>
          if input_invalid day window ctx data then failed InvalidInput
          else
            (let routes = map_of_pairs (map (\<lambda>r. (sr_path r, sr_canonical r)) (sm_routes manifest))
             in case batch ok1 (day_statements day window routes data at_time duration) db of
                 Some db' \<Rightarrow> (db', Inr (day_states routes data))
               | None \<Rightarrow>
                   (fst (record_failure ok2 day at_time StorageUnavailable duration db),
                    Inl StatsStorageUnavailable)))))"

definition observe_content ::
  "bool \<Rightarrow> stats_manifest \<Rightarrow> string \<Rightarrow> database \<Rightarrow> database \<times> (stats_error + unit)" where
  "observe_content storage_ok manifest at_time db =
     (case validate_manifest (manifest_json manifest) of
        Inl e \<Rightarrow> (db, Inl e)
      | Inr _ \<Rightarrow>
        if \<not> storage_ok then (db, Inl StatsStorageUnavailable)
        else
          (let day = take 10 at_time;
               row = \<lparr>ct_counts = sm_counts manifest, ct_generation = sm_generation manifest, ct_observed_at = at_time\<rparr>
           in ((case map_of (content_table db) day of
                  Some old \<Rightarrow> if at_time < ct_observed_at old then db
                    else db\<lparr>content_table := AList.update day row (content_table db)\<rparr>
                | None \<Rightarrow> db\<lparr>content_table := AList.update day row (content_table db)\<rparr>), Inr ())))"

section \<open>What a batch does\<close>

definition day_rows :: "string \<Rightarrow> ((string \<times> 'k) \<times> rat \<times> string) list \<Rightarrow> ('k \<times> rat) list" where
  "day_rows day table = map (\<lambda>((d, k), n, t). (k, n)) (filter (\<lambda>((d, k), n, t). d = day) table)"

lemma insert_rows_Some:
  "insert_rows day at_time rows table = Some table' \<longleftrightarrow>
    distinct (map fst rows) \<and> (\<forall>(k, n) \<in> set rows. 0 \<le> n \<and> (day, k) \<notin> fst ` set table)
    \<and> table' = table @ map (\<lambda>(k, n). ((day, k), n, at_time)) rows"
proof (induction rows arbitrary: table)
  case (Cons row rows)
  obtain k n where row: "row = (k, n)" by (cases row)
  show ?case
    by (simp add: row Cons.IH map_has_iff image_iff not_less split_beta) (auto simp: rev_image_eqI)
qed auto

lemma fst_without_day: "(day, k) \<notin> fst ` set (without_day day table)"
  by (auto simp: without_day_def)

lemma insert_rows_rest:
  "insert_rows day at_time rows (without_day day table) = Some table' \<longleftrightarrow>
    distinct (map fst rows) \<and> (\<forall>(k, n) \<in> set rows. 0 \<le> n)
    \<and> table' = without_day day table @ map (\<lambda>(k, n). ((day, k), n, at_time)) rows"
  by (simp add: insert_rows_Some fst_without_day)

lemma day_rows_replaced:
  "day_rows day (without_day day table @ map (\<lambda>(k, n). ((day, k), n, at_time)) rows) = rows"
proof -
  have "filter (\<lambda>((d, k), n, t). d = day) (without_day day table) = []"
    by (auto simp: without_day_def filter_empty_conv)
  moreover have "map (\<lambda>((d, k), n, t). (k, n)) (filter (\<lambda>((d, k), n, t). d = day)
      (map (\<lambda>(k, n). ((day, k), n, at_time)) rows)) = rows"
    by (induction rows) auto
  ultimately show ?thesis by (simp add: day_rows_def)
qed

lemma other_days_kept:
  "other \<noteq> day \<Longrightarrow>
    day_rows other (without_day day table @ map (\<lambda>(k, n). ((day, k), n, at_time)) rows) = day_rows other table"
proof -
  assume other: "other \<noteq> day"
  have "filter (\<lambda>((d, k), n, t). d = other) (without_day day table) = filter (\<lambda>((d, k), n, t). d = other) table"
    using other unfolding without_day_def filter_filter by (intro filter_cong) auto
  moreover have "filter (\<lambda>((d, k), n, t). d = other) (map (\<lambda>(k, n). ((day, k), n, at_time)) rows) = []"
    using other by (auto simp: filter_empty_conv)
  ultimately show ?thesis by (simp add: day_rows_def)
qed

definition put_states :: "string \<Rightarrow> states \<Rightarrow> string \<Rightarrow> (dimension \<Rightarrow> bool)
    \<Rightarrow> ((string \<times> dimension) \<times> dimension_row) list \<Rightarrow> ((string \<times> dimension) \<times> dimension_row) list" where
  "put_states day s at_time saved table = fold (\<lambda>d. put_state day d (state_of s d) at_time (saved d))
     [SiteDim, PagesDim, ReferrersDim] table"

definition pruned :: "sync_run list \<Rightarrow> sync_run list" where
  "pruned runs = filter (\<lambda>r. run_id r \<in> set (take 100 (rev (sort (map run_id runs))))) runs"

lemma run_statements_append:
  "run_statements (ss @ ts) db = Option.bind (run_statements ss db) (run_statements ts)"
proof (induction ss arbitrary: db)
  case (Cons s ss)
  then show ?case by (cases "s db") simp_all
qed simp

definition replaced :: "bool \<Rightarrow> string \<Rightarrow> string \<Rightarrow> ('k \<times> rat) list \<Rightarrow> ((string \<times> 'k) \<times> rat \<times> string) list
    \<Rightarrow> ((string \<times> 'k) \<times> rat \<times> string) list" where
  "replaced doit day at_time rows table =
     (if doit then without_day day table @ map (\<lambda>(k, n). ((day, k), n, at_time)) rows else table)"

lemma run_page_statements:
  "run_statements (page_statements day at_time rows) db = Some db' \<longleftrightarrow>
    (newest (dimension_table db) day PagesDim at_time \<longrightarrow> distinct (map fst rows) \<and> (\<forall>(k, n) \<in> set rows. 0 \<le> n))
    \<and> db' = db\<lparr>page_table := replaced (newest (dimension_table db) day PagesDim at_time) day at_time rows (page_table db)\<rparr>"
  by (auto simp: page_statements_def replaced_def insert_rows_rest bind_eq_Some_conv)

lemma run_referral_statements:
  "run_statements (referral_statements day at_time rows) db = Some db' \<longleftrightarrow>
    (newest (dimension_table db) day ReferrersDim at_time \<longrightarrow> distinct (map fst rows) \<and> (\<forall>(k, n) \<in> set rows. 0 \<le> n))
    \<and> db' = db\<lparr>referral_table := replaced (newest (dimension_table db) day ReferrersDim at_time) day at_time rows (referral_table db)\<rparr>"
  by (auto simp: referral_statements_def replaced_def insert_rows_rest bind_eq_Some_conv)

lemma run_state_statements:
  "run_statements (map (\<lambda>d. state_statement day d (state_of s d) at_time (saved d)) [SiteDim, PagesDim, ReferrersDim]
      @ [prune]) db =
    Some (db\<lparr>dimension_table := put_states day s at_time saved (dimension_table db), sync_runs := pruned (sync_runs db)\<rparr>)"
  by (simp add: state_statement_def put_states_def prune_def pruned_def)

text \<open>The batch of a day in closed form: each table on its own.\<close>

lemma run_day_statements:
  assumes "run_statements (day_statements day window routes data at_time duration) db = Some db'"
  shows "site_checks day (day_site window data at_time)"
    and "site_table db' = put_site day (day_site window data at_time) (site_table db)"
    and "page_table db' = replaced (state_pages (day_states routes data) = Complete
        \<and> newest (dimension_table db) day PagesDim at_time) day at_time (day_pages routes data) (page_table db)"
    and "referral_table db' = replaced (state_referrers (day_states routes data) = Complete
        \<and> newest (dimension_table db) day ReferrersDim at_time) day at_time (day_sources data) (referral_table db)"
    and "dimension_table db' = put_states day (day_states routes data) at_time
        (\<lambda>d. d = SiteDim \<or> state_of (day_states routes data) d = Complete) (dimension_table db)"
    and "content_table db' = content_table db"
    and "\<exists>run. run_id run = next_run db \<and> sync_runs db' = pruned (sync_runs db @ [run])"
    and "next_run db' = next_run db + 1"
    and "state_pages (day_states routes data) = Complete \<and> newest (dimension_table db) day PagesDim at_time \<Longrightarrow>
        distinct (map fst (day_pages routes data)) \<and> (\<forall>(k, n) \<in> set (day_pages routes data). 0 \<le> n)"
    and "state_referrers (day_states routes data) = Complete \<and> newest (dimension_table db) day ReferrersDim at_time \<Longrightarrow>
        distinct (map fst (day_sources data)) \<and> (\<forall>(k, n) \<in> set (day_sources data). 0 \<le> n)"
proof -
  let ?s = "day_states routes data"
  let ?site = "day_site window data at_time"
  let ?pages = "if state_pages ?s = Complete then page_statements day at_time (day_pages routes data) else []"
  let ?refs = "if state_referrers ?s = Complete then referral_statements day at_time (day_sources data) else []"
  let ?tail = "map (\<lambda>d. state_statement day d (state_of ?s d) at_time (d = SiteDim \<or> state_of ?s d = Complete))
    [SiteDim, PagesDim, ReferrersDim] @ [prune]"
  obtain db1 where db1: "audit day at_time ?s None duration db = Some db1" by (simp add: audit_def)
  have "run_statements ((site_statement day ?site # ?pages @ ?refs @ ?tail)) db1 = Some db'"
    using assms db1 by (simp add: day_statements_def Let_def)
  then obtain db2 db3 db4 where db2: "site_statement day ?site db1 = Some db2"
      and db3: "run_statements ?pages db2 = Some db3" and db4: "run_statements ?refs db3 = Some db4"
      and db': "run_statements ?tail db4 = Some db'"
    unfolding run_statements.simps(2) run_statements_append bind_eq_Some_conv by blast
  have 1: "dimension_table db1 = dimension_table db" "site_table db1 = site_table db" "page_table db1 = page_table db"
      "referral_table db1 = referral_table db" "content_table db1 = content_table db" "next_run db1 = next_run db + 1"
      "\<exists>run. run_id run = next_run db \<and> sync_runs db1 = sync_runs db @ [run]"
    using db1 by (auto simp: audit_def)
  have 2: "site_checks day ?site" "db2 = db1\<lparr>site_table := put_site day ?site (site_table db1)\<rparr>"
    using db2 by (auto simp: site_statement_def split: if_splits)
  have 3: "db3 = db2\<lparr>page_table := replaced (state_pages ?s = Complete
      \<and> newest (dimension_table db2) day PagesDim at_time) day at_time (day_pages routes data) (page_table db2)\<rparr>"
    using db3 by (auto simp: run_page_statements replaced_def split: if_splits)
  have 4: "db4 = db3\<lparr>referral_table := replaced (state_referrers ?s = Complete
      \<and> newest (dimension_table db3) day ReferrersDim at_time) day at_time (day_sources data) (referral_table db3)\<rparr>"
    using db4 by (auto simp: run_referral_statements replaced_def split: if_splits)
  have 5: "db' = db4\<lparr>dimension_table := put_states day ?s at_time (\<lambda>d. d = SiteDim \<or> state_of ?s d = Complete)
      (dimension_table db4), sync_runs := pruned (sync_runs db4)\<rparr>"
    using db' unfolding run_state_statements by simp
  show "site_checks day ?site" by (rule 2)
  show "site_table db' = put_site day ?site (site_table db)"
    and "page_table db' = replaced (state_pages ?s = Complete \<and> newest (dimension_table db) day PagesDim at_time)
        day at_time (day_pages routes data) (page_table db)"
    and "referral_table db' = replaced (state_referrers ?s = Complete \<and> newest (dimension_table db) day ReferrersDim at_time)
        day at_time (day_sources data) (referral_table db)"
    and "dimension_table db' = put_states day ?s at_time (\<lambda>d. d = SiteDim \<or> state_of ?s d = Complete) (dimension_table db)"
    and "content_table db' = content_table db" and "next_run db' = next_run db + 1"
    using 1 by (simp_all add: 2(2) 3 4 5)
  show "\<exists>run. run_id run = next_run db \<and> sync_runs db' = pruned (sync_runs db @ [run])"
    using 1(7) by (auto simp: 2(2) 3 4 5)
  show "distinct (map fst (day_pages routes data)) \<and> (\<forall>(k, n) \<in> set (day_pages routes data). 0 \<le> n)"
    if "state_pages ?s = Complete \<and> newest (dimension_table db) day PagesDim at_time"
    using db3 that 1 by (simp add: run_page_statements 2(2))
  show "distinct (map fst (day_sources data)) \<and> (\<forall>(k, n) \<in> set (day_sources data). 0 \<le> n)"
    if "state_referrers ?s = Complete \<and> newest (dimension_table db) day ReferrersDim at_time"
    using db4 that 1 by (simp add: run_referral_statements 2(2) 3)
qed

section \<open>Attempts only move forward\<close>

definition next_row :: "coverage_state \<Rightarrow> string \<Rightarrow> bool \<Rightarrow> dimension_row option \<Rightarrow> dimension_row" where
  "next_row state at_time saved old =
     (let success = (if saved then Some at_time else None)
      in case old of
          None \<Rightarrow> \<lparr>dm_last_attempt = at_time, dm_last_success = success, dm_last_result = state\<rparr>
        | Some row \<Rightarrow> if at_time < dm_last_attempt row then row
            else \<lparr>dm_last_attempt = at_time,
               dm_last_success = (case success of Some t \<Rightarrow> Some t | None \<Rightarrow> dm_last_success row),
               dm_last_result = state\<rparr>)"

lemma map_of_put_state [simp]:
  "map_of (put_state day d state at_time saved table) =
    (map_of table)((day, d) \<mapsto> next_row state at_time saved (map_of table (day, d)))"
  by (auto simp: put_state_def next_row_def Let_def split: option.split)

lemma distinct_put_state:
  "distinct (map fst table) \<Longrightarrow> distinct (map fst (put_state day d state at_time saved table))"
  by (auto simp: put_state_def Let_def distinct_update split: option.split)

lemma distinct_put_states:
  "distinct (map fst table) \<Longrightarrow> distinct (map fst (put_states day s at_time saved table))"
  by (simp add: put_states_def distinct_put_state)

lemma map_of_put_states:
  "map_of (put_states day s at_time saved table) (other, d) =
    (if other = day then Some (next_row (state_of s d) at_time (saved d) (map_of table (day, d)))
     else map_of table (other, d))"
  by (cases d) (simp_all add: put_states_def)

lemma next_row_attempt:
  "dm_last_attempt (next_row state at_time saved old) =
    (case old of None \<Rightarrow> at_time | Some row \<Rightarrow> max at_time (dm_last_attempt row))"
  by (auto simp: next_row_def Let_def max_def split: option.split)

definition row_ok :: "dimension_row \<Rightarrow> bool" where
  "row_ok row \<longleftrightarrow> (dm_last_result row = Complete \<longrightarrow> dm_last_success row = Some (dm_last_attempt row))"

lemma next_row_ok:
  "(\<And>row. old = Some row \<Longrightarrow> row_ok row) \<Longrightarrow> state \<noteq> Complete \<or> saved \<Longrightarrow> row_ok (next_row state at_time saved old)"
  by (auto simp: next_row_def row_ok_def Let_def split: option.split)

lemma next_row_success:
  "dm_last_success (next_row state at_time saved old) = None \<Longrightarrow>
    (case old of None \<Rightarrow> \<not> saved | Some row \<Rightarrow> dm_last_success row = None \<and> (saved \<longrightarrow> at_time < dm_last_attempt row))"
  by (auto simp: next_row_def Let_def split: option.splits if_splits)

section \<open>The audit trail\<close>

lemma filter_suffix:
  "distinct (map f xs) \<Longrightarrow> filter (\<lambda>x. f x \<in> set (drop n (map f xs))) xs = drop n xs"
proof (induction xs arbitrary: n)
  case (Cons x xs)
  show ?case
  proof (cases n)
    case 0
    then show ?thesis by (auto simp: filter_id_conv)
  next
    case (Suc m)
    have "f x \<notin> set (drop m (map f xs))"
      using Cons.prems set_drop_subset [of m "map f xs"] by auto
    with Suc Cons show ?thesis by simp
  qed
qed simp

lemma pruned_eq:
  assumes "sorted_wrt (<) (map run_id runs)"
  shows "pruned runs = drop (length runs - 100) runs"
proof -
  have "sort (map run_id runs) = map run_id runs"
    using assms by (simp add: sorted_sort_id strict_sorted_imp_sorted)
  moreover have "set (take 100 (rev (map run_id runs))) = set (drop (length runs - 100) (map run_id runs))"
    by (simp add: take_rev)
  ultimately show ?thesis
    unfolding pruned_def using assms by (simp only: filter_suffix strict_sorted_iff)
qed

section \<open>The invariant of the archive\<close>

definition traffic_ok ::
  "((string \<times> 'k) \<times> rat \<times> string) list \<Rightarrow> dimension \<Rightarrow> ((string \<times> dimension) \<times> dimension_row) list \<Rightarrow> bool" where
  "traffic_ok table d dims \<longleftrightarrow> distinct (map fst table)
     \<and> (\<forall>((day, k), n, t) \<in> set table. 0 \<le> n
          \<and> (\<exists>row. map_of dims (day, d) = Some row \<and> dm_last_success row \<noteq> None))"

definition archive_ok :: "database \<Rightarrow> bool" where
  "archive_ok db \<longleftrightarrow>
     distinct (map fst (site_table db)) \<and> distinct (map fst (dimension_table db)) \<and> distinct (map fst (content_table db))
     \<and> sorted_wrt (<) (map run_id (sync_runs db)) \<and> (\<forall>r \<in> set (sync_runs db). run_id r < next_run db)
     \<and> length (sync_runs db) \<le> 100
     \<and> (\<forall>k row. map_of (dimension_table db) k = Some row \<longrightarrow> row_ok row)
     \<and> (\<forall>day row. map_of (site_table db) day = Some row \<longrightarrow> site_checks day row
          \<and> map_of (dimension_table db) (day, SiteDim) \<noteq> None)
     \<and> traffic_ok (page_table db) PagesDim (dimension_table db)
     \<and> traffic_ok (referral_table db) ReferrersDim (dimension_table db)"

lemma distinct_replaced:
  assumes "distinct (map fst table)" and "distinct (map fst rows)"
  shows "distinct (map fst (replaced doit day at_time rows table))"
proof -
  have "map fst (map (\<lambda>(k, n). ((day, k), n, at_time)) rows) = map (Pair day) (map fst rows)"
    by (induction rows) auto
  then have keys: "map fst (without_day day table @ map (\<lambda>(k, n). ((day, k), n, at_time)) rows) =
      map fst (without_day day table) @ map (Pair day) (map fst rows)"
    by (simp only: map_append)
  have "distinct (map fst (without_day day table))"
    using assms(1) unfolding without_day_def by (rule distinct_map_filter)
  moreover have "distinct (map (Pair day) (map fst rows))" using assms(2) by (simp add: distinct_map inj_on_def)
  moreover have "set (map fst (without_day day table)) \<inter> set (map (Pair day) (map fst rows)) = {}"
    by (auto simp: without_day_def)
  ultimately have "distinct (map fst (without_day day table @ map (\<lambda>(k, n). ((day, k), n, at_time)) rows))"
    unfolding keys distinct_append by (intro conjI)
  then show ?thesis unfolding replaced_def using assms(1) by (cases doit) (simp_all only: if_True if_False)
qed

text \<open>New rows come with a success of their dimension, and a success is never taken back.\<close>

lemma traffic_replaced:
  assumes ok: "traffic_ok table d dims"
    and rows: "doit \<Longrightarrow> distinct (map fst rows) \<and> (\<forall>(k, n) \<in> set rows. 0 \<le> n)"
    and success: "doit \<Longrightarrow> \<exists>row. map_of dims' (day, d) = Some row \<and> dm_last_success row \<noteq> None"
    and kept: "\<And>other row. map_of dims (other, d) = Some row \<Longrightarrow> dm_last_success row \<noteq> None \<Longrightarrow>
      \<exists>row'. map_of dims' (other, d) = Some row' \<and> dm_last_success row' \<noteq> None"
  shows "traffic_ok (replaced doit day at_time rows table) d dims'"
proof -
  have old: "0 \<le> n \<and> (\<exists>row. map_of dims' (other, d) = Some row \<and> dm_last_success row \<noteq> None)"
    if "((other, k), n, t) \<in> set table" for other k n t
    using ok that kept unfolding traffic_ok_def by fastforce
  have new: "0 \<le> n \<and> (\<exists>row. map_of dims' (other, d) = Some row \<and> dm_last_success row \<noteq> None)"
    if "doit" "(k, n) \<in> set rows" "other = day" for other k n
    using that rows success by fastforce
  have "distinct (map fst (replaced doit day at_time rows table))"
  proof (cases doit)
    case True
    then show ?thesis using distinct_replaced ok rows by (auto simp: traffic_ok_def)
  next
    case False
    then show ?thesis using ok by (simp add: replaced_def traffic_ok_def)
  qed
  moreover have "0 \<le> n \<and> (\<exists>row. map_of dims' (other, d) = Some row \<and> dm_last_success row \<noteq> None)"
    if "((other, k), n, t) \<in> set (replaced doit day at_time rows table)" for other k n t
    using that old new by (auto simp: replaced_def without_day_def split: if_splits)
  ultimately show ?thesis unfolding traffic_ok_def by fast
qed

lemma put_states_success:
  assumes "map_of table (other, d) = Some row" and "dm_last_success row \<noteq> None"
  shows "\<exists>row'. map_of (put_states day s at_time saved table) (other, d) = Some row' \<and> dm_last_success row' \<noteq> None"
  using assms next_row_success [of "state_of s d" at_time "saved d" "map_of table (day, d)"]
  by (cases "dm_last_success (next_row (state_of s d) at_time (saved d) (map_of table (day, d)))")
    (auto simp: map_of_put_states)

lemma put_states_saved:
  assumes "newest table day d at_time" and "saved d"
  shows "\<exists>row. map_of (put_states day s at_time saved table) (day, d) = Some row \<and> dm_last_success row \<noteq> None"
  using assms next_row_success [of "state_of s d" at_time "saved d" "map_of table (day, d)"]
  by (cases "dm_last_success (next_row (state_of s d) at_time (saved d) (map_of table (day, d)))")
    (auto simp: map_of_put_states newest_def split: option.splits)

lemma put_states_rows_ok:
  assumes "\<And>k row. map_of table k = Some row \<Longrightarrow> row_ok row"
    and "\<And>d. state_of s d = Complete \<Longrightarrow> saved d"
    and "map_of (put_states day s at_time saved table) k = Some row"
  shows "row_ok row"
proof -
  obtain other d where k: "k = (other, d)" by (cases k)
  show ?thesis
  proof (cases "other = day")
    case True
    then have "row = next_row (state_of s d) at_time (saved d) (map_of table (day, d))"
      using assms(3) by (simp add: k map_of_put_states)
    then show ?thesis using assms(1,2) by (auto intro: next_row_ok)
  qed (use assms in \<open>simp add: k map_of_put_states\<close>)
qed

lemma distinct_put_site: "distinct (map fst table) \<Longrightarrow> distinct (map fst (put_site day r table))"
  by (auto simp: put_site_def distinct_update split: option.split)

lemma map_of_put_site:
  "map_of (put_site day r table) other = (if other = day then
     Some (case map_of table day of None \<Rightarrow> r
       | Some old \<Rightarrow> if st_archive_at r < st_archive_at old then old else r\<lparr>st_filter := st_filter old\<rparr>)
     else map_of table other)"
  by (auto simp: put_site_def split: option.split)

lemma put_site_checks:
  assumes "site_checks day r" and "\<And>old. map_of table day = Some old \<Longrightarrow> site_checks day old"
    and "map_of (put_site day r table) day = Some row"
  shows "site_checks day row"
proof (cases "map_of table day")
  case None
  then show ?thesis using assms by (simp add: map_of_put_site)
next
  case (Some old)
  have "st_filter old = rum_bot_filter" "st_filter r = rum_bot_filter"
    using assms(1) assms(2) [OF Some] by (simp_all add: site_checks_def)
  then have same: "r\<lparr>st_filter := st_filter old\<rparr> = r" by simp
  show ?thesis
    using assms(1,3) assms(2) [OF Some] Some unfolding map_of_put_site by (simp add: same split: if_splits)
qed

lemma runs_ok:
  assumes "sorted_wrt (<) (map run_id runs)" and "\<forall>r \<in> set runs. run_id r < n" and "run_id run = n"
  shows "sorted_wrt (<) (map run_id (pruned (runs @ [run])))"
    and "\<forall>r \<in> set (pruned (runs @ [run])). run_id r < n + 1" and "length (pruned (runs @ [run])) \<le> 100"
proof -
  have sorted: "sorted_wrt (<) (map run_id (runs @ [run]))" using assms by (simp add: sorted_wrt_append)
  have part: "set (drop k (runs @ [run])) \<subseteq> set (runs @ [run])" for k by (rule set_drop_subset)
  show "sorted_wrt (<) (map run_id (pruned (runs @ [run])))"
    unfolding pruned_eq [OF sorted] drop_map [symmetric] using sorted by (rule sorted_wrt_drop)
  show "\<forall>r \<in> set (pruned (runs @ [run])). run_id r < n + 1"
  proof
    fix r assume "r \<in> set (pruned (runs @ [run]))"
    then have "r \<in> set (runs @ [run])" unfolding pruned_eq [OF sorted] using part by blast
    then show "run_id r < n + 1" using assms(2,3) by auto
  qed
  show "length (pruned (runs @ [run])) \<le> 100" unfolding pruned_eq [OF sorted] by simp
qed

lemma archive_ok_rows: "archive_ok db \<Longrightarrow> map_of (dimension_table db) k = Some row \<Longrightarrow> row_ok row"
  unfolding archive_ok_def by blast

lemma archive_ok_site:
  "archive_ok db \<Longrightarrow> map_of (site_table db) day = Some row \<Longrightarrow>
    site_checks day row \<and> map_of (dimension_table db) (day, SiteDim) \<noteq> None"
  unfolding archive_ok_def by blast

lemma archive_day_batch_ok:
  assumes run: "run_statements (day_statements day window routes data at_time duration) db = Some db'"
    and ok: "archive_ok db"
  shows "archive_ok db'"
proof -
  note effect = run_day_statements [OF run]
  let ?saved = "\<lambda>d. d = SiteDim \<or> state_of (day_states routes data) d = Complete"
  obtain r where runs: "run_id r = next_run db" "sync_runs db' = pruned (sync_runs db @ [r])" using effect(7) by blast
  have rows: "row_ok row" if "map_of (dimension_table db') k = Some row" for k row
    by (rule put_states_rows_ok [OF archive_ok_rows [OF ok] _ that [unfolded effect(5)]]) simp_all
  have site: "site_checks other row \<and> map_of (dimension_table db') (other, SiteDim) \<noteq> None"
    if "map_of (site_table db') other = Some row" for other row
  proof (cases "other = day")
    case True
    then show ?thesis
      using that put_site_checks [OF effect(1) _ , of "site_table db" row] archive_ok_site [OF ok, of day]
      by (simp add: effect(2,5) map_of_put_states del: map_of_eq_Some_iff)
  next
    case False
    then show ?thesis
      using archive_ok_site [OF ok, of other row] that
      by (simp add: effect(2,5) map_of_put_states map_of_put_site del: map_of_eq_Some_iff)
  qed
  have tables: "traffic_ok (page_table db) PagesDim (dimension_table db)"
      "traffic_ok (referral_table db) ReferrersDim (dimension_table db)" using ok by (simp_all add: archive_ok_def)
  have pages: "traffic_ok (page_table db') PagesDim (dimension_table db')"
    unfolding effect(3,5)
  proof (rule traffic_replaced [OF tables(1) effect(9)])
    assume "state_pages (day_states routes data) = Complete \<and> newest (dimension_table db) day PagesDim at_time"
    then show "\<exists>row. map_of (put_states day (day_states routes data) at_time ?saved (dimension_table db)) (day, PagesDim) =
        Some row \<and> dm_last_success row \<noteq> None"
      by (intro put_states_saved) (simp_all add: state_of_def)
  qed (assumption, rule put_states_success)
  have refs: "traffic_ok (referral_table db') ReferrersDim (dimension_table db')"
    unfolding effect(4,5)
  proof (rule traffic_replaced [OF tables(2) effect(10)])
    assume "state_referrers (day_states routes data) = Complete \<and> newest (dimension_table db) day ReferrersDim at_time"
    then show "\<exists>row. map_of (put_states day (day_states routes data) at_time ?saved (dimension_table db)) (day, ReferrersDim) =
        Some row \<and> dm_last_success row \<noteq> None"
      by (intro put_states_saved) (simp_all add: state_of_def)
  qed (assumption, rule put_states_success)
  have "sorted_wrt (<) (map run_id (sync_runs db))" "\<forall>r \<in> set (sync_runs db). run_id r < next_run db"
    using ok by (simp_all add: archive_ok_def)
  note audit = runs_ok [OF this runs(1)]
  have keys: "distinct (map fst (site_table db'))" "distinct (map fst (dimension_table db'))" "distinct (map fst (content_table db'))"
    using ok by (simp_all add: effect(2,5,6) archive_ok_def distinct_put_site distinct_put_states)
  show ?thesis
    unfolding archive_ok_def runs(2) effect(8)
    by (intro conjI allI impI keys audit pages refs) (use rows site in blast)+
qed

lemma failure_batch:
  "run_statements (failure_statements day at_time code duration) db = Some db' \<Longrightarrow>
    site_table db' = site_table db \<and> page_table db' = page_table db \<and> referral_table db' = referral_table db
    \<and> content_table db' = content_table db \<and> next_run db' = next_run db + 1
    \<and> dimension_table db' = put_states day unavailable at_time (\<lambda>_. False) (dimension_table db)
    \<and> (\<exists>run. run_id run = next_run db \<and> sync_runs db' = pruned (sync_runs db @ [run]))"
proof -
  assume run: "run_statements (failure_statements day at_time code duration) db = Some db'"
  obtain db1 where db1: "audit day at_time unavailable (Some code) duration db = Some db1" by (simp add: audit_def)
  have "(\<lambda>d. state_statement day d Unavailable at_time False) =
      (\<lambda>d. state_statement day d (state_of unavailable d) at_time ((\<lambda>_. False) d))"
    by (rule ext) (simp add: unavailable_def state_of_def split: dimension.split)
  then have "db' = db1\<lparr>dimension_table := put_states day unavailable at_time (\<lambda>_. False) (dimension_table db1),
      sync_runs := pruned (sync_runs db1)\<rparr>"
    using run db1 unfolding failure_statements_def run_statements.simps(2)
    by (simp only: Option.bind.simps run_state_statements option.inject)
  moreover obtain r where "run_id r = next_run db"
      "db1 = db\<lparr>sync_runs := sync_runs db @ [r], next_run := next_run db + 1\<rparr>"
    using db1 unfolding audit_def option.inject by (metis sync_run.select_convs(1))
  ultimately show ?thesis by (simp add: exI [of _ r])
qed

lemma failure_batch_ok:
  assumes run: "run_statements (failure_statements day at_time code duration) db = Some db'" and ok: "archive_ok db"
  shows "archive_ok db'"
proof -
  note effect = failure_batch [OF run]
  obtain r where runs: "run_id r = next_run db" "sync_runs db' = pruned (sync_runs db @ [r])" using effect by blast
  have dims: "dimension_table db' = put_states day unavailable at_time (\<lambda>_. False) (dimension_table db)"
    using effect by blast
  have rows: "row_ok row" if "map_of (dimension_table db') k = Some row" for k row
    by (rule put_states_rows_ok [OF archive_ok_rows [OF ok] _ that [unfolded dims]])
      (simp_all add: unavailable_def state_of_def split: dimension.splits)
  have site: "site_checks other row \<and> map_of (dimension_table db') (other, SiteDim) \<noteq> None"
    if "map_of (site_table db') other = Some row" for other row
    using archive_ok_site [OF ok, of other row] that effect
    by (cases "other = day") (simp_all add: map_of_put_states del: map_of_eq_Some_iff)
  have kept: "\<exists>row'. map_of (dimension_table db') (other, d) = Some row' \<and> dm_last_success row' \<noteq> None"
    if "map_of (dimension_table db) (other, d) = Some row" "dm_last_success row \<noteq> None" for other d row
    unfolding dims using that by (rule put_states_success)
  have traffic: "traffic_ok (page_table db') PagesDim (dimension_table db')"
      "traffic_ok (referral_table db') ReferrersDim (dimension_table db')"
    using ok effect kept
      traffic_replaced [of "page_table db" PagesDim "dimension_table db" False "[]" "dimension_table db'" day]
      traffic_replaced [of "referral_table db" ReferrersDim "dimension_table db" False "[]" "dimension_table db'" day]
    by (simp_all add: replaced_def archive_ok_def)
  have "sorted_wrt (<) (map run_id (sync_runs db))" "\<forall>r \<in> set (sync_runs db). run_id r < next_run db"
    using ok by (simp_all add: archive_ok_def)
  note audit = runs_ok [OF this runs(1)]
  have keys: "distinct (map fst (site_table db'))" "distinct (map fst (dimension_table db'))" "distinct (map fst (content_table db'))"
    using ok effect by (simp_all add: dims archive_ok_def distinct_put_states)
  have next_id: "next_run db' = next_run db + 1" using effect by blast
  show ?thesis
    unfolding archive_ok_def runs(2) next_id
    by (intro conjI allI impI keys audit traffic) (use rows site in blast)+
qed

lemma record_failure_ok: "archive_ok db \<Longrightarrow> archive_ok (fst (record_failure storage_ok day at_time code duration db))"
  by (auto simp: record_failure_def batch_def intro: failure_batch_ok split: option.split)

lemma archive_day_ok:
  assumes "archive_ok db"
  shows "archive_ok (fst (archive_day ok1 ok2 day rum manifest at_time duration db))"
  using assms record_failure_ok [OF assms]
  by (auto simp: archive_day_def Let_def batch_def split_beta intro: archive_day_batch_ok
      split: sum.split rum_day.split option.split)

lemma observe_content_ok:
  "archive_ok db \<Longrightarrow> archive_ok (fst (observe_content storage_ok manifest at_time db))"
  by (auto simp: observe_content_def archive_ok_def Let_def distinct_update split: sum.split option.split)

definition empty_archive :: database where
  "empty_archive = \<lparr>site_table = [], page_table = [], referral_table = [], dimension_table = [],
     content_table = [], sync_runs = [], next_run = 1\<rparr>"

text \<open>The states the archive can reach, whatever the days, the manifests, the clock and the storage do.\<close>

inductive archived :: "database \<Rightarrow> bool" where
  created: "archived empty_archive"
| day: "archived db \<Longrightarrow> archived (fst (archive_day ok1 ok2 day rum manifest at_time duration db))"
| failure: "archived db \<Longrightarrow> archived (fst (record_failure ok1 day at_time code duration db))"
| content: "archived db \<Longrightarrow> archived (fst (observe_content ok1 manifest at_time db))"

lemma archived_ok: "archived db \<Longrightarrow> archive_ok db"
proof (induction rule: archived.induct)
  case created
  show ?case by (simp add: archive_ok_def empty_archive_def traffic_ok_def)
qed (simp_all add: archive_day_ok record_failure_ok observe_content_ok)

text \<open>
  C23. Every state the archive reaches is consistent: the rows of each table have distinct keys, the
  audit trail is in the order of its ids and holds at most a hundred runs, stored days pass the
  constraints and come with a record of their site dimension, a dimension recorded as complete was
  stored by the very attempt it names, and page and referral counts are non-negative and belong to
  a dimension that has once succeeded.
\<close>

theorem archive_invariant:
  assumes "archived db"
  shows "distinct (map fst (site_table db)) \<and> distinct (map fst (page_table db))
    \<and> distinct (map fst (referral_table db)) \<and> distinct (map fst (dimension_table db))
    \<and> length (sync_runs db) \<le> 100 \<and> sorted_wrt (<) (map run_id (sync_runs db))
    \<and> (\<forall>day row. map_of (site_table db) day = Some row \<longrightarrow>
        site_checks day row \<and> map_of (dimension_table db) (day, SiteDim) \<noteq> None)
    \<and> (\<forall>k row. map_of (dimension_table db) k = Some row \<and> dm_last_result row = Complete \<longrightarrow>
        dm_last_success row = Some (dm_last_attempt row))
    \<and> (\<forall>((day, path), n, t) \<in> set (page_table db). 0 \<le> n
        \<and> (\<exists>row. map_of (dimension_table db) (day, PagesDim) = Some row \<and> dm_last_success row \<noteq> None))
    \<and> (\<forall>((day, source), n, t) \<in> set (referral_table db). 0 \<le> n
        \<and> (\<exists>row. map_of (dimension_table db) (day, ReferrersDim) = Some row \<and> dm_last_success row \<noteq> None))"
proof -
  have ok: "archive_ok db" using assms by (rule archived_ok)
  then have "traffic_ok (page_table db) PagesDim (dimension_table db)"
      "traffic_ok (referral_table db) ReferrersDim (dimension_table db)" by (simp_all add: archive_ok_def)
  then have traffic: "distinct (map fst (page_table db))" "distinct (map fst (referral_table db))"
      "\<forall>((day, path), n, t) \<in> set (page_table db). 0 \<le> n
        \<and> (\<exists>row. map_of (dimension_table db) (day, PagesDim) = Some row \<and> dm_last_success row \<noteq> None)"
      "\<forall>((day, source), n, t) \<in> set (referral_table db). 0 \<le> n
        \<and> (\<exists>row. map_of (dimension_table db) (day, ReferrersDim) = Some row \<and> dm_last_success row \<noteq> None)"
    unfolding traffic_ok_def by simp_all
  have rows: "\<forall>k row. map_of (dimension_table db) k = Some row \<and> dm_last_result row = Complete \<longrightarrow>
      dm_last_success row = Some (dm_last_attempt row)"
    using archive_ok_rows [OF ok] unfolding row_ok_def by blast
  show ?thesis
    by (intro conjI traffic rows allI impI archive_ok_site [OF ok, THEN conjunct1] archive_ok_site [OF ok, THEN conjunct2])
      (use ok in \<open>simp_all add: archive_ok_def\<close>)
qed

section \<open>What is counted\<close>

definition rows_total :: "('k \<times> rat) list \<Rightarrow> rat" where
  "rows_total m = sum_list (map snd m)"

lemma rows_total_update:
  "distinct (map fst m) \<Longrightarrow>
    rows_total (AList.update k v m) = rows_total m + v - (case map_of m k of None \<Rightarrow> 0 | Some x \<Rightarrow> x)"
proof (induction m)
  case (Cons p m)
  obtain l x where p: "p = (l, x)" by (cases p)
  show ?case
  proof (cases "l = k")
    case True
    then have "map_of m k = None" using Cons.prems by (simp add: p map_of_eq_None_iff)
    with True show ?thesis by (simp add: p rows_total_def)
  next
    case False
    with Cons show ?thesis by (simp add: p rows_total_def)
  qed
qed (simp add: rows_total_def)

lemma add_count_total: "distinct (map fst m) \<Longrightarrow> rows_total (add_count k n m) = rows_total m + n"
  by (simp add: add_count_def rows_total_update split: option.split)

lemma distinct_add_count: "distinct (map fst m) \<Longrightarrow> distinct (map fst (add_count k n m))"
  by (simp add: add_count_def distinct_update)

lemma count_pages:
  assumes "distinct (map fst m)"
  shows "distinct (map fst (snd (fold (count_page routes) rows (u, m))))
    \<and> (\<not> fst (fold (count_page routes) rows (u, m)) \<longrightarrow> \<not> u
        \<and> rows_total (snd (fold (count_page routes) rows (u, m))) = rows_total m + sum_list (map rc_pageLoads rows)
        \<and> (\<forall>row \<in> set rows. map_of routes (rp_path row) \<noteq> None))
    \<and> fst ` set (snd (fold (count_page routes) rows (u, m))) \<subseteq> fst ` set m \<union> ran (map_of routes)"
  using assms
proof (induction rows arbitrary: u m)
  case (Cons row rows)
  show ?case
  proof (cases "map_of routes (rp_path row)")
    case None
    then have "count_page routes row (u, m) = (True, m)" by (simp add: count_page_def)
    with Cons.IH [OF Cons.prems, of True] show ?thesis by simp
  next
    case (Some path)
    show ?thesis
    proof (cases "path = []")
      case True
      then have "count_page routes row (u, m) = (True, m)" using Some by (simp add: count_page_def)
      with Cons.IH [OF Cons.prems, of True] show ?thesis by simp
    next
      case False
      then have step: "count_page routes row (u, m) = (u, add_count path (rc_pageLoads row) m)"
        using Some by (simp add: count_page_def)
      have "fst ` set (add_count path (rc_pageLoads row) m) \<subseteq> insert path (fst ` set m)"
        by (simp add: add_count_def dom_update)
      moreover have "path \<in> ran (map_of routes)" using Some by (rule ranI)
      moreover note IH = Cons.IH [OF distinct_add_count [OF Cons.prems], of u path "rc_pageLoads row"]
      ultimately have "fst ` set (snd (fold (count_page routes) rows (u, add_count path (rc_pageLoads row) m)))
          \<subseteq> fst ` set m \<union> ran (map_of routes)" by blast
      with IH Some show ?thesis by (simp add: step add_count_total [OF Cons.prems]) blast
    qed
  qed
qed simp

lemma count_referrals:
  assumes "distinct (map fst m)"
  shows "distinct (map fst (fold count_referral rows m))
    \<and> rows_total (fold count_referral rows m) =
        rows_total m + sum_list (map rc_visits (filter (\<lambda>r. \<not> own_host (rr_source r)) rows))"
  using assms
proof (induction rows arbitrary: m)
  case (Cons row rows)
  then show ?case
    by (cases "own_host (rr_source row)") (simp_all add: count_referral_def distinct_add_count add_count_total)
qed simp

lemma day_pages_complete:
  assumes "state_pages (day_states routes data) = Complete"
  shows "rows_total (day_pages routes data) = sum_list (map rc_pageLoads (rg_rows (rd_pages data)))"
    and "\<forall>row \<in> set (rg_rows (rd_pages data)). map_of routes (rp_path row) \<noteq> None"
    and "fst ` set (day_pages routes data) \<subseteq> ran (map_of routes)"
    and "\<not> contradicted (rd_siteQuality data) (rd_pages data)" and "rq_status (rg_quality (rd_pages data)) = Complete"
  using assms count_pages [of "[]" routes "rg_rows (rd_pages data)" False]
  by (auto simp: day_states_def day_pages_def Let_def rows_total_def split: if_splits)

lemma day_sources_total:
  "rows_total (day_sources data) =
    sum_list (map rc_visits (filter (\<lambda>r. \<not> own_host (rr_source r)) (rg_rows (rd_referrers data))))"
  using count_referrals [of "[]" "rg_rows (rd_referrers data)"] by (simp add: day_sources_def rows_total_def)

section \<open>What archiving stores\<close>

lemma archive_day_run:
  assumes "archive_day ok1 ok2 day (RumOk ctx data) manifest at_time duration db = (db', Inr s)"
    and "s \<noteq> unavailable"
  obtains window where "\<not> input_invalid day window ctx data"
    "run_statements (day_statements day window (map (\<lambda>r. (sr_path r, sr_canonical r)) (sm_routes manifest)) data
       at_time duration) db = Some db'"
    "s = day_states (map (\<lambda>r. (sr_path r, sr_canonical r)) (sm_routes manifest)) data" "manifest_valid manifest"
proof -
  obtain window m where parts: "(case date_parse at_time of None \<Rightarrow> Inl InvalidDate | Some now \<Rightarrow> utc_window day now) = Inr window"
      "validate_manifest (manifest_json manifest) = Inr m"
    using assms(1) by (auto simp: archive_day_def Let_def split: sum.splits)
  have valid: "manifest_valid manifest" using validate_manifest_json [THEN iffD1, OF parts(2)] by simp
  then have "distinct (map sr_path (sm_routes manifest))" by (simp add: manifest_valid_def)
  then have routes: "map_of_pairs (map (\<lambda>r. (sr_path r, sr_canonical r)) (sm_routes manifest)) =
      map (\<lambda>r. (sr_path r, sr_canonical r)) (sm_routes manifest)"
    by (intro map_of_pairs_distinct) (simp add: comp_def)
  have rejected: "snd (case record_failure ok1 day at_time code duration db of
      (db', Inl e) \<Rightarrow> (db', Inl e) | (db', Inr x) \<Rightarrow> (db', Inr unavailable)) \<noteq> Inr s" for code
    using assms(2) by (auto split: prod.split sum.split)
  show thesis
  proof (cases "input_invalid day window ctx data")
    case True
    then show thesis
      using assms(1) rejected [of InvalidInput] by (simp add: archive_day_def Let_def parts split: sum.splits prod.splits)
  next
    case False
    then show thesis
      using assms(1) that [of window] valid
      by (auto simp: archive_day_def Let_def parts routes batch_def split: option.splits if_splits)
  qed
qed

lemma newest_iff:
  "newest table day d at_time \<longleftrightarrow> (\<forall>row. map_of table (day, d) = Some row \<longrightarrow> \<not> at_time < dm_last_attempt row)"
  by (auto simp: newest_def split: option.split)

lemma put_states_attempt:
  assumes "newest table day d at_time"
  shows "\<exists>row. map_of (put_states day s at_time saved table) (day, d) = Some row
    \<and> dm_last_attempt row = at_time \<and> dm_last_result row = state_of s d"
  using assms by (auto simp: map_of_put_states next_row_def Let_def newest_def split: option.splits)

lemma put_states_stale:
  "\<not> newest table day d at_time \<Longrightarrow> map_of (put_states day s at_time saved table) (day, d) = map_of table (day, d)"
  by (auto simp: map_of_put_states next_row_def Let_def newest_def split: option.splits)

text \<open>
  C24. What archiving a day stores: unless the day is rejected, each dimension whose attempt is not
  older than the recorded one is recorded with its state, and an older attempt leaves the record as
  it is; the pages of the day are replaced, as a whole and in one step, exactly when they are complete
  and the attempt is not older, and otherwise kept; complete pages map every row to a canonical path
  and lose no page load; the referrals keep every visit but those from the site itself; and no
  other day changes in any table.
\<close>

theorem archive_day_stores:
  assumes run: "archive_day ok1 ok2 day (RumOk ctx data) manifest at_time duration db = (db', Inr s)"
    and stored: "s \<noteq> unavailable"
  shows "(\<forall>d. if newest (dimension_table db) day d at_time
        then \<exists>row. map_of (dimension_table db') (day, d) = Some row
          \<and> dm_last_attempt row = at_time \<and> dm_last_result row = state_of s d
        else map_of (dimension_table db') (day, d) = map_of (dimension_table db) (day, d))
    \<and> (let routes = map (\<lambda>r. (sr_path r, sr_canonical r)) (sm_routes manifest) in
       day_rows day (page_table db') =
          (if state_pages s = Complete \<and> newest (dimension_table db) day PagesDim at_time
           then day_pages routes data else day_rows day (page_table db))
        \<and> day_rows day (referral_table db') =
          (if state_referrers s = Complete \<and> newest (dimension_table db) day ReferrersDim at_time
           then day_sources data else day_rows day (referral_table db))
        \<and> (state_pages s = Complete \<longrightarrow>
             rows_total (day_pages routes data) = sum_list (map rc_pageLoads (rg_rows (rd_pages data)))
             \<and> fst ` set (day_pages routes data) \<subseteq> sr_canonical ` set (sm_routes manifest))
        \<and> rows_total (day_sources data) =
             sum_list (map rc_visits (filter (\<lambda>r. \<not> own_host (rr_source r)) (rg_rows (rd_referrers data)))))
    \<and> (\<forall>other. other \<noteq> day \<longrightarrow> day_rows other (page_table db') = day_rows other (page_table db)
        \<and> day_rows other (referral_table db') = day_rows other (referral_table db)
        \<and> map_of (site_table db') other = map_of (site_table db) other
        \<and> (\<forall>d. map_of (dimension_table db') (other, d) = map_of (dimension_table db) (other, d)))"
proof -
  let ?routes = "map (\<lambda>r. (sr_path r, sr_canonical r)) (sm_routes manifest)"
  obtain window where batch: "run_statements (day_statements day window ?routes data at_time duration) db = Some db'"
      and s: "s = day_states ?routes data"
    using archive_day_run [OF run stored] by blast
  note effect = run_day_statements [OF batch, folded s]
  have targets: "ran (map_of ?routes) \<subseteq> sr_canonical ` set (sm_routes manifest)"
    by (auto simp: ran_def dest!: map_of_SomeD)
  have dims: "\<forall>d. if newest (dimension_table db) day d at_time
        then \<exists>row. map_of (dimension_table db') (day, d) = Some row
          \<and> dm_last_attempt row = at_time \<and> dm_last_result row = state_of s d
        else map_of (dimension_table db') (day, d) = map_of (dimension_table db) (day, d)"
    unfolding effect(5) by (simp add: put_states_attempt put_states_stale del: map_of_eq_Some_iff)
  have rows: "day_rows day (page_table db') =
          (if state_pages s = Complete \<and> newest (dimension_table db) day PagesDim at_time
           then day_pages ?routes data else day_rows day (page_table db))"
      "day_rows day (referral_table db') =
          (if state_referrers s = Complete \<and> newest (dimension_table db) day ReferrersDim at_time
           then day_sources data else day_rows day (referral_table db))"
    unfolding effect(3,4) by (simp_all add: replaced_def day_rows_replaced)
  have others: "\<forall>other. other \<noteq> day \<longrightarrow> day_rows other (page_table db') = day_rows other (page_table db)
        \<and> day_rows other (referral_table db') = day_rows other (referral_table db)
        \<and> map_of (site_table db') other = map_of (site_table db) other
        \<and> (\<forall>d. map_of (dimension_table db') (other, d) = map_of (dimension_table db) (other, d))"
    unfolding effect(2-5) by (simp add: replaced_def other_days_kept map_of_put_site map_of_put_states)
  have complete: "rows_total (day_pages ?routes data) = sum_list (map rc_pageLoads (rg_rows (rd_pages data)))
      \<and> fst ` set (day_pages ?routes data) \<subseteq> sr_canonical ` set (sm_routes manifest)"
    if "state_pages s = Complete"
    using day_pages_complete(1,3) [OF that [unfolded s]] targets by blast
  show ?thesis
    unfolding Let_def using dims rows others complete day_sources_total [of data] by (intro conjI) simp_all
qed

section \<open>A day archived\<close>

definition sample_counts :: rum_counts where
  "sample_counts = \<lparr>rc_pageLoads = 5, rc_visits = 3, rc_sampleInterval = Some 1\<rparr>"

definition sample_page :: rum_page where
  "sample_page = \<lparr>rc_pageLoads = 5, rc_visits = 3, rc_sampleInterval = Some 1, rp_path = ''/en/notes/''\<rparr>"

definition sample_referral_row :: rum_referral where
  "sample_referral_row = \<lparr>rc_pageLoads = 5, rc_visits = 3, rc_sampleInterval = Some 1, rr_source = ''bing.com'',
     rr_category = SearchCategory\<rparr>"

definition sample_groups :: "'a rum_counts_scheme \<Rightarrow> 'a rum_counts_scheme rum_groups" where
  "sample_groups row = \<lparr>rg_rows = [row], rg_quality = quality [row],
     rg_coverage = \<lparr>rg_returnedGroups = 1, rg_limit = 20, rg_pageLoads = 5, rg_visits = 3,
       rg_pageLoadsDelta = 0, rg_visitsDelta = 0\<rparr>\<rparr>"

definition sample_data :: rum_data where
  "sample_data = \<lparr>rd_readAt = ''1970-01-03T07:33:20.000Z'', rd_site = sample_counts,
     rd_siteQuality = quality [sample_counts], rd_pages = sample_groups sample_page,
     rd_referrers = sample_groups sample_referral_row\<rparr>"

definition sample_context :: rum_context where
  "sample_context = \<lparr>rd_dateUtc = Some ''1970-01-02'',
     rd_window = Some \<lparr>startInclusive = ''1970-01-02T00:00:00Z'', endExclusive = ''1970-01-03T00:00:00Z''\<rparr>,
     rd_settings = None, rd_quality = quality [sample_counts]\<rparr>"

definition sample_archived :: database where
  "sample_archived = fst (archive_day True True ''1970-01-02'' (RumOk sample_context sample_data) sample_manifest
     ''1970-01-03T07:33:20.000Z'' 12 empty_archive)"

lemma sample_time: "date_parse ''1970-01-03T07:33:20.000Z'' = Some 200000000"
proof -
  have "iso_clock 27200000 = ''T07:33:20.000Z''" by code_simp
  then have "iso_time 200000000 = ''1970-01-03T07:33:20.000Z''"
    by (simp add: iso_time_def ms_per_day_def january_days)
  moreover have "four_digit_time 200000000" by (simp add: four_digit_time_def ms_per_day_def january_days)
  ultimately show ?thesis using date_parse_iso_time [of 200000000] by simp
qed

lemma sample_window:
  "utc_window ''1970-01-02'' 200000000 =
    Inr \<lparr>startInclusive = ''1970-01-02T00:00:00Z'', endExclusive = ''1970-01-03T00:00:00Z''\<rparr>"
proof -
  have "four_digit_year (1 + 1)" "iso_day 1 = ''1970-01-02''" "iso_day (1 + 1) = ''1970-01-03''"
    by (simp_all add: january_days)
  then show ?thesis using utc_window_day [of 1 200000000] by simp
qed

lemma sample_quality:
  "rq_sampled (quality [sample_counts]) = SampledNo" "rq_sampled (quality [sample_page]) = SampledNo"
  "rq_sampled (quality [sample_referral_row]) = SampledNo" "rq_range (quality [sample_counts]) = Some (1, 1)"
  by (simp_all add: quality_unsampled sample_counts_def sample_page_def sample_referral_row_def)
    (simp add: quality_def intervals_of_def Let_def)

lemma sample_routes:
  "map (\<lambda>r. (sr_path r, sr_canonical r)) (sm_routes sample_manifest) =
    [(''/notes/'', ''/notes/''), (''/en/notes/'', ''/notes/'')]"
  by (simp add: sample_manifest_def)

lemma sample_day:
  "day_states [(''/notes/'', ''/notes/''), (''/en/notes/'', ''/notes/'')] sample_data =
    \<lparr>state_site = Complete, state_pages = Complete, state_referrers = Complete\<rparr>"
  "day_pages [(''/notes/'', ''/notes/''), (''/en/notes/'', ''/notes/'')] sample_data = [(''/notes/'', 5)]"
  "day_sources sample_data = [(SearchSource, 3)]"
proof -
  have fields: "rp_path sample_page = ''/en/notes/''" "rc_pageLoads sample_page = 5"
      "rr_source sample_referral_row = ''bing.com''" "rc_visits sample_referral_row = 3"
    by (simp_all add: sample_page_def sample_referral_row_def)
  have unfolds: "rg_rows (rd_pages sample_data) = [sample_page]" "rg_rows (rd_referrers sample_data) = [sample_referral_row]"
      "rd_siteQuality sample_data = quality [sample_counts]" "rg_quality (rd_pages sample_data) = quality [sample_page]"
      "rg_quality (rd_referrers sample_data) = quality [sample_referral_row]"
      "rg_coverage (rd_pages sample_data) = \<lparr>rg_returnedGroups = 1, rg_limit = 20, rg_pageLoads = 5, rg_visits = 3,
         rg_pageLoadsDelta = 0, rg_visitsDelta = 0\<rparr>"
      "rg_coverage (rd_referrers sample_data) = rg_coverage (rd_pages sample_data)"
    by (simp_all add: sample_data_def sample_groups_def)
  show "day_pages [(''/notes/'', ''/notes/''), (''/en/notes/'', ''/notes/'')] sample_data = [(''/notes/'', 5)]"
      "day_sources sample_data = [(SearchSource, 3)]"
    by (simp_all add: day_pages_def day_sources_def unfolds count_page_def count_referral_def add_count_def fields
        own_host_def source_key_of_def)
  show "day_states [(''/notes/'', ''/notes/''), (''/en/notes/'', ''/notes/'')] sample_data =
      \<lparr>state_site = Complete, state_pages = Complete, state_referrers = Complete\<rparr>"
    by (simp add: day_states_def Let_def unfolds count_page_def fields contradicted_def sample_quality site_quality_of_def)
qed

lemma sample_archive_run:
  "\<exists>db'. archive_day True True ''1970-01-02'' (RumOk sample_context sample_data) sample_manifest
     ''1970-01-03T07:33:20.000Z'' 12 empty_archive =
   (db', Inr \<lparr>state_site = Complete, state_pages = Complete, state_referrers = Complete\<rparr>)"
proof -
  let ?routes = "[(''/notes/'', ''/notes/''), (''/en/notes/'', ''/notes/'')]"
  let ?window = "\<lparr>startInclusive = ''1970-01-02T00:00:00Z'', endExclusive = ''1970-01-03T00:00:00Z''\<rparr>"
  have valid: "validate_manifest (manifest_json sample_manifest) = Inr sample_manifest"
    using validate_manifest_json sample_manifest_valid by blast
  have "four_digit_year 1" "iso_day 1 = ''1970-01-02''" by (simp_all add: january_days)
  then have "rx_test day_rx ''1970-01-02''" using day_rx_iso_day [of 1] by simp
  then have checks: "site_checks ''1970-01-02'' (day_site ?window sample_data ''1970-01-03T07:33:20.000Z'')"
    by (simp add: site_checks_def day_site_def sample_data_def sample_quality sample_counts_def [THEN arg_cong [where f = rc_pageLoads]]
        sample_counts_def [THEN arg_cong [where f = rc_visits]] del: rx_test.simps)
  have "\<exists>db'. run_statements (day_statements ''1970-01-02'' ?window ?routes sample_data ''1970-01-03T07:33:20.000Z'' 12)
      empty_archive = Some db'"
    using checks
    by (simp add: day_statements_def Let_def sample_day audit_def site_statement_def page_statements_def
        referral_statements_def state_statement_def prune_def empty_archive_def newest_def without_day_def map_has_def
        del: rx_test.simps)
  moreover have "\<not> input_invalid ''1970-01-02'' ?window sample_context sample_data"
    by (simp add: input_invalid_def sample_context_def sample_data_def sample_groups_def)
  moreover have "map_of_pairs ?routes = ?routes" by (rule map_of_pairs_distinct) simp
  ultimately show ?thesis
    by (auto simp: archive_day_def Let_def sample_time sample_window valid sample_routes batch_def sample_day)
qed

theorem archive_day_stores_witness:
  "\<exists>db'. archive_day True True ''1970-01-02'' (RumOk sample_context sample_data) sample_manifest
      ''1970-01-03T07:33:20.000Z'' 12 empty_archive =
     (db', Inr \<lparr>state_site = Complete, state_pages = Complete, state_referrers = Complete\<rparr>)
   \<and> day_rows ''1970-01-02'' (page_table db') = [(''/notes/'', 5)]"
proof -
  obtain db' where run: "archive_day True True ''1970-01-02'' (RumOk sample_context sample_data) sample_manifest
      ''1970-01-03T07:33:20.000Z'' 12 empty_archive =
     (db', Inr \<lparr>state_site = Complete, state_pages = Complete, state_referrers = Complete\<rparr>)"
    using sample_archive_run by blast
  have "day_rows ''1970-01-02'' (page_table db') = [(''/notes/'', 5)]"
    using archive_day_stores [OF run] by (simp add: unavailable_def sample_routes sample_day newest_def empty_archive_def)
  with run show ?thesis by blast
qed

theorem archive_invariant_witness:
  "archived sample_archived \<and> distinct (map fst (page_table sample_archived)) \<and> length (sync_runs sample_archived) \<le> 100"
proof -
  have "archived sample_archived" unfolding sample_archived_def by (rule archived.day [OF archived.created])
  from this archive_invariant [OF this] show ?thesis by blast
qed

end
