(* ===== verification/StatsApi.thy ===== *)
theory StatsApi
  imports StatsArchive
begin

text \<open>
  \<open>apps/web/stats/worker/api.ts\<close>: the readership of a range of days from the archive. The five
  queries read the tables of the archive; \<open>localeCompare\<close>, the collation of the host, and whether the
  storage answers the batch are arguments.
\<close>

section \<open>Queries\<close>

definition between :: "string \<Rightarrow> string \<Rightarrow> string \<Rightarrow> bool" where
  "between lo hi day \<longleftrightarrow> lo \<le> day \<and> day \<le> hi"

definition select_sites :: "database \<Rightarrow> string \<Rightarrow> string \<Rightarrow> (string \<times> site_row) list" where
  "select_sites db lo hi = sort_key fst (filter (\<lambda>(day, _). between lo hi day) (site_table db))"

definition select_states ::
  "database \<Rightarrow> string \<Rightarrow> string \<Rightarrow> ((string \<times> dimension) \<times> dimension_row) list" where
  "select_states db lo hi =
     sort_key (\<lambda>((day, _), _). day) (filter (\<lambda>((day, _), _). between lo hi day) (dimension_table db))"

definition select_traffic ::
  "((string \<times> 'k) \<times> rat \<times> string) list \<Rightarrow> string \<Rightarrow> string \<Rightarrow> ('k \<times> rat) list" where
  "select_traffic table lo hi =
     map (\<lambda>((_, k), n, _). (k, n)) (filter (\<lambda>((day, _), _). between lo hi day) table)"

definition select_started :: "database \<Rightarrow> string option" where
  "select_started db = (case map fst (site_table db) of [] \<Rightarrow> None | d # ds \<Rightarrow> Some (fold min ds d))"

section \<open>Coverage\<close>

definition good_states ::
  "(string \<times> site_row) list \<Rightarrow> ((string \<times> dimension) \<times> dimension_row) list \<Rightarrow> dimension
    \<Rightarrow> (string \<times> dimension_row) list" where
  "good_states sites states dm =
     map (\<lambda>((day, _), row). (day, row)) (filter (\<lambda>((day, d), row).
       d = dm \<and> dm_last_result row = Complete \<and> map_has (map_of_pairs sites) day) states)"

text \<open>\<open>xs.sort().at(-1)\<close>; a null time sorts by the text \<open>null\<close>.\<close>

definition last_of :: "'a list \<Rightarrow> 'a option" where
  "last_of xs = (if xs = [] then None else Some (last xs))"

definition null_text :: "string option \<Rightarrow> string" where
  "null_text t = (case t of Some s \<Rightarrow> s | None \<Rightarrow> ''null'')"

definition coverage_of ::
  "(string \<times> site_row) list \<Rightarrow> ((string \<times> dimension) \<times> dimension_row) list \<Rightarrow> string option \<Rightarrow> nat
    \<Rightarrow> dimension \<Rightarrow> coverage" where
  "coverage_of sites states started n dm =
     (let good = good_states sites states dm;
          number = (if dm = SiteDim then length sites else length good)
      in \<lparr>cov_available = (dm = SiteDim \<and> number > 0),
          cov_status = (if number = 0 then Unavailable
            else if number = n \<and> length good = n then Complete else Partial),
          cov_days = number,
          cov_startedAt = started,
          cov_lastCompleteDay = map_option fst (last_of good),
          cov_lastSyncedAt = Option.bind (last_of (sort_key null_text (if dm = SiteDim
            then map (\<lambda>(_, s). Some (st_archive_at s)) sites
            else map (\<lambda>(_, row). dm_last_success row) good))) (\<lambda>t. t)\<rparr>)"

text \<open>Whether the stored days reach from the first of them to the end without a gap.\<close>

definition contiguous_days :: "(string \<times> site_row) list \<Rightarrow> string \<Rightarrow> bool" where
  "contiguous_days sites end_day = (case sites of
     [] \<Rightarrow> False
   | (first, _) # _ \<Rightarrow> first \<noteq> [] \<and>
      (case (date_parse end_day, date_parse first) of
         (Some e, Some s) \<Rightarrow> of_nat (length sites) = of_int (e - s) / 86400000 + (1 :: rat)
       | _ \<Rightarrow> False))"

section \<open>The response\<close>

definition add_totals :: "(string \<times> site_row) list \<Rightarrow> totals" where
  "add_totals sites = fold (\<lambda>(_, s) t. \<lparr>tot_pageLoads = tot_pageLoads t + st_loads s,
     tot_visits = tot_visits t + st_visits s\<rparr>) sites \<lparr>tot_pageLoads = 0, tot_visits = 0\<rparr>"

definition sum_by :: "('k \<times> rat) list \<Rightarrow> ('k \<times> rat) list" where
  "sum_by rows = fold (\<lambda>(k, n). add_count k n) rows []"

definition popular_order :: "(string \<Rightarrow> string \<Rightarrow> int) \<Rightarrow> string \<times> rat \<Rightarrow> string \<times> rat \<Rightarrow> rat" where
  "popular_order collate a b = js_or (snd b - snd a) (of_int (collate (fst a) (fst b)))"

definition source_order :: "source_key \<times> rat \<Rightarrow> source_key \<times> rat \<Rightarrow> rat" where
  "source_order a b = snd b - snd a"

definition popular_pages ::
  "(string \<Rightarrow> string \<Rightarrow> int) \<Rightarrow> (string \<times> string) list \<Rightarrow> totals option \<Rightarrow> (string \<times> rat) list
    \<Rightarrow> popular_page list" where
  "popular_pages collate current tot counts =
     map (\<lambda>(path, loads). \<lparr>pop_path = path,
         pop_title = (case map_of current path of Some title \<Rightarrow> title | None \<Rightarrow> []),
         pop_pageLoads = loads,
         pop_share = (case tot of
            Some t \<Rightarrow> if tot_pageLoads t \<noteq> 0 then loads / tot_pageLoads t else 0
          | None \<Rightarrow> 0)\<rparr>)
       (take 10 (js_sort (popular_order collate) counts))"

definition day_entry :: "(string \<times> site_row) list \<Rightarrow> string \<Rightarrow> daily" where
  "day_entry sites day = (let row = map_of (map_of_pairs sites) day
     in \<lparr>daily_date = day, daily_pageLoads = map_option st_loads row,
         daily_visits = map_option st_visits row, daily_quality = map_option st_quality row\<rparr>)"

definition current_titles :: "stats_manifest \<Rightarrow> (string \<times> string) list" where
  "current_titles m = map_of_pairs (map (\<lambda>r. (sr_path r, sr_title r))
     (filter (\<lambda>r. sr_path r = sr_canonical r) (sm_routes m)))"

definition readership_of ::
  "(string \<Rightarrow> string \<Rightarrow> int) \<Rightarrow> bool \<Rightarrow> database \<Rightarrow> stats_manifest \<Rightarrow> stats_range \<Rightarrow> int
    \<Rightarrow> stats_error + readership" where
  "readership_of collate readable db manifest rng now =
     throw_when (\<not> valid_time now) StatsDateInvalid
     (case date_parse (iso_date now @ ''T00:00:00Z'') of
        None \<Rightarrow> Inl StatsDateInvalid
      | Some today \<Rightarrow>
        (let n = range_days rng;
             first = iso_date (today - int n * 86400000);
             end_day = iso_date (today - 86400000);
             sites = select_sites db first end_day;
             states = select_states db first end_day;
             pages = select_traffic (page_table db) first end_day;
             refs = select_traffic (referral_table db) first end_day
         in throw_when (\<not> readable) StatsStorageUnavailable
           (throw_when (list_ex (\<lambda>(_, s). st_filter s \<noteq> rum_bot_filter) sites) StatsFilterMismatch
           (let current = current_titles manifest;
                contiguous = contiguous_days sites end_day;
                cover = coverage_of sites states (select_started db) n;
                unknown = list_ex (\<lambda>(path, _). \<not> map_has current path) pages;
                pagesReady = (contiguous \<and> cov_days (cover PagesDim) = length sites \<and> \<not> unknown);
                refsReady = (contiguous \<and> cov_days (cover ReferrersDim) = length sites);
                total = (if sites \<noteq> [] then Some (add_totals sites) else None)
            in Inr \<lparr>rs_range = rng, rs_start = first, rs_end = end_day, rs_botFilter = rum_bot_filter,
                 rs_estimated = list_ex (\<lambda>(_, s). st_quality s \<noteq> Observed) sites,
                 rs_site = cover SiteDim,
                 rs_pages = (cover PagesDim)\<lparr>cov_available := pagesReady,
                   cov_status := (if unknown then Partial else cov_status (cover PagesDim))\<rparr>,
                 rs_referrers = (cover ReferrersDim)\<lparr>cov_available := refsReady\<rparr>,
                 rs_totals = total,
                 rs_daily = map (\<lambda>i. day_entry sites (iso_date (today - (int n - int i) * 86400000))) [0..<n],
                 rs_popular = popular_pages collate current total (if pagesReady then sum_by pages else []),
                 rs_sources = js_sort source_order (if refsReady then sum_by refs else [])\<rparr>))))"

end
