(* ===== verification/StatsWorker.thy ===== *)
theory StatsWorker
  imports StatsApi
begin

text \<open>
  \<open>apps/web/stats/worker/index.ts\<close>: the endpoint of the statistics and the scheduled
  synchronisation. The static site is the response \<open>Static\<close>. The environment holds its variables,
  \<open>env_group_limit\<close> the number that \<open>RUM_GROUP_LIMIT\<close> reads as. The reader of a day, the durations
  measured, and whether the storage accepts each batch are arguments.
\<close>

section \<open>The endpoint\<close>

record stats_env =
  env_read_enabled :: "string option"
  env_sync_enabled :: "string option"
  env_has_db :: bool
  env_account :: "string option"
  env_site_tag :: "string option"
  env_token :: "string option"
  env_group_limit :: json

record stats_request =
  req_path :: string
  req_method :: string
  req_params :: "(string \<times> string) list"

datatype stats_body = ErrorBody string | ReadershipBody readership

datatype stats_response =
    Static
  | JsonResponse nat stats_body "(string \<times> string) list"

definition json_response :: "stats_body \<Rightarrow> nat \<Rightarrow> (string \<times> string) list \<Rightarrow> stats_response" where
  "json_response body status extra = JsonResponse status body
     ([(''Cache-Control'', if status = 200 then ''public, max-age=300, s-maxage=900'' else ''no-store''),
       (''X-Content-Type-Options'', ''nosniff'')] @ extra)"

definition range_text :: "stats_range \<Rightarrow> string" where
  "range_text r = (case r of Range7 \<Rightarrow> ''7d'' | Range30 \<Rightarrow> ''30d'' | Range90 \<Rightarrow> ''90d'')"

definition range_of :: "string \<Rightarrow> stats_range option" where
  "range_of s = map_of (map (\<lambda>r. (range_text r, r)) ranges) s"

definition range_param :: "stats_request \<Rightarrow> string" where
  "range_param req = (case map_of (req_params req) ''range'' of Some v \<Rightarrow> v | None \<Rightarrow> ''30d'')"

definition unavailable_response :: stats_response where
  "unavailable_response = json_response (ErrorBody ''stats_unavailable'') 503 []"

definition fetch_stats ::
  "(string \<Rightarrow> string \<Rightarrow> int) \<Rightarrow> (string \<Rightarrow> asset_response) \<Rightarrow> bool \<Rightarrow> stats_env \<Rightarrow> database \<Rightarrow> stats_request
    \<Rightarrow> int \<Rightarrow> stats_response" where
  "fetch_stats collate assets readable env db req now =
     (if req_path req \<noteq> ''/api/stats'' \<and> \<not> prefix ''/api/stats/'' (req_path req) then Static
      else if req_path req \<noteq> ''/api/stats'' then json_response (ErrorBody ''not_found'') 404 []
      else if req_method req \<noteq> ''GET'' then
        json_response (ErrorBody ''method_not_allowed'') 405 [(''Allow'', ''GET'')]
      else
        (case range_of (range_param req) of
           None \<Rightarrow> json_response (ErrorBody ''invalid_range'') 400 []
         | Some rng \<Rightarrow>
             if list_ex (\<lambda>(k, _). k \<noteq> ''range'') (req_params req)
                \<or> length (filter (\<lambda>(k, _). k = ''range'') (req_params req)) > 1
             then json_response (ErrorBody ''invalid_range'') 400 []
             else if env_read_enabled env \<noteq> Some ''true'' \<or> \<not> env_has_db env then unavailable_response
             else
               (case ebind (load_manifest assets) (\<lambda>m. readership_of collate readable db m rng now) of
                  Inl _ \<Rightarrow> unavailable_response
                | Inr body \<Rightarrow> json_response (ReadershipBody body) 200 [])))"

section \<open>The schedule\<close>

definition day_config :: "stats_env \<Rightarrow> rum_config" where
  "day_config env = \<lparr>accountId = JStr (case env_account env of Some s \<Rightarrow> s | None \<Rightarrow> []),
     rumSiteTag = JStr (case env_site_tag env of Some s \<Rightarrow> s | None \<Rightarrow> []),
     rum_token = JStr (case env_token env of Some s \<Rightarrow> s | None \<Rightarrow> []),
     rum_requestHost = JStr ''gopheratlas.com'', groupLimit = env_group_limit env\<rparr>"

definition schedule_days :: "int \<Rightarrow> string list" where
  "schedule_days midnight = map (\<lambda>offset. iso_date (midnight - offset * 86400000)) [2, 1]"

text \<open>The failures of both days, one after the other, until one cannot be stored.\<close>

fun record_failures ::
  "(nat \<Rightarrow> bool) \<Rightarrow> nat \<Rightarrow> string list \<Rightarrow> string \<Rightarrow> database \<Rightarrow> database \<times> (stats_error + unit)" where
  "record_failures store k [] at_time db = (db, Inr ())"
| "record_failures store k (day # days) at_time db =
     (case record_failure (store k) day at_time ManifestUnavailable 0 db of
        (db', Inl e) \<Rightarrow> (db', Inl e)
      | (db', Inr _) \<Rightarrow> record_failures store (k + 1) days at_time db')"

text \<open>The days in order; the value is whether the site of some day was unavailable.\<close>

fun archive_days ::
  "(nat \<Rightarrow> bool) \<Rightarrow> (nat \<Rightarrow> int) \<Rightarrow> (string \<Rightarrow> rum_day) \<Rightarrow> stats_manifest \<Rightarrow> nat \<Rightarrow> string list \<Rightarrow> string
    \<Rightarrow> database \<Rightarrow> database \<times> (stats_error + bool)" where
  "archive_days store duration reader manifest k [] at_time db = (db, Inr False)"
| "archive_days store duration reader manifest k (day # days) at_time db =
     (case archive_day (store (2 * k + 1)) (store (2 * k + 2)) day (reader day) manifest at_time (duration k) db of
        (db', Inl e) \<Rightarrow> (db', Inl e)
      | (db', Inr s) \<Rightarrow>
          (case archive_days store duration reader manifest (k + 1) days at_time db' of
             (db'', Inl e) \<Rightarrow> (db'', Inl e)
           | (db'', Inr failed) \<Rightarrow> (db'', Inr (state_site s = Unavailable \<or> failed))))"

definition run_schedule ::
  "(string \<Rightarrow> asset_response) \<Rightarrow> (nat \<Rightarrow> bool) \<Rightarrow> (nat \<Rightarrow> int) \<Rightarrow> (rum_config \<Rightarrow> string \<Rightarrow> rum_day)
    \<Rightarrow> stats_env \<Rightarrow> int \<Rightarrow> database \<Rightarrow> database \<times> (stats_error + unit)" where
  "run_schedule assets store duration reader env scheduledTime db =
     (if env_sync_enabled env \<noteq> Some ''true'' then (db, Inr ())
      else if \<not> env_has_db env then (db, Inl StatsSyncUnavailable)
      else if \<not> valid_time scheduledTime then (db, Inl StatsDateInvalid)
      else
        (let at_time = iso_time scheduledTime
         in case date_parse (take 10 at_time @ ''T00:00:00Z'') of
           None \<Rightarrow> (db, Inl StatsDateInvalid)
         | Some midnight \<Rightarrow>
           (let days = schedule_days midnight
            in case load_manifest assets of
              Inl _ \<Rightarrow> (case record_failures store 0 days at_time db of
                  (db', Inl e) \<Rightarrow> (db', Inl e)
                | (db', Inr _) \<Rightarrow> (db', Inl StatsSyncUnavailable))
            | Inr manifest \<Rightarrow>
              (case observe_content (store 0) manifest at_time db of
                 (db', Inl e) \<Rightarrow> (db', Inl e)
               | (db', Inr _) \<Rightarrow>
                 (case archive_days store duration (reader (day_config env)) manifest 0 days at_time db' of
                    (db'', Inl e) \<Rightarrow> (db'', Inl e)
                  | (db'', Inr failed) \<Rightarrow>
                      (db'', if failed then Inl StatsSyncUnavailable else Inr ()))))))"

section \<open>When the endpoint answers\<close>

lemma range_of_text: "range_of s = Some rng \<longleftrightarrow> s = range_text rng"
  by (cases rng) (auto simp: range_of_def ranges_def range_text_def)

lemma single_param:
  "\<not> list_ex (\<lambda>(k, _). k \<noteq> ''range'') ps \<and> \<not> length (filter (\<lambda>(k, _). k = ''range'') ps) > 1
     \<and> (case map_of ps ''range'' of Some v \<Rightarrow> v | None \<Rightarrow> ''30d'') = s \<longleftrightarrow>
    ps = [] \<and> s = ''30d'' \<or> ps = [(''range'', s)]"
proof (cases ps)
  case (Cons p rest)
  obtain k v where p: "p = (k, v)" by (cases p)
  show ?thesis
  proof (cases rest)
    case Nil
    then show ?thesis by (auto simp: Cons p)
  next
    case (Cons q rest')
    obtain l w where q: "q = (l, w)" by (cases q)
    show ?thesis by (auto simp: \<open>ps = p # rest\<close> p Cons q)
  qed
qed auto

text \<open>
  C25. The endpoint answers with statistics exactly for a GET of its path with at most the range
  parameter, once, with one of the three ranges (thirty days by default), while reading is enabled, the
  manifest loads and the archive can be read; and no other answer may be cached.
\<close>

theorem stats_endpoint_answers:
  "((\<exists>headers. fetch_stats collate assets readable env db req now = JsonResponse 200 (ReadershipBody body) headers) \<longleftrightarrow>
      req_path req = ''/api/stats'' \<and> req_method req = ''GET''
      \<and> env_read_enabled env = Some ''true'' \<and> env_has_db env
      \<and> (\<exists>rng manifest. (req_params req = [] \<and> rng = Range30 \<or> req_params req = [(''range'', range_text rng)])
          \<and> load_manifest assets = Inr manifest \<and> readership_of collate readable db manifest rng now = Inr body))
    \<and> (case fetch_stats collate assets readable env db req now of
        Static \<Rightarrow> req_path req \<noteq> ''/api/stats''
      | JsonResponse status b headers \<Rightarrow> map_of headers ''Cache-Control'' =
          Some (if status = 200 then ''public, max-age=300, s-maxage=900'' else ''no-store'')
          \<and> (status = 200 \<longleftrightarrow> (\<exists>r. b = ReadershipBody r)))"
proof
  let ?bad = "list_ex (\<lambda>(k, _). k \<noteq> ''range'') (req_params req)
    \<or> length (filter (\<lambda>(k, _). k = ''range'') (req_params req)) > 1"
  have params: "range_of (range_param req) = Some rng \<and> \<not> ?bad \<longleftrightarrow>
      req_params req = [] \<and> rng = Range30 \<or> req_params req = [(''range'', range_text rng)]" for rng
    using single_param [of "req_params req" "range_text rng"]
    by (cases rng) (auto simp: range_of_text range_param_def range_text_def)
  show "(\<exists>headers. fetch_stats collate assets readable env db req now = JsonResponse 200 (ReadershipBody body) headers) \<longleftrightarrow>
      req_path req = ''/api/stats'' \<and> req_method req = ''GET''
      \<and> env_read_enabled env = Some ''true'' \<and> env_has_db env
      \<and> (\<exists>rng manifest. (req_params req = [] \<and> rng = Range30 \<or> req_params req = [(''range'', range_text rng)])
          \<and> load_manifest assets = Inr manifest \<and> readership_of collate readable db manifest rng now = Inr body)"
    unfolding params [symmetric]
    by (auto simp: fetch_stats_def json_response_def unavailable_response_def ebind_Inr_iff
        split: option.splits sum.splits if_splits)
  show "case fetch_stats collate assets readable env db req now of
        Static \<Rightarrow> req_path req \<noteq> ''/api/stats''
      | JsonResponse status b headers \<Rightarrow> map_of headers ''Cache-Control'' =
          Some (if status = 200 then ''public, max-age=300, s-maxage=900'' else ''no-store'')
          \<and> (status = 200 \<longleftrightarrow> (\<exists>r. b = ReadershipBody r))"
    by (simp add: fetch_stats_def json_response_def unavailable_response_def split: option.split sum.split)
qed

end
