(* ===== verification/Chart.thy ===== *)
theory Chart
  imports JsPrelude
begin

text \<open>
  The geometry of \<open>apps/web/src/lib/stats/chart.ts\<close>: the scale of an axis, the sample nearest to a
  position, and the place of the tooltip. Coordinates are rationals, so the rounding of the last bits
  of a double is not modelled.
\<close>

section \<open>The scale\<close>

record scale =
  sc_maximum :: int
  sc_ticks :: "(int \<times> rat) list"

definition scale_step :: "rat \<Rightarrow> int" where
  "scale_step total_value = max 1 \<lceil>total_value / 4\<rceil>"

definition scale_maximum :: "rat \<Rightarrow> int" where
  "scale_maximum total_value = (let step = scale_step total_value
     in max step (\<lceil>total_value / of_int step\<rceil> * step))"

definition scale_y :: "int \<Rightarrow> rat \<Rightarrow> rat" where
  "scale_y maximum v = 12 + (1 - v / of_int maximum) * 80"

definition chart_scale :: "rat \<Rightarrow> scale" where
  "chart_scale total_value =
     (let step = scale_step total_value; maximum = scale_maximum total_value
      in \<lparr>sc_maximum = maximum,
          sc_ticks = map (\<lambda>i. let v = maximum - int i * step in (v, scale_y maximum (of_int v)))
            [0..<nat (maximum div step + 1)]\<rparr>)"

section \<open>The nearest sample\<close>

function nearest_from :: "(nat \<Rightarrow> rat) \<Rightarrow> rat \<Rightarrow> nat \<Rightarrow> nat \<Rightarrow> nat" where
  "nearest_from sample x low high =
     (if low < high then
        (let middle = (low + high) div 2
         in if sample middle < x then nearest_from sample x (middle + 1) high
            else nearest_from sample x low middle)
      else low)"
  by auto
termination by (relation "measure (\<lambda>(_, _, low, high). high - low)") auto

declare nearest_from.simps [simp del]

definition nearest_sample_index :: "nat \<Rightarrow> (nat \<Rightarrow> rat) \<Rightarrow> rat \<Rightarrow> int" where
  "nearest_sample_index n sample x =
     (if n = 0 then -1
      else let low = nearest_from sample x 0 (n - 1)
        in if low > 0 \<and> x - sample (low - 1) \<le> sample low - x then int low - 1 else int low)"

section \<open>The tooltip\<close>

record viewport =
  vp_left :: rat
  vp_top :: rat
  vp_width :: rat
  vp_height :: rat

definition tooltip_position ::
  "rat \<Rightarrow> rat \<Rightarrow> rat \<Rightarrow> rat \<Rightarrow> viewport \<Rightarrow> bool \<Rightarrow> rat \<times> rat" where
  "tooltip_position x y width height view touch =
     (let margin = 12; offset = 16;
          right = vp_left view + vp_width view - margin;
          bottom = vp_top view + vp_height view - margin;
          left0 = x + offset;
          top0 = (if touch then y - height - offset else y + offset);
          left1 = (if left0 + width > right then x - width - offset else left0);
          top1 = (if touch \<and> top0 < vp_top view + margin then y + offset
                  else if \<not> touch \<and> top0 + height > bottom then y - height - offset
                  else top0)
      in (max (vp_left view + margin) (min left1 (right - width)),
          max (vp_top view + margin) (min top1 (bottom - height))))"

section \<open>What the scale promises\<close>

lemma scale_step_pos: "scale_step t \<ge> 1"
  by (simp add: scale_step_def)

lemma scale_maximum_multiple: "\<exists>k \<ge> 1. scale_maximum t = k * scale_step t \<and> (t \<ge> 0 \<longrightarrow> k \<le> 4)"
proof (cases "\<lceil>t / of_int (scale_step t)\<rceil> * scale_step t \<ge> scale_step t")
  case True
  let ?s = "scale_step t" and ?k = "\<lceil>t / of_int (scale_step t)\<rceil>"
  have s: "?s \<ge> 1" by (rule scale_step_pos)
  have k1: "?k \<ge> 1"
  proof (rule ccontr)
    assume "\<not> ?k \<ge> 1"
    then have "?k * ?s \<le> 0" using s by (simp add: mult_nonpos_nonneg)
    with True s show False by linarith
  qed
  have "t / of_int ?s \<le> 4"
  proof -
    have "\<lceil>t / 4\<rceil> \<le> ?s" by (simp add: scale_step_def)
    then have "t / 4 \<le> of_int ?s" by (simp add: ceiling_le_iff)
    then have "t \<le> 4 * of_int ?s" by simp
    with s show ?thesis by (simp add: divide_le_eq)
  qed
  then have "?k \<le> 4" by (simp add: ceiling_le_iff)
  moreover have "scale_maximum t = ?k * ?s" using True by (simp add: scale_maximum_def Let_def)
  ultimately show ?thesis using k1 by (intro exI [of _ ?k]) simp
next
  case False
  then have "scale_maximum t = 1 * scale_step t" by (simp add: scale_maximum_def Let_def max_def)
  then show ?thesis by fastforce
qed

lemma scale_maximum_pos: "scale_maximum t \<ge> 1"
proof -
  have "scale_step t \<le> scale_maximum t" by (simp add: scale_maximum_def Let_def del: max_def)
  with scale_step_pos [of t] show ?thesis by linarith
qed

lemma scale_maximum_covers: "t \<le> of_int (scale_maximum t)"
proof -
  let ?s = "scale_step t"
  have s: "(of_int ?s :: rat) > 0" using scale_step_pos [of t] by simp
  have "t = t / of_int ?s * of_int ?s" using s by simp
  also have "\<dots> \<le> of_int \<lceil>t / of_int ?s\<rceil> * of_int ?s"
    using s by (intro mult_right_mono) auto
  also have "\<dots> = of_int (\<lceil>t / of_int ?s\<rceil> * ?s)" by simp
  also have "\<dots> \<le> of_int (scale_maximum t)"
    unfolding of_int_le_iff by (simp add: scale_maximum_def Let_def)
  finally show ?thesis .
qed

lemma scale_y_bounds:
  assumes "0 \<le> v" "v \<le> of_int m" "m \<ge> 1" shows "12 \<le> scale_y m v \<and> scale_y m v \<le> 92"
proof -
  have m: "(of_int m :: rat) > 0" using assms by simp
  have "0 \<le> v / of_int m" "v / of_int m \<le> 1" using assms m by (auto simp: divide_le_eq)
  then have "0 \<le> (1 - v / of_int m) * 80" "(1 - v / of_int m) * 80 \<le> 1 * 80"
    by (intro mult_nonneg_nonneg mult_right_mono; simp)+
  then show ?thesis unfolding scale_y_def by linarith
qed

lemma scale_y_antimono: "m \<ge> 1 \<Longrightarrow> scale_y m v < scale_y m w \<longleftrightarrow> w < v"
  by (simp add: scale_y_def divide_less_cancel)

text \<open>
  The axis of a chart has a positive whole maximum that no value exceeds, its ticks fall from the
  maximum to zero in equal whole steps, two to five of them, each at the height of its value between 12
  and 92 percent.
\<close>

lemma chart_scale_correct:
  assumes "0 \<le> t"
  shows "t \<le> of_int (sc_maximum (chart_scale t)) \<and> sc_maximum (chart_scale t) \<ge> 1
    \<and> (\<exists>k \<in> {1..4}. \<exists>step \<ge> 1.
        map fst (sc_ticks (chart_scale t)) = map (\<lambda>i. (k - int i) * step) [0..<nat (k + 1)]
        \<and> sc_maximum (chart_scale t) = k * step)
    \<and> (\<forall>(v, y) \<in> set (sc_ticks (chart_scale t)).
        y = scale_y (sc_maximum (chart_scale t)) (of_int v) \<and> 12 \<le> y \<and> y \<le> 92)"
proof -
  let ?m = "scale_maximum t" and ?s = "scale_step t"
  obtain k where k: "k \<ge> 1" "?m = k * ?s" "k \<le> 4"
    using scale_maximum_multiple [of t] assms by blast
  have s: "?s \<ge> 1" by (rule scale_step_pos)
  have div: "?m div ?s = k" using k(2) s by simp
  have ticks: "sc_ticks (chart_scale t) =
      map (\<lambda>i. (?m - int i * ?s, scale_y ?m (of_int (?m - int i * ?s)))) [0..<nat (k + 1)]"
    by (simp add: chart_scale_def Let_def div)
  have max_eq: "sc_maximum (chart_scale t) = ?m" by (simp add: chart_scale_def Let_def)
  have vals: "map fst (sc_ticks (chart_scale t)) = map (\<lambda>i. (k - int i) * ?s) [0..<nat (k + 1)]"
    by (simp add: ticks k(2) left_diff_distrib)
  have "\<forall>(v, y) \<in> set (sc_ticks (chart_scale t)). y = scale_y ?m (of_int v) \<and> 12 \<le> y \<and> y \<le> 92"
  proof (clarsimp simp only: ticks set_map set_upt image_iff atLeastLessThan_iff prod.inject, intro conjI refl)
    fix i :: nat assume i: "i < nat (k + 1)"
    then have "int i \<le> k" using k(1) by linarith
    then have "int i * ?s \<le> ?m" "0 \<le> int i * ?s" using s k by (simp_all add: mult_right_mono)
    then have "0 \<le> (of_int (?m - int i * ?s) :: rat)" "(of_int (?m - int i * ?s) :: rat) \<le> of_int ?m"
      by (simp_all only: of_int_0_le_iff of_int_le_iff)
    from scale_y_bounds [OF this scale_maximum_pos]
    show "12 \<le> scale_y ?m (of_int (?m - int i * ?s))" "scale_y ?m (of_int (?m - int i * ?s)) \<le> 92"
      by auto
  qed
  with vals k s show ?thesis
    unfolding max_eq using scale_maximum_covers [of t] scale_maximum_pos [of t] by force
qed

section \<open>What the search promises\<close>

lemma nearest_from_bounds: "low \<le> high \<Longrightarrow> nearest_from sample x low high \<in> {low..high}"
proof (induction sample x low high rule: nearest_from.induct)
  case (1 sample x low high)
  show ?case
  proof (cases "low < high")
    case True
    then have "(low + high) div 2 < high" "low \<le> (low + high) div 2" by auto
    with 1 True show ?thesis by (subst nearest_from.simps) (auto simp: Let_def)
  qed (use 1 in \<open>simp add: nearest_from.simps\<close>)
qed

lemma nearest_from_below:
  assumes "\<And>i. i < low \<Longrightarrow> sample i < x" "\<And>i j. i \<le> j \<Longrightarrow> j < n \<Longrightarrow> sample i \<le> sample j"
    "low \<le> high" "high < n" "i < nearest_from sample x low high"
  shows "sample i < x"
  using assms
proof (induction sample x low high arbitrary: i rule: nearest_from.induct)
  case (1 sample x low high)
  let ?m = "(low + high) div 2"
  show ?case
  proof (cases "low < high")
    case True
    show ?thesis
    proof (cases "sample ?m < x")
      case less: True
      have r: "nearest_from sample x low high = nearest_from sample x (?m + 1) high"
        using True less by (subst nearest_from.simps) (simp add: Let_def)
      have below: "sample j < x" if "j < ?m + 1" for j
      proof -
        have "sample j \<le> sample ?m" by (rule 1(4)) (use that True 1(6) in auto)
        with less show ?thesis by linarith
      qed
      show ?thesis
        using 1(1) [OF True refl less below 1(4)] True 1(6,7) unfolding r by auto
    next
      case False
      have r: "nearest_from sample x low high = nearest_from sample x low ?m"
        using True False by (subst nearest_from.simps) (simp add: Let_def)
      show ?thesis
        using 1(2) [OF True refl False 1(3,4)] True 1(6,7) unfolding r by auto
    qed
  next
    case False
    with 1(7) have "i < low" by (simp add: nearest_from.simps)
    then show ?thesis by (rule 1(3))
  qed
qed

lemma nearest_from_reaches:
  "low \<le> high \<Longrightarrow> nearest_from sample x low high = high \<or> x \<le> sample (nearest_from sample x low high)"
proof (induction sample x low high rule: nearest_from.induct)
  case (1 sample x low high)
  let ?m = "(low + high) div 2"
  show ?case
  proof (cases "low < high")
    case True
    have m: "low \<le> ?m" "?m < high" "?m + 1 \<le> high" using True by auto
    show ?thesis
    proof (cases "sample ?m < x")
      case less: True
      have r: "nearest_from sample x low high = nearest_from sample x (?m + 1) high"
        using True less by (subst nearest_from.simps) (simp add: Let_def)
      show ?thesis unfolding r by (rule 1(1) [OF True refl less m(3)])
    next
      case False
      have r: "nearest_from sample x low high = nearest_from sample x low ?m"
        using True False by (subst nearest_from.simps) (simp add: Let_def)
      show ?thesis unfolding r using 1(2) [OF True refl False m(1)] False by auto
    qed
  qed (use 1 in \<open>simp add: nearest_from.simps\<close>)
qed

text \<open>
  A series of samples from left to right. Charts search it by position; the plots of the traffic and
  of the growth are series.
\<close>

locale chart_series =
  fixes size_of :: nat and sample :: "nat \<Rightarrow> rat"
  assumes ascending: "i < j \<Longrightarrow> j < size_of \<Longrightarrow> sample i < sample j"
    and on_plot: "i < size_of \<Longrightarrow> 0 \<le> sample i \<and> sample i \<le> 100"
begin

lemma ordered: "i \<le> j \<Longrightarrow> j < size_of \<Longrightarrow> sample i \<le> sample j"
  using ascending [of i j] by (cases "i = j") auto

lemma nearest_valid:
  assumes "size_of > 0"
  shows "0 \<le> nearest_sample_index size_of sample x \<and> nearest_sample_index size_of sample x < int size_of"
  using assms nearest_from_bounds [of 0 "size_of - 1" sample x]
  by (auto simp: nearest_sample_index_def Let_def)

lemma nearest_closest:
  assumes "size_of > 0" "i < size_of"
  shows "\<bar>sample (nat (nearest_sample_index size_of sample x)) - x\<bar> \<le> \<bar>sample i - x\<bar>
    \<and> (\<bar>sample (nat (nearest_sample_index size_of sample x)) - x\<bar> = \<bar>sample i - x\<bar>
        \<longrightarrow> nat (nearest_sample_index size_of sample x) \<le> i)"
proof -
  define low where "low = nearest_from sample x 0 (size_of - 1)"
  have low_eq: "nearest_from sample x 0 (size_of - Suc 0) = low" by (simp add: low_def)
  have low: "low < size_of" using nearest_from_bounds [of 0 "size_of - 1" sample x] assms(1) by (auto simp: low_def)
  have below: "sample j < x" if "j < low" for j
    by (rule nearest_from_below [of 0 sample x size_of "size_of - 1"])
      (use that ordered assms(1) in \<open>auto simp: low_def\<close>)
  have reach: "low = size_of - 1 \<or> x \<le> sample low"
    using nearest_from_reaches [of 0 "size_of - 1" sample x] by (simp add: low_def)
  have right: "sample low \<le> sample j \<and> (j \<noteq> low \<longrightarrow> x \<le> sample low \<and> sample low < sample j)"
    if "low \<le> j" "j < size_of" for j
    using that ordered [of low j] ascending [of low j] reach by (cases "j = low") auto
  have left: "sample j \<le> sample (low - 1) \<and> (j \<noteq> low - 1 \<longrightarrow> sample j < sample (low - 1)) \<and> sample (low - 1) < x"
    if "j < low" for j
    using that ordered [of j "low - 1"] ascending [of j "low - 1"] low below [of "low - 1"]
    by (cases "j = low - 1") auto
  show ?thesis
  proof (cases "low > 0 \<and> x - sample (low - 1) \<le> sample low - x")
    case True
    then have r: "nat (nearest_sample_index size_of sample x) = low - 1"
      using assms(1) by (simp add: nearest_sample_index_def low_eq Let_def nat_diff_distrib)
    show ?thesis
    proof (cases "i < low")
      case i: True
      show ?thesis unfolding r using left [OF i] by auto
    next
      case False
      then show ?thesis unfolding r
        using right [of i] assms(2) True below [of "low - 1"] by auto
    qed
  next
    case False
    then have r: "nat (nearest_sample_index size_of sample x) = low"
      using assms(1) by (auto simp: nearest_sample_index_def low_eq Let_def)
    show ?thesis
    proof (cases "i < low")
      case i: True
      have "sample low - x < x - sample (low - 1)" using False i by auto
      moreover have "sample (low - 1) < sample low" using ascending [of "low - 1" low] i low by auto
      ultimately show ?thesis unfolding r using left [OF i] by auto
    next
      case ge: False
      show ?thesis
      proof (cases "i = low")
        case ne: False
        show ?thesis unfolding r using right [of i] assms(2) ge ne by auto
      qed (simp add: r)
    qed
  qed
qed

lemma nearest_hits:
  assumes "i < size_of" shows "nearest_sample_index size_of sample (sample i) = int i"
proof -
  let ?r = "nearest_sample_index size_of sample (sample i)"
  have n: "size_of > 0" using assms by auto
  have r: "0 \<le> ?r" "nat ?r < size_of" using nearest_valid [OF n, of "sample i"] by auto
  have "sample (nat ?r) = sample i" using nearest_closest [OF n assms, of "sample i"] by auto
  then have "nat ?r = i"
    using ascending [of i "nat ?r"] ascending [of "nat ?r" i] assms r
    by (cases "nat ?r" i rule: linorder_cases) auto
  with r show ?thesis by auto
qed

end

text \<open>The share of the width that a sample of a series has, in the plots.\<close>

lemma fraction_bounds:
  fixes m c :: rat
  assumes "i < n" "0 < m" "of_nat n - 1 \<le> m" "0 \<le> c"
  shows "0 \<le> of_nat i / m * c \<and> of_nat i / m * c \<le> c"
proof -
  have "of_nat (i + 1) \<le> (of_nat n :: rat)" using assms(1) by (subst of_nat_le_iff) simp
  then have "of_nat i \<le> m" using assms(3) by simp
  then have "of_nat i / m \<le> 1" using assms(2) by (simp add: divide_le_eq)
  then have "of_nat i / m * c \<le> 1 * c" using assms(4) by (rule mult_right_mono)
  then show ?thesis using assms(2,4) by simp
qed

section \<open>What the tooltip promises\<close>

text \<open>
  A tooltip that fits between the margins of the viewport is placed between them, on both axes,
  wherever the pointer is; one that does not fit starts at the margin.
\<close>

lemma clamp_inside:
  fixes low high size wish :: rat
  shows "low \<le> max low (min wish (high - size))"
    and "low + size \<le> high \<Longrightarrow> max low (min wish (high - size)) + size \<le> high"
    and "\<not> low + size \<le> high \<Longrightarrow> max low (min wish (high - size)) = low"
  by (simp_all add: max_def min_def)

lemma tooltip_inside:
  assumes "tooltip_position x y width height view touch = (l, u)"
  shows "vp_left view + 12 \<le> l" "vp_top view + 12 \<le> u"
    "width + 24 \<le> vp_width view \<Longrightarrow> l + width \<le> vp_left view + vp_width view - 12"
    "\<not> width + 24 \<le> vp_width view \<Longrightarrow> l = vp_left view + 12"
    "height + 24 \<le> vp_height view \<Longrightarrow> u + height \<le> vp_top view + vp_height view - 12"
    "\<not> height + 24 \<le> vp_height view \<Longrightarrow> u = vp_top view + 12"
proof -
  obtain a b where l: "l = max (vp_left view + 12) (min a (vp_left view + vp_width view - 12 - width))"
    and u: "u = max (vp_top view + 12) (min b (vp_top view + vp_height view - 12 - height))"
    using assms unfolding tooltip_position_def Let_def prod.inject by blast
  show "vp_left view + 12 \<le> l" "vp_top view + 12 \<le> u"
    unfolding l u by (rule clamp_inside(1))+
  show "l + width \<le> vp_left view + vp_width view - 12" if "width + 24 \<le> vp_width view"
    unfolding l by (rule clamp_inside(2)) (use that in linarith)
  show "l = vp_left view + 12" if "\<not> width + 24 \<le> vp_width view"
    unfolding l by (rule clamp_inside(3)) (use that in linarith)
  show "u + height \<le> vp_top view + vp_height view - 12" if "height + 24 \<le> vp_height view"
    unfolding u by (rule clamp_inside(2)) (use that in linarith)
  show "u = vp_top view + 12" if "\<not> height + 24 \<le> vp_height view"
    unfolding u by (rule clamp_inside(3)) (use that in linarith)
qed

end
