(* ===== verification/GrowthChart.thy ===== *)
theory GrowthChart
  imports ContentStats RumNormalize Chart
begin

text \<open>
  The growth curve and its calendar of \<open>apps/web/src/lib/stats/content.ts\<close>: the step curve drawn
  over the publication dates, and the daily readings over the same curve. \<open>NaN\<close>, the value of a date
  that cannot be parsed, is \<open>None\<close>; so is a reading that throws.
\<close>

section \<open>The curve\<close>

datatype curve_step = MoveTo "rat option" rat | StepTo "rat option" rat

record growth_plot =
  gp_ticks :: "(int \<times> rat) list"
  gp_path :: "curve_step list"
  gp_end :: "rat option \<times> rat"

definition parse_label :: "string option \<Rightarrow> int option" where
  "parse_label d = Option.bind d date_parse"

definition growth_scale :: "growth_series \<Rightarrow> scale" where
  "growth_scale series = chart_scale (of_nat (gs_total series))"

definition curve_x :: "int \<Rightarrow> int \<Rightarrow> int \<Rightarrow> rat" where
  "curve_x start finish date =
     (if finish = start then 50 else 1 + of_int (date - start) / of_int (finish - start) * 98)"

definition curve_point :: "growth_series \<Rightarrow> string \<times> nat \<Rightarrow> rat option \<times> rat" where
  "curve_point series point =
     ((case (parse_label (gs_first series), parse_label (gs_last series), date_parse (fst point)) of
         (Some start, Some finish, Some date) \<Rightarrow> Some (curve_x start finish date)
       | (Some start, Some finish, None) \<Rightarrow> if finish = start then Some 50 else None
       | _ \<Rightarrow> None),
      scale_y (sc_maximum (growth_scale series)) (of_nat (snd point)))"

definition growth_plot_of :: "growth_series \<Rightarrow> growth_plot option" where
  "growth_plot_of series =
     (if gs_points series = [] then None
      else let points = map (curve_point series) (gs_points series)
        in Some \<lparr>gp_ticks = sc_ticks (growth_scale series),
             gp_path = (case points of [] \<Rightarrow> []
               | (x, y) # rest \<Rightarrow> MoveTo x y # map (\<lambda>(x, y). StepTo x y) rest),
             gp_end = last points\<rparr>)"

section \<open>The calendar\<close>

record growth_point =
  gc_date :: string
  gc_total :: nat
  gc_added :: int
  gc_x :: "rat option"
  gc_y :: rat

definition calendar_count :: "growth_series \<Rightarrow> rat option" where
  "calendar_count series =
     (if growth_plot_of series = None then Some 0
      else case (parse_label (gs_last series), parse_label (gs_first series)) of
        (Some finish, Some start) \<Rightarrow> Some (of_int (finish - start) / 86400000 + 1)
      | _ \<Rightarrow> None)"

function calendar_index :: "string list \<Rightarrow> string \<Rightarrow> nat \<Rightarrow> nat \<Rightarrow> nat" where
  "calendar_index dates date low high =
     (if low < high then
        (let middle = (low + high + 1) div 2
         in if dates ! middle \<le> date then calendar_index dates date middle high
            else calendar_index dates date low (middle - 1))
      else low)"
  by auto
termination by (relation "measure (\<lambda>(_, _, low, high). high - low)") auto

declare calendar_index.simps [simp del]

definition calendar_x :: "rat \<Rightarrow> nat \<Rightarrow> rat" where
  "calendar_x n index = (if n = 1 then 50 else 1 + of_nat index / (n - 1) * 98)"

definition calendar_point :: "growth_series \<Rightarrow> nat \<Rightarrow> growth_point option" where
  "calendar_point series index =
     (case parse_label (gs_first series) of
        None \<Rightarrow> None
      | Some start \<Rightarrow>
        (let ms = start + int index * 86400000; date = iso_date ms; points = gs_points series
         in if \<not> valid_time ms \<or> points = [] then None
            else let low = calendar_index (map fst points) date 0 (length points - 1); item = points ! low
              in Some \<lparr>gc_date = date, gc_total = snd item,
                   gc_added = (if fst item = date
                     then int (snd item) - (if low = 0 then 0 else int (snd (points ! (low - 1)))) else 0),
                   gc_x = map_option (\<lambda>n. calendar_x n index) (calendar_count series),
                   gc_y = scale_y (sc_maximum (growth_scale series)) (of_nat (snd item))\<rparr>))"

section \<open>The search\<close>

lemma calendar_index_range: "low \<le> high \<Longrightarrow> calendar_index ds d low high \<in> {low..high}"
proof (induction ds d low high rule: calendar_index.induct)
  case (1 ds d low high)
  let ?m = "(low + high + 1) div 2"
  show ?case
  proof (cases "low < high")
    case True
    then have m: "low \<le> ?m - 1" "low \<le> ?m" "?m \<le> high" by auto
    then have "?m - 1 \<le> high" by simp
    with 1 True m show ?thesis by (subst calendar_index.simps) (fastforce simp: Let_def)
  qed (use 1 in \<open>simp add: calendar_index.simps\<close>)
qed

lemma calendar_index_finds:
  assumes "ds ! low \<le> d" "low \<le> high" "high + 1 < length ds \<Longrightarrow> d < ds ! (high + 1)"
  shows "ds ! calendar_index ds d low high \<le> d
    \<and> (calendar_index ds d low high + 1 < length ds \<longrightarrow> d < ds ! (calendar_index ds d low high + 1))"
  using assms
proof (induction ds d low high rule: calendar_index.induct)
  case (1 ds d low high)
  let ?m = "(low + high + 1) div 2"
  show ?case
  proof (cases "low < high")
    case True
    then have m: "low \<le> ?m - 1" "?m \<le> high" "?m - 1 + 1 = ?m" by auto
    show ?thesis
    proof (cases "ds ! ?m \<le> d")
      case le: True
      have r: "calendar_index ds d low high = calendar_index ds d ?m high"
        using True le by (subst calendar_index.simps) (simp add: Let_def)
      show ?thesis unfolding r by (rule 1(1) [OF True refl le le m(2) 1(5)])
    next
      case False
      have r: "calendar_index ds d low high = calendar_index ds d low (?m - 1)"
        using True False by (subst calendar_index.simps) (simp add: Let_def)
      show ?thesis unfolding r
        by (rule 1(2) [OF True refl False 1(3) m(1)]) (use False m(3) in simp)
    qed
  next
    case False
    with 1(4) have "low = high" by simp
    then show ?thesis using 1(3,5) by (simp add: calendar_index.simps)
  qed
qed

section \<open>Days of the curve\<close>

lemma plain_date_is_day_rx: "plain_date_rx = day_rx"
  by (simp add: plain_date_rx_def day_rx_def)

lemma plain_date_four_digit:
  assumes "rx_test plain_date_rx (iso_date ms)" shows "four_digit_time ms"
proof (rule ccontr)
  assume "\<not> four_digit_time ms"
  then have y: "\<not> (0 \<le> year_of_day (ms div ms_per_day) \<and> year_of_day (ms div ms_per_day) \<le> 9999)"
    by (simp add: four_digit_time_def four_digit_year_def)
  obtain c rest where c: "iso_time ms = c # rest" "c = CHR ''-'' \<or> c = CHR ''+''"
    using y by (auto simp: iso_time_def iso_day_def iso_year_def)
  then obtain rest' where "iso_date ms = c # rest'" by (simp add: iso_date_def)
  with assms have "in_class digit_class c"
    by (auto simp: rx_test_lang plain_date_rx_def rx_lang_Seq rx_lang_Times_length Cons_eq_append_conv
        simp del: Times.simps)
  with c(2) show False by (auto simp: digit_class_def less_eq_char_def)
qed


text \<open>A curve over the four digit days \<open>ds\<close>.\<close>

definition dated :: "growth_series \<Rightarrow> int list \<Rightarrow> bool" where
  "dated series ds \<longleftrightarrow> ds \<noteq> [] \<and> map fst (gs_points series) = map iso_day ds \<and> sorted_wrt (<) ds
     \<and> list_all four_digit_year ds
     \<and> gs_first series = Some (iso_day (hd ds)) \<and> gs_last series = Some (iso_day (last ds))"

lemma dated_nonempty: "dated series ds \<Longrightarrow> gs_points series \<noteq> []"
  by (auto simp: dated_def)

lemma dated_length: "dated series ds \<Longrightarrow> length (gs_points series) = length ds"
  by (simp add: dated_def) (metis length_map)

lemma dated_nth: "dated series ds \<Longrightarrow> k < length ds \<Longrightarrow> fst (gs_points series ! k) = iso_day (ds ! k)"
proof -
  assume d: "dated series ds" and k: "k < length ds"
  then have "map fst (gs_points series) ! k = map iso_day ds ! k" by (simp add: dated_def)
  then show "fst (gs_points series ! k) = iso_day (ds ! k)" using k dated_length [OF d] by simp
qed

lemma dated_labels:
  assumes "dated series ds"
  shows "parse_label (gs_first series) = Some (hd ds * ms_per_day)"
    and "parse_label (gs_last series) = Some (last ds * ms_per_day)"
proof -
  have "ds \<noteq> []" and four: "\<forall>d \<in> set ds. four_digit_year d"
    using assms by (simp_all add: dated_def list_all_iff)
  then have "four_digit_year (hd ds)" "four_digit_year (last ds)" by simp_all
  from date_parse_iso_day [OF this(1)] date_parse_iso_day [OF this(2)] assms
  show "parse_label (gs_first series) = Some (hd ds * ms_per_day)"
    "parse_label (gs_last series) = Some (last ds * ms_per_day)"
    unfolding dated_def parse_label_def by simp_all
qed

lemma dated_order:
  assumes "dated series ds" "k < length ds"
  shows "hd ds \<le> ds ! k" "ds ! k \<le> last ds" "four_digit_year (ds ! k)"
proof -
  have s: "sorted ds" and ne: "ds \<noteq> []" using assms(1) by (auto simp: dated_def strict_sorted_iff)
  show "hd ds \<le> ds ! k" using s ne assms(2) by (simp add: hd_conv_nth sorted_nth_mono)
  show "ds ! k \<le> last ds" using s ne assms(2) by (simp add: last_conv_nth sorted_nth_mono)
  show "four_digit_year (ds ! k)" using assms by (simp add: dated_def list_all_length)
qed

lemma calendar_count_dated:
  assumes "dated series ds"
  shows "calendar_count series = Some (of_int (last ds - hd ds + 1))"
proof -
  obtain plot where "growth_plot_of series = Some plot"
    using dated_nonempty [OF assms] by (simp add: growth_plot_of_def Let_def)
  moreover have "last ds * ms_per_day - hd ds * ms_per_day = (last ds - hd ds) * ms_per_day"
    by (simp add: algebra_simps)
  ultimately show ?thesis
    by (simp add: calendar_count_def dated_labels [OF assms] ms_per_day_def)
qed

lemma day_between:
  assumes "dated series ds" "int i \<le> last ds - hd ds"
  shows "four_digit_year (hd ds + int i)"
proof (rule four_digit_between)
  have ne: "ds \<noteq> []" using assms(1) by (simp add: dated_def)
  show "four_digit_year (hd ds)" "four_digit_year (last ds)"
    using assms(1) ne by (auto simp: dated_def list_all_iff)
qed (use assms(2) in auto)

lemma calendar_point_dated:
  assumes "dated series ds" "int i \<le> last ds - hd ds"
  defines "d \<equiv> hd ds + int i"
  obtains k where "k < length ds" "ds ! k \<le> d" "k + 1 < length ds \<Longrightarrow> d < ds ! (k + 1)"
    and "calendar_point series i = Some \<lparr>gc_date = iso_day d, gc_total = snd (gs_points series ! k),
      gc_added = (if ds ! k = d then int (snd (gs_points series ! k))
        - (if k = 0 then 0 else int (snd (gs_points series ! (k - 1)))) else 0),
      gc_x = Some (calendar_x (of_int (last ds - hd ds + 1)) i),
      gc_y = scale_y (sc_maximum (growth_scale series)) (of_nat (snd (gs_points series ! k)))\<rparr>"
proof
  define k where "k = calendar_index (map fst (gs_points series)) (iso_day d) 0 (length (gs_points series) - Suc 0)"
  have ne: "ds \<noteq> []" and dates: "map fst (gs_points series) = map iso_day ds"
    using assms(1) by (auto simp: dated_def)
  have four: "four_digit_year d" unfolding d_def by (rule day_between [OF assms(1,2)])
  have less: "iso_day (ds ! j) \<le> iso_day d \<longleftrightarrow> ds ! j \<le> d" if "j < length ds" for j
    using iso_day_less [OF four dated_order(3) [OF assms(1) that]] by (simp add: not_less [symmetric])
  note len = dated_length [OF assms(1)]
  show k: "k < length ds"
    using calendar_index_range [of 0 "length ds - 1" "map fst (gs_points series)" "iso_day d"] ne
    by (cases ds) (auto simp: len k_def)
  have finds: "map fst (gs_points series) ! k \<le> iso_day d
      \<and> (k + 1 < length (map fst (gs_points series)) \<longrightarrow> iso_day d < map fst (gs_points series) ! (k + 1))"
    unfolding k_def
  proof (rule calendar_index_finds)
    show "map fst (gs_points series) ! 0 \<le> iso_day d"
      using less [of 0] ne by (simp add: dates d_def hd_conv_nth)
  qed (use ne len in auto)
  show "ds ! k \<le> d" using finds less [OF k] k by (simp add: dates)
  show "k + 1 < length ds \<Longrightarrow> d < ds ! (k + 1)"
    using finds less [of "k + 1"] by (simp add: dates) (metis not_le)
  have ms: "hd ds * ms_per_day + int i * 86400000 = d * ms_per_day"
    by (simp add: d_def ms_per_day_def algebra_simps)
  have date: "iso_date (d * ms_per_day) = iso_day d"
    using four by (simp add: iso_date_eq four_digit_time_def ms_per_day_def)
  have same: "iso_day (ds ! k) = iso_day d \<longleftrightarrow> ds ! k = d"
    by (rule iso_day_inject [OF dated_order(3) [OF assms(1) k] four])
  show "calendar_point series i = Some \<lparr>gc_date = iso_day d, gc_total = snd (gs_points series ! k),
      gc_added = (if ds ! k = d then int (snd (gs_points series ! k))
        - (if k = 0 then 0 else int (snd (gs_points series ! (k - 1)))) else 0),
      gc_x = Some (calendar_x (of_int (last ds - hd ds + 1)) i),
      gc_y = scale_y (sc_maximum (growth_scale series)) (of_nat (snd (gs_points series ! k)))\<rparr>"
    using dated_nonempty [OF assms(1)] four_digit_valid_time [OF four]
    by (simp add: calendar_point_def dated_labels [OF assms(1)] ms date calendar_count_dated [OF assms(1)]
        k_def [symmetric] dated_nth [OF assms(1) k] same Let_def)
qed

section \<open>The samples of a calendar are a series\<close>

interpretation calendar: chart_series n "calendar_x (of_nat n)" for n
proof
  fix i j assume ij: "i < j" "j < n"
  then have "(0 :: rat) < of_nat n - 1" by (simp add: less_diff_eq)
  with ij show "calendar_x (of_nat n) i < calendar_x (of_nat n) j"
    by (simp add: calendar_x_def divide_strict_right_mono)
next
  fix i assume i: "i < n"
  show "0 \<le> calendar_x (of_nat n) i \<and> calendar_x (of_nat n) i \<le> 100"
  proof (cases "n = 1")
    case False
    with i have "(0 :: rat) < of_nat n - 1" by (simp add: less_diff_eq)
    from fraction_bounds [OF i this order_refl, of 98] False show ?thesis unfolding calendar_x_def by simp
  qed (simp add: calendar_x_def)
qed

section \<open>The calendar of the content\<close>

lemma day_of_four_digit:
  assumes "countable_item c" "counted t c"
  shows "four_digit_year (firstPublishedAt c div ms_per_day)
    \<and> day_of c = iso_day (firstPublishedAt c div ms_per_day)"
  using assms counted_not_post [OF assms(2)] plain_date_four_digit [of "firstPublishedAt c"]
  by (auto simp: countable_item_def day_of_def four_digit_time_def iso_date_eq simp del: rx_test.simps)

lemma content_dated:
  assumes "content_statistics p = Inr (Some stats)" "map_of (cs_series stats) t = Some series"
    and ne: "gs_points series \<noteq> []"
  obtains ds where "dated series ds"
proof
  note curve = growth_curve [OF assms(1,2)]
  let ?dates = "map fst (gs_points series)"
  define ds where "ds = map (\<lambda>s. the (parse_day s)) ?dates"
  have day: "\<exists>d. four_digit_year d \<and> s = iso_day d" if "s \<in> set ?dates" for s
  proof -
    from that obtain k where "(s, k) \<in> set (gs_points series)" by auto
    then obtain c where "c \<in> set (map_values (contentById p))" "counted t c" "day_of c = s"
      using curve by blast
    moreover from this have "countable_item c" using curve by (auto simp: list_all_iff)
    ultimately show ?thesis using day_of_four_digit by blast
  qed
  then have each: "four_digit_year (the (parse_day s)) \<and> iso_day (the (parse_day s)) = s"
    if "s \<in> set ?dates" for s
    using parse_iso_day that by fastforce
  have dates: "?dates = map iso_day ds"
    unfolding ds_def map_map [of iso_day] by (rule map_idI [symmetric]) (use each in auto)
  have four: "list_all four_digit_year ds" unfolding ds_def list_all_iff using each by auto
  have "sorted_wrt (\<lambda>a b. iso_day a < iso_day b) ds"
    using curve unfolding dates by (simp add: sorted_wrt_map)
  then have "sorted_wrt (<) ds"
    by (rule sorted_wrt_mono_rel [rotated]) (use four iso_day_less in \<open>auto simp: list_all_iff\<close>)
  moreover have "gs_first series = Some (hd ?dates)" "gs_last series = Some (last ?dates)"
    using content_statistics_counts(2) [OF assms(1)] assms(2) ne
    by (cases t; cases "gs_points series"; auto simp: growth_types_def growth_series_of_def last_map
        split: prod.splits)+
  moreover have "ds \<noteq> []" using ne dates by auto
  ultimately show "dated series ds"
    using dates four by (simp add: dated_def hd_map last_map)
qed

lemma number_mono: "(\<And>c. c \<in> set xs \<Longrightarrow> P c \<longleftrightarrow> Q c) \<Longrightarrow> number P xs = number Q xs"
  unfolding number_def by (rule arg_cong [where f = length], rule filter_cong) auto

lemma number_split:
  "(\<And>c. c \<in> set xs \<Longrightarrow> P c \<longleftrightarrow> Q c \<or> R c) \<Longrightarrow> (\<And>c. c \<in> set xs \<Longrightarrow> \<not> (Q c \<and> R c))
    \<Longrightarrow> number P xs = number Q xs + number R xs"
  by (induction xs) auto

text \<open>The days of a curve around the day that is read.\<close>

lemma day_position:
  fixes d :: int
  assumes "sorted_wrt (<) ds" "k < length ds" "ds ! k \<le> d" "k + 1 < length ds \<longrightarrow> d < ds ! (k + 1)" "e \<in> set ds"
  shows "e \<le> d \<longleftrightarrow> e \<le> ds ! k" and "k = 0 \<Longrightarrow> e \<le> ds ! k \<longleftrightarrow> e = ds ! k"
    and "k > 0 \<Longrightarrow> e \<le> ds ! k \<longleftrightarrow> e \<le> ds ! (k - 1) \<or> e = ds ! k" and "k > 0 \<Longrightarrow> ds ! (k - 1) < ds ! k"
proof -
  obtain j where j: "j < length ds" "e = ds ! j" using assms(5) by (auto simp: in_set_conv_nth)
  have less: "ds ! a < ds ! b" if "a < b" "b < length ds" for a b
    using assms(1) that by (auto simp: sorted_wrt_iff_nth_less)
  have le: "ds ! a \<le> ds ! b \<longleftrightarrow> a \<le> b" if "a < length ds" "b < length ds" for a b
    using less [of a b] less [of b a] that by (cases a b rule: linorder_cases) auto
  show "e \<le> d \<longleftrightarrow> e \<le> ds ! k"
    using assms(2-4) j le [of "k + 1" j] le [of j k] by (cases "k + 1 \<le> j") auto
  show "k = 0 \<Longrightarrow> e \<le> ds ! k \<longleftrightarrow> e = ds ! k"
    using le [OF j(1) assms(2)] le [OF assms(2) j(1)] j(2) by auto
  show "k > 0 \<Longrightarrow> e \<le> ds ! k \<longleftrightarrow> e \<le> ds ! (k - 1) \<or> e = ds ! k"
    using le [OF j(1) assms(2)] le [OF j(1), of "k - 1"] less [of "k - 1" k] j(2) assms(2) by (cases "j = k") auto
  show "k > 0 \<Longrightarrow> ds ! (k - 1) < ds ! k" using less [of "k - 1" k] assms(2) by simp
qed

text \<open>The points of a curve as day numbers and counts of items.\<close>

definition day_number_of :: "content \<Rightarrow> int" where
  "day_number_of c = firstPublishedAt c div ms_per_day"

lemma curve_counts:
  assumes "content_statistics p = Inr (Some stats)" "map_of (cs_series stats) t = Some series" "dated series ds"
  defines "items \<equiv> filter (counted t) (map_values (contentById p))"
  shows "c \<in> set items \<Longrightarrow> day_number_of c \<in> set ds"
    and "c \<in> set items \<Longrightarrow> day_of c = iso_day (day_number_of c) \<and> four_digit_year (day_number_of c)"
    and "k < length ds \<Longrightarrow> snd (gs_points series ! k) = number (\<lambda>c. day_number_of c \<le> ds ! k) items"
    and "gs_total series = length items"
proof -
  note curve = growth_curve [OF assms(1,2)]
  show day: "day_of c = iso_day (day_number_of c) \<and> four_digit_year (day_number_of c)" if "c \<in> set items" for c
    using that curve day_of_four_digit [of c t] by (auto simp: items_def day_number_of_def list_all_iff)
  show "day_number_of c \<in> set ds" if c: "c \<in> set items"
  proof -
    have "\<exists>k. (day_of c, k) \<in> set (gs_points series)" using curve c by (auto simp: items_def)
    then have "day_of c \<in> set (map fst (gs_points series))" by force
    also have "set (map fst (gs_points series)) = iso_day ` set ds"
      using assms(3) unfolding dated_def by (simp only: set_map)
    finally obtain e where "e \<in> set ds" "day_of c = iso_day e" by blast
    then show ?thesis using day [OF c] assms(3) iso_day_inject by (auto simp: dated_def list_all_iff)
  qed
  show "gs_total series = length items" using curve by (simp add: items_def number_def)
  show "snd (gs_points series ! k) = number (\<lambda>c. day_number_of c \<le> ds ! k) items" if k: "k < length ds"
  proof -
    have "gs_points series ! k \<in> set (gs_points series)" using k dated_length [OF assms(3)] by simp
    then have "(iso_day (ds ! k), snd (gs_points series ! k)) \<in> set (gs_points series)"
      using dated_nth [OF assms(3) k] by (metis prod.collapse)
    then have "snd (gs_points series ! k) =
        number (\<lambda>c. counted t c \<and> day_of c \<le> iso_day (ds ! k)) (map_values (contentById p))"
      using curve by blast
    also have "\<dots> = number (\<lambda>c. day_of c \<le> iso_day (ds ! k)) items"
      by (simp add: number_def items_def conj_commute)
    also have "\<dots> = number (\<lambda>c. day_number_of c \<le> ds ! k) items"
      by (rule number_mono)
        (use day iso_day_less [OF dated_order(3) [OF assms(3) k]] in \<open>simp flip: not_less\<close>)
    finally show ?thesis .
  qed
qed

text \<open>
  C26. Reading the growth calendar at its \<open>i\<close>th day gives the \<open>i\<close>th day after the first publication,
  the number of items first published up to that day, and the number first published on it.
\<close>

theorem growth_calendar_correct:
  assumes "content_statistics p = Inr (Some stats)" "map_of (cs_series stats) t = Some series"
    and "gs_points series \<noteq> []" "calendar_count series = Some n" "of_nat i < n"
  shows "\<exists>start point. parse_label (gs_first series) = Some start \<and> calendar_point series i = Some point
    \<and> gc_date point = iso_date (start + int i * 86400000)
    \<and> gc_total point = number (\<lambda>c. counted t c \<and> day_of c \<le> gc_date point) (map_values (contentById p))
    \<and> gc_added point = int (number (\<lambda>c. counted t c \<and> day_of c = gc_date point) (map_values (contentById p)))
    \<and> 12 \<le> gc_y point \<and> gc_y point \<le> 92"
proof -
  let ?points = "gs_points series"
  define items where "items = filter (counted t) (map_values (contentById p))"
  obtain ds where ds: "dated series ds" by (rule content_dated [OF assms(1-3)])
  note counts = curve_counts [OF assms(1,2) ds, folded items_def]
  define d where "d = hd ds + int i"
  have "(of_int (int i) :: rat) < of_int (last ds - hd ds + 1)"
    using assms(4,5) calendar_count_dated [OF ds] by simp
  then have i: "int i \<le> last ds - hd ds" unfolding of_int_less_iff by linarith
  have four: "four_digit_year d" unfolding d_def by (rule day_between [OF ds i])
  obtain k where k: "k < length ds" "ds ! k \<le> d" "k + 1 < length ds \<Longrightarrow> d < ds ! (k + 1)"
    and point: "calendar_point series i = Some \<lparr>gc_date = iso_day d, gc_total = snd (?points ! k),
      gc_added = (if ds ! k = d then int (snd (?points ! k))
        - (if k = 0 then 0 else int (snd (?points ! (k - 1)))) else 0),
      gc_x = Some (calendar_x (of_int (last ds - hd ds + 1)) i),
      gc_y = scale_y (sc_maximum (growth_scale series)) (of_nat (snd (?points ! k)))\<rparr>"
    using calendar_point_dated [OF ds i] unfolding d_def by blast
  have "sorted_wrt (<) ds" using ds by (simp add: dated_def)
  moreover have "k + 1 < length ds \<longrightarrow> d < ds ! (k + 1)" using k(3) by blast
  ultimately have "sorted_wrt (<) ds" "k + 1 < length ds \<longrightarrow> d < ds ! (k + 1)" by blast+
  note position = day_position [OF this(1) k(1,2) this(2) counts(1)]
  have upto: "number (\<lambda>c. counted t c \<and> day_of c \<le> iso_day d) (map_values (contentById p)) =
      number (\<lambda>c. day_number_of c \<le> d) items"
  proof -
    have "number (\<lambda>c. day_number_of c \<le> d) items = number (\<lambda>c. day_of c \<le> iso_day d) items"
      by (rule number_mono) (use counts(2) iso_day_less [OF four] in \<open>simp flip: not_less\<close>)
    then show ?thesis by (simp add: number_def items_def conj_commute)
  qed
  have on: "number (\<lambda>c. counted t c \<and> day_of c = iso_day d) (map_values (contentById p)) =
      number (\<lambda>c. day_number_of c = d) items"
  proof -
    have "number (\<lambda>c. day_number_of c = d) items = number (\<lambda>c. day_of c = iso_day d) items"
      by (rule number_mono) (use counts(2) iso_day_inject [OF _ four] in auto)
    then show ?thesis by (simp add: number_def items_def conj_commute)
  qed
  have total: "snd (?points ! k) = number (\<lambda>c. day_number_of c \<le> d) items"
    unfolding counts(3) [OF k(1)] by (rule number_mono) (simp add: position(1))
  have added: "(if ds ! k = d then int (snd (?points ! k))
      - (if k = 0 then 0 else int (snd (?points ! (k - 1)))) else 0) = int (number (\<lambda>c. day_number_of c = d) items)"
  proof (cases "ds ! k = d")
    case False
    have "day_number_of c \<noteq> d" if "c \<in> set items" for c
      using position(1) [OF that] False k(2) by auto
    then have "filter (\<lambda>c. day_number_of c = d) items = []" by (auto simp: filter_empty_conv)
    with False show ?thesis by (simp add: number_def)
  next
    case same: True
    show ?thesis
    proof (cases "k = 0")
      case True
      have "number (\<lambda>c. day_number_of c \<le> d) items = number (\<lambda>c. day_number_of c = d) items"
        by (rule number_mono) (use position(2) same True in auto)
      with same True total show ?thesis by simp
    next
      case False
      have "number (\<lambda>c. day_number_of c \<le> d) items =
          number (\<lambda>c. day_number_of c \<le> ds ! (k - 1)) items + number (\<lambda>c. day_number_of c = d) items"
        by (rule number_split) (use position(3,4) same False in auto)
      with same False total counts(3) [of "k - 1"] k(1) show ?thesis by simp
    qed
  qed
  have y: "12 \<le> scale_y (sc_maximum (growth_scale series)) (of_nat (snd (?points ! k)))
      \<and> scale_y (sc_maximum (growth_scale series)) (of_nat (snd (?points ! k))) \<le> 92"
  proof (rule scale_y_bounds)
    have "snd (?points ! k) \<le> gs_total series"
      unfolding total counts(4) number_def by (rule length_filter_le)
    then have "(of_nat (snd (?points ! k)) :: rat) \<le> of_nat (gs_total series)" by simp
    then show "of_nat (snd (?points ! k)) \<le> (of_int (sc_maximum (growth_scale series)) :: rat)"
      using scale_maximum_covers [of "of_nat (gs_total series)"]
      by (simp add: growth_scale_def chart_scale_def Let_def)
    show "1 \<le> sc_maximum (growth_scale series)"
      by (simp add: growth_scale_def chart_scale_def Let_def scale_maximum_pos)
  qed simp
  have date: "iso_date (hd ds * ms_per_day + int i * 86400000) = iso_day d"
    using iso_date_eq [of "d * ms_per_day"] four
    by (simp add: four_digit_time_def d_def ms_per_day_def algebra_simps)
  show ?thesis
    by (rule exI [of _ "hd ds * ms_per_day"], rule exI, intro conjI, rule dated_labels(1) [OF ds], rule point)
      (simp_all only: growth_point.simps date added upto on y, rule total)
qed

lemma sample_growth:
  obtains stats series ds where "content_statistics (publication_of sample_normalized) = Inr (Some stats)"
    "map_of (cs_series stats) AllGrowth = Some series" "dated series ds"
proof -
  let ?p = "publication_of sample_normalized"
  have items: "map_values (contentById ?p) = [sample_note, sample_article, sample_topic]"
    by (simp add: content_index_def map_values_def)
  have generation: "generation sample_normalized = 7"
    by (simp add: sample_normalized_def sample_fields_def)
  have "countable_item sample_note" "countable_item sample_article" "countable_item sample_topic"
    by (simp_all add: countable_item_def day_of_def valid_time_def sample_dates del: rx_test.simps)
  then have ok: "\<forall>c \<in> set [sample_note, sample_article, sample_topic]. countable_item c" by simp
  have "\<exists>stats. content_statistics ?p = Inr (Some stats)"
    unfolding content_statistics_def items
    by (simp add: generation ebind_Inr_iff count_items [THEN iffD2, OF conjI, OF ok refl] Let_def
        del: efold.simps)
  then obtain stats where stats: "content_statistics ?p = Inr (Some stats)" by blast
  then obtain series where series: "map_of (cs_series stats) AllGrowth = Some series"
    by (auto simp: content_statistics_def growth_types_def Let_def ebind_Inr_iff split: if_splits)
  have "counted AllGrowth sample_note" by (simp add: counted_def)
  with growth_curve [OF stats series] have "\<exists>k. (day_of sample_note, k) \<in> set (gs_points series)"
    unfolding items by auto
  then have "gs_points series \<noteq> []" by auto
  then obtain ds where "dated series ds" by (rule content_dated [OF stats series])
  then show ?thesis using that stats series by blast
qed

lemma growth_calendar_correct_witness:
  "\<exists>stats series point. content_statistics (publication_of sample_normalized) = Inr (Some stats)
    \<and> map_of (cs_series stats) AllGrowth = Some series \<and> calendar_point series 0 = Some point
    \<and> 12 \<le> gc_y point \<and> gc_y point \<le> 92"
proof -
  obtain stats series ds where s: "content_statistics (publication_of sample_normalized) = Inr (Some stats)"
      "map_of (cs_series stats) AllGrowth = Some series" "dated series ds" by (rule sample_growth)
  have "ds \<noteq> []" using s(3) by (simp add: dated_def)
  then have "hd ds \<le> last ds" using dated_order(1,2) [OF s(3), of 0] by simp
  then have "(0 :: rat) < of_int (last ds - hd ds + 1)" by (simp only: of_int_0_less_iff)
  then have "of_nat 0 < (of_int (last ds - hd ds + 1) :: rat)" by simp
  from growth_calendar_correct [OF s(1,2) dated_nonempty [OF s(3)] calendar_count_dated [OF s(3)] this]
  show ?thesis using s(1,2) by blast
qed

section \<open>The curve and the calendar agree\<close>

lemma curve_x_calendar:
  assumes "start = a * ms_per_day" "finish = b * ms_per_day" "a \<le> d" "d \<le> b"
  shows "curve_x start finish (d * ms_per_day) = calendar_x (of_int (b - a + 1)) (nat (d - a))"
proof (cases "a = b")
  case False
  have e: "d * ms_per_day - start = (d - a) * ms_per_day" "finish - start = (b - a) * ms_per_day"
    by (simp_all add: assms left_diff_distrib)
  have "of_int ((d - a) * ms_per_day) / of_int ((b - a) * ms_per_day) = (of_int (d - a) / of_int (b - a) :: rat)"
    unfolding of_int_mult ms_per_day_def by (rule mult_divide_mult_cancel_right) simp
  moreover have "finish \<noteq> start" using False by (simp add: assms ms_per_day_def)
  moreover have "(of_nat (nat (d - a)) :: rat) = of_int (d - a)" by (rule of_nat_nat) (use assms(3) in linarith)
  ultimately show ?thesis
    unfolding curve_x_def calendar_x_def e using False by simp
qed (simp add: assms curve_x_def calendar_x_def)

text \<open>
  Pointing at a step of the growth curve reads that step: the sample of the calendar nearest to
  the position of the \<open>j\<close>th point of the curve has the date, the total and the height of that point.
\<close>

lemma growth_step_readable:
  assumes "content_statistics p = Inr (Some stats)" "map_of (cs_series stats) t = Some series"
    and "j < length (gs_points series)"
  shows "\<exists>n x y i point. calendar_count series = Some (of_nat n)
    \<and> curve_point series (gs_points series ! j) = (Some x, y) \<and> 0 \<le> x \<and> x \<le> 100
    \<and> nearest_sample_index n (calendar_x (of_nat n)) x = int i \<and> calendar_point series i = Some point
    \<and> (gc_date point, gc_total point) = gs_points series ! j \<and> gc_x point = Some x \<and> gc_y point = y"
proof -
  have "gs_points series \<noteq> []" using assms(3) by auto
  from content_dated [OF assms(1,2) this] obtain ds where ds: "dated series ds" .
  have j: "j < length ds" using assms(3) dated_length [OF ds] by simp
  note order = dated_order [OF ds j]
  define i where "i = nat (ds ! j - hd ds)"
  define n where "n = nat (last ds - hd ds + 1)"
  have i: "int i \<le> last ds - hd ds" "hd ds + int i = ds ! j" "i < n"
    using order by (auto simp: i_def n_def)
  have n: "(of_int (last ds - hd ds + 1) :: rat) = of_nat n"
    unfolding n_def by (rule of_nat_nat [symmetric]) (use order in linarith)
  obtain k where k: "k < length ds" "ds ! k \<le> ds ! j" "k + 1 < length ds \<Longrightarrow> ds ! j < ds ! (k + 1)"
    and point: "calendar_point series i = Some \<lparr>gc_date = iso_day (ds ! j), gc_total = snd (gs_points series ! k),
      gc_added = (if ds ! k = ds ! j then int (snd (gs_points series ! k))
        - (if k = 0 then 0 else int (snd (gs_points series ! (k - 1)))) else 0),
      gc_x = Some (calendar_x (of_nat n) i),
      gc_y = scale_y (sc_maximum (growth_scale series)) (of_nat (snd (gs_points series ! k)))\<rparr>"
    using calendar_point_dated [OF ds i(1)] unfolding i(2) n by blast
  have "sorted_wrt (<) ds" using ds by (simp add: dated_def)
  then have less: "ds ! a < ds ! b" if "a < b" "b < length ds" for a b
    using that by (simp add: sorted_wrt_iff_nth_less)
  have "\<not> j < k" using less [of j k] k(1,2) by auto
  moreover have "\<not> k < j"
  proof
    assume "k < j"
    then have "k + 1 = j \<or> k + 1 < j" by linarith
    then have "ds ! (k + 1) \<le> ds ! j" using less [of "k + 1" j] j by auto
    moreover have "ds ! j < ds ! (k + 1)" by (rule k(3)) (use \<open>k < j\<close> j in linarith)
    ultimately show False by simp
  qed
  ultimately have kj: "k = j" by simp
  have "date_parse (fst (gs_points series ! j)) = Some (ds ! j * ms_per_day)"
    using dated_nth [OF ds j] date_parse_iso_day [OF order(3)] by simp
  then have curve: "curve_point series (gs_points series ! j) = (Some (calendar_x (of_nat n) i),
      scale_y (sc_maximum (growth_scale series)) (of_nat (snd (gs_points series ! j))))"
    using curve_x_calendar [OF refl refl order(1,2), unfolded n, folded i_def]
    by (simp add: curve_point_def dated_labels [OF ds])
  obtain pt where pt: "calendar_point series i = Some pt" "gc_date pt = iso_day (ds ! j)"
      "gc_total pt = snd (gs_points series ! j)" "gc_x pt = Some (calendar_x (of_nat n) i)"
      "gc_y pt = scale_y (sc_maximum (growth_scale series)) (of_nat (snd (gs_points series ! j)))"
    using point unfolding kj by simp
  have "calendar_count series = Some (of_nat n)" unfolding calendar_count_dated [OF ds] n ..
  moreover have "(gc_date pt, gc_total pt) = gs_points series ! j"
    using pt(2,3) dated_nth [OF ds j] by (simp add: prod_eq_iff)
  ultimately show ?thesis
    using curve calendar.on_plot [OF i(3)] calendar.nearest_hits [OF i(3)] pt(1,4,5) by blast
qed

lemma growth_step_readable_witness:
  "\<exists>stats series n x. content_statistics (publication_of sample_normalized) = Inr (Some stats)
    \<and> map_of (cs_series stats) AllGrowth = Some series \<and> calendar_count series = Some (of_nat n)
    \<and> fst (curve_point series (gs_points series ! 0)) = Some x \<and> 0 \<le> x \<and> x \<le> 100"
proof -
  obtain stats series ds where s: "content_statistics (publication_of sample_normalized) = Inr (Some stats)"
      "map_of (cs_series stats) AllGrowth = Some series" "dated series ds" by (rule sample_growth)
  have "0 < length (gs_points series)" using dated_nonempty [OF s(3)] by simp
  from growth_step_readable [OF s(1,2) this] show ?thesis using s(1,2) by (metis fst_conv)
qed

end
