(* ===== verification/ChartInteraction.thy ===== *)
theory ChartInteraction
  imports Chart
begin

text \<open>
  The interaction layer of \<open>apps/web/src/lib/stats/chart.ts\<close> as a state machine. The state holds the
  variables of \<open>createInteraction\<close> and the parts of the document it writes; an event carries what the
  handler reads of it, together with the rectangle of the plot, the viewport, and the size a rendered
  tooltip measures at that moment. Texts are kept as the data they are composed of, and
  \<open>preventDefault\<close> is left out. A chart that is not mounted is one that does not listen.
\<close>

section \<open>State\<close>

record 'r chart_sample =
  cs_date :: string
  cs_x :: rat
  cs_y :: "rat option"
  cs_rows :: "'r list"

record 'r chart_data =
  ser_count :: nat
  ser_sample :: "nat \<Rightarrow> 'r chart_sample"

record chart_rect =
  rect_left :: rat
  rect_top :: rat
  rect_width :: rat
  rect_height :: rat

record 'r surroundings =
  sur_rect :: chart_rect
  sur_viewport :: viewport
  sur_measure :: "string \<times> 'r list \<Rightarrow> rat \<times> rat"

datatype pointer_kind = MousePointer | TouchPointer | PenPointer

record pointer_at =
  ptr_x :: rat
  ptr_y :: rat
  ptr_touch :: bool

record drag_from =
  drag_id :: int
  drag_x :: rat
  drag_y :: rat

record 'r chart =
  tooltip_hidden :: bool
  guide_hidden :: bool
  dot_hidden :: bool
  guide_left :: rat
  dot_at :: "rat \<times> rat"
  tooltip_text :: "string \<times> 'r list"
  tooltip_at :: "rat \<times> rat"
  status_text :: "(string \<times> 'r list) option"
  tab_index :: "string option"
  described_by :: "string option"
  instructions_hidden :: bool
  instructions_id :: string
  captured :: "int list"
  frame :: bool
  current_index :: int
  rendered :: int
  destroyed :: bool
  pointer :: "pointer_at option"
  drag :: "drag_from option"
  tip_size :: "rat \<times> rat"
  original_tab_index :: "string option"
  original_description :: "string option"
  listening :: bool

section \<open>Operations\<close>

definition release_drag :: "'r chart \<Rightarrow> 'r chart" where
  "release_drag c = (case drag c of
     Some d \<Rightarrow> if drag_id d \<in> set (captured c) then c\<lparr>captured := removeAll (drag_id d) (captured c)\<rparr> else c
   | None \<Rightarrow> c)"

definition reset_chart :: "'r chart \<Rightarrow> 'r chart" where
  "reset_chart c = (release_drag c)\<lparr>frame := False, pointer := None, drag := None, current_index := -1,
     rendered := -1, tooltip_hidden := True, guide_hidden := True, dot_hidden := True, status_text := None\<rparr>"

text \<open>The part of \<open>show\<close> that moves the guide and the dot, and renders the tooltip anew.\<close>

definition move_marks :: "'r chart_sample \<Rightarrow> 'r chart \<Rightarrow> 'r chart" where
  "move_marks point c = c\<lparr>guide_hidden := False, guide_left := cs_x point, dot_hidden := (cs_y point = None),
     dot_at := (cs_x point, case cs_y point of Some y \<Rightarrow> y | None \<Rightarrow> snd (dot_at c)),
     tooltip_hidden := False\<rparr>"

definition render_tooltip :: "'r surroundings \<Rightarrow> 'r chart_sample \<Rightarrow> 'r chart \<Rightarrow> 'r chart" where
  "render_tooltip sur point c =
     (if rendered c \<noteq> current_index c then
        c\<lparr>tooltip_text := (cs_date point, cs_rows point), rendered := current_index c,
          tip_size := sur_measure sur (cs_date point, cs_rows point)\<rparr>
      else c)"

definition anchor :: "chart_rect \<Rightarrow> 'r chart_sample \<Rightarrow> pointer_at option \<Rightarrow> pointer_at" where
  "anchor rect point p = (case p of
     Some q \<Rightarrow> q
   | None \<Rightarrow> \<lparr>ptr_x = rect_left rect + rect_width rect * cs_x point / 100,
       ptr_y = rect_top rect + rect_height rect * (case cs_y point of Some y \<Rightarrow> y | None \<Rightarrow> 50) / 100,
       ptr_touch = False\<rparr>)"

definition place_tooltip :: "'r surroundings \<Rightarrow> 'r chart_sample \<Rightarrow> 'r chart \<Rightarrow> 'r chart" where
  "place_tooltip sur point c = (let a = anchor (sur_rect sur) point (pointer c) in
     c\<lparr>tooltip_at := tooltip_position (ptr_x a) (ptr_y a) (fst (tip_size c)) (snd (tip_size c))
         (sur_viewport sur) (ptr_touch a)\<rparr>)"

definition show_sample :: "'r surroundings \<Rightarrow> 'r chart_data \<Rightarrow> int \<Rightarrow> bool \<Rightarrow> 'r chart \<Rightarrow> 'r chart" where
  "show_sample sur series i speak c =
     (if destroyed c \<or> i < 0 \<or> ser_count series = 0 then c
      else let point = ser_sample series (nat i);
          shown = render_tooltip sur point (move_marks point (c\<lparr>current_index := i\<rparr>));
          spoken = (if speak then shown\<lparr>status_text := Some (cs_date point, cs_rows point)\<rparr> else shown)
        in place_tooltip sur point spoken)"

definition outside_rect :: "chart_rect \<Rightarrow> pointer_at \<Rightarrow> bool" where
  "outside_rect r p \<longleftrightarrow> rect_width r = 0 \<or> rect_height r = 0
     \<or> ptr_y p < rect_top r \<or> ptr_y p > rect_top r + rect_height r
     \<or> ptr_x p < rect_left r \<or> ptr_x p > rect_left r + rect_width r"

definition paint :: "'r surroundings \<Rightarrow> 'r chart_data \<Rightarrow> 'r chart \<Rightarrow> 'r chart" where
  "paint sur series c0 = (let c = c0\<lparr>frame := False\<rparr>; rect = sur_rect sur in
     (case pointer c of
        None \<Rightarrow> c
      | Some p \<Rightarrow>
          if destroyed c then c
          else if outside_rect rect p then reset_chart c
          else show_sample sur series
            (nearest_sample_index (ser_count series) (\<lambda>i. cs_x (ser_sample series i))
              ((ptr_x p - rect_left rect) / rect_width rect * 100)) False c))"

definition track :: "pointer_kind \<Rightarrow> rat \<Rightarrow> rat \<Rightarrow> 'r chart \<Rightarrow> 'r chart" where
  "track kind x y c =
     c\<lparr>pointer := Some \<lparr>ptr_x = x, ptr_y = y, ptr_touch = (kind = TouchPointer)\<rparr>, frame := True\<rparr>"

section \<open>Handlers\<close>

datatype chart_event =
    PointerDown "int option" pointer_kind int rat rat
  | PointerMove pointer_kind int rat rat
  | PointerUp
  | PointerLeave pointer_kind
  | PointerCancel
  | FocusEvent
  | BlurEvent
  | KeyDown string
  | PointerDownOutside
  | WindowMoved
  | AnimationFrame
  | PageHide bool
  | RootDetached

definition pointer_down :: "int option \<Rightarrow> pointer_kind \<Rightarrow> int \<Rightarrow> rat \<Rightarrow> rat \<Rightarrow> 'r chart \<Rightarrow> 'r chart" where
  "pointer_down button kind pid x y c =
     (if button \<noteq> Some 0 \<and> button \<noteq> None then c
      else track kind x y (if kind \<noteq> MousePointer
        then c\<lparr>drag := Some \<lparr>drag_id = pid, drag_x = x, drag_y = y\<rparr>\<rparr> else c))"

definition pointer_move :: "pointer_kind \<Rightarrow> int \<Rightarrow> rat \<Rightarrow> rat \<Rightarrow> 'r chart \<Rightarrow> 'r chart" where
  "pointer_move kind pid x y c =
     (if kind = MousePointer then track kind x y c
      else case drag c of
        None \<Rightarrow> c
      | Some d \<Rightarrow>
          if drag_id d \<noteq> pid then c
          else let dx = \<bar>x - drag_x d\<bar>; dy = \<bar>y - drag_y d\<bar> in
            if dy > 8 \<and> dy > dx then reset_chart c
            else track kind x y (if dx > 6 \<and> dx > dy \<and> pid \<notin> set (captured c)
              then c\<lparr>captured := pid # captured c\<rparr> else c))"

definition key_target :: "nat \<Rightarrow> int \<Rightarrow> string \<Rightarrow> int option" where
  "key_target n i key =
     (if key = ''Home'' then Some 0
      else if key = ''End'' then Some (int n - 1)
      else if key = ''ArrowRight'' then Some (min (int n - 1) (i + 1))
      else if key = ''ArrowLeft'' then Some (max 0 (i - 1))
      else None)"

definition key_down :: "'r surroundings \<Rightarrow> 'r chart_data \<Rightarrow> string \<Rightarrow> 'r chart \<Rightarrow> 'r chart" where
  "key_down sur series key c =
     (if key = ''Escape'' then reset_chart c
      else case key_target (ser_count series) (current_index c) key of
        None \<Rightarrow> c
      | Some next \<Rightarrow> show_sample sur series next True (c\<lparr>frame := False, pointer := None\<rparr>))"

definition destroy_chart :: "'r chart \<Rightarrow> 'r chart" where
  "destroy_chart c =
     (if destroyed c then c
      else (reset_chart c)\<lparr>destroyed := True, listening := False,
        tab_index := original_tab_index c, described_by := original_description c,
        instructions_hidden := True\<rparr>)"

text \<open>A handler of the plot is attached only when there is a sample.\<close>

definition plot_event :: "'r surroundings \<Rightarrow> 'r chart_data \<Rightarrow> chart_event \<Rightarrow> 'r chart \<Rightarrow> 'r chart" where
  "plot_event sur series e c = (case e of
     PointerDown button kind pid x y \<Rightarrow> pointer_down button kind pid x y c
   | PointerMove kind pid x y \<Rightarrow> pointer_move kind pid x y c
   | PointerUp \<Rightarrow> (release_drag c)\<lparr>drag := None\<rparr>
   | PointerLeave kind \<Rightarrow> (if kind \<noteq> TouchPointer then reset_chart c else c)
   | FocusEvent \<Rightarrow> (if pointer c \<noteq> None then c else show_sample sur series 0 True c)
   | KeyDown key \<Rightarrow> key_down sur series key c
   | PointerCancel \<Rightarrow> reset_chart c
   | BlurEvent \<Rightarrow> reset_chart c
   | PointerDownOutside \<Rightarrow> reset_chart c
   | WindowMoved \<Rightarrow> reset_chart c
   | _ \<Rightarrow> c)"

definition chart_step :: "'r surroundings \<Rightarrow> 'r chart_data \<Rightarrow> chart_event \<Rightarrow> 'r chart \<Rightarrow> 'r chart" where
  "chart_step sur series e c = (case e of
     AnimationFrame \<Rightarrow> (if frame c then paint sur series c else c)
   | PageHide persisted \<Rightarrow> (if \<not> listening c then c else if persisted then reset_chart c else destroy_chart c)
   | RootDetached \<Rightarrow> (if listening c then destroy_chart c else c)
   | _ \<Rightarrow> (if listening c \<and> ser_count series > 0 then plot_event sur series e c else c))"

definition create_interaction :: "'r chart_data \<Rightarrow> 'r chart \<Rightarrow> 'r chart" where
  "create_interaction series c =
     (let started = c\<lparr>frame := False, current_index := -1, rendered := -1, destroyed := False, pointer := None,
          drag := None, tip_size := (0, 0), original_tab_index := tab_index c,
          original_description := described_by c, listening := True\<rparr>
      in if ser_count series > 0 then
           started\<lparr>tab_index := Some ''0'', instructions_hidden := False,
             described_by := Some (js_join '' '' (filter (\<lambda>s. s \<noteq> [])
               [case described_by c of Some s \<Rightarrow> s | None \<Rightarrow> [], instructions_id c]))\<rparr>
         else started)"

definition mount_chart :: "'r chart_data \<Rightarrow> 'r chart \<Rightarrow> 'r chart" where
  "mount_chart series c = create_interaction series (destroy_chart c)"

section \<open>Reachable states\<close>

text \<open>A root whose chart has been released, or never had one.\<close>

definition released :: "'r chart \<Rightarrow> bool" where
  "released c \<longleftrightarrow> destroyed c \<and> \<not> listening c \<and> \<not> frame c \<and> tooltip_hidden c \<and> guide_hidden c
     \<and> dot_hidden c \<and> status_text c = None \<and> instructions_hidden c"

inductive chart_reach :: "'r chart \<Rightarrow> 'r chart_data \<Rightarrow> 'r chart \<Rightarrow> bool" for c0 series where
  mounted: "chart_reach c0 series (mount_chart series c0)"
| event: "chart_reach c0 series c \<Longrightarrow> chart_reach c0 series (chart_step sur series e c)"
| reset: "chart_reach c0 series c \<Longrightarrow> chart_reach c0 series (reset_chart c)"
| destroy: "chart_reach c0 series c \<Longrightarrow> chart_reach c0 series (destroy_chart c)"

text \<open>What is on screen is the sample at the index, or nothing.\<close>

definition shows_index :: "'r chart_data \<Rightarrow> 'r chart \<Rightarrow> bool" where
  "shows_index series c \<longleftrightarrow>
     (if current_index c = -1 then tooltip_hidden c \<and> guide_hidden c \<and> dot_hidden c \<and> rendered c = -1
        \<and> status_text c = None
      else 0 \<le> current_index c \<and> current_index c < int (ser_count series) \<and> rendered c = current_index c
        \<and> (let point = ser_sample series (nat (current_index c))
           in \<not> tooltip_hidden c \<and> \<not> guide_hidden c \<and> guide_left c = cs_x point
             \<and> dot_hidden c = (cs_y point = None) \<and> tooltip_text c = (cs_date point, cs_rows point)))"

definition chart_inv :: "'r chart \<Rightarrow> 'r chart_data \<Rightarrow> 'r chart \<Rightarrow> bool" where
  "chart_inv c0 series c \<longleftrightarrow> shows_index series c
     \<and> (frame c \<longrightarrow> pointer c \<noteq> None)
     \<and> (destroyed c \<longleftrightarrow> \<not> listening c)
     \<and> original_tab_index c = tab_index c0 \<and> original_description c = described_by c0
     \<and> (destroyed c \<longrightarrow> released c \<and> tab_index c = tab_index c0 \<and> described_by c = described_by c0)"

section \<open>Preservation\<close>

lemma release_drag_simps [simp]:
  "tooltip_hidden (release_drag c) = tooltip_hidden c" "guide_hidden (release_drag c) = guide_hidden c"
  "dot_hidden (release_drag c) = dot_hidden c" "guide_left (release_drag c) = guide_left c"
  "tooltip_text (release_drag c) = tooltip_text c" "status_text (release_drag c) = status_text c"
  "tab_index (release_drag c) = tab_index c" "described_by (release_drag c) = described_by c"
  "instructions_hidden (release_drag c) = instructions_hidden c" "frame (release_drag c) = frame c"
  "current_index (release_drag c) = current_index c" "rendered (release_drag c) = rendered c"
  "destroyed (release_drag c) = destroyed c" "pointer (release_drag c) = pointer c"
  "original_tab_index (release_drag c) = original_tab_index c"
  "original_description (release_drag c) = original_description c" "listening (release_drag c) = listening c"
  by (simp_all add: release_drag_def split: option.split)

lemma reset_keeps: "chart_inv c0 series c \<Longrightarrow> chart_inv c0 series (reset_chart c)"
  by (auto simp: chart_inv_def shows_index_def reset_chart_def released_def)

lemma destroy_keeps: "chart_inv c0 series c \<Longrightarrow> chart_inv c0 series (destroy_chart c)"
  by (cases "destroyed c") (simp_all add: destroy_chart_def, simp add: chart_inv_def shows_index_def reset_chart_def released_def)

lemma destroy_released: "chart_inv c0 series c \<Longrightarrow> released (destroy_chart c)"
  by (auto simp: chart_inv_def destroy_chart_def reset_chart_def released_def)

lemma show_keeps:
  assumes "chart_inv c0 series c" "i < int (ser_count series)"
  shows "chart_inv c0 series (show_sample sur series i speak c)"
proof (cases "destroyed c \<or> i < 0 \<or> ser_count series = 0")
  case True
  then show ?thesis using assms(1) by (simp add: show_sample_def)
next
  case False
  then have i: "\<not> destroyed c" "0 \<le> i" "ser_count series \<noteq> 0" by auto
  then have same: "\<not> (rendered c \<noteq> i) \<Longrightarrow> tooltip_text c =
      (cs_date (ser_sample series (nat i)), cs_rows (ser_sample series (nat i)))"
    using assms(1) by (auto simp: chart_inv_def shows_index_def Let_def split: if_splits)
  show ?thesis
    using assms i same
    by (simp add: show_sample_def chart_inv_def shows_index_def render_tooltip_def move_marks_def
        place_tooltip_def Let_def)
qed

lemma inv_frame: "chart_inv c0 series c \<Longrightarrow> \<not> b \<or> p \<noteq> None \<Longrightarrow> \<not> (destroyed c \<and> b) \<Longrightarrow>
    chart_inv c0 series (c\<lparr>frame := b, pointer := p\<rparr>)"
  by (auto simp: chart_inv_def shows_index_def released_def)

lemma inv_drag: "chart_inv c0 series (c\<lparr>drag := d\<rparr>) = chart_inv c0 series c"
  by (simp add: chart_inv_def shows_index_def released_def)

lemma inv_captured: "chart_inv c0 series (c\<lparr>captured := ids\<rparr>) = chart_inv c0 series c"
  by (simp add: chart_inv_def shows_index_def released_def)

lemma inv_release: "chart_inv c0 series (release_drag c) = chart_inv c0 series c"
  by (simp add: release_drag_def inv_captured split: option.split)

lemma track_keeps: "chart_inv c0 series c \<Longrightarrow> \<not> destroyed c \<Longrightarrow> chart_inv c0 series (track kind x y c)"
  by (auto simp: chart_inv_def shows_index_def track_def released_def)

lemma nearest_below: "n \<noteq> 0 \<Longrightarrow> nearest_sample_index n f x < int n"
  using nearest_from_bounds [of 0 "n - 1" f x] by (auto simp: nearest_sample_index_def Let_def)

lemma paint_keeps: "chart_inv c0 series c \<Longrightarrow> chart_inv c0 series (paint sur series c)"
proof -
  assume inv: "chart_inv c0 series c"
  then have f: "chart_inv c0 series (c\<lparr>frame := False\<rparr>)"
    by (auto simp: chart_inv_def shows_index_def released_def)
  let ?i = "\<lambda>p :: pointer_at. nearest_sample_index (ser_count series) (\<lambda>i. cs_x (ser_sample series i))
      ((ptr_x p - rect_left (sur_rect sur)) / rect_width (sur_rect sur) * 100)"
  have "chart_inv c0 series (show_sample sur series (?i p) False (c\<lparr>frame := False\<rparr>))" for p
  proof (cases "ser_count series = 0")
    case True
    then show ?thesis using f by (simp add: show_sample_def)
  next
    case False
    then show ?thesis by (intro show_keeps [OF f]) (rule nearest_below)
  qed
  then show ?thesis using f reset_keeps [OF f] by (simp add: paint_def Let_def split: option.split)
qed

lemma key_target_range: "key_target n i key = Some t \<Longrightarrow> n > 0 \<Longrightarrow> i < int n \<Longrightarrow> 0 \<le> t \<longrightarrow> t < int n"
  by (auto simp: key_target_def split: if_splits)

lemma inv_index: "chart_inv c0 series c \<Longrightarrow> ser_count series > 0 \<Longrightarrow> current_index c < int (ser_count series)"
  by (auto simp: chart_inv_def shows_index_def split: if_splits)

lemma key_keeps:
  assumes "chart_inv c0 series c" "ser_count series > 0"
  shows "chart_inv c0 series (key_down sur series key c)"
proof (cases "key_target (ser_count series) (current_index c) key")
  case (Some t)
  have f: "chart_inv c0 series (c\<lparr>frame := False, pointer := None\<rparr>)"
    by (rule inv_frame [OF assms(1)]) simp_all
  have "t < int (ser_count series)"
    using key_target_range [OF Some assms(2) inv_index [OF assms]] assms(2) by linarith
  then show ?thesis using Some reset_keeps [OF assms(1)] show_keeps [OF f] by (simp add: key_down_def)
qed (use assms reset_keeps [OF assms(1)] in \<open>simp add: key_down_def\<close>)

lemma plot_event_keeps:
  assumes inv: "chart_inv c0 series c" and live: "listening c" "ser_count series > 0"
  shows "chart_inv c0 series (plot_event sur series e c)"
proof -
  have alive: "\<not> destroyed c" using inv live by (simp add: chart_inv_def)
  note keeps = reset_keeps [OF inv] key_keeps [OF inv live(2)] show_keeps [OF inv, of 0]
    track_keeps [OF inv alive]
  show ?thesis
  proof (cases e)
    case (PointerDown button kind pid x y)
    have "chart_inv c0 series (track kind x y (c\<lparr>drag := d\<rparr>))" for d
      by (rule track_keeps) (simp_all add: inv_drag inv alive)
    with PointerDown keeps inv show ?thesis by (simp add: plot_event_def pointer_down_def)
  next
    case (PointerMove kind pid x y)
    have "chart_inv c0 series (track kind x y (c\<lparr>captured := ids\<rparr>))" for ids
      by (rule track_keeps) (simp_all add: inv_captured inv alive)
    with PointerMove keeps inv show ?thesis
      by (simp add: plot_event_def pointer_move_def Let_def split: option.split)
  next
    case PointerUp
    then show ?thesis using inv by (simp add: plot_event_def inv_drag inv_release)
  qed (use keeps inv live in \<open>simp_all add: plot_event_def\<close>)
qed

lemma step_keeps: "chart_inv c0 series c \<Longrightarrow> chart_inv c0 series (chart_step sur series e c)"
  using paint_keeps [of c0 series c sur] reset_keeps [of c0 series c] destroy_keeps [of c0 series c]
    plot_event_keeps [of c0 series c sur e]
  by (cases e) (simp_all add: chart_step_def)

lemma mount_establishes: "released c0 \<Longrightarrow> chart_inv c0 series (mount_chart series c0)"
  by (auto simp: released_def mount_chart_def destroy_chart_def create_interaction_def chart_inv_def shows_index_def Let_def)

lemma reach_inv: "chart_reach c0 series c \<Longrightarrow> released c0 \<Longrightarrow> chart_inv c0 series c"
  by (induction rule: chart_reach.induct)
    (simp_all add: mount_establishes step_keeps reset_keeps destroy_keeps)

section \<open>Properties\<close>

text \<open>
  C27. However a mounted chart is used, what is on screen is one sample of its series, complete and
  from the current index, or nothing; a frame is only awaited for a pointer; and releasing the chart
  hides everything, stops listening and gives the plot back the attributes it had.
\<close>

theorem chart_interaction_invariant:
  assumes "released c0" and "chart_reach c0 series c"
  shows "shows_index series c \<and> (frame c \<longrightarrow> pointer c \<noteq> None \<and> listening c)
    \<and> released (destroy_chart c)
    \<and> tab_index (destroy_chart c) = tab_index c0 \<and> described_by (destroy_chart c) = described_by c0
    \<and> (\<forall>sur e. \<not> listening c \<longrightarrow> chart_step sur series e c = c)"
proof -
  have inv: "chart_inv c0 series c" by (rule reach_inv [OF assms(2,1)])
  then have d: "chart_inv c0 series (destroy_chart c)" by (rule destroy_keeps)
  have r: "released (destroy_chart c)" by (rule destroy_released [OF inv])
  then have "destroyed (destroy_chart c)" by (simp add: released_def)
  with d have "tab_index (destroy_chart c) = tab_index c0" "described_by (destroy_chart c) = described_by c0"
    by (simp_all add: chart_inv_def)
  moreover have "frame c \<longrightarrow> pointer c \<noteq> None \<and> listening c"
    using inv by (auto simp: chart_inv_def released_def)
  moreover have "\<not> listening c \<Longrightarrow> chart_step sur series e c = c" for sur e
    using inv by (cases e) (auto simp: chart_step_def chart_inv_def released_def)
  moreover have "shows_index series c" using inv by (simp add: chart_inv_def)
  ultimately show ?thesis using r by blast
qed

text \<open>
  Where an event of the pointer points, if it points at all: a press of the primary button, or of a
  pointer without buttons; a move of the mouse; and a move of the touch or pen whose press started the
  drag, unless it has turned into a vertical swipe, which scrolls the page.
\<close>

definition points_at :: "chart_event \<Rightarrow> 'r chart \<Rightarrow> pointer_at option" where
  "points_at e c = (case e of
     PointerDown button kind pid x y \<Rightarrow>
       if button \<in> {None, Some 0} then Some \<lparr>ptr_x = x, ptr_y = y, ptr_touch = (kind = TouchPointer)\<rparr> else None
   | PointerMove kind pid x y \<Rightarrow>
       if kind = MousePointer \<or> (case drag c of None \<Rightarrow> False
            | Some d \<Rightarrow> drag_id d = pid \<and> (\<bar>y - drag_y d\<bar> \<le> 8 \<or> \<bar>y - drag_y d\<bar> \<le> \<bar>x - drag_x d\<bar>))
       then Some \<lparr>ptr_x = x, ptr_y = y, ptr_touch = (kind = TouchPointer)\<rparr> else None
   | _ \<Rightarrow> None)"

definition within_viewport :: "viewport \<Rightarrow> rat \<times> rat \<Rightarrow> rat \<times> rat \<Rightarrow> bool" where
  "within_viewport view place extent \<longleftrightarrow> vp_left view + 12 \<le> fst place \<and> vp_top view + 12 \<le> snd place
     \<and> (fst extent + 24 \<le> vp_width view \<longrightarrow> fst place + fst extent \<le> vp_left view + vp_width view - 12)
     \<and> (snd extent + 24 \<le> vp_height view \<longrightarrow> snd place + snd extent \<le> vp_top view + vp_height view - 12)"

lemma tooltip_within: "within_viewport view (tooltip_position x y (fst s) (snd s) view touch) s"
  using tooltip_inside [of x y "fst s" "snd s" view touch]
  by (cases "tooltip_position x y (fst s) (snd s) view touch") (simp add: within_viewport_def)

lemma pointing_tracked:
  assumes "points_at e c = Some p" "listening c" "ser_count series > 0"
  shows "pointer (chart_step sur series e c) = Some p \<and> frame (chart_step sur series e c)
    \<and> destroyed (chart_step sur series e c) = destroyed c \<and> rendered (chart_step sur series e c) = rendered c"
proof (cases e)
  case (PointerDown button kind pid x y)
  with assms show ?thesis
    by (auto simp: points_at_def chart_step_def plot_event_def pointer_down_def track_def split: if_splits)
next
  case (PointerMove kind pid x y)
  show ?thesis
  proof (cases "kind = MousePointer")
    case True
    with PointerMove assms show ?thesis
      by (auto simp: points_at_def chart_step_def plot_event_def pointer_move_def track_def)
  next
    case False
    with PointerMove assms show ?thesis
      by (cases "drag c")
        (auto simp: points_at_def chart_step_def plot_event_def pointer_move_def track_def Let_def split: if_splits)
  qed
qed (use assms in \<open>simp_all add: points_at_def\<close>)

lemma paint_shows:
  assumes "pointer c = Some p" "\<not> destroyed c" "\<not> outside_rect (sur_rect sur) p" "ser_count series > 0"
    and r: "r = nearest_sample_index (ser_count series) (\<lambda>i. cs_x (ser_sample series i))
      ((ptr_x p - rect_left (sur_rect sur)) / rect_width (sur_rect sur) * 100)" "0 \<le> r"
  shows "current_index (paint sur series c) = r
    \<and> (rendered c \<noteq> r \<longrightarrow> tip_size (paint sur series c) = sur_measure sur (tooltip_text (paint sur series c)))
    \<and> within_viewport (sur_viewport sur) (tooltip_at (paint sur series c)) (tip_size (paint sur series c))"
proof -
  have "paint sur series c = show_sample sur series r False (c\<lparr>frame := False\<rparr>)"
    using assms by (simp add: paint_def Let_def)
  then show ?thesis
    using assms(1,2,4) r(2)
    by (cases "rendered c = r")
      (simp_all add: show_sample_def render_tooltip_def move_marks_def place_tooltip_def anchor_def Let_def
        tooltip_within)
qed

text \<open>
  C28. Pointing inside a plot whose samples run from left to right, with the mouse, a pen or a finger,
  shows with the next frame the leftmost of the samples nearest to the pointer. Its tooltip, of the
  size it measured when it was rendered, is placed inside the viewport with a margin of 12, on each axis
  on which it fits, and never before the margin.
\<close>

theorem chart_pointing:
  fixes series :: "'r chart_data"
  assumes "released c0" "chart_reach c0 series c" "listening c" "ser_count series > 0"
    and ascending: "\<And>i j. i < j \<Longrightarrow> j < ser_count series \<Longrightarrow> cs_x (ser_sample series i) < cs_x (ser_sample series j)"
    and on_plot: "\<And>i. i < ser_count series \<Longrightarrow> 0 \<le> cs_x (ser_sample series i) \<and> cs_x (ser_sample series i) \<le> 100"
    and points: "points_at e c = Some p"
    and inside: "\<not> outside_rect (sur_rect sur) p"
    and final: "c' = chart_step sur series AnimationFrame (chart_step sur' series e c)"
  shows "\<exists>k < ser_count series. current_index c' = int k \<and> \<not> tooltip_hidden c'
    \<and> tooltip_text c' = (cs_date (ser_sample series k), cs_rows (ser_sample series k))
    \<and> (rendered c \<noteq> int k \<longrightarrow> tip_size c' = sur_measure sur (tooltip_text c'))
    \<and> within_viewport (sur_viewport sur) (tooltip_at c') (tip_size c')
    \<and> (let x = (ptr_x p - rect_left (sur_rect sur)) / rect_width (sur_rect sur) * 100
       in \<forall>i < ser_count series. \<bar>cs_x (ser_sample series k) - x\<bar> \<le> \<bar>cs_x (ser_sample series i) - x\<bar>
         \<and> (\<bar>cs_x (ser_sample series k) - x\<bar> = \<bar>cs_x (ser_sample series i) - x\<bar> \<longrightarrow> k \<le> i))"
proof -
  let ?n = "ser_count series" and ?s = "\<lambda>i. cs_x (ser_sample series i)"
  define x where "x = (ptr_x p - rect_left (sur_rect sur)) / rect_width (sur_rect sur) * 100"
  define r where "r = nearest_sample_index ?n ?s x"
  have series: "chart_series ?n ?s" by (rule chart_series.intro) (use ascending on_plot in auto)
  note valid = chart_series.nearest_valid [OF series assms(4), of x, folded r_def]
  have inv: "chart_inv c0 series c" by (rule reach_inv [OF assms(2,1)])
  then have alive: "\<not> destroyed c" using assms(3) by (simp add: chart_inv_def)
  note tracked = pointing_tracked [OF points assms(3,4), of sur']
  have step: "c' = paint sur series (chart_step sur' series e c)"
    using tracked unfolding final by (subst chart_step_def) simp
  have "chart_inv c0 series c'" unfolding final by (intro step_keeps inv)
  moreover have placed: "current_index c' = r"
      "rendered c \<noteq> r \<longrightarrow> tip_size c' = sur_measure sur (tooltip_text c')"
      "within_viewport (sur_viewport sur) (tooltip_at c') (tip_size c')"
    using paint_shows [of "chart_step sur' series e c" p sur series r] tracked alive inside assms(4) valid
    unfolding step r_def x_def by simp_all
  ultimately have shown: "current_index c' = int (nat r) \<and> \<not> tooltip_hidden c'
      \<and> tooltip_text c' = (cs_date (ser_sample series (nat r)), cs_rows (ser_sample series (nat r)))"
    using valid by (simp add: chart_inv_def shows_index_def Let_def)
  show ?thesis
    unfolding x_def [symmetric] Let_def
    using shown placed valid chart_series.nearest_closest [OF series assms(4), of _ x, folded r_def]
    by (intro exI [of _ "nat r"]) auto
qed

section \<open>A chart in use\<close>

definition sample_root :: "string chart" where
  "sample_root = \<lparr>tooltip_hidden = True, guide_hidden = True, dot_hidden = True, guide_left = 0, dot_at = (0, 0),
     tooltip_text = ([], []), tooltip_at = (0, 0), status_text = None, tab_index = None, described_by = Some ''note'',
     instructions_hidden = True, instructions_id = ''help'', captured = [], frame = False, current_index = -1,
     rendered = -1, destroyed = True, pointer = None, drag = None, tip_size = (0, 0),
     original_tab_index = None, original_description = None, listening = False\<rparr>"

definition sample_series :: "string chart_data" where
  "sample_series = \<lparr>ser_count = 3, ser_sample = (\<lambda>i. \<lparr>cs_date = ''2026-01-0'' @ js_decimal (i + 1),
     cs_x = 50 * of_nat i, cs_y = (if i = 1 then None else Some 20), cs_rows = [''row'']\<rparr>)\<rparr>"

definition sample_surroundings :: "string surroundings" where
  "sample_surroundings = \<lparr>sur_rect = \<lparr>rect_left = 0, rect_top = 0, rect_width = 200, rect_height = 100\<rparr>,
     sur_viewport = \<lparr>vp_left = 0, vp_top = 0, vp_width = 800, vp_height = 600\<rparr>, sur_measure = (\<lambda>_. (40, 20))\<rparr>"

lemma sample_released: "released sample_root"
  by (simp add: released_def sample_root_def)

lemma sample_mounted: "listening (mount_chart sample_series sample_root)"
  by (simp add: mount_chart_def destroy_chart_def create_interaction_def sample_root_def Let_def)

lemma chart_interaction_invariant_witness:
  "shows_index sample_series (chart_step sample_surroundings sample_series (KeyDown ''End'')
     (mount_chart sample_series sample_root))
   \<and> described_by (destroy_chart (mount_chart sample_series sample_root)) = Some ''note''"
proof -
  note reach = chart_reach.mounted [of sample_root sample_series]
  have "described_by sample_root = Some ''note''" by (simp add: sample_root_def)
  with chart_interaction_invariant [OF sample_released chart_reach.event [OF reach]]
    chart_interaction_invariant [OF sample_released reach]
  show ?thesis by simp
qed

lemma chart_pointing_witness:
  "current_index (chart_step sample_surroundings sample_series AnimationFrame
     (chart_step sample_surroundings sample_series (PointerDown (Some 0) TouchPointer 1 90 50)
       (mount_chart sample_series sample_root))) \<ge> 0"
proof -
  have "\<not> outside_rect (sur_rect sample_surroundings) \<lparr>ptr_x = 90, ptr_y = 50, ptr_touch = True\<rparr>"
    by (simp add: outside_rect_def sample_surroundings_def)
  moreover have "points_at (PointerDown (Some 0) TouchPointer 1 90 50) (mount_chart sample_series sample_root)
      = Some \<lparr>ptr_x = 90, ptr_y = 50, ptr_touch = True\<rparr>"
    by (simp add: points_at_def)
  ultimately show ?thesis
    using chart_pointing [OF sample_released chart_reach.mounted sample_mounted _ _ _ _ _ refl,
        of "PointerDown (Some 0) TouchPointer 1 90 50" _ sample_surroundings sample_surroundings]
    by (auto simp: sample_series_def)
qed

end
