(* ===== verification/GrowthSwitcher.thy ===== *)
theory GrowthSwitcher
  imports GrowthChart ChartInteraction
begin

text \<open>
  \<open>apps/web/src/lib/stats/switcher.ts\<close>: the tabs over the growth charts. A panel carries the points of
  its data table and the root of its chart, if it has one; the state also holds whether the component
  is registered and marked as mounted, and which tab was focused last.
\<close>

section \<open>The samples of a growth chart\<close>

datatype growth_row = CumulativeRow nat | AddedRow int

definition series_of_points :: "(string \<times> nat) list \<Rightarrow> growth_series" where
  "series_of_points points = \<lparr>gs_points = points, gs_total = snd (last points),
     gs_first = Some (fst (hd points)), gs_last = Some (fst (last points))\<rparr>"

text \<open>
  A reading outside the calendar throws; the chart asks for none, and its value here is arbitrary. A
  count that is no number counts nothing.
\<close>

definition growth_sample :: "growth_series \<Rightarrow> nat \<Rightarrow> growth_row chart_sample" where
  "growth_sample series i = (case calendar_point series i of
     Some p \<Rightarrow> \<lparr>cs_date = gc_date p, cs_x = (case gc_x p of Some x \<Rightarrow> x | None \<Rightarrow> 0), cs_y = Some (gc_y p),
       cs_rows = [CumulativeRow (gc_total p), AddedRow (gc_added p)]\<rparr>
   | None \<Rightarrow> \<lparr>cs_date = [], cs_x = 0, cs_y = None, cs_rows = []\<rparr>)"

definition growth_data :: "(string \<times> nat) list \<Rightarrow> growth_row chart_data" where
  "growth_data points = (let series = series_of_points points in
     \<lparr>ser_count = (case calendar_count series of Some n \<Rightarrow> nat \<lfloor>n\<rfloor> | None \<Rightarrow> 0),
      ser_sample = growth_sample series\<rparr>)"

section \<open>State\<close>

record growth_panel =
  panel_hidden :: bool
  panel_points :: "(string \<times> nat) list"
  panel_chart :: "growth_row chart option"

record growth_tab =
  tab_selected :: bool
  tab_focusable :: bool

record switcher =
  sw_registered :: bool
  sw_has_controls :: bool
  sw_marked :: bool
  sw_controls_hidden :: bool
  sw_tabs :: "growth_tab list"
  sw_panels :: "growth_panel list"
  sw_focused :: "nat option"

section \<open>Operations\<close>

definition on_chart :: "(growth_row chart \<Rightarrow> growth_row chart) \<Rightarrow> growth_panel \<Rightarrow> growth_panel" where
  "on_chart f p = (if panel_points p = [] then p else p\<lparr>panel_chart := map_option f (panel_chart p)\<rparr>)"

definition select_panel :: "nat \<Rightarrow> switcher \<Rightarrow> switcher" where
  "select_panel i s = s\<lparr>
     sw_tabs := map (\<lambda>k. \<lparr>tab_selected = (k = i), tab_focusable = (k = i)\<rparr>) [0..<length (sw_tabs s)],
     sw_panels := map (\<lambda>(k, p). (on_chart reset_chart p)\<lparr>panel_hidden := (k \<noteq> i)\<rparr>)
       (zip [0..<length (sw_panels s)] (sw_panels s))\<rparr>"

definition tab_target :: "nat \<Rightarrow> nat \<Rightarrow> string \<Rightarrow> nat option" where
  "tab_target n i key =
     (if key = ''ArrowRight'' then Some ((i + 1) mod n)
      else if key = ''ArrowLeft'' then Some ((i + n - 1) mod n)
      else if key = ''Home'' then Some 0
      else if key = ''End'' then Some (n - 1)
      else None)"

definition mount_panel :: "growth_panel \<Rightarrow> growth_panel" where
  "mount_panel p = on_chart (mount_chart (growth_data (panel_points p))) p"

definition mount_statistics :: "switcher \<Rightarrow> switcher" where
  "mount_statistics s =
     (if sw_registered s \<or> \<not> sw_has_controls s \<or> sw_marked s
        \<or> sw_tabs s = [] \<or> length (sw_tabs s) \<noteq> length (sw_panels s) then s
      else (select_panel 0 (s\<lparr>sw_panels := map mount_panel (sw_panels s)\<rparr>))\<lparr>sw_marked := True,
        sw_controls_hidden := False, sw_registered := True\<rparr>)"

definition stop_statistics :: "switcher \<Rightarrow> switcher" where
  "stop_statistics s = s\<lparr>sw_panels := map (on_chart destroy_chart) (sw_panels s),
     sw_registered := False, sw_marked := False\<rparr>"

datatype switch_event =
    TabClick nat
  | TabKey nat string
  | PanelEvent nat "growth_row surroundings" chart_event
  | StatisticsDetached

definition switch_step :: "switch_event \<Rightarrow> switcher \<Rightarrow> switcher" where
  "switch_step e s = (case e of
     TabClick i \<Rightarrow> (if sw_registered s \<and> i < length (sw_tabs s) then select_panel i s else s)
   | TabKey i key \<Rightarrow>
       (if sw_registered s \<and> i < length (sw_tabs s) then
          (case tab_target (length (sw_tabs s)) i key of
             None \<Rightarrow> s
           | Some next \<Rightarrow> (select_panel next s)\<lparr>sw_focused := Some next\<rparr>)
        else s)
   | PanelEvent i sur ev \<Rightarrow>
       (if i < length (sw_panels s) then
          (let p = sw_panels s ! i
           in s\<lparr>sw_panels := (sw_panels s)[i := on_chart (chart_step sur (growth_data (panel_points p)) ev) p]\<rparr>)
        else s)
   | StatisticsDetached \<Rightarrow> (if sw_registered s then stop_statistics s else s))"

section \<open>One panel at a time\<close>

definition one_panel :: "switcher \<Rightarrow> bool" where
  "one_panel s \<longleftrightarrow> length (sw_tabs s) = length (sw_panels s)
     \<and> (\<exists>i < length (sw_panels s). \<forall>k < length (sw_panels s).
         tab_selected (sw_tabs s ! k) = (k = i) \<and> tab_focusable (sw_tabs s ! k) = (k = i)
         \<and> panel_hidden (sw_panels s ! k) = (k \<noteq> i))"

lemma on_chart_hidden [simp]: "panel_hidden (on_chart f p) = panel_hidden p"
  "panel_points (on_chart f p) = panel_points p"
  by (simp_all add: on_chart_def)

lemma select_one_panel:
  "length (sw_tabs s) = length (sw_panels s) \<Longrightarrow> i < length (sw_tabs s) \<Longrightarrow> one_panel (select_panel i s)"
  by (auto simp: one_panel_def select_panel_def)

lemma tab_target_range: "tab_target n i key = Some t \<Longrightarrow> i < n \<Longrightarrow> t < n"
  by (auto simp: tab_target_def split: if_splits)

inductive switch_reach :: "switcher \<Rightarrow> switcher \<Rightarrow> bool" for s0 where
  mounted: "switch_reach s0 (mount_statistics s0)"
| event: "switch_reach s0 s \<Longrightarrow> switch_reach s0 (switch_step e s)"

definition panel_ok :: "growth_panel \<Rightarrow> bool" where
  "panel_ok p \<longleftrightarrow> (\<forall>c. panel_points p \<noteq> [] \<and> panel_chart p = Some c \<longrightarrow>
     (\<exists>c0. released c0 \<and> chart_reach c0 (growth_data (panel_points p)) c))"

definition switch_inv :: "switcher \<Rightarrow> bool" where
  "switch_inv s \<longleftrightarrow> one_panel s \<and> list_all panel_ok (sw_panels s)"

lemma panel_ok_hidden [simp]: "panel_ok (p\<lparr>panel_hidden := b\<rparr>) = panel_ok p"
  by (simp add: panel_ok_def)

lemma panel_ok_on_chart:
  assumes "panel_ok p" "\<And>c0 c. chart_reach c0 (growth_data (panel_points p)) c \<Longrightarrow>
    chart_reach c0 (growth_data (panel_points p)) (f c)"
  shows "panel_ok (on_chart f p)"
  using assms by (auto simp: panel_ok_def on_chart_def) blast

lemma panel_ok_mount: "\<forall>c. panel_chart p = Some c \<longrightarrow> released c \<Longrightarrow> panel_ok (mount_panel p)"
  using chart_reach.mounted by (auto simp: panel_ok_def mount_panel_def on_chart_def)

lemma select_panels_ok: "list_all panel_ok (sw_panels s) \<Longrightarrow> list_all panel_ok (sw_panels (select_panel i s))"
  by (simp add: select_panel_def list_all_length panel_ok_on_chart chart_reach.reset)

lemma select_keeps: "switch_inv s \<Longrightarrow> i < length (sw_tabs s) \<Longrightarrow> switch_inv (select_panel i s)"
  using select_one_panel [of s i] select_panels_ok [of s i] by (simp add: switch_inv_def one_panel_def)

lemma inv_focused [simp]: "switch_inv (s\<lparr>sw_focused := f\<rparr>) = switch_inv s"
  by (simp add: switch_inv_def one_panel_def)

lemma inv_panel:
  assumes "switch_inv s" "i < length (sw_panels s)" "panel_ok p" "panel_hidden p = panel_hidden (sw_panels s ! i)"
  shows "switch_inv (s\<lparr>sw_panels := (sw_panels s)[i := p]\<rparr>)"
proof -
  have "panel_hidden ((sw_panels s)[i := p] ! k) = panel_hidden (sw_panels s ! k)" for k
    using assms(2,4) by (cases "k = i") simp_all
  with assms show ?thesis by (simp add: switch_inv_def one_panel_def list_all_length nth_list_update)
qed

lemma stop_keeps: "switch_inv s \<Longrightarrow> switch_inv (stop_statistics s)"
proof -
  assume inv: "switch_inv s"
  then have "list_all panel_ok (sw_panels (stop_statistics s))"
    by (simp add: stop_statistics_def switch_inv_def list_all_iff panel_ok_on_chart chart_reach.destroy)
  moreover have "one_panel (stop_statistics s)"
    using inv unfolding switch_inv_def one_panel_def by (auto simp: stop_statistics_def)
  ultimately show ?thesis by (simp add: switch_inv_def)
qed

lemma step_keeps_switch: "switch_inv s \<Longrightarrow> switch_inv (switch_step e s)"
proof -
  assume inv: "switch_inv s"
  have panel: "panel_ok (on_chart (chart_step sur (growth_data (panel_points (sw_panels s ! i))) ev) (sw_panels s ! i))"
    if "i < length (sw_panels s)" for i sur ev
    using inv that by (intro panel_ok_on_chart chart_reach.event) (simp_all add: switch_inv_def list_all_length)
  show ?thesis
    using inv select_keeps [OF inv] tab_target_range stop_keeps [OF inv] inv_panel [OF inv _ panel]
    by (cases e) (auto simp: switch_step_def Let_def split: option.split)
qed

text \<open>
  From a fresh document with as many panels as tabs, exactly one tab is selected and its panel is the
  one that is visible, whatever is clicked or typed, and every chart is in a reachable state of its own.
\<close>

lemma switcher_one_panel:
  assumes "switch_reach s0 s" and fresh: "\<not> sw_registered s0" "sw_has_controls s0" "\<not> sw_marked s0"
    and "sw_tabs s0 \<noteq> []" "length (sw_tabs s0) = length (sw_panels s0)"
    and "list_all (\<lambda>p. \<forall>c. panel_chart p = Some c \<longrightarrow> released c) (sw_panels s0)"
  shows "switch_inv s"
  using assms(1)
proof induction
  case mounted
  let ?s = "s0\<lparr>sw_panels := map mount_panel (sw_panels s0)\<rparr>"
  have "list_all panel_ok (sw_panels ?s)"
    using assms(7) panel_ok_mount by (simp add: list_all_iff)
  then have "list_all panel_ok (sw_panels (select_panel 0 ?s))" by (rule select_panels_ok)
  moreover have "one_panel (select_panel 0 ?s)"
    by (rule select_one_panel) (use assms(5,6) in \<open>simp_all flip: length_greater_0_conv\<close>)
  ultimately show ?case
    using fresh assms(5,6) by (simp add: mount_statistics_def switch_inv_def one_panel_def)
qed (rule step_keeps_switch)

end
