(* ===== verification/ReadershipCheck.thy ===== *)
theory ReadershipCheck
  imports StatsWorker
begin

text \<open>
  \<open>validateReadership\<close> of \<open>apps/web/src/lib/stats/readership.ts\<close>, and the JSON value of a readership
  as the endpoint sends it. The code returns its input, whose later uses are those of the record built
  here: a path or a first day that is tested by a pattern only is read as text wherever it is used.
\<close>

datatype response_error = ResponseInvalid | ResponseDateInvalid | ResponseTypeError

section \<open>The value the endpoint sends\<close>

definition json_number :: "rat \<Rightarrow> json" where
  "json_number q = JNum (Fin q)"

definition json_option :: "('a \<Rightarrow> json) \<Rightarrow> 'a option \<Rightarrow> json" where
  "json_option f v = (case v of None \<Rightarrow> JNull | Some x \<Rightarrow> f x)"

definition status_text_of :: "coverage_state \<Rightarrow> string" where
  "status_text_of s = (case s of Complete \<Rightarrow> ''complete'' | Partial \<Rightarrow> ''partial'' | Unavailable \<Rightarrow> ''unavailable'')"

definition quality_text :: "site_quality \<Rightarrow> string" where
  "quality_text q = (case q of Observed \<Rightarrow> ''observed'' | SampledEstimate \<Rightarrow> ''sampled-estimate'' | PartialSite \<Rightarrow> ''partial'')"

definition source_text :: "source_key \<Rightarrow> string" where
  "source_text k = (case k of DirectUnknown \<Rightarrow> ''direct-unknown'' | SearchSource \<Rightarrow> ''search''
     | ExternalOther \<Rightarrow> ''external-other'')"

definition coverage_json :: "coverage \<Rightarrow> json" where
  "coverage_json c = JObj
     [(''available'', JBool (cov_available c)), (''status'', JStr (status_text_of (cov_status c))),
      (''days'', json_int (int (cov_days c))), (''startedAt'', json_option JStr (cov_startedAt c)),
      (''lastCompleteDay'', json_option JStr (cov_lastCompleteDay c)),
      (''lastSyncedAt'', json_option JStr (cov_lastSyncedAt c))]"

definition totals_json :: "totals \<Rightarrow> json" where
  "totals_json t = JObj [(''pageLoads'', json_number (tot_pageLoads t)), (''visits'', json_number (tot_visits t))]"

definition daily_json :: "daily \<Rightarrow> json" where
  "daily_json d = JObj
     [(''date'', JStr (daily_date d)), (''pageLoads'', json_option json_number (daily_pageLoads d)),
      (''visits'', json_option json_number (daily_visits d)),
      (''quality'', json_option (\<lambda>q. JStr (quality_text q)) (daily_quality d))]"

definition popular_json :: "popular_page \<Rightarrow> json" where
  "popular_json p = JObj [(''path'', JStr (pop_path p)), (''title'', JStr (pop_title p)),
     (''pageLoads'', json_number (pop_pageLoads p)), (''share'', json_number (pop_share p))]"

definition source_json :: "source_key \<times> rat \<Rightarrow> json" where
  "source_json s = JObj [(''source'', JStr (source_text (fst s))), (''visits'', json_number (snd s))]"

definition rum_source_name :: string where
  "rum_source_name = ''Cloudflare Web Analytics RUM''"

definition readership_json :: "readership \<Rightarrow> json" where
  "readership_json r = JObj
     [(''schemaVersion'', json_int 1), (''range'', JStr (range_text (rs_range r))), (''timezone'', JStr ''UTC''),
      (''start'', JStr (rs_start r)), (''end'', JStr (rs_end r)),
      (''quality'', JObj [(''source'', JStr rum_source_name), (''botFilter'', JStr (rs_botFilter r)),
         (''visitsAreUniqueUsers'', JBool False), (''estimated'', JBool (rs_estimated r))]),
      (''coverage'', JObj [(''site'', coverage_json (rs_site r)), (''pages'', coverage_json (rs_pages r)),
         (''referrers'', coverage_json (rs_referrers r))]),
      (''totals'', json_option totals_json (rs_totals r)),
      (''daily'', JArr (map daily_json (rs_daily r))),
      (''popularPages'', JArr (map popular_json (rs_popular r))),
      (''referrers'', JArr (map source_json (rs_sources r)))]"

section \<open>The check\<close>

text \<open>
  A pattern is tested on the text of its argument. An array of one element has the text of it; the
  texts of the other values that are no strings match none of the patterns here, and where there is
  no text (\<open>text_fails\<close>) the test throws a \<open>TypeError\<close>.
\<close>

fun pattern_text :: "json \<Rightarrow> string option" where
  "pattern_text (JStr s) = Some s"
| "pattern_text (JArr [v]) = pattern_text v"
| "pattern_text _ = None"

definition test_text :: "(string \<Rightarrow> bool) \<Rightarrow> json \<Rightarrow> response_error + string" where
  "test_text p v = throw_when (text_fails v) ResponseTypeError
     (case pattern_text v of
        None \<Rightarrow> Inl ResponseInvalid
      | Some s \<Rightarrow> throw_when (\<not> p s) ResponseInvalid (Inr s))"

definition day_text :: "string \<Rightarrow> bool" where
  "day_text s = rx_test day_rx s"

text \<open>\<open>/^\d{4}-\d{2}-\d{2}T[\d:.]+Z$/\<close>\<close>

definition synced_rx :: rx where
  "synced_rx = Seq day_rx (Seq (Lit CHR ''T'')
     (Seq (Plus (Cls [(CHR ''0'', CHR ''9''), (CHR '':'', CHR '':''), (CHR ''.'', CHR ''.'')])) (Lit CHR ''Z'')))"

text \<open>\<open>/^\/(api|admin)\//\<close>\<close>

definition reserved_path :: "string \<Rightarrow> bool" where
  "reserved_path s \<longleftrightarrow> prefix ''/api/'' s \<or> prefix ''/admin/'' s"

definition check_count :: "json \<Rightarrow> rat option" where
  "check_count v = (case v of
     JNum (Fin q) \<Rightarrow> if 0 \<le> q \<and> q \<le> max_safe then Some q else None
   | _ \<Rightarrow> None)"

definition one_of :: "('a \<Rightarrow> string) \<Rightarrow> 'a list \<Rightarrow> json \<Rightarrow> 'a option" where
  "one_of text xs v = (case v of JStr s \<Rightarrow> map_of (map (\<lambda>x. (text x, x)) xs) s | _ \<Rightarrow> None)"

definition nullable :: "(string \<Rightarrow> bool) \<Rightarrow> json \<Rightarrow> string option option" where
  "nullable p v = (case v of JNull \<Rightarrow> Some None | JStr s \<Rightarrow> if p s then Some (Some s) else None | _ \<Rightarrow> None)"

definition whole_days :: "nat \<Rightarrow> json \<Rightarrow> nat option" where
  "whole_days n v = (case v of
     JNum (Fin q) \<Rightarrow> if q = of_int \<lfloor>q\<rfloor> \<and> 0 \<le> q \<and> q \<le> of_nat n then Some (nat \<lfloor>q\<rfloor>) else None
   | _ \<Rightarrow> None)"

definition check_coverage :: "nat \<Rightarrow> json \<Rightarrow> coverage option" where
  "check_coverage n c = (if \<not> truthy c then None else
     (case (get c ''available'', one_of status_text_of [Complete, Partial, Unavailable] (get c ''status''),
        whole_days n (get c ''days''), nullable day_text (get c ''startedAt''),
        nullable day_text (get c ''lastCompleteDay''), nullable (rx_test synced_rx) (get c ''lastSyncedAt'')) of
        (JBool a, Some s, Some d, Some started, Some whole, Some synced) \<Rightarrow>
          Some \<lparr>cov_available = a, cov_status = s, cov_days = d, cov_startedAt = started,
            cov_lastCompleteDay = whole, cov_lastSyncedAt = synced\<rparr>
      | _ \<Rightarrow> None))"

definition check_totals :: "json \<Rightarrow> totals option option" where
  "check_totals v = (if v = JNull then Some None else
     (case (check_count (get v ''pageLoads''), check_count (get v ''visits'')) of
        (Some l, Some n) \<Rightarrow> Some (Some \<lparr>tot_pageLoads = l, tot_visits = n\<rparr>)
      | _ \<Rightarrow> None))"

definition check_day :: "int option \<Rightarrow> nat \<times> json \<Rightarrow> response_error + daily" where
  "check_day start entry = (let i = fst entry; row = snd entry in
     throw_when (\<not> truthy row) ResponseInvalid
     (case start of
        None \<Rightarrow> Inl ResponseDateInvalid
      | Some ms \<Rightarrow>
        (let t = ms + int i * 86400000; date = iso_date t in
         throw_when (\<not> valid_time t) ResponseDateInvalid
         (throw_when (get row ''date'' \<noteq> JStr date) ResponseInvalid
         (if get row ''pageLoads'' = JNull \<and> get row ''visits'' = JNull \<and> get row ''quality'' = JNull
          then Inr \<lparr>daily_date = date, daily_pageLoads = None, daily_visits = None, daily_quality = None\<rparr>
          else (case (check_count (get row ''pageLoads''), check_count (get row ''visits''),
              one_of quality_text [Observed, SampledEstimate, PartialSite] (get row ''quality'')) of
              (Some l, Some n, Some q) \<Rightarrow> Inr \<lparr>daily_date = date, daily_pageLoads = Some l,
                daily_visits = Some n, daily_quality = Some q\<rparr>
            | _ \<Rightarrow> Inl ResponseInvalid))))))"

definition check_page :: "json \<Rightarrow> response_error + popular_page" where
  "check_page p = throw_when (\<not> truthy p) ResponseInvalid
     (ebind (test_text (rx_test public_path_rx) (get p ''path'')) (\<lambda>path.
      (case (get p ''title'', check_count (get p ''pageLoads''), check_count (get p ''share'')) of
         (JStr title, Some loads, Some share) \<Rightarrow>
           throw_when (reserved_path path \<or> length title > 500 \<or> share > 1) ResponseInvalid
             (Inr \<lparr>pop_path = path, pop_title = title, pop_pageLoads = loads, pop_share = share\<rparr>)
       | _ \<Rightarrow> Inl ResponseInvalid)))"

definition check_source :: "json \<Rightarrow> (source_key \<times> rat) option" where
  "check_source r = (if \<not> truthy r then None else
     (case (one_of source_text [DirectUnknown, SearchSource, ExternalOther] (get r ''source''),
        check_count (get r ''visits'')) of
        (Some k, Some n) \<Rightarrow> Some (k, n)
      | _ \<Rightarrow> None))"

definition require_some :: "'a option \<Rightarrow> response_error + 'a" where
  "require_some v = (case v of Some x \<Rightarrow> Inr x | None \<Rightarrow> Inl ResponseInvalid)"

definition validate_readership :: "json \<Rightarrow> stats_range \<Rightarrow> response_error + readership" where
  "validate_readership v rng =
     throw_when (\<not> truthy v \<or> get v ''schemaVersion'' \<noteq> json_int 1
         \<or> get v ''range'' \<noteq> JStr (range_text rng) \<or> get v ''timezone'' \<noteq> JStr ''UTC'') ResponseInvalid
     (ebind (test_text day_text (get v ''start'')) (\<lambda>start.
      ebind (test_text day_text (get v ''end'')) (\<lambda>finish.
      let quality = get v ''quality'' in
      throw_when (get quality ''source'' \<noteq> JStr rum_source_name
          \<or> get quality ''botFilter'' \<noteq> JStr rum_bot_filter
          \<or> get quality ''visitsAreUniqueUsers'' \<noteq> JBool False) ResponseInvalid
      (case (get quality ''estimated'', get v ''daily'', get v ''popularPages'', get v ''referrers'') of
         (JBool est, JArr days, JArr pages, JArr sources) \<Rightarrow>
           throw_when (length days \<noteq> range_days rng \<or> length pages > 10 \<or> length sources > 3) ResponseInvalid
           (let cover = (\<lambda>d. require_some (check_coverage (length days) (get (get v ''coverage'') d))) in
            ebind (cover ''site'') (\<lambda>site.
            ebind (cover ''pages'') (\<lambda>paged.
            ebind (cover ''referrers'') (\<lambda>referred.
            ebind (require_some (check_totals (get v ''totals''))) (\<lambda>tot.
            ebind (emap (check_day (date_parse start)) (zip [0..<length days] days)) (\<lambda>rows.
            throw_when (rows = [] \<or> get v ''end'' \<noteq> JStr (daily_date (last rows))) ResponseInvalid
            (ebind (emap check_page pages) (\<lambda>popular.
            ebind (emap (\<lambda>r. require_some (check_source r)) sources) (\<lambda>srcs.
            Inr \<lparr>rs_range = rng, rs_start = start, rs_end = finish, rs_botFilter = rum_bot_filter,
              rs_estimated = est, rs_site = site, rs_pages = paged, rs_referrers = referred,
              rs_totals = tot, rs_daily = rows, rs_popular = popular, rs_sources = srcs\<rparr>)))))))))
       | _ \<Rightarrow> Inl ResponseInvalid))))"

section \<open>What a valid response is\<close>

definition count_ok :: "rat \<Rightarrow> bool" where
  "count_ok q \<longleftrightarrow> 0 \<le> q \<and> q \<le> max_safe"

definition coverage_valid :: "nat \<Rightarrow> coverage \<Rightarrow> bool" where
  "coverage_valid n c \<longleftrightarrow> cov_days c \<le> n \<and> pred_option day_text (cov_startedAt c)
     \<and> pred_option day_text (cov_lastCompleteDay c) \<and> pred_option (rx_test synced_rx) (cov_lastSyncedAt c)"

definition daily_valid :: "int \<Rightarrow> nat \<Rightarrow> daily \<Rightarrow> bool" where
  "daily_valid start i d \<longleftrightarrow> valid_time (start + int i * 86400000) \<and> daily_date d = iso_date (start + int i * 86400000)
     \<and> (case (daily_pageLoads d, daily_visits d, daily_quality d) of
          (None, None, None) \<Rightarrow> True
        | (Some l, Some n, Some q) \<Rightarrow> count_ok l \<and> count_ok n
        | _ \<Rightarrow> False)"

definition page_valid :: "popular_page \<Rightarrow> bool" where
  "page_valid p \<longleftrightarrow> rx_test public_path_rx (pop_path p) \<and> \<not> reserved_path (pop_path p) \<and> length (pop_title p) \<le> 500
     \<and> count_ok (pop_pageLoads p) \<and> count_ok (pop_share p) \<and> pop_share p \<le> 1"

definition readership_valid :: "readership \<Rightarrow> bool" where
  "readership_valid r \<longleftrightarrow> day_text (rs_start r) \<and> day_text (rs_end r) \<and> rs_botFilter r = rum_bot_filter
     \<and> length (rs_daily r) = range_days (rs_range r) \<and> length (rs_popular r) \<le> 10 \<and> length (rs_sources r) \<le> 3
     \<and> coverage_valid (length (rs_daily r)) (rs_site r) \<and> coverage_valid (length (rs_daily r)) (rs_pages r)
     \<and> coverage_valid (length (rs_daily r)) (rs_referrers r)
     \<and> pred_option (\<lambda>t. count_ok (tot_pageLoads t) \<and> count_ok (tot_visits t)) (rs_totals r)
     \<and> (\<exists>start. date_parse (rs_start r) = Some start
          \<and> (\<forall>i < length (rs_daily r). daily_valid start i (rs_daily r ! i)))
     \<and> rs_end r = daily_date (last (rs_daily r))
     \<and> list_all page_valid (rs_popular r) \<and> list_all (\<lambda>s. count_ok (snd s)) (rs_sources r)"

text \<open>
  A value that carries what the endpoint would send: every property of the sent object. Only the text
  of a path and of the first day is compared, because only their text is tested.
\<close>

definition carries :: "json \<Rightarrow> json \<Rightarrow> bool" where
  "carries sent v \<longleftrightarrow> (case sent of JObj sent_fields \<Rightarrow> list_all (\<lambda>(k, x). get v k = x) sent_fields | _ \<Rightarrow> v = sent)"

definition page_of :: "json \<Rightarrow> popular_page \<Rightarrow> bool" where
  "page_of v p \<longleftrightarrow> pattern_text (get v ''path'') = Some (pop_path p) \<and> get v ''title'' = JStr (pop_title p)
     \<and> get v ''pageLoads'' = json_number (pop_pageLoads p) \<and> get v ''share'' = json_number (pop_share p)"

definition response_of :: "json \<Rightarrow> readership \<Rightarrow> bool" where
  "response_of v r \<longleftrightarrow>
     get v ''schemaVersion'' = json_int 1 \<and> get v ''range'' = JStr (range_text (rs_range r))
     \<and> get v ''timezone'' = JStr ''UTC''
     \<and> pattern_text (get v ''start'') = Some (rs_start r) \<and> get v ''end'' = JStr (rs_end r)
     \<and> carries (JObj [(''source'', JStr rum_source_name), (''botFilter'', JStr (rs_botFilter r)),
         (''visitsAreUniqueUsers'', JBool False), (''estimated'', JBool (rs_estimated r))]) (get v ''quality'')
     \<and> carries (coverage_json (rs_site r)) (get (get v ''coverage'') ''site'')
     \<and> carries (coverage_json (rs_pages r)) (get (get v ''coverage'') ''pages'')
     \<and> carries (coverage_json (rs_referrers r)) (get (get v ''coverage'') ''referrers'')
     \<and> carries (json_option totals_json (rs_totals r)) (get v ''totals'')
     \<and> (\<exists>days. get v ''daily'' = JArr days \<and> list_all2 (\<lambda>row d. carries (daily_json d) row) days (rs_daily r))
     \<and> (\<exists>pages. get v ''popularPages'' = JArr pages \<and> list_all2 page_of pages (rs_popular r))
     \<and> (\<exists>sources. get v ''referrers'' = JArr sources
          \<and> list_all2 (\<lambda>row s. carries (source_json s) row) sources (rs_sources r))"

section \<open>The parts of the check\<close>

lemma require_some_Inr [simp]: "require_some v = Inr x \<longleftrightarrow> v = Some x"
  by (simp add: require_some_def split: option.split)

lemma require_some_Some [simp]: "require_some (Some x) = Inr x"
  by (simp add: require_some_def)

lemma json_form_simps [simp]:
  "json_number q \<noteq> JNull" "json_number q \<noteq> JUndef" "JUndef \<noteq> json_number q" "json_int i \<noteq> JNull"
  "json_number q = json_number q' \<longleftrightarrow> q = q'"
  "json_option f None = JNull" "json_option f (Some x) = f x"
  "json_option JStr o1 = json_option JStr o2 \<longleftrightarrow> o1 = o2"
  by (simp_all add: json_number_def json_int_def json_option_def split: option.split)

lemma pattern_text_text: "pattern_text v = Some s \<Longrightarrow> \<not> text_fails v"
  by (induction v rule: pattern_text.induct) auto

lemma test_text_Inr: "test_text p v = Inr s \<longleftrightarrow> pattern_text v = Some s \<and> p s"
  using pattern_text_text by (auto simp: test_text_def throw_when_Inr_iff split: option.splits)

lemma check_count_Some: "check_count v = Some q \<longleftrightarrow> v = json_number q \<and> count_ok q"
  by (auto simp: check_count_def json_number_def count_ok_def split: json.splits js_num.splits)

lemma check_count_number [simp]: "check_count (json_number q) = (if count_ok q then Some q else None)"
  by (simp add: check_count_def json_number_def count_ok_def)

lemma one_of_status:
  "one_of status_text_of [Complete, Partial, Unavailable] v = Some s \<longleftrightarrow> v = JStr (status_text_of s)"
  by (cases v; cases s) (auto simp: one_of_def status_text_of_def)

lemma one_of_quality:
  "one_of quality_text [Observed, SampledEstimate, PartialSite] v = Some q \<longleftrightarrow> v = JStr (quality_text q)"
  by (cases v; cases q) (auto simp: one_of_def quality_text_def)

lemma one_of_source:
  "one_of source_text [DirectUnknown, SearchSource, ExternalOther] v = Some k \<longleftrightarrow> v = JStr (source_text k)"
  by (cases v; cases k) (auto simp: one_of_def source_text_def)

lemma nullable_Some: "nullable p v = Some x \<longleftrightarrow> v = json_option JStr x \<and> pred_option p x"
  by (cases v; cases x) (auto simp: nullable_def)

lemma whole_days_Some: "whole_days n v = Some d \<longleftrightarrow> v = json_int (int d) \<and> d \<le> n"
proof
  assume "whole_days n v = Some d"
  then obtain q where v: "v = JNum (Fin q)" and q: "q = of_int \<lfloor>q\<rfloor>" "0 \<le> q" "q \<le> of_nat n" "d = nat \<lfloor>q\<rfloor>"
    by (auto simp: whole_days_def split: json.splits js_num.splits if_splits)
  from q(1,3) have "\<lfloor>q\<rfloor> \<le> int n" by (metis floor_le_iff floor_mono floor_of_nat)
  moreover have "0 \<le> \<lfloor>q\<rfloor>" using q(2) by simp
  ultimately show "v = json_int (int d) \<and> d \<le> n" using q(1,4) v by (simp add: json_int_def)
qed (simp add: whole_days_def json_int_def)

lemma check_coverage_Some: "check_coverage n v = Some c \<longleftrightarrow> carries (coverage_json c) v \<and> coverage_valid n c"
proof
  assume "check_coverage n v = Some c"
  then show "carries (coverage_json c) v \<and> coverage_valid n c"
    by (auto simp: check_coverage_def carries_def coverage_json_def coverage_valid_def one_of_status nullable_Some
        whole_days_Some split: if_splits json.splits option.splits)
next
  assume c: "carries (coverage_json c) v \<and> coverage_valid n c"
  then have "truthy v" using truthy_get [of v "''available''"] by (simp add: carries_def coverage_json_def)
  moreover have "one_of status_text_of [Complete, Partial, Unavailable] (get v ''status'') = Some (cov_status c)"
      "whole_days n (get v ''days'') = Some (cov_days c)" "nullable day_text (get v ''startedAt'') = Some (cov_startedAt c)"
      "nullable day_text (get v ''lastCompleteDay'') = Some (cov_lastCompleteDay c)"
      "nullable (rx_test synced_rx) (get v ''lastSyncedAt'') = Some (cov_lastSyncedAt c)"
    using c by (simp_all add: carries_def coverage_json_def coverage_valid_def one_of_status nullable_Some whole_days_Some
        del: rx_test.simps)
  ultimately show "check_coverage n v = Some c"
    using c by (simp add: check_coverage_def carries_def coverage_json_def)
qed

lemma check_totals_Some:
  "check_totals v = Some t \<longleftrightarrow> carries (json_option totals_json t) v
    \<and> pred_option (\<lambda>t. count_ok (tot_pageLoads t) \<and> count_ok (tot_visits t)) t"
proof (cases t)
  case None
  then show ?thesis by (auto simp: check_totals_def carries_def split: option.splits)
next
  case (Some u)
  have "get JNull k = JUndef" for k by (simp add: get_def)
  with Some show ?thesis
    by (cases u; cases "v = JNull") (auto simp: check_totals_def carries_def totals_json_def check_count_Some
        split: option.splits)
qed

lemma check_day_Inr:
  "check_day start (i, row) = Inr d \<longleftrightarrow> (\<exists>ms. start = Some ms \<and> daily_valid ms i d) \<and> carries (daily_json d) row"
proof
  assume "check_day start (i, row) = Inr d"
  then show "(\<exists>ms. start = Some ms \<and> daily_valid ms i d) \<and> carries (daily_json d) row"
    by (auto simp: check_day_def daily_valid_def carries_def daily_json_def throw_when_Inr_iff check_count_Some
        one_of_quality Let_def split: option.splits if_splits)
next
  assume d: "(\<exists>ms. start = Some ms \<and> daily_valid ms i d) \<and> carries (daily_json d) row"
  then have "truthy row" using truthy_get [of row "''date''"] by (simp add: carries_def daily_json_def)
  moreover have "get row ''quality'' = json_option (\<lambda>q. JStr (quality_text q)) (daily_quality d)"
      "get row ''pageLoads'' = json_option json_number (daily_pageLoads d)"
      "get row ''visits'' = json_option json_number (daily_visits d)" "get row ''date'' = JStr (daily_date d)"
    using d by (simp_all add: carries_def daily_json_def)
  moreover have "check_count (json_number q) = Some q" if "count_ok q" for q
    using that by (simp add: check_count_Some)
  moreover have "one_of quality_text [Observed, SampledEstimate, PartialSite] (JStr (quality_text q)) = Some q" for q
    by (simp add: one_of_quality)
  ultimately show "check_day start (i, row) = Inr d"
    using d by (cases d) (auto simp: check_day_def daily_valid_def throw_when_def Let_def split: option.splits)
qed

lemma check_page_Inr: "check_page v = Inr p \<longleftrightarrow> page_of v p \<and> page_valid p"
proof
  assume run: "check_page v = Inr p"
  then obtain path where path: "test_text (rx_test public_path_rx) (get v ''path'') = Inr path"
    by (auto simp: check_page_def throw_when_Inr_iff ebind_Inr_iff simp del: rx_test.simps)
  obtain title where title: "get v ''title'' = JStr title"
    using run path by (cases "get v ''title''") (simp_all add: check_page_def throw_when_Inr_iff del: rx_test.simps)
  obtain loads share where counts: "check_count (get v ''pageLoads'') = Some loads" "check_count (get v ''share'') = Some share"
    using run path title
    by (cases "check_count (get v ''pageLoads'')"; cases "check_count (get v ''share'')")
      (simp_all add: check_page_def throw_when_Inr_iff del: rx_test.simps)
  show "page_of v p \<and> page_valid p"
    using run path counts
    by (auto simp: check_page_def title page_of_def page_valid_def check_count_Some test_text_Inr throw_when_Inr_iff
        not_less simp del: rx_test.simps)
next
  assume p: "page_of v p \<and> page_valid p"
  then have "truthy v" using truthy_get [of v "''title''"] by (simp add: page_of_def)
  moreover have "check_count (get v ''pageLoads'') = Some (pop_pageLoads p)"
      "check_count (get v ''share'') = Some (pop_share p)"
      "test_text (rx_test public_path_rx) (get v ''path'') = Inr (pop_path p)"
    using p by (simp_all add: page_of_def page_valid_def check_count_Some test_text_Inr del: rx_test.simps)
  ultimately show "check_page v = Inr p"
    using p by (simp add: check_page_def page_of_def page_valid_def throw_when_def del: rx_test.simps)
qed

lemma check_source_Some: "check_source v = Some s \<longleftrightarrow> carries (source_json s) v \<and> count_ok (snd s)"
proof
  assume "check_source v = Some s"
  then show "carries (source_json s) v \<and> count_ok (snd s)"
    by (auto simp: check_source_def carries_def source_json_def check_count_Some one_of_source split: if_splits option.splits)
next
  assume s: "carries (source_json s) v \<and> count_ok (snd s)"
  then have "truthy v" using truthy_get [of v "''source''"] by (simp add: carries_def source_json_def)
  moreover have "check_count (get v ''visits'') = Some (snd s)"
      "one_of source_text [DirectUnknown, SearchSource, ExternalOther] (get v ''source'') = Some (fst s)"
    using s by (simp_all add: carries_def source_json_def check_count_Some one_of_source)
  ultimately show "check_source v = Some s" by (simp add: check_source_def)
qed

section \<open>The check is the contract\<close>

lemma days_checked:
  "emap (check_day start) (zip [0..<length days] days) = Inr rows \<longleftrightarrow>
    list_all2 (\<lambda>row d. carries (daily_json d) row) days rows
    \<and> (\<forall>i < length rows. \<exists>ms. start = Some ms \<and> daily_valid ms i (rows ! i))"
  by (auto simp: emap_Inr_iff list_all2_conv_all_nth check_day_Inr)

lemma pages_checked: "emap check_page vs = Inr ps \<longleftrightarrow> list_all2 page_of vs ps \<and> list_all page_valid ps"
  by (auto simp: emap_Inr_iff list_all2_conv_all_nth check_page_Inr list_all_length)

lemma sources_checked:
  "emap (\<lambda>r. require_some (check_source r)) vs = Inr ss \<longleftrightarrow>
    list_all2 (\<lambda>row s. carries (source_json s) row) vs ss \<and> list_all (\<lambda>s. count_ok (snd s)) ss"
  by (auto simp: emap_Inr_iff list_all2_conv_all_nth check_source_Some list_all_length)

text \<open>The days: one start for all of them, because there is at least one.\<close>

lemma days_start:
  assumes "rows \<noteq> []"
  shows "(\<forall>i < length rows. \<exists>ms. start = Some ms \<and> daily_valid ms i (rows ! i)) \<longleftrightarrow>
    (\<exists>ms. start = Some ms \<and> (\<forall>i < length rows. daily_valid ms i (rows ! i)))"
  using assms by (cases start) auto

lemma range_days_pos: "range_days rng > 0"
  by (cases rng) (simp_all add: range_days_def)

lemma validate_accepts:
  assumes "validate_readership v rng = Inr r"
  shows "readership_valid r \<and> rs_range r = rng \<and> response_of v r"
proof -
  obtain start finish where texts: "test_text day_text (get v ''start'') = Inr start"
      "test_text day_text (get v ''end'') = Inr finish"
    using assms by (auto simp: validate_readership_def throw_when_Inr_iff ebind_Inr_iff)
  obtain est where est: "get (get v ''quality'') ''estimated'' = JBool est"
    using assms texts
    by (cases "get (get v ''quality'') ''estimated''") (simp_all add: validate_readership_def throw_when_Inr_iff Let_def)
  obtain days where days: "get v ''daily'' = JArr days"
    using assms texts est by (cases "get v ''daily''") (simp_all add: validate_readership_def throw_when_Inr_iff Let_def)
  obtain pages where pages: "get v ''popularPages'' = JArr pages"
    using assms texts est days
    by (cases "get v ''popularPages''") (simp_all add: validate_readership_def throw_when_Inr_iff Let_def)
  obtain sources where sources: "get v ''referrers'' = JArr sources"
    using assms texts est days pages
    by (cases "get v ''referrers''") (simp_all add: validate_readership_def throw_when_Inr_iff Let_def)
  note shape = est days pages sources
  note run = assms [unfolded validate_readership_def Let_def texts shape, simplified,
      unfolded throw_when_Inr_iff ebind_Inr_iff require_some_Inr]
  obtain site paged referred tot rows popular srcs where
    guards: "get v ''schemaVersion'' = json_int 1" "get v ''range'' = JStr (range_text rng)"
      "get v ''timezone'' = JStr ''UTC''" "get (get v ''quality'') ''source'' = JStr rum_source_name"
      "get (get v ''quality'') ''botFilter'' = JStr rum_bot_filter"
      "get (get v ''quality'') ''visitsAreUniqueUsers'' = JBool False"
      "length days = range_days rng" "length pages \<le> 10" "length sources \<le> 3"
    and parts: "check_coverage (length days) (get (get v ''coverage'') ''site'') = Some site"
      "check_coverage (length days) (get (get v ''coverage'') ''pages'') = Some paged"
      "check_coverage (length days) (get (get v ''coverage'') ''referrers'') = Some referred"
      "check_totals (get v ''totals'') = Some tot"
      "emap (check_day (date_parse start)) (zip [0..<length days] days) = Inr rows"
      "rows \<noteq> []" "get v ''end'' = JStr (daily_date (last rows))"
      "emap check_page pages = Inr popular"
      "emap (\<lambda>r. require_some (check_source r)) sources = Inr srcs"
    and r: "r = \<lparr>rs_range = rng, rs_start = start, rs_end = finish, rs_botFilter = rum_bot_filter,
             rs_estimated = est, rs_site = site, rs_pages = paged, rs_referrers = referred,
             rs_totals = tot, rs_daily = rows, rs_popular = popular, rs_sources = srcs\<rparr>"
    using run by (auto simp: not_le not_less)
  note checked = parts(5) [unfolded days_checked days_start [OF parts(6)]] parts(8) [unfolded pages_checked]
    parts(9) [unfolded sources_checked]
  have lengths: "length rows = length days" "length popular = length pages" "length srcs = length sources"
    using checked list_all2_lengthD by (metis, metis, metis)
  have "finish = daily_date (last rows)" using texts(2) parts(7) by (simp add: test_text_Inr)
  then show ?thesis
    unfolding readership_valid_def response_of_def r
    using guards texts shape parts(1-4,7) checked lengths
    by (simp add: test_text_Inr check_coverage_Some check_totals_Some carries_def)
qed

lemma validate_complete:
  assumes valid: "readership_valid r" and sent: "response_of v r"
  shows "validate_readership v (rs_range r) = Inr r"
proof -
  obtain days pages sources where shape: "get v ''daily'' = JArr days" "get v ''popularPages'' = JArr pages"
      "get v ''referrers'' = JArr sources" "list_all2 (\<lambda>row d. carries (daily_json d) row) days (rs_daily r)"
      "list_all2 page_of pages (rs_popular r)" "list_all2 (\<lambda>row s. carries (source_json s) row) sources (rs_sources r)"
    using sent by (auto simp: response_of_def)
  have lengths: "length days = length (rs_daily r)" "length pages = length (rs_popular r)" "length sources = length (rs_sources r)"
    using shape(4-6) by (simp_all add: list_all2_lengthD)
  have ne: "rs_daily r \<noteq> []" using valid range_days_pos [of "rs_range r"] by (auto simp: readership_valid_def)
  have ends: "day_text (rs_start r)" "day_text (rs_end r)" "rs_end r = daily_date (last (rs_daily r))"
      "get v ''end'' = JStr (rs_end r)" "pattern_text (get v ''start'') = Some (rs_start r)"
    using valid sent unfolding readership_valid_def response_of_def by blast+
  then have texts: "test_text day_text (get v ''start'') = Inr (rs_start r)"
      "test_text day_text (get v ''end'') = Inr (rs_end r)"
    unfolding test_text_Inr by simp_all
  have days: "emap (check_day (date_parse (rs_start r))) (zip [0..<length days] days) = Inr (rs_daily r)"
    unfolding days_checked days_start [OF ne] using valid shape(4) unfolding readership_valid_def by blast
  have others: "emap check_page pages = Inr (rs_popular r)"
      "emap (\<lambda>s. require_some (check_source s)) sources = Inr (rs_sources r)"
    using valid shape(5,6) by (simp_all add: pages_checked sources_checked readership_valid_def)
  have covers: "check_coverage (length days) (get (get v ''coverage'') ''site'') = Some (rs_site r)"
      "check_coverage (length days) (get (get v ''coverage'') ''pages'') = Some (rs_pages r)"
      "check_coverage (length days) (get (get v ''coverage'') ''referrers'') = Some (rs_referrers r)"
      "check_totals (get v ''totals'') = Some (rs_totals r)"
    using valid sent unfolding check_coverage_Some check_totals_Some readership_valid_def response_of_def lengths by blast+
  have header: "get v ''schemaVersion'' = json_int 1" "get v ''range'' = JStr (range_text (rs_range r))"
      "get v ''timezone'' = JStr ''UTC''" "get (get v ''quality'') ''source'' = JStr rum_source_name"
      "get (get v ''quality'') ''botFilter'' = JStr rum_bot_filter" "rs_botFilter r = rum_bot_filter"
      "get (get v ''quality'') ''visitsAreUniqueUsers'' = JBool False"
      "get (get v ''quality'') ''estimated'' = JBool (rs_estimated r)" "length (rs_daily r) = range_days (rs_range r)"
      "length (rs_popular r) \<le> 10" "length (rs_sources r) \<le> 3"
    using valid sent by (simp_all add: readership_valid_def response_of_def carries_def)
  have "truthy v" using shape(1) truthy_get [of v "''daily''"] by simp
  then show ?thesis
    using header texts days others covers shape(1-3) ne ends(3,4)
    by (cases r) (simp add: validate_readership_def throw_when_def lengths)
qed

lemma response_of_json: "response_of (readership_json r) r"
proof -
  have keys: "distinct (map fst sent) \<Longrightarrow> carries (JObj sent) (JObj sent)" for sent
    by (auto simp: carries_def list_all_iff get_JObj field_def)
  have "carries (coverage_json c) (coverage_json c)" "carries (daily_json d) (daily_json d)"
      "carries (source_json s) (source_json s)" "page_of (popular_json p) p"
      "carries (json_option totals_json t) (json_option totals_json t)" for c d s p t
    by (simp_all add: coverage_json_def daily_json_def source_json_def keys page_of_def popular_json_def get_JObj)
      (cases t; simp add: totals_json_def keys; simp add: carries_def)
  then show ?thesis
    by (simp add: response_of_def readership_json_def get_JObj carries_def list_all2_map1 list.rel_refl)
qed

lemma validate_sound: "validate_readership v rng = Inr r \<Longrightarrow> readership_valid r \<and> rs_range r = rng"
  using validate_accepts by blast

text \<open>
  C29. The page accepts exactly the readerships of the contract. The check of a JSON value for a range
  gives a readership exactly when that readership is valid and of the range, and the value carries all of
  it: schema version 1, the range, the time zone UTC, the first and the last day, the source, the bot
  filter, visits that are no unique users, the estimate flag, the three coverages, the totals, and every
  day, page and source in order. So every valid readership, sent as the endpoint sends it, is accepted and
  read back as it was, and no other is.
\<close>

theorem validate_readership_correct:
  "(validate_readership v rng = Inr r \<longleftrightarrow> readership_valid r \<and> rs_range r = rng \<and> response_of v r)
    \<and> (validate_readership (readership_json sent) (rs_range sent) = Inr sent \<longleftrightarrow> readership_valid sent)"
  using validate_accepts validate_complete response_of_json by blast

end
