(* ===== verification/ReadershipView.thy ===== *)
theory ReadershipView
  imports ReadershipCheck ChartInteraction
begin

text \<open>
  The page's side of the statistics, \<open>apps/web/src/lib/stats/readership.ts\<close>: the plot of the traffic,
  what is rendered from a readership, and the component that loads, shows and discards readerships as
  a state machine. Texts of the page are kept as the data they are composed of.
\<close>

section \<open>The plot\<close>

datatype traffic_metric = PageLoadsMetric | VisitsMetric
datatype plot_mode = EmptyPlot | DiscretePlot | TrendPlot

record traffic_sample =
  ts_day :: daily
  ts_x :: rat
  ts_y :: "rat option"

record traffic_point =
  tp_x :: rat
  tp_y :: rat
  tp_date :: string
  tp_value :: rat

record traffic_plot =
  plot_maximum :: int
  plot_ticks :: "(int \<times> rat) list"
  plot_points :: "traffic_point list"
  plot_paths :: "(rat \<times> rat) list list"
  plot_samples :: "traffic_sample list"
  plot_mode :: plot_mode
  plot_observed :: nat

definition metric_of :: "traffic_metric \<Rightarrow> daily \<Rightarrow> rat option" where
  "metric_of m d = (case m of PageLoadsMetric \<Rightarrow> daily_pageLoads d | VisitsMetric \<Rightarrow> daily_visits d)"

definition traffic_scale :: "traffic_metric \<Rightarrow> daily list \<Rightarrow> scale" where
  "traffic_scale m days =
     chart_scale (fold max (map (\<lambda>d. case metric_of m d of Some v \<Rightarrow> v | None \<Rightarrow> 0) days) 0)"

definition mode_of :: "nat \<Rightarrow> plot_mode" where
  "mode_of n = (if n = 0 then EmptyPlot else if n \<le> 3 then DiscretePlot else TrendPlot)"

definition discrete_x :: "nat \<Rightarrow> nat \<Rightarrow> rat" where
  "discrete_x n i = (if n = 1 then 50 else 20 + of_nat i / (of_nat n - 1) * 60)"

definition trend_x :: "nat \<Rightarrow> nat \<Rightarrow> rat" where
  "trend_x n i = 1 + of_nat i / max 1 (of_nat n - 1) * 98"

text \<open>A path is grown point by point and ends at a missing day.\<close>

definition draw_sample ::
  "traffic_metric \<Rightarrow> plot_mode \<Rightarrow> traffic_sample \<Rightarrow> traffic_point list \<times> (rat \<times> rat) list list \<times> (rat \<times> rat) list
    \<Rightarrow> traffic_point list \<times> (rat \<times> rat) list list \<times> (rat \<times> rat) list" where
  "draw_sample m mode s st = (case st of (points, paths, path) \<Rightarrow>
     (case (metric_of m (ts_day s), ts_y s) of
        (Some v, Some y) \<Rightarrow>
          (points @ [\<lparr>tp_x = ts_x s, tp_y = y, tp_date = daily_date (ts_day s), tp_value = v\<rparr>], paths,
           if mode = TrendPlot then path @ [(ts_x s, y)] else path)
      | _ \<Rightarrow> (points, if path \<noteq> [] then paths @ [path] else paths, [])))"

definition traffic_samples :: "traffic_metric \<Rightarrow> daily list \<Rightarrow> traffic_sample list" where
  "traffic_samples m days =
     (let valid = filter (\<lambda>d. metric_of m d \<noteq> None) days; mode = mode_of (length valid);
          shown = (if mode = DiscretePlot then valid else days);
          maximum = sc_maximum (traffic_scale m days)
      in map (\<lambda>(i, d). \<lparr>ts_day = d,
           ts_x = (if mode = DiscretePlot then discrete_x (length shown) i else trend_x (length days) i),
           ts_y = map_option (scale_y maximum) (metric_of m d)\<rparr>) (zip [0..<length shown] shown))"

definition traffic_plot_of :: "daily list \<Rightarrow> traffic_metric \<Rightarrow> traffic_plot" where
  "traffic_plot_of days m =
     (let observed = length (filter (\<lambda>d. metric_of m d \<noteq> None) days); mode = mode_of observed;
          samples = traffic_samples m days;
          (points, paths, path) = fold (draw_sample m mode) samples ([], [], [])
      in \<lparr>plot_maximum = sc_maximum (traffic_scale m days), plot_ticks = sc_ticks (traffic_scale m days),
          plot_points = points, plot_paths = (if path \<noteq> [] then paths @ [path] else paths),
          plot_samples = samples, plot_mode = mode, plot_observed = observed\<rparr>)"

section \<open>What is rendered\<close>

datatype traffic_row = MetricRow traffic_metric "rat option" | QualityRow "site_quality option"

record rendered_page =
  rp_range :: stats_range
  rp_metric :: traffic_metric
  rp_totals :: "totals option"
  rp_coverage :: "nat \<times> nat \<times> string option \<times> string option"
  rp_plot :: traffic_plot
  rp_layout_hidden :: bool
  rp_empty_hidden :: bool
  rp_dates_hidden :: bool
  rp_start :: string
  rp_end :: string
  rp_lines :: "(rat \<times> rat) list list"
  rp_dots :: "traffic_point list"
  rp_stems :: "(rat \<times> rat \<times> rat) list"
  rp_table :: "(string \<times> rat option \<times> rat option) list"
  rp_pages :: "(nat \<times> popular_page) list"
  rp_sources :: "(source_key \<times> rat) list"

text \<open>The totals are written only when there are some; otherwise the old ones stay, out of sight.\<close>

definition render_page :: "totals option \<Rightarrow> readership \<Rightarrow> traffic_metric \<Rightarrow> rendered_page" where
  "render_page old r m = (let plot = traffic_plot_of (rs_daily r) m in
     \<lparr>rp_range = rs_range r, rp_metric = m,
      rp_totals = (case rs_totals r of Some t \<Rightarrow> Some t | None \<Rightarrow> old),
      rp_coverage = (cov_days (rs_site r), length (rs_daily r), cov_startedAt (rs_site r), cov_lastSyncedAt (rs_site r)),
      rp_plot = plot, rp_layout_hidden = (plot_mode plot = EmptyPlot), rp_empty_hidden = (plot_mode plot \<noteq> EmptyPlot),
      rp_dates_hidden = (plot_mode plot = DiscretePlot), rp_start = rs_start r, rp_end = rs_end r,
      rp_lines = plot_paths plot, rp_dots = plot_points plot,
      rp_stems = (if plot_mode plot = DiscretePlot
        then map (\<lambda>p. (tp_x p, tp_y p, snd (last (plot_ticks plot)))) (plot_points plot) else []),
      rp_table = map (\<lambda>d. (daily_date d, daily_pageLoads d, daily_visits d)) (rs_daily r),
      rp_pages = zip [1..<length (rs_popular r) + 1] (rs_popular r),
      rp_sources = rs_sources r\<rparr>)"

definition traffic_data :: "traffic_plot \<Rightarrow> traffic_metric \<Rightarrow> traffic_row chart_data" where
  "traffic_data plot m =
     \<lparr>ser_count = length (plot_samples plot),
      ser_sample = (\<lambda>i. let s = plot_samples plot ! i; d = ts_day s
        in \<lparr>cs_date = daily_date d, cs_x = ts_x s, cs_y = ts_y s,
            cs_rows = [MetricRow m (metric_of m d), QualityRow (daily_quality d)]\<rparr>)\<rparr>"

section \<open>The component\<close>

datatype notice = NoNotice | NotAvailableYet | TemporarilyUnavailable

record client =
  cl_data :: "readership option"
  cl_metric :: traffic_metric
  cl_selected :: stats_range
  cl_controller :: "nat option"
  cl_pending :: "(nat \<times> stats_range) list"
  cl_next :: nat
  cl_has_chart :: bool
  cl_chart :: "traffic_row chart"
  cl_series :: "traffic_row chart_data"
  cl_busy :: bool
  cl_retry_hidden :: bool
  cl_notice :: notice
  cl_site_hidden :: bool
  cl_pages_hidden :: bool
  cl_referrers_hidden :: bool
  cl_quality_hidden :: bool
  cl_page :: "rendered_page option"
  cl_attached :: bool

definition drop_chart :: "client \<Rightarrow> client" where
  "drop_chart c = (if cl_has_chart c then c\<lparr>cl_chart := destroy_chart (cl_chart c), cl_has_chart := False\<rparr> else c)"

definition hide_all :: "client \<Rightarrow> client" where
  "hide_all c = (drop_chart c)\<lparr>cl_site_hidden := True, cl_pages_hidden := True, cl_referrers_hidden := True,
     cl_quality_hidden := True\<rparr>"

definition render_client :: "client \<Rightarrow> client" where
  "render_client c = (case cl_data c of
     None \<Rightarrow> c
   | Some r \<Rightarrow>
     (let site_hidden = (\<not> cov_available (rs_site r) \<or> rs_totals r = None);
          page = render_page (Option.bind (cl_page c) rp_totals) r (cl_metric c);
          plot = rp_plot page;
          shown = (drop_chart c)\<lparr>cl_site_hidden := site_hidden,
            cl_pages_hidden := (\<not> cov_available (rs_pages r) \<or> rs_popular r = []),
            cl_referrers_hidden := (\<not> cov_available (rs_referrers r) \<or> rs_sources r = []),
            cl_quality_hidden := site_hidden,
            cl_notice := (if site_hidden then NotAvailableYet else NoNotice),
            cl_page := Some page\<rparr>
      in if plot_mode plot \<noteq> EmptyPlot \<and> \<not> site_hidden
         then shown\<lparr>cl_series := traffic_data plot (cl_metric c), cl_has_chart := True,
           cl_chart := mount_chart (traffic_data plot (cl_metric c)) (cl_chart shown)\<rparr>
         else shown))"

definition load_range :: "stats_range \<Rightarrow> client \<Rightarrow> client" where
  "load_range rng c = (drop_chart c)\<lparr>cl_controller := Some (cl_next c), cl_next := cl_next c + 1,
     cl_pending := cl_pending c @ [(cl_next c, rng)], cl_selected := rng, cl_busy := True, cl_retry_hidden := True\<rparr>"

text \<open>
  How a request ends: the status and body of its response, the body \<open>None\<close> where \<open>JSON.parse\<close> throws;
  or no response, for a network error, an abort or the timeout.
\<close>

datatype load_outcome = LoadResponse bool nat "json option" | LoadFailed

definition load_result :: "stats_range \<Rightarrow> load_outcome \<Rightarrow> readership option" where
  "load_result rng outcome = (case outcome of
     LoadFailed \<Rightarrow> None
   | LoadResponse ok len body \<Rightarrow>
       if \<not> ok \<or> len > 256 * 1024 then None
       else (case body of None \<Rightarrow> None
         | Some v \<Rightarrow> (case validate_readership v rng of Inl _ \<Rightarrow> None | Inr r \<Rightarrow> Some r)))"

definition settle_request :: "nat \<Rightarrow> load_outcome \<Rightarrow> client \<Rightarrow> client" where
  "settle_request rid outcome c = (case map_of (cl_pending c) rid of
     None \<Rightarrow> c
   | Some rng \<Rightarrow>
     (let done = c\<lparr>cl_pending := filter (\<lambda>(k, _). k \<noteq> rid) (cl_pending c)\<rparr> in
      if cl_controller c \<noteq> Some rid then done
      else (case load_result rng outcome of
          Some r \<Rightarrow> render_client (done\<lparr>cl_data := Some r\<rparr>)
        | None \<Rightarrow> (hide_all (done\<lparr>cl_data := None\<rparr>))\<lparr>cl_notice := TemporarilyUnavailable, cl_retry_hidden := False\<rparr>)
        \<lparr>cl_busy := False\<rparr>))"

record clicked_button =
  btn_range :: "string option"
  btn_metric :: "string option"
  btn_retry :: bool

definition click_button :: "clicked_button \<Rightarrow> client \<Rightarrow> client" where
  "click_button b c =
     (let ranged = (case Option.bind (btn_range b) range_of of Some rng \<Rightarrow> load_range rng c | None \<Rightarrow> c);
          metered = (case btn_metric b of
            Some m \<Rightarrow> if m = [] then ranged
              else render_client (ranged\<lparr>cl_metric := (if m = ''visits'' then VisitsMetric else PageLoadsMetric)\<rparr>)
          | None \<Rightarrow> ranged)
      in if btn_retry b then load_range (cl_selected metered) metered else metered)"

definition stop_client :: "client \<Rightarrow> client" where
  "stop_client c = (drop_chart c)\<lparr>cl_controller := None, cl_attached := False\<rparr>"

datatype client_event =
    Clicked "clicked_button option"
  | Settled nat load_outcome
  | ChartUsed "traffic_row surroundings" chart_event
  | PageHidden bool
  | ClientDetached
  | Stopped

definition client_step :: "client_event \<Rightarrow> client \<Rightarrow> client" where
  "client_step e c = (case e of
     Clicked button \<Rightarrow> (case button of Some b \<Rightarrow> if cl_attached c then click_button b c else c | None \<Rightarrow> c)
   | Settled rid outcome \<Rightarrow> settle_request rid outcome c
   | ChartUsed sur ev \<Rightarrow> c\<lparr>cl_chart := chart_step sur (cl_series c) ev (cl_chart c)\<rparr>
   | PageHidden persisted \<Rightarrow>
       (if \<not> cl_attached c then c
        else if persisted then (if cl_has_chart c then c\<lparr>cl_chart := reset_chart (cl_chart c)\<rparr> else c)
        else stop_client c)
   | ClientDetached \<Rightarrow> (if cl_attached c then stop_client c else c)
   | Stopped \<Rightarrow> stop_client c)"

text \<open>The component starts on a page whose parts are hidden, and loads thirty days.\<close>

definition start_client :: "traffic_row chart \<Rightarrow> traffic_row chart_data \<Rightarrow> client" where
  "start_client plot_root series = load_range Range30
     \<lparr>cl_data = None, cl_metric = PageLoadsMetric, cl_selected = Range30, cl_controller = None, cl_pending = [],
      cl_next = 0, cl_has_chart = False, cl_chart = plot_root, cl_series = series, cl_busy = False, cl_retry_hidden = True,
      cl_notice = NoNotice, cl_site_hidden = True, cl_pages_hidden = True, cl_referrers_hidden = True,
      cl_quality_hidden = True, cl_page = None, cl_attached = True\<rparr>"

inductive client_reach :: "client \<Rightarrow> bool" where
  started: "released plot_root \<Longrightarrow> client_reach (start_client plot_root series)"
| event: "client_reach c \<Longrightarrow> client_reach (client_step e c)"

section \<open>The plot is the data\<close>

text \<open>The maximal runs of present values, the reference for the paths of a trend.\<close>

function runs :: "'a option list \<Rightarrow> 'a list list" where
  "runs [] = []"
| "runs (None # xs) = runs xs"
| "runs (Some a # xs) = (a # map the (takeWhile (\<lambda>x. x \<noteq> None) xs)) # runs (dropWhile (\<lambda>x. x \<noteq> None) xs)"
  by pat_completeness auto
termination by (relation "measure length") (auto simp: less_Suc_eq_le length_dropWhile_le)

definition sample_point :: "traffic_metric \<Rightarrow> traffic_sample \<Rightarrow> traffic_point option" where
  "sample_point m s = (case (metric_of m (ts_day s), ts_y s) of
     (Some v, Some y) \<Rightarrow> Some \<lparr>tp_x = ts_x s, tp_y = y, tp_date = daily_date (ts_day s), tp_value = v\<rparr>
   | _ \<Rightarrow> None)"

definition point_place :: "traffic_point \<Rightarrow> rat \<times> rat" where
  "point_place p = (tp_x p, tp_y p)"

definition finish_paths :: "'a list list \<Rightarrow> 'a list \<Rightarrow> 'a list list" where
  "finish_paths paths path = (if path \<noteq> [] then paths @ [path] else paths)"

lemma draw_sample_eq:
  "draw_sample m mode s (points, paths, path) = (case sample_point m s of
     Some p \<Rightarrow> (points @ [p], paths, if mode = TrendPlot then path @ [point_place p] else path)
   | None \<Rightarrow> (points, finish_paths paths path, []))"
  by (auto simp: draw_sample_def sample_point_def point_place_def finish_paths_def split: option.split)

lemma draw_points: "fst (fold (draw_sample m mode) ss (points, paths, path)) =
    points @ map the (filter (\<lambda>p. p \<noteq> None) (map (sample_point m) ss))"
  by (induction ss arbitrary: points paths path) (auto simp: draw_sample_eq split: option.split)

lemma draw_discrete: "mode \<noteq> TrendPlot \<Longrightarrow> snd (fold (draw_sample m mode) ss (points, [], [])) = ([], [])"
  by (induction ss arbitrary: points) (auto simp: draw_sample_eq finish_paths_def split: option.split)

lemma draw_paths:
  "case fold (draw_sample m TrendPlot) ss (points, paths, path) of (points', paths', path') \<Rightarrow>
    finish_paths paths' path' = paths @ (let xs = map (map_option point_place \<circ> sample_point m) ss in
      if path = [] then runs xs
      else (path @ map the (takeWhile (\<lambda>x. x \<noteq> None) xs)) # runs (dropWhile (\<lambda>x. x \<noteq> None) xs))"
proof (induction ss arbitrary: points paths path)
  case Nil
  then show ?case by (simp add: finish_paths_def)
next
  case (Cons s ss)
  show ?case
  proof (cases "sample_point m s")
    case None
    then show ?thesis using Cons.IH [where points = points and paths = "finish_paths paths path" and path = "[]"]
      by (simp add: draw_sample_eq finish_paths_def Let_def split: prod.splits if_splits)
  next
    case (Some p)
    then show ?thesis using Cons.IH [where points = "points @ [p]" and paths = paths and path = "path @ [point_place p]"]
      by (cases "path = []") (auto simp: draw_sample_eq Let_def split: prod.splits)
  qed
qed

lemma traffic_sample_nth:
  assumes "mode_of (length (filter (\<lambda>d. metric_of m d \<noteq> None) days)) = mode"
  defines "shown \<equiv> if mode = DiscretePlot then filter (\<lambda>d. metric_of m d \<noteq> None) days else days"
  shows "length (traffic_samples m days) = length shown"
    and "i < length shown \<Longrightarrow> traffic_samples m days ! i = \<lparr>ts_day = shown ! i,
      ts_x = (if mode = DiscretePlot then discrete_x (length shown) i else trend_x (length days) i),
      ts_y = map_option (scale_y (sc_maximum (traffic_scale m days))) (metric_of m (shown ! i))\<rparr>"
  unfolding traffic_samples_def Let_def assms(1) by (simp_all add: shown_def)

interpretation discrete: chart_series n "discrete_x n" for n
proof
  fix i j assume ij: "i < j" "j < n"
  then have "(0 :: rat) < of_nat n - 1" by (simp add: less_diff_eq)
  with ij show "discrete_x n i < discrete_x n j"
    by (simp add: discrete_x_def divide_strict_right_mono)
next
  fix i assume i: "i < n"
  show "0 \<le> discrete_x n i \<and> discrete_x n i \<le> 100"
  proof (cases "n = 1")
    case False
    with i have "(0 :: rat) < of_nat n - 1" by (simp add: less_diff_eq)
    from fraction_bounds [OF i this order_refl, of 60] False show ?thesis unfolding discrete_x_def by simp
  qed (simp add: discrete_x_def)
qed

interpretation trend: chart_series n "trend_x n" for n
proof
  fix i j assume ij: "i < j" "j < n"
  have "(0 :: rat) < max 1 (of_nat n - 1)" by simp
  then have "of_nat i / max 1 (of_nat n - 1) < (of_nat j / max 1 (of_nat n - 1) :: rat)"
    using ij by (intro divide_strict_right_mono) simp_all
  then show "trend_x n i < trend_x n j"
    unfolding trend_x_def by (intro add_strict_left_mono mult_strict_right_mono) simp_all
next
  fix i assume i: "i < n"
  have "0 \<le> (of_nat i / max 1 (of_nat n - 1) * 98 :: rat) \<and> of_nat i / max 1 (of_nat n - 1) * 98 \<le> (98 :: rat)"
    by (rule fraction_bounds [OF i]) simp_all
  then show "0 \<le> trend_x n i \<and> trend_x n i \<le> 100" unfolding trend_x_def by linarith
qed

lemma runs_map: "map (map f) (runs xs) = runs (map (map_option f) xs)"
proof (induction xs rule: runs.induct)
  case (3 a xs)
  have "takeWhile (\<lambda>x. x \<noteq> None) (map (map_option f) xs) = map (map_option f) (takeWhile (\<lambda>x. x \<noteq> None) xs)"
      "dropWhile (\<lambda>x. x \<noteq> None) (map (map_option f) xs) = map (map_option f) (dropWhile (\<lambda>x. x \<noteq> None) xs)"
    by (simp_all add: takeWhile_map dropWhile_map comp_def)
  moreover have "map f (map the (takeWhile (\<lambda>x. x \<noteq> None) xs)) =
      map the (map (map_option f) (takeWhile (\<lambda>x. x \<noteq> None) xs))"
    by (auto dest: set_takeWhileD)
  ultimately show ?case using 3 by simp
qed simp_all

definition observed_days :: "traffic_metric \<Rightarrow> daily list \<Rightarrow> daily list" where
  "observed_days m days = filter (\<lambda>d. metric_of m d \<noteq> None) days"

lemma point_of_sample:
  "ts_y s = map_option f (metric_of m (ts_day s)) \<Longrightarrow> sample_point m s = map_option (\<lambda>v. \<lparr>tp_x = ts_x s, tp_y = f v,
     tp_date = daily_date (ts_day s), tp_value = v\<rparr>) (metric_of m (ts_day s))"
  by (cases "metric_of m (ts_day s)") (simp_all add: sample_point_def)

lemma points_of_samples:
  assumes "\<And>s. s \<in> set ss \<Longrightarrow> ts_y s = map_option f (metric_of m (ts_day s))"
  shows "map (\<lambda>p. (tp_date p, Some (tp_value p))) (map the (filter (\<lambda>p. p \<noteq> None) (map (sample_point m) ss))) =
      map (\<lambda>d. (daily_date d, metric_of m d)) (observed_days m (map ts_day ss))"
    and "p \<in> set (map the (filter (\<lambda>p. p \<noteq> None) (map (sample_point m) ss))) \<Longrightarrow> tp_y p = f (tp_value p)"
proof -
  have all: "sample_point m s = map_option (\<lambda>v. \<lparr>tp_x = ts_x s, tp_y = f v,
     tp_date = daily_date (ts_day s), tp_value = v\<rparr>) (metric_of m (ts_day s))" if "s \<in> set ss" for s
    by (rule point_of_sample [OF assms [OF that]])
  show "map (\<lambda>p. (tp_date p, Some (tp_value p))) (map the (filter (\<lambda>p. p \<noteq> None) (map (sample_point m) ss))) =
      map (\<lambda>d. (daily_date d, metric_of m d)) (observed_days m (map ts_day ss))"
    using all by (induction ss) (auto simp: observed_days_def)
  show "tp_y p = f (tp_value p)" if p: "p \<in> set (map the (filter (\<lambda>p. p \<noteq> None) (map (sample_point m) ss)))"
  proof -
    from p obtain s where s: "s \<in> set ss" "sample_point m s = Some p" by auto
    with all [OF s(1)] show ?thesis by (cases "metric_of m (ts_day s)") auto
  qed
qed

lemma samples_of_days:
  fixes m :: traffic_metric and days :: "daily list"
  defines "observed \<equiv> observed_days m days"
  defines "shown \<equiv> if mode_of (length observed) = DiscretePlot then observed else days"
  shows "map ts_day (traffic_samples m days) = shown"
    and "s \<in> set (traffic_samples m days) \<Longrightarrow>
      ts_y s = map_option (scale_y (sc_maximum (traffic_scale m days))) (metric_of m (ts_day s))"
    and "observed_days m shown = observed"
    and "length (traffic_samples m days) = length shown"
    and "i < length shown \<Longrightarrow> ts_x (traffic_samples m days ! i) =
      (if mode_of (length observed) = DiscretePlot then discrete_x (length shown) i else trend_x (length days) i)"
proof -
  have mode: "mode_of (length (filter (\<lambda>d. metric_of m d \<noteq> None) days)) = mode_of (length observed)"
    by (simp add: observed_def observed_days_def)
  note nth = traffic_sample_nth [OF mode]
  have shown: "(if mode_of (length observed) = DiscretePlot then filter (\<lambda>d. metric_of m d \<noteq> None) days else days) = shown"
    by (simp add: shown_def observed_def observed_days_def)
  show len: "length (traffic_samples m days) = length shown" using nth(1) unfolding shown .
  show "map ts_day (traffic_samples m days) = shown"
    by (rule nth_equalityI) (use len nth(2) in \<open>simp_all add: shown\<close>)
  show "ts_x (traffic_samples m days ! i) =
      (if mode_of (length observed) = DiscretePlot then discrete_x (length shown) i else trend_x (length days) i)"
    if "i < length shown" using nth(2) [unfolded shown, OF that] by simp
  show "ts_y s = map_option (scale_y (sc_maximum (traffic_scale m days))) (metric_of m (ts_day s))"
    if "s \<in> set (traffic_samples m days)"
    using that len nth(2) by (auto simp: in_set_conv_nth shown)
  show "observed_days m shown = observed" by (simp add: shown_def observed_def observed_days_def)
qed

text \<open>
  C30. The plot is the data: its points are the observed days in order, at the heights of their values;
  a trend is drawn as the maximal runs of observed days, so that no line crosses a missing day, and
  few days are drawn without lines; the samples run from left to right inside the plot.
\<close>

theorem traffic_plot_correct:
  "map (\<lambda>p. (tp_date p, Some (tp_value p))) (plot_points (traffic_plot_of days m)) =
      map (\<lambda>d. (daily_date d, metric_of m d)) (observed_days m days)
    \<and> (\<forall>p \<in> set (plot_points (traffic_plot_of days m)).
        tp_y p = scale_y (plot_maximum (traffic_plot_of days m)) (tp_value p))
    \<and> (if length (observed_days m days) > 3
       then map ts_day (plot_samples (traffic_plot_of days m)) = days
         \<and> map (map fst) (plot_paths (traffic_plot_of days m)) =
           runs (map (\<lambda>(i, d). map_option (\<lambda>_. trend_x (length days) i) (metric_of m d)) (zip [0..<length days] days))
       else plot_paths (traffic_plot_of days m) = [])
    \<and> (\<forall>j < length (plot_samples (traffic_plot_of days m)).
        0 \<le> ts_x (plot_samples (traffic_plot_of days m) ! j) \<and> ts_x (plot_samples (traffic_plot_of days m) ! j) \<le> 100
        \<and> (\<forall>i < j. ts_x (plot_samples (traffic_plot_of days m) ! i) < ts_x (plot_samples (traffic_plot_of days m) ! j)))"
proof -
  let ?mode = "mode_of (length (observed_days m days))" and ?ss = "traffic_samples m days"
  let ?shown = "if ?mode = DiscretePlot then observed_days m days else days"
  let ?f = "scale_y (sc_maximum (traffic_scale m days))"
  obtain points paths path where fold: "fold (draw_sample m ?mode) ?ss ([], [], []) = (points, paths, path)"
    by (cases "fold (draw_sample m ?mode) ?ss ([], [], [])")
  have plot: "plot_points (traffic_plot_of days m) = points" "plot_samples (traffic_plot_of days m) = ?ss"
      "plot_paths (traffic_plot_of days m) = finish_paths paths path"
      "plot_maximum (traffic_plot_of days m) = sc_maximum (traffic_scale m days)"
    using fold by (simp_all add: traffic_plot_of_def finish_paths_def observed_days_def Let_def)
  have points: "points = map the (filter (\<lambda>p. p \<noteq> None) (map (sample_point m) ?ss))"
    using draw_points [of m ?mode ?ss "[]" "[]" "[]"] fold by simp
  note samples = samples_of_days [where m = m and days = days]
  have pts: "map (\<lambda>p. (tp_date p, Some (tp_value p))) points = map (\<lambda>d. (daily_date d, metric_of m d)) (observed_days m days)"
    unfolding points using points_of_samples(1) [OF samples(2)] samples(1,3) by simp
  have heights: "\<forall>p \<in> set points. tp_y p = ?f (tp_value p)"
    unfolding points using points_of_samples(2) [OF samples(2)] by blast
  have paths: "if length (observed_days m days) > 3
       then map ts_day ?ss = days \<and> map (map fst) (finish_paths paths path) =
           runs (map (\<lambda>(i, d). map_option (\<lambda>_. trend_x (length days) i) (metric_of m d)) (zip [0..<length days] days))
       else finish_paths paths path = []"
  proof (cases "length (observed_days m days) > 3")
    case True
    then have mode: "?mode = TrendPlot" by (auto simp: mode_of_def)
    then have shown: "?shown = days" by simp
    have "finish_paths paths path = runs (map (map_option point_place \<circ> sample_point m) ?ss)"
      using draw_paths [where m = m and ss = ?ss and points = "[]" and paths = "[]" and path = "[]"] fold unfolding mode by simp
    then have "map (map fst) (finish_paths paths path) =
        runs (map (map_option fst) (map (map_option point_place \<circ> sample_point m) ?ss))"
      by (simp only: runs_map)
    also have "map (map_option fst) (map (map_option point_place \<circ> sample_point m) ?ss) =
        map (\<lambda>s. map_option (\<lambda>_. ts_x s) (metric_of m (ts_day s))) ?ss"
      by (simp add: point_of_sample [OF samples(2)] option.map_comp comp_def point_place_def)
    also have "map (\<lambda>s. map_option (\<lambda>_. ts_x s) (metric_of m (ts_day s))) ?ss =
        map (\<lambda>(i, d). map_option (\<lambda>_. trend_x (length days) i) (metric_of m d)) (zip [0..<length days] days)"
    proof (rule nth_equalityI)
      show "length (map (\<lambda>s. map_option (\<lambda>_. ts_x s) (metric_of m (ts_day s))) ?ss) =
          length (map (\<lambda>(i, d). map_option (\<lambda>_. trend_x (length days) i) (metric_of m d)) (zip [0..<length days] days))"
        using samples(4) shown by simp
      fix i assume "i < length (map (\<lambda>s. map_option (\<lambda>_. ts_x s) (metric_of m (ts_day s))) ?ss)"
      then have i: "i < length ?ss" "i < length days" using samples(4) shown by simp_all
      moreover have "ts_day (?ss ! i) = days ! i" using samples(1) shown i by (metis nth_map)
      moreover have "ts_x (?ss ! i) = trend_x (length days) i" using samples(5) [of i] mode i by simp
      ultimately show "map (\<lambda>s. map_option (\<lambda>_. ts_x s) (metric_of m (ts_day s))) ?ss ! i =
          map (\<lambda>(i, d). map_option (\<lambda>_. trend_x (length days) i) (metric_of m d)) (zip [0..<length days] days) ! i"
        by simp
    qed
    finally show ?thesis using True samples(1) shown by simp
  next
    case False
    then have "?mode \<noteq> TrendPlot" by (simp add: mode_of_def)
    from draw_discrete [OF this, of m ?ss "[]"] fold False show ?thesis by (simp add: finish_paths_def)
  qed
  have places: "0 \<le> ts_x (?ss ! j) \<and> ts_x (?ss ! j) \<le> 100 \<and> (\<forall>i < j. ts_x (?ss ! i) < ts_x (?ss ! j))"
    if j: "j < length ?ss" for j
  proof (cases "?mode = DiscretePlot")
    case True
    then show ?thesis using samples(4,5) j discrete.on_plot discrete.ascending by simp
  next
    case False
    then show ?thesis using samples(4,5) j trend.on_plot trend.ascending by simp
  qed
  show ?thesis unfolding plot using pts heights paths places by blast
qed

lemma traffic_plot_correct_witness:
  "map (\<lambda>p. (tp_date p, Some (tp_value p)))
     (plot_points (traffic_plot_of [\<lparr>daily_date = ''2026-01-01'', daily_pageLoads = Some 4, daily_visits = Some 2,
        daily_quality = Some Observed\<rparr>, \<lparr>daily_date = ''2026-01-02'', daily_pageLoads = None, daily_visits = None,
        daily_quality = None\<rparr>] PageLoadsMetric)) = [(''2026-01-01'', Some 4)]"
  using traffic_plot_correct [of "[\<lparr>daily_date = ''2026-01-01'', daily_pageLoads = Some 4, daily_visits = Some 2,
        daily_quality = Some Observed\<rparr>, \<lparr>daily_date = ''2026-01-02'', daily_pageLoads = None, daily_visits = None,
        daily_quality = None\<rparr>]" PageLoadsMetric]
  by (simp add: observed_days_def metric_of_def)

section \<open>The component shows what was asked for\<close>

definition chart_ok :: "client \<Rightarrow> bool" where
  "chart_ok c \<longleftrightarrow> (if cl_has_chart c then \<exists>c0. released c0 \<and> chart_reach c0 (cl_series c) (cl_chart c)
     else released (cl_chart c))"

definition parts_follow :: "readership \<Rightarrow> client \<Rightarrow> bool" where
  "parts_follow r c \<longleftrightarrow> cl_site_hidden c = (\<not> cov_available (rs_site r) \<or> rs_totals r = None)
     \<and> cl_pages_hidden c = (\<not> cov_available (rs_pages r) \<or> rs_popular r = [])
     \<and> cl_referrers_hidden c = (\<not> cov_available (rs_referrers r) \<or> rs_sources r = [])
     \<and> cl_quality_hidden c = cl_site_hidden c
     \<and> (\<exists>old. cl_page c = Some (render_page old r (cl_metric c)))"

definition all_hidden :: "client \<Rightarrow> bool" where
  "all_hidden c \<longleftrightarrow> cl_site_hidden c \<and> cl_pages_hidden c \<and> cl_referrers_hidden c \<and> cl_quality_hidden c
     \<and> \<not> cl_has_chart c"

definition data_ok :: "client \<Rightarrow> bool" where
  "data_ok c \<longleftrightarrow> (case cl_data c of None \<Rightarrow> all_hidden c | Some r \<Rightarrow> readership_valid r \<and> parts_follow r c)"

definition request_ok :: "client \<Rightarrow> bool" where
  "request_ok c \<longleftrightarrow> (\<forall>k \<in> fst ` set (cl_pending c). k < cl_next c)
     \<and> (case cl_controller c of
          None \<Rightarrow> \<not> cl_attached c
        | Some k \<Rightarrow> k < cl_next c \<and> (case map_of (cl_pending c) k of
            Some rng \<Rightarrow> cl_busy c \<and> rng = cl_selected c
          | None \<Rightarrow> \<not> cl_busy c \<and> (case cl_data c of
              None \<Rightarrow> \<not> cl_retry_hidden c | Some r \<Rightarrow> rs_range r = cl_selected c)))"

definition client_inv :: "client \<Rightarrow> bool" where
  "client_inv c \<longleftrightarrow> chart_ok c \<and> data_ok c \<and> request_ok c"

lemma released_step: "released c \<Longrightarrow> chart_step sur series e c = c"
  by (cases e) (simp_all add: chart_step_def released_def)

lemma reach_destroy: "released c0 \<Longrightarrow> chart_reach c0 series c \<Longrightarrow> released (destroy_chart c)"
  by (rule destroy_released [OF reach_inv])

lemma drop_chart_simps [simp]:
  "cl_data (drop_chart c) = cl_data c" "cl_metric (drop_chart c) = cl_metric c" "cl_selected (drop_chart c) = cl_selected c"
  "cl_controller (drop_chart c) = cl_controller c" "cl_pending (drop_chart c) = cl_pending c" "cl_next (drop_chart c) = cl_next c"
  "cl_busy (drop_chart c) = cl_busy c" "cl_retry_hidden (drop_chart c) = cl_retry_hidden c"
  "cl_site_hidden (drop_chart c) = cl_site_hidden c" "cl_pages_hidden (drop_chart c) = cl_pages_hidden c"
  "cl_referrers_hidden (drop_chart c) = cl_referrers_hidden c" "cl_quality_hidden (drop_chart c) = cl_quality_hidden c"
  "cl_page (drop_chart c) = cl_page c" "cl_attached (drop_chart c) = cl_attached c" "\<not> cl_has_chart (drop_chart c)"
  by (simp_all add: drop_chart_def)

lemma drop_chart_released: "chart_ok c \<Longrightarrow> released (cl_chart (drop_chart c))"
  using reach_destroy by (auto simp: chart_ok_def drop_chart_def)

lemma render_keeps:
  assumes "chart_ok c" "case cl_data c of None \<Rightarrow> all_hidden c | Some r \<Rightarrow> readership_valid r"
  shows "chart_ok (render_client c) \<and> data_ok (render_client c)"
proof (cases "cl_data c")
  case None
  then show ?thesis using assms by (simp add: render_client_def data_ok_def)
next
  case (Some r)
  have "released (cl_chart (drop_chart c))" by (rule drop_chart_released [OF assms(1)])
  then show ?thesis
    using assms Some chart_reach.mounted
    by (auto simp: render_client_def Let_def data_ok_def parts_follow_def chart_ok_def)
qed

lemma render_simps [simp]:
  "cl_data (render_client c) = cl_data c" "cl_metric (render_client c) = cl_metric c"
  "cl_selected (render_client c) = cl_selected c" "cl_controller (render_client c) = cl_controller c"
  "cl_pending (render_client c) = cl_pending c" "cl_next (render_client c) = cl_next c"
  "cl_busy (render_client c) = cl_busy c" "cl_retry_hidden (render_client c) = cl_retry_hidden c"
  "cl_attached (render_client c) = cl_attached c"
  by (simp_all add: render_client_def Let_def split: option.split)

lemma load_keeps: "client_inv c \<Longrightarrow> client_inv (load_range rng c)"
proof -
  assume inv: "client_inv c"
  then have fresh: "map_of (cl_pending c) (cl_next c) = None"
    by (auto simp: client_inv_def request_ok_def map_of_eq_None_iff)
  then have "map_of (cl_pending c @ [(cl_next c, rng)]) (cl_next c) = Some rng" by (simp add: map_add_def)
  moreover have "released (cl_chart (drop_chart c))"
    using inv drop_chart_released by (simp add: client_inv_def)
  ultimately show ?thesis
    using inv by (auto simp: client_inv_def load_range_def request_ok_def chart_ok_def data_ok_def parts_follow_def
        all_hidden_def less_Suc_eq split: option.splits)
qed

lemma hide_simps [simp]:
  "cl_data (hide_all c) = cl_data c" "cl_selected (hide_all c) = cl_selected c" "cl_controller (hide_all c) = cl_controller c"
  "cl_pending (hide_all c) = cl_pending c" "cl_next (hide_all c) = cl_next c" "cl_attached (hide_all c) = cl_attached c"
  "all_hidden (hide_all c)" "cl_chart (hide_all c) = cl_chart (drop_chart c)" "\<not> cl_has_chart (hide_all c)"
  by (simp_all add: hide_all_def all_hidden_def)

lemma map_of_filter_key:
  "map_of (filter (\<lambda>(k, _). k \<noteq> a) xs) k = (if k = a then None else map_of xs k)"
  by (induction xs) auto

lemma load_result_valid: "load_result rng outcome = Some r \<Longrightarrow> readership_valid r \<and> rs_range r = rng"
  using validate_sound by (auto simp: load_result_def split: load_outcome.splits option.splits sum.splits if_splits)

lemma settle_stale:
  "cl_controller c \<noteq> Some rid \<Longrightarrow>
    settle_request rid outcome c = c\<lparr>cl_pending := filter (\<lambda>(k, _). k \<noteq> rid) (cl_pending c)\<rparr> \<or> settle_request rid outcome c = c"
  by (simp add: settle_request_def Let_def split: option.split)

lemma settle_keeps: "client_inv c \<Longrightarrow> client_inv (settle_request rid outcome c)"
proof (cases "map_of (cl_pending c) rid")
  case (Some rng)
  assume inv: "client_inv c"
  let ?done = "c\<lparr>cl_pending := filter (\<lambda>(k, _). k \<noteq> rid) (cl_pending c)\<rparr>"
  show ?thesis
  proof (cases "cl_controller c = Some rid")
    case False
    then have "settle_request rid outcome c = ?done" using Some by (simp add: settle_request_def Let_def)
    moreover have "client_inv ?done"
      using inv False by (auto simp: client_inv_def request_ok_def chart_ok_def data_ok_def parts_follow_def all_hidden_def
          map_of_filter_key split: option.splits)
    ultimately show ?thesis by simp
  next
    case True
    have selected: "rng = cl_selected c" and next_id: "rid < cl_next c" "\<forall>k \<in> fst ` set (cl_pending c). k < cl_next c"
      using inv True Some by (simp_all add: client_inv_def request_ok_def)
    have chart: "chart_ok c" using inv by (simp add: client_inv_def)
    show ?thesis
    proof (cases "load_result rng outcome")
      case None
      then have s: "settle_request rid outcome c = (hide_all (?done\<lparr>cl_data := None\<rparr>))\<lparr>cl_notice := TemporarilyUnavailable,
          cl_retry_hidden := False, cl_busy := False\<rparr>"
        using True Some by (simp add: settle_request_def Let_def)
      have "chart_ok (?done\<lparr>cl_data := None\<rparr>)" using chart by (simp add: chart_ok_def)
      then have "released (cl_chart (drop_chart (?done\<lparr>cl_data := None\<rparr>)))" by (rule drop_chart_released)
      moreover have "all_hidden (settle_request rid outcome c)" unfolding s by (simp add: hide_all_def all_hidden_def)
      ultimately show ?thesis
        using True next_id unfolding client_inv_def s
        by (auto simp: chart_ok_def data_ok_def request_ok_def map_of_filter_key)
    next
      case (Some r)
      have valid: "readership_valid r" "rs_range r = rng" using load_result_valid [OF Some] by simp_all
      have s: "settle_request rid outcome c = (render_client (?done\<lparr>cl_data := Some r\<rparr>))\<lparr>cl_busy := False\<rparr>"
        using True Some \<open>map_of (cl_pending c) rid = Some rng\<close> by (simp add: settle_request_def Let_def)
      have "chart_ok (render_client (?done\<lparr>cl_data := Some r\<rparr>)) \<and> data_ok (render_client (?done\<lparr>cl_data := Some r\<rparr>))"
        by (rule render_keeps) (use chart valid in \<open>simp_all add: chart_ok_def\<close>)
      then show ?thesis
        using True next_id valid(2) selected unfolding client_inv_def s
        by (auto simp: chart_ok_def data_ok_def parts_follow_def request_ok_def map_of_filter_key)
    qed
  qed
qed (simp add: settle_request_def)

lemma metric_keeps: "client_inv c \<Longrightarrow> client_inv (render_client (c\<lparr>cl_metric := m\<rparr>))"
proof -
  assume inv: "client_inv c"
  have "chart_ok (render_client (c\<lparr>cl_metric := m\<rparr>)) \<and> data_ok (render_client (c\<lparr>cl_metric := m\<rparr>))"
    by (rule render_keeps) (use inv in \<open>auto simp: client_inv_def chart_ok_def data_ok_def all_hidden_def split: option.splits\<close>)
  moreover have "request_ok (render_client (c\<lparr>cl_metric := m\<rparr>))"
    using inv by (auto simp: client_inv_def request_ok_def split: option.splits)
  ultimately show ?thesis by (simp add: client_inv_def)
qed

lemma click_keeps: "client_inv c \<Longrightarrow> client_inv (click_button b c)"
  by (auto simp: click_button_def Let_def load_keeps metric_keeps split: option.split)

lemma stop_keeps_client: "client_inv c \<Longrightarrow> client_inv (stop_client c)"
  using drop_chart_released [of c]
  by (auto simp: client_inv_def stop_client_def chart_ok_def data_ok_def parts_follow_def all_hidden_def request_ok_def
      split: option.splits)

lemma chart_update_keeps:
  assumes "client_inv c" "cl_has_chart c \<Longrightarrow> chart_ok (c\<lparr>cl_chart := x\<rparr>)" "\<not> cl_has_chart c \<Longrightarrow> x = cl_chart c"
  shows "client_inv (c\<lparr>cl_chart := x\<rparr>)"
  using assms by (cases "cl_has_chart c")
    (auto simp: client_inv_def data_ok_def parts_follow_def all_hidden_def request_ok_def chart_ok_def split: option.splits)

lemma step_keeps_client: "client_inv c \<Longrightarrow> client_inv (client_step e c)"
proof -
  assume inv: "client_inv c"
  have step: "client_inv (c\<lparr>cl_chart := chart_step sur (cl_series c) ev (cl_chart c)\<rparr>)" for sur ev
  proof (rule chart_update_keeps [OF inv])
    show "cl_has_chart c \<Longrightarrow> chart_ok (c\<lparr>cl_chart := chart_step sur (cl_series c) ev (cl_chart c)\<rparr>)"
      using inv by (auto simp: client_inv_def chart_ok_def intro: chart_reach.event)
    show "\<not> cl_has_chart c \<Longrightarrow> chart_step sur (cl_series c) ev (cl_chart c) = cl_chart c"
      using inv by (auto simp: client_inv_def chart_ok_def intro: released_step)
  qed
  have reset: "client_inv (c\<lparr>cl_chart := reset_chart (cl_chart c)\<rparr>)" if "cl_has_chart c"
  proof (rule chart_update_keeps [OF inv])
    show "chart_ok (c\<lparr>cl_chart := reset_chart (cl_chart c)\<rparr>)"
      using inv that by (auto simp: client_inv_def chart_ok_def intro: chart_reach.reset)
  qed (use that in simp)
  show ?thesis
    using inv step reset stop_keeps_client [OF inv] settle_keeps [OF inv] click_keeps [OF inv]
    by (cases e) (simp_all add: client_step_def split: option.split)
qed

lemma start_keeps: "released plot_root \<Longrightarrow> client_inv (start_client plot_root series)"
  by (auto simp: start_client_def load_range_def drop_chart_def client_inv_def chart_ok_def data_ok_def all_hidden_def
      request_ok_def)

lemma client_reach_inv: "client_reach c \<Longrightarrow> client_inv c"
  by (induction rule: client_reach.induct) (simp_all add: start_keeps step_keeps_client)

text \<open>
  C31. Whatever is clicked and in whatever order responses arrive, the page shows only a readership that
  passed the check, rendered whole for the chosen metric; once it is no longer busy that is the range
  asked for last, or nothing with a retry offered; an overtaken response changes nothing on the page; and
  the chart in use is in a reachable state over the samples of the plot.
\<close>

theorem client_shows_selected:
  assumes "client_reach c"
  shows "(case cl_data c of None \<Rightarrow> all_hidden c | Some r \<Rightarrow> readership_valid r \<and> parts_follow r c)
    \<and> (cl_attached c \<and> \<not> cl_busy c \<longrightarrow>
        (case cl_data c of None \<Rightarrow> \<not> cl_retry_hidden c | Some r \<Rightarrow> rs_range r = cl_selected c))
    \<and> (\<forall>rid outcome. cl_controller c \<noteq> Some rid \<longrightarrow>
        settle_request rid outcome c = c\<lparr>cl_pending := filter (\<lambda>(k, _). k \<noteq> rid) (cl_pending c)\<rparr> \<or> settle_request rid outcome c = c)
    \<and> (cl_has_chart c \<longrightarrow> shows_index (cl_series c) (cl_chart c))"
proof -
  have inv: "client_inv c" by (rule client_reach_inv [OF assms])
  have "cl_has_chart c \<longrightarrow> shows_index (cl_series c) (cl_chart c)"
    using inv reach_inv unfolding client_inv_def chart_ok_def chart_inv_def by metis
  moreover have "cl_attached c \<and> \<not> cl_busy c \<longrightarrow>
      (case cl_data c of None \<Rightarrow> \<not> cl_retry_hidden c | Some r \<Rightarrow> rs_range r = cl_selected c)"
    using inv by (auto simp: client_inv_def request_ok_def split: option.splits)
  moreover have "case cl_data c of None \<Rightarrow> all_hidden c | Some r \<Rightarrow> readership_valid r \<and> parts_follow r c"
    using inv by (simp add: client_inv_def data_ok_def)
  ultimately show ?thesis using settle_stale by blast
qed

section \<open>The page in use\<close>

definition sample_plot_root :: "traffic_row chart" where
  "sample_plot_root = \<lparr>tooltip_hidden = True, guide_hidden = True, dot_hidden = True, guide_left = 0, dot_at = (0, 0),
     tooltip_text = ([], []), tooltip_at = (0, 0), status_text = None, tab_index = None, described_by = None,
     instructions_hidden = True, instructions_id = ''help'', captured = [], frame = False, current_index = -1,
     rendered = -1, destroyed = True, pointer = None, drag = None, tip_size = (0, 0),
     original_tab_index = None, original_description = None, listening = False\<rparr>"

definition sample_client :: client where
  "sample_client = start_client sample_plot_root \<lparr>ser_count = 0, ser_sample = (\<lambda>_. \<lparr>cs_date = [], cs_x = 0,
     cs_y = None, cs_rows = []\<rparr>)\<rparr>"

lemma sample_client_reach: "client_reach sample_client"
  unfolding sample_client_def by (rule client_reach.started) (simp add: released_def sample_plot_root_def)

lemma client_shows_selected_witness:
  "all_hidden (client_step (Settled 0 LoadFailed) sample_client)
    \<and> \<not> cl_retry_hidden (client_step (Settled 0 LoadFailed) sample_client)"
proof -
  let ?c = "client_step (Settled 0 LoadFailed) sample_client"
  have "cl_data ?c = None" "cl_attached ?c" "\<not> cl_busy ?c"
    by (simp_all add: sample_client_def start_client_def load_range_def drop_chart_def client_step_def settle_request_def
        load_result_def Let_def)
  then show ?thesis using client_shows_selected [OF client_reach.event [OF sample_client_reach, of "Settled 0 LoadFailed"]]
    by simp
qed

end
