(* ===== verification/Markdown.thy ===== *)
theory Markdown
  imports JsPrelude JsRegex
begin

text \<open>
  \<open>packages/markdown/src/index.ts\<close>: the safety rules for links, images and Markdown shared by
  the Admin, the build and the legacy import. The \<open>URL\<close> constructor of the host and the parsers of
  \<open>unified\<close> are arguments: \<open>url\<close> returns the components of a text or \<open>None\<close> where \<open>new URL\<close>
  throws, \<open>with_math\<close> and \<open>plain\<close> are \<open>remark-parse\<close> with GFM, with and without \<open>remark-math\<close>.
\<close>

section \<open>Links\<close>

record parsed_url =
  url_protocol :: string
  url_username :: string
  url_password :: string
  url_hostname :: string
  url_port :: string
  url_pathname :: string
  url_search :: string
  url_hash :: string
  url_origin :: string

type_synonym url_parser = "string \<Rightarrow> parsed_url option"

datatype markdown_error = InvalidUrl | InvalidDevelopmentAssetOrigin | InvalidMarkdown "string list"

definition asset_origin :: string where
  "asset_origin = ''https://assets.gopheratlas.com''"

text \<open>\<open>/[\u0000-\u0020\u007f\\]/u\<close>\<close>

definition unsafe_char :: "char \<Rightarrow> bool" where
  "unsafe_char c \<longleftrightarrow> (of_char c :: nat) \<le> 0x20 \<or> (of_char c :: nat) = 0x7F \<or> (of_char c :: nat) = 0x5C"

definition is_safe_link :: "url_parser \<Rightarrow> string \<Rightarrow> bool" where
  "is_safe_link url value =
     (if list_ex unsafe_char value then False
      else if prefix ''#'' value \<or> prefix ''/'' value \<and> \<not> prefix ''//'' value then True
      else (case url value of
          None \<Rightarrow> False
        | Some u \<Rightarrow> url_protocol u \<in> set [''http:'', ''https:'', ''mailto:'']
            \<and> url_username u = [] \<and> url_password u = []))"

text \<open>\<open>/^(?:127(?:\.\d{1,3}){3}|localhost|\[::1\])$/u\<close>\<close>

definition octet_rx :: rx where
  "octet_rx = Seq (Lit CHR ''.'') (Seq (Cls digit_class) (Seq (Opt (Cls digit_class)) (Opt (Cls digit_class))))"

definition loopback_rx :: rx where
  "loopback_rx = Alt (Seq (Word ''127'') (Times 3 octet_rx)) (Alt (Word ''localhost'') (Word ''[::1]''))"

definition development_asset_policy :: "url_parser \<Rightarrow> string \<Rightarrow> markdown_error + string" where
  "development_asset_policy url base = (case url base of
     None \<Rightarrow> Inl InvalidUrl
   | Some u \<Rightarrow> throw_when
       (\<not> is_safe_link url base \<or> url_protocol u \<noteq> ''http:'' \<or> url_port u = []
        \<or> \<not> rx_test loopback_rx (url_hostname u) \<or> url_pathname u \<noteq> ''/__dev/assets''
        \<or> url_search u \<noteq> [] \<or> url_hash u \<noteq> [] \<or> base \<noteq> url_origin u @ ''/__dev/assets'')
       InvalidDevelopmentAssetOrigin (Inr base))"

text \<open>
  \<open>/^media\/sha256\/([a-f0-9]{2})\/([a-f0-9]{64})\.(png|jpg|webp|gif)$/u\<close>; the first group starts
  at 13 and the second at 16.
\<close>

definition asset_key_rx :: rx where
  "asset_key_rx = Seq (Word ''media/sha256/'') (Seq (Times 2 (Cls hex_class)) (Seq (Lit CHR ''/'')
     (Seq (Times 64 (Cls hex_class)) (Seq (Lit CHR ''.'')
       (Alt (Word ''png'') (Alt (Word ''jpg'') (Alt (Word ''webp'') (Word ''gif''))))))))"

definition is_asset_url :: "url_parser \<Rightarrow> string \<Rightarrow> string option \<Rightarrow> bool" where
  "is_asset_url url value policy =
     (if (case policy of None \<Rightarrow> False | Some base \<Rightarrow> \<not> succeeds (development_asset_policy url base))
      then False
      else (let base = (case policy of None \<Rightarrow> asset_origin | Some base \<Rightarrow> base);
                key = drop (length base + 1) value
            in prefix (base @ ''/'') value \<and> rx_test asset_key_rx key
               \<and> take 2 (drop 13 key) = take 2 (drop 16 key)))"

text \<open>\<open>/^https:\/\//iu\<close>\<close>

definition https_prefix :: "string \<Rightarrow> bool" where
  "https_prefix value \<longleftrightarrow> length value \<ge> 8 \<and> list_all2 (\<lambda>c w. c = w \<or> of_char c + (32 :: nat) = of_char w)
     (take 5 value) ''https'' \<and> take 3 (drop 5 value) = ''://''"

definition is_controlled_image :: "url_parser \<Rightarrow> string \<Rightarrow> string option \<Rightarrow> bool" where
  "is_controlled_image url value policy = (case policy of
     Some base \<Rightarrow> if \<not> succeeds (development_asset_policy url base) then False
       else is_asset_url url value policy
   | None \<Rightarrow> if \<not> https_prefix value \<or> \<not> is_safe_link url value then False
       else (case url value of None \<Rightarrow> False | Some u \<Rightarrow> url_origin u = asset_origin))"

section \<open>Syntax trees\<close>

text \<open>
  A node of \<open>mdast\<close> with what the code reads of it: \<open>position.start.line\<close> and the offsets, each
  of which may be missing. All other node types are \<open>OtherNode\<close>.
\<close>

record md_position =
  start_line :: nat
  start_offset :: "nat option"
  end_offset :: "nat option"

datatype md_kind =
    Heading nat
  | Html
  | Link string
  | Definition string string
  | Image string "string option"
  | ImageReference string "string option"
  | InlineMath string
  | TextNode string
  | OtherNode string

datatype mdast = MdNode (md_kind: md_kind) (md_position: "md_position option") (md_children: "mdast list")

text \<open>\<open>visit\<close>: every node before its children, the children in order.\<close>

fun preorder :: "mdast \<Rightarrow> mdast list" where
  "preorder (MdNode k p cs) = MdNode k p cs # concat (map preorder cs)"

section \<open>The rules\<close>

record md_issue =
  issue_code :: string
  issue_line :: "nat option"

definition add_definition :: "mdast \<Rightarrow> (string \<times> string) list \<Rightarrow> (string \<times> string) list" where
  "add_definition node m = (case md_kind node of
     Definition i u \<Rightarrow> if map_has m i then m else AList.update i u m
   | _ \<Rightarrow> m)"

definition definitions :: "mdast \<Rightarrow> (string \<times> string) list" where
  "definitions tree = fold add_definition (preorder tree) []"

text \<open>\<open>!url\<close> also holds for the empty string.\<close>

definition image_codes :: "url_parser \<Rightarrow> string option \<Rightarrow> string option \<Rightarrow> string option \<Rightarrow> string list" where
  "image_codes url policy target alt =
     (if (case target of None \<Rightarrow> True | Some u \<Rightarrow> u = [] \<or> \<not> is_controlled_image url u policy)
      then [''external_image''] else [])
     @ (if (case alt of None \<Rightarrow> True | Some a \<Rightarrow> js_trim a = []) then [''missing_alt''] else [])"

definition node_codes ::
  "url_parser \<Rightarrow> string option \<Rightarrow> (string \<times> string) list \<Rightarrow> md_kind \<Rightarrow> string list" where
  "node_codes url policy defs k = (case k of
     Heading d \<Rightarrow> if d = 1 then [''body_h1''] else []
   | Html \<Rightarrow> [''raw_html'']
   | Link u \<Rightarrow> if is_safe_link url u then [] else [''unsafe_url'']
   | Definition i u \<Rightarrow> if is_safe_link url u then [] else [''unsafe_url'']
   | Image u alt \<Rightarrow> image_codes url policy (Some u) alt
   | ImageReference i alt \<Rightarrow> image_codes url policy (map_of defs i) alt
   | _ \<Rightarrow> [])"

definition inspect :: "url_parser \<Rightarrow> string option \<Rightarrow> mdast \<Rightarrow> md_issue list" where
  "inspect url policy tree = concat (map (\<lambda>node.
     map (\<lambda>code. \<lparr>issue_code = code, issue_line = map_option start_line (md_position node)\<rparr>)
       (node_codes url policy (definitions tree) (md_kind node))) (preorder tree))"

text \<open>
  \<open>remarkCurrency\<close>: inline math that reads like a phrase of two amounts becomes text again. The
  root has no parent and stays.
\<close>

definition starts_with_digit :: "string \<Rightarrow> bool" where
  "starts_with_digit s \<longleftrightarrow> (case s of [] \<Rightarrow> False | c # _ \<Rightarrow> in_class digit_class c)"

definition currency_node :: "string \<Rightarrow> mdast \<Rightarrow> mdast" where
  "currency_node source node = (case md_kind node of
     InlineMath value \<Rightarrow>
       (case md_position node of
          None \<Rightarrow> node
        | Some p \<Rightarrow> (case (start_offset p, end_offset p) of
            (Some a, Some b) \<Rightarrow>
              if starts_with_digit value \<and> starts_with_digit (drop b source)
                \<and> \<not> prefix ''$$'' (drop a source)
              then MdNode (TextNode (take (b - a) (drop a source))) (md_position node) []
              else node
          | _ \<Rightarrow> node))
   | _ \<Rightarrow> node)"

fun remark_currency :: "string \<Rightarrow> mdast \<Rightarrow> mdast" where
  "remark_currency source (MdNode k p cs) =
     MdNode k p (map (\<lambda>c. currency_node source (remark_currency source c)) cs)"

section \<open>Formulas\<close>

text \<open>\<open>split('\n')\<close> and \<open>join('\n')\<close>.\<close>

fun split_lines :: "string \<Rightarrow> string list" where
  "split_lines [] = [[]]"
| "split_lines (c # s) = (if c = CHR 0x0A then [] # split_lines s
     else (case split_lines s of l # ls \<Rightarrow> (c # l) # ls | [] \<Rightarrow> [[c]]))"

definition without_return :: "string \<Rightarrow> string" where
  "without_return line = (if line \<noteq> [] \<and> last line = CHR 0x0D then butlast line else line)"

text \<open>Up to three spaces, as \<open>^ {0,3}\<close> before a character that is no space.\<close>

definition unindent :: "string \<Rightarrow> string option" where
  "unindent line = (let n = length (takeWhile (\<lambda>c. c = CHR '' '') line)
     in if n \<le> 3 then Some (drop n line) else None)"

text \<open>\<open>/^ {0,3}(`{3,}|~{3,})(.*)$/u\<close>: the fence and the rest of the line, which \<open>.\<close> must match.\<close>

definition code_fence :: "string \<Rightarrow> (string \<times> string) option" where
  "code_fence line = (case unindent line of
     Some (c # s) \<Rightarrow>
       let fence = takeWhile (\<lambda>x. x = c) (c # s); rest = dropWhile (\<lambda>x. x = c) (c # s)
       in if (c = CHR 0x60 \<or> c = CHR ''~'') \<and> length fence \<ge> 3 \<and> CHR 0x0D \<notin> set rest
          then Some (fence, rest) else None
   | _ \<Rightarrow> None)"

definition blank :: "string \<Rightarrow> bool" where
  "blank s \<longleftrightarrow> list_all (\<lambda>c. c = CHR 0x09 \<or> c = CHR '' '') s"

text \<open>\<open>/^ {0,3}\$\$[\t ]*$/u\<close> and \<open>/^ {0,3}=[\t ]*\r?$/u\<close>.\<close>

definition dollar_line :: "string \<Rightarrow> bool" where
  "dollar_line line \<longleftrightarrow> (case unindent line of None \<Rightarrow> False | Some s \<Rightarrow> prefix ''$$'' s \<and> blank (drop 2 s))"

definition equals_line :: "string \<Rightarrow> bool" where
  "equals_line line \<longleftrightarrow> (case unindent line of None \<Rightarrow> False
     | Some s \<Rightarrow> prefix ''='' s \<and> blank (without_return (drop 1 s)))"

text \<open>\<open>line.replace('=', '\\=')\<close>: the first one only.\<close>

definition escape_equals :: "string \<Rightarrow> string" where
  "escape_equals line = takeWhile (\<lambda>c. c \<noteq> CHR ''='') line @ (case dropWhile (\<lambda>c. c \<noteq> CHR ''='') line of
     [] \<Rightarrow> [] | c # s \<Rightarrow> CHR 0x5C # c # s)"

record math_state =
  md_lines :: "string list"
  md_start :: "nat option"
  md_fence :: string

definition escape_between :: "nat \<Rightarrow> nat \<Rightarrow> string list \<Rightarrow> string list" where
  "escape_between start i ls = map (\<lambda>j. if start < j \<and> j < i \<and> equals_line (ls ! j)
     then escape_equals (ls ! j) else ls ! j) [0..<length ls]"

text \<open>One turn of the loop at line \<open>i\<close>; each \<open>continue\<close> is a branch.\<close>

definition math_dollars :: "nat \<Rightarrow> string \<Rightarrow> math_state \<Rightarrow> math_state" where
  "math_dollars i line st =
     (if \<not> dollar_line line then st
      else (case md_start st of
          None \<Rightarrow> st\<lparr>md_start := Some i\<rparr>
        | Some start \<Rightarrow> st\<lparr>md_lines := escape_between start i (md_lines st), md_start := None\<rparr>))"

definition math_step :: "nat \<Rightarrow> math_state \<Rightarrow> math_state" where
  "math_step i st =
     (let line = without_return (md_lines st ! i)
      in if md_start st = None
         then (let code = code_fence line
               in if md_fence st \<noteq> []
                  then (case code of
                      Some (f, rest) \<Rightarrow>
                        if hd f = hd (md_fence st) \<and> length f \<ge> length (md_fence st) \<and> js_trim rest = []
                        then st\<lparr>md_fence := []\<rparr> else st
                    | None \<Rightarrow> st)
                  else (case code of
                      Some (f, rest) \<Rightarrow> st\<lparr>md_fence := f\<rparr>
                    | None \<Rightarrow> math_dollars i line st))
         else math_dollars i line st)"

definition safety_lines :: "string list \<Rightarrow> string list" where
  "safety_lines ls = md_lines (fold math_step [0..<length ls] \<lparr>md_lines = ls, md_start = None, md_fence = []\<rparr>)"

definition math_safety_source :: "string \<Rightarrow> string" where
  "math_safety_source source = js_join [CHR 0x0A] (safety_lines (split_lines source))"

section \<open>Validation\<close>

text \<open>\<open>/^---\r?\n[\s\S]*?\r?\n(?:---|\.\.\.)(?:\r?\n|$)/u\<close>\<close>

definition newline_rx :: rx where
  "newline_rx = Seq (Opt (Lit CHR 0x0D)) (Lit CHR 0x0A)"

definition frontmatter_rx :: rx where
  "frontmatter_rx = Seq (Word ''---'') (Seq newline_rx (Seq (Star (Cls any_class)) (Seq newline_rx
     (Seq (Alt (Word ''---'') (Word ''...'')) (Opt (Seq newline_rx (Star (Cls any_class))))))))"

definition line_text :: "nat option \<Rightarrow> string" where
  "line_text l = (case l of None \<Rightarrow> ''undefined'' | Some n \<Rightarrow> js_decimal n)"

definition inspect_source ::
  "url_parser \<Rightarrow> (string \<Rightarrow> mdast) \<Rightarrow> string option \<Rightarrow> mdast \<Rightarrow> string \<Rightarrow> md_issue list" where
  "inspect_source url plain policy tree source =
     (let issues = inspect url policy tree
            @ (if CHR ''$'' \<in> set source then inspect url policy (plain (math_safety_source source)) else [])
            @ (if rx_test frontmatter_rx source
               then [\<lparr>issue_code = ''frontmatter'', issue_line = Some 1\<rparr>] else [])
      in map_values (map_of_pairs (map (\<lambda>i. (issue_code i @ '':'' @ line_text (issue_line i), i)) issues)))"

definition remark_guard ::
  "url_parser \<Rightarrow> (string \<Rightarrow> mdast) \<Rightarrow> string option \<Rightarrow> mdast \<Rightarrow> string \<Rightarrow> markdown_error + unit" where
  "remark_guard url plain policy tree file =
     (let issues = inspect_source url plain policy tree file
      in throw_when (issues \<noteq> []) (InvalidMarkdown (map issue_code issues)) (Inr ()))"

definition parse_markdown :: "(string \<Rightarrow> mdast) \<Rightarrow> string \<Rightarrow> mdast" where
  "parse_markdown with_math markdown = remark_currency markdown (with_math markdown)"

definition validate_markdown ::
  "url_parser \<Rightarrow> (string \<Rightarrow> mdast) \<Rightarrow> (string \<Rightarrow> mdast) \<Rightarrow> string option \<Rightarrow> string \<Rightarrow> md_issue list" where
  "validate_markdown url with_math plain policy markdown =
     inspect_source url plain policy (parse_markdown with_math markdown) markdown"

section \<open>What the validation promises\<close>

text \<open>The destination of a reference is that of the first definition of its identifier.\<close>

definition defines_id :: "string \<Rightarrow> mdast \<Rightarrow> bool" where
  "defines_id i node \<longleftrightarrow> (case md_kind node of Definition j _ \<Rightarrow> i = j | _ \<Rightarrow> False)"

definition destination :: "mdast \<Rightarrow> string \<Rightarrow> string option" where
  "destination tree i = (case filter (defines_id i) (preorder tree) of
     [] \<Rightarrow> None
   | node # _ \<Rightarrow> (case md_kind node of Definition _ u \<Rightarrow> Some u | _ \<Rightarrow> None))"

definition image_safe :: "url_parser \<Rightarrow> string option \<Rightarrow> string option \<Rightarrow> string option \<Rightarrow> bool" where
  "image_safe url policy target alt \<longleftrightarrow>
     (\<exists>u. target = Some u \<and> u \<noteq> [] \<and> is_controlled_image url u policy) \<and> (\<exists>a. alt = Some a \<and> js_trim a \<noteq> [])"

definition node_safe :: "url_parser \<Rightarrow> string option \<Rightarrow> mdast \<Rightarrow> md_kind \<Rightarrow> bool" where
  "node_safe url policy tree k = (case k of
     Heading d \<Rightarrow> d \<noteq> 1
   | Html \<Rightarrow> False
   | Link u \<Rightarrow> is_safe_link url u
   | Definition _ u \<Rightarrow> is_safe_link url u
   | Image u alt \<Rightarrow> image_safe url policy (Some u) alt
   | ImageReference i alt \<Rightarrow> image_safe url policy (destination tree i) alt
   | _ \<Rightarrow> True)"

definition tree_safe :: "url_parser \<Rightarrow> string option \<Rightarrow> mdast \<Rightarrow> bool" where
  "tree_safe url policy tree \<longleftrightarrow> list_all (\<lambda>node. node_safe url policy tree (md_kind node)) (preorder tree)"

lemma definitions_fold:
  "map_of (fold add_definition nodes m) i = (case map_of m i of Some u \<Rightarrow> Some u
     | None \<Rightarrow> (case filter (defines_id i) nodes of [] \<Rightarrow> None
        | node # _ \<Rightarrow> (case md_kind node of Definition _ u \<Rightarrow> Some u | _ \<Rightarrow> None)))"
proof (induction nodes arbitrary: m)
  case Nil
  then show ?case by (simp split: option.splits)
next
  case (Cons node nodes)
  show ?case
  proof (cases "\<exists>j u. md_kind node = Definition j u")
    case True
    then obtain j u where k: "md_kind node = Definition j u" by blast
    have "map_of (add_definition node m) i = (if i = j \<and> map_of m j = None then Some u else map_of m i)"
      by (auto simp: add_definition_def k map_has_def)
    moreover have "defines_id i node \<longleftrightarrow> i = j" by (simp add: defines_id_def k)
    ultimately show ?thesis by (auto simp: Cons.IH k split: option.split)
  next
    case False
    then have "add_definition node m = m" "\<not> defines_id i node"
      by (simp_all add: add_definition_def defines_id_def split: md_kind.splits)
    then show ?thesis by (simp add: Cons.IH split: option.split)
  qed
qed

lemma definitions_destination: "map_of (definitions tree) i = destination tree i"
  by (simp add: definitions_def definitions_fold destination_def)

lemma image_codes_Nil: "image_codes url policy target alt = [] \<longleftrightarrow> image_safe url policy target alt"
  by (auto simp: image_codes_def image_safe_def split: option.splits)

lemma node_codes_Nil: "node_codes url policy (definitions tree) k = [] \<longleftrightarrow> node_safe url policy tree k"
  by (cases k) (simp_all add: node_codes_def node_safe_def image_codes_Nil definitions_destination)

lemma inspect_Nil: "inspect url policy tree = [] \<longleftrightarrow> tree_safe url policy tree"
  by (simp add: inspect_def tree_safe_def node_codes_Nil list_all_iff)

lemma map_values_Nil: "map_values (map_of_pairs ps) = [] \<longleftrightarrow> ps = []"
proof -
  have "set (map_of_pairs ps) = {} \<longleftrightarrow> set ps = {}" using keys_map_of_pairs [of ps] by (metis image_is_empty)
  then show ?thesis by (simp add: map_values_def)
qed

definition markdown_safe ::
  "url_parser \<Rightarrow> (string \<Rightarrow> mdast) \<Rightarrow> (string \<Rightarrow> mdast) \<Rightarrow> string option \<Rightarrow> string \<Rightarrow> bool" where
  "markdown_safe url with_math plain policy s \<longleftrightarrow>
     tree_safe url policy (parse_markdown with_math s)
     \<and> (CHR ''$'' \<in> set s \<longrightarrow> tree_safe url policy (plain (math_safety_source s)))
     \<and> \<not> rx_test frontmatter_rx s"

text \<open>
  No issue is reported exactly when every heading is below the first level, there is no raw HTML,
  every link and definition is safe, every image (its reference resolved to the first definition)
  is controlled and has an alternative text, in the tree of the source and, where it holds a dollar,
  in the tree that ignores formulas, and there is no front matter.
\<close>

lemma validate_markdown_Nil:
  "validate_markdown url with_math plain policy s = [] \<longleftrightarrow> markdown_safe url with_math plain policy s"
  by (simp add: validate_markdown_def inspect_source_def markdown_safe_def map_values_Nil inspect_Nil Let_def)

section \<open>What the rewriting of formulas promises\<close>

text \<open>
  A line that may change is a lone equals sign strictly between two dollar lines, and changes only
  by the backslash.
\<close>

definition escaped_line :: "string list \<Rightarrow> nat \<Rightarrow> string \<Rightarrow> bool" where
  "escaped_line ls j line \<longleftrightarrow> equals_line (ls ! j) \<and> line = escape_equals (ls ! j)
     \<and> list_ex (\<lambda>l. dollar_line (without_return l)) (take j ls)
     \<and> list_ex (\<lambda>l. dollar_line (without_return l)) (drop (Suc j) ls)"

definition math_inv :: "string list \<Rightarrow> nat \<Rightarrow> math_state \<Rightarrow> bool" where
  "math_inv ls i st \<longleftrightarrow> length (md_lines st) = length ls
     \<and> (\<forall>j < length ls. md_lines st ! j = ls ! j \<or> j < i \<and> escaped_line ls j (md_lines st ! j))
     \<and> (case md_start st of None \<Rightarrow> True
        | Some a \<Rightarrow> a < i \<and> dollar_line (without_return (ls ! a)) \<and> (\<forall>j < length ls. a < j \<longrightarrow> md_lines st ! j = ls ! j))"

lemma math_inv_mono: "math_inv ls i st \<Longrightarrow> math_inv ls (Suc i) st"
  unfolding math_inv_def by (auto split: option.splits)

lemma math_inv_fence: "math_inv ls i (st\<lparr>md_fence := f\<rparr>) \<longleftrightarrow> math_inv ls i st"
  unfolding math_inv_def by (simp split: option.split)

lemma math_inv_dollars:
  assumes inv: "math_inv ls i st" and i: "i < length ls" and line: "line = without_return (ls ! i)"
  shows "math_inv ls (Suc i) (math_dollars i line st)"
proof (cases "dollar_line line")
  case False
  then show ?thesis using math_inv_mono [OF inv] by (simp add: math_dollars_def)
next
  case True
  show ?thesis
  proof (cases "md_start st")
    case None
    have "\<forall>j < length ls. i < j \<longrightarrow> md_lines st ! j = ls ! j"
      using inv unfolding math_inv_def by (metis not_less_iff_gr_or_eq)
    then show ?thesis
      using inv True line None unfolding math_inv_def math_dollars_def by auto
  next
    case (Some a)
    have a: "a < i" "dollar_line (without_return (ls ! a))" "\<And>j. j < length ls \<Longrightarrow> a < j \<Longrightarrow> md_lines st ! j = ls ! j"
      using inv Some unfolding math_inv_def by auto
    have dollars: "list_ex (\<lambda>l. dollar_line (without_return l)) (take j ls)"
        "list_ex (\<lambda>l. dollar_line (without_return l)) (drop (Suc j) ls)" if "a < j" "j < i" for j
    proof -
      have "take j ls ! a = ls ! a" "a < length (take j ls)" using that i by simp_all
      then show "list_ex (\<lambda>l. dollar_line (without_return l)) (take j ls)"
        using a(2) by (metis list_ex_length)
      have "drop (Suc j) ls ! (i - Suc j) = ls ! i" "i - Suc j < length (drop (Suc j) ls)" using that i by simp_all
      then show "list_ex (\<lambda>l. dollar_line (without_return l)) (drop (Suc j) ls)"
        using True line by (metis list_ex_length)
    qed
    have "escape_between a i (md_lines st) ! j = ls ! j
        \<or> j < Suc i \<and> escaped_line ls j (escape_between a i (md_lines st) ! j)" if "j < length ls" for j
    proof (cases "a < j \<and> j < i \<and> equals_line (md_lines st ! j)")
      case True
      then have same: "md_lines st ! j = ls ! j" using a(3) that by blast
      then have "escape_between a i (md_lines st) ! j = escape_equals (ls ! j)"
        using inv True that unfolding math_inv_def by (simp add: escape_between_def)
      then show ?thesis using True same dollars unfolding escaped_line_def by auto
    next
      case False
      then have "escape_between a i (md_lines st) ! j = md_lines st ! j"
        using inv that unfolding math_inv_def by (auto simp: escape_between_def)
      then show ?thesis using inv that unfolding math_inv_def by (metis less_SucI)
    qed
    then show ?thesis
      using inv True Some unfolding math_inv_def math_dollars_def by (simp add: escape_between_def)
  qed
qed

lemma math_inv_step:
  assumes inv: "math_inv ls i st" and i: "i < length ls"
  shows "math_inv ls (Suc i) (math_step i st)"
proof -
  have "md_lines st ! i = ls ! i" using inv i unfolding math_inv_def by auto
  then have "math_inv ls (Suc i) (math_dollars i (without_return (md_lines st ! i)) st)"
    using math_inv_dollars [OF inv i] by simp
  then show ?thesis
    using math_inv_mono [OF inv] unfolding math_step_def Let_def
    by (auto simp: math_inv_fence split: option.split)
qed

lemma math_inv_loop:
  "i \<le> length ls \<Longrightarrow> math_inv ls i (fold math_step [0..<i] \<lparr>md_lines = ls, md_start = None, md_fence = []\<rparr>)"
proof (induction i)
  case 0
  show ?case by (simp add: math_inv_def)
next
  case (Suc i)
  then show ?case using math_inv_step [of ls i] by simp
qed

lemma safety_lines_escape:
  "length (safety_lines ls) = length ls"
  "j < length ls \<Longrightarrow> safety_lines ls ! j = ls ! j \<or> escaped_line ls j (safety_lines ls ! j)"
  using math_inv_loop [of "length ls" ls] unfolding math_inv_def safety_lines_def by blast+

lemma escape_equals_only:
  "filter (\<lambda>c. c \<noteq> CHR 0x5C) (escape_equals line) = filter (\<lambda>c. c \<noteq> CHR 0x5C) line"
proof (induction line)
  case Nil
  show ?case by (simp add: escape_equals_def)
next
  case (Cons c line)
  then show ?case by (cases "c = CHR ''=''") (simp_all add: escape_equals_def)
qed

text \<open>
  The rewriting by blocks. From a code fence on, nothing changes up to the line that closes it, or to
  the end. From a line of dollars on, the lone equals signs are escaped up to the next line of dollars,
  whatever is between; without one, nothing changes. Every other line is kept.
\<close>

definition closes_fence :: "string \<Rightarrow> string \<Rightarrow> bool" where
  "closes_fence f line \<longleftrightarrow> (case code_fence (without_return line) of
     None \<Rightarrow> False
   | Some (g, rest) \<Rightarrow> hd g = hd f \<and> length g \<ge> length f \<and> js_trim rest = [])"

definition dollars :: "string \<Rightarrow> bool" where
  "dollars line \<longleftrightarrow> dollar_line (without_return line)"

definition escape_line :: "string \<Rightarrow> string" where
  "escape_line line = (if equals_line line then escape_equals line else line)"

lemma dropWhile_shorter: "dropWhile P ls = c # rest \<Longrightarrow> length rest < length ls"
  by (metis length_Cons length_dropWhile_le less_eq_Suc_le)

function escape_blocks :: "string list \<Rightarrow> string list" where
  "escape_blocks [] = []"
| "escape_blocks (l # ls) = (case code_fence (without_return l) of
     Some (f, _) \<Rightarrow> l # takeWhile (\<lambda>x. \<not> closes_fence f x) ls
       @ (case dropWhile (\<lambda>x. \<not> closes_fence f x) ls of [] \<Rightarrow> [] | c # rest \<Rightarrow> c # escape_blocks rest)
   | None \<Rightarrow>
       if \<not> dollars l then l # escape_blocks ls
       else (case dropWhile (\<lambda>x. \<not> dollars x) ls of
           [] \<Rightarrow> l # ls
         | c # rest \<Rightarrow> l # map escape_line (takeWhile (\<lambda>x. \<not> dollars x) ls) @ c # escape_blocks rest))"
  by pat_completeness auto
termination by (relation "measure length") (auto dest: dropWhile_shorter simp: less_Suc_eq)

declare escape_blocks.simps(2) [simp del]

abbreviation outside :: "string list \<Rightarrow> math_state" where
  "outside ls \<equiv> \<lparr>md_lines = ls, md_start = None, md_fence = []\<rparr>"

lemma fold_unchanged: "(\<And>j. i \<le> j \<Longrightarrow> j < k \<Longrightarrow> math_step j st = st) \<Longrightarrow> fold math_step [i..<k] st = st"
proof (induction "k - i" arbitrary: i)
  case (Suc n)
  then have "[i..<k] = i # [Suc i..<k]" "math_step i st = st" by (simp_all add: upt_conv_Cons)
  moreover have "fold math_step [Suc i..<k] st = st" using Suc.hyps Suc.prems by (intro Suc.hyps(1)) auto
  ultimately show ?case by simp
qed simp

lemma code_fence_ne: "code_fence line = Some (f, rest) \<Longrightarrow> f \<noteq> []"
  by (auto simp: code_fence_def Let_def split: option.splits list.splits if_splits)

lemma escape_between_nth:
  "j < length ls \<Longrightarrow> escape_between a b ls ! j = (if a < j \<and> j < b then escape_line (ls ! j) else ls ! j)"
  by (simp add: escape_between_def escape_line_def)

lemma escape_between_block:
  "escape_between (length xs) (length xs + 1 + length ys) (xs @ l # ys @ zs) = xs @ l # map escape_line ys @ zs"
  (is "?escaped = ?lines")
proof (rule nth_equalityI)
  show "length ?escaped = length ?lines" by (simp add: escape_between_def)
  fix j assume "j < length ?escaped"
  then have j: "j < length (xs @ l # ys @ zs)" by (simp add: escape_between_def)
  note nth = escape_between_nth [OF this]
  consider "j \<le> length xs" | "length xs < j" "j < length xs + 1 + length ys" | "length xs + 1 + length ys \<le> j"
    by linarith
  then show "?escaped ! j = ?lines ! j"
  proof cases
    case 1
    then show ?thesis unfolding nth by (simp add: nth_append nth_Cons')
  next
    case 2
    then obtain k where "j = length xs + Suc k" "k < length ys" by (metis add_Suc_right less_iff_Suc_add
        nat_add_left_cancel_less plus_1_eq_Suc add.assoc)
    then show ?thesis unfolding nth by (simp add: nth_append)
  next
    case 3
    then obtain k where "j = length xs + Suc (length ys + k)" by (metis add.assoc add_Suc_shift le_Suc_ex plus_1_eq_Suc)
    then show ?thesis unfolding nth by (simp add: nth_append)
  qed
qed

text \<open>The loop over the lines \<open>ys\<close> that follow \<open>xs\<close>.\<close>

definition run_lines :: "string list \<Rightarrow> string list \<Rightarrow> math_state \<Rightarrow> math_state" where
  "run_lines xs ys = fold math_step [length xs..<length xs + length ys]"

lemma run_Nil [simp]: "run_lines xs [] st = st"
  by (simp add: run_lines_def)

lemma run_append: "run_lines xs (ys @ zs) st = run_lines (xs @ ys) zs (run_lines xs ys st)"
  using upt_add_eq_append [of "length xs" "length xs + length ys" "length zs"]
  by (simp add: run_lines_def add.assoc)

lemma run_Cons: "run_lines xs (c # zs) st = run_lines (xs @ [c]) zs (math_step (length xs) st)"
  using run_append [of xs "[c]" zs st] by (simp add: run_lines_def)

lemma run_unchanged:
  assumes "\<And>j y. j < length ys \<Longrightarrow> y = ys ! j \<Longrightarrow> math_step (length xs + j) st = st"
  shows "run_lines xs ys st = st"
  unfolding run_lines_def by (rule fold_unchanged) (metis assms le_Suc_ex nat_add_left_cancel_less)

lemma line_at: "j < length ys \<Longrightarrow> (xs @ l # ys @ zs) ! (Suc (length xs + j)) = ys ! j"
  by (simp add: nth_append)

lemma line_after: "(xs @ l # ys @ c # zs) ! (Suc (length xs + length ys)) = c"
  by (simp add: nth_append)

text \<open>A block of code and a formula, up to the line that ends them.\<close>

lemma fence_passes:
  assumes "f \<noteq> []" and "\<forall>x \<in> set ys. \<not> closes_fence f x"
  shows "run_lines (xs @ [l]) ys ((outside (xs @ l # ys @ zs))\<lparr>md_fence := f\<rparr>) = (outside (xs @ l # ys @ zs))\<lparr>md_fence := f\<rparr>"
proof (rule run_unchanged)
  fix j y assume j: "j < length ys" "y = ys ! j"
  then have "\<not> closes_fence f (ys ! j)" using assms(2) by simp
  then show "math_step (length (xs @ [l]) + j) ((outside (xs @ l # ys @ zs))\<lparr>md_fence := f\<rparr>)
      = (outside (xs @ l # ys @ zs))\<lparr>md_fence := f\<rparr>"
    using assms(1) line_at [OF j(1), of xs l zs]
    by (auto simp: math_step_def Let_def closes_fence_def split: option.splits)
qed

lemma formula_passes:
  assumes "\<forall>x \<in> set ys. \<not> dollars x"
  shows "run_lines (xs @ [l]) ys ((outside (xs @ l # ys @ zs))\<lparr>md_start := Some a\<rparr>) = (outside (xs @ l # ys @ zs))\<lparr>md_start := Some a\<rparr>"
proof (rule run_unchanged)
  fix j y assume j: "j < length ys" "y = ys ! j"
  then have "\<not> dollars (ys ! j)" using assms by simp
  then show "math_step (length (xs @ [l]) + j) ((outside (xs @ l # ys @ zs))\<lparr>md_start := Some a\<rparr>)
      = (outside (xs @ l # ys @ zs))\<lparr>md_start := Some a\<rparr>"
    using line_at [OF j(1), of xs l zs] by (simp add: math_step_def math_dollars_def Let_def dollars_def)
qed

lemma fence_opens:
  "code_fence (without_return l) = Some (f, r) \<Longrightarrow>
    math_step (length xs) (outside (xs @ l # ls)) = (outside (xs @ l # ls))\<lparr>md_fence := f\<rparr>"
  by (simp add: math_step_def Let_def)

lemma fence_closes:
  "f \<noteq> [] \<Longrightarrow> closes_fence f c \<Longrightarrow>
    math_step (length (xs @ l # ys)) ((outside (xs @ l # ys @ c # zs))\<lparr>md_fence := f\<rparr>) = outside (xs @ l # ys @ c # zs)"
  using line_after [of xs l ys c zs]
  by (auto simp: math_step_def Let_def closes_fence_def split: option.splits)

lemma line_passes:
  "code_fence (without_return l) = None \<Longrightarrow>
    math_step (length xs) (outside (xs @ l # ls))
      = (if dollars l then (outside (xs @ l # ls))\<lparr>md_start := Some (length xs)\<rparr> else outside (xs @ l # ls))"
  by (simp add: math_step_def math_dollars_def Let_def dollars_def)

lemma formula_closes:
  "dollars c \<Longrightarrow>
    math_step (length (xs @ l # ys)) ((outside (xs @ l # ys @ c # zs))\<lparr>md_start := Some (length xs)\<rparr>)
      = outside (xs @ l # map escape_line ys @ c # zs)"
  using line_after [of xs l ys c zs] escape_between_block [of xs ys l "c # zs"]
  by (simp add: math_step_def math_dollars_def Let_def dollars_def)

lemma dropWhile_nil: "dropWhile P ls = [] \<Longrightarrow> takeWhile P ls = ls"
  by (metis append_Nil2 takeWhile_dropWhile_id)

lemma dropWhile_parts:
  "dropWhile P ls = c # rest \<Longrightarrow> ls = takeWhile P ls @ c # rest \<and> \<not> P c"
  by (metis hd_dropWhile list.distinct(1) list.sel(1) takeWhile_dropWhile_id)

lemma run_fence:
  assumes "code_fence (without_return l) = Some (f, r)" and "rest = ys @ c # zs"
    and "\<forall>x \<in> set ys. \<not> closes_fence f x" "closes_fence f c"
  shows "run_lines xs (l # rest) (outside (xs @ l # rest))
    = run_lines (xs @ l # ys @ [c]) zs (outside ((xs @ l # ys @ [c]) @ zs))"
  using fence_opens [OF assms(1), of xs rest] fence_passes [OF code_fence_ne [OF assms(1)] assms(3), of xs l "c # zs"]
    fence_closes [OF code_fence_ne [OF assms(1)] assms(4), of xs l ys zs]
  by (simp add: assms(2) run_Cons run_append)

lemma run_formula:
  assumes "code_fence (without_return l) = None" "dollars l" and "rest = ys @ c # zs"
    and "\<forall>x \<in> set ys. \<not> dollars x" "dollars c"
  shows "run_lines xs (l # rest) (outside (xs @ l # rest))
    = run_lines (xs @ l # map escape_line ys @ [c]) zs (outside ((xs @ l # map escape_line ys @ [c]) @ zs))"
proof -
  have same: "run_lines (xs @ l # ys @ [c]) zs = run_lines (xs @ l # map escape_line ys @ [c]) zs"
    by (simp add: run_lines_def)
  show ?thesis
    unfolding same [symmetric]
    using line_passes [OF assms(1), of xs rest] formula_passes [OF assms(4), where zs = "c # zs" and xs = xs and l = l] assms(2)
      formula_closes [OF assms(5), of xs l ys zs]
    by (simp add: assms(3) run_Cons run_append)
qed

lemma run_fence_open:
  assumes "code_fence (without_return l) = Some (f, r)" "\<forall>x \<in> set rest. \<not> closes_fence f x"
  shows "md_lines (run_lines xs (l # rest) (outside (xs @ l # rest))) = xs @ l # rest"
  using fence_passes [OF code_fence_ne [OF assms(1)] assms(2), of xs l "[]"] fence_opens [OF assms(1), of xs rest]
  by (simp add: run_Cons)

lemma run_formula_open:
  assumes "code_fence (without_return l) = None" "dollars l" "\<forall>x \<in> set rest. \<not> dollars x"
  shows "md_lines (run_lines xs (l # rest) (outside (xs @ l # rest))) = xs @ l # rest"
  using formula_passes [OF assms(3), where xs = xs and l = l and zs = "[]"] line_passes [OF assms(1), of xs rest] assms(2)
  by (simp add: run_Cons)

lemma run_blocks: "md_lines (run_lines xs ls (outside (xs @ ls))) = xs @ escape_blocks ls"
proof (induction ls arbitrary: xs rule: escape_blocks.induct)
  case (2 l ls)
  consider (fence) f r where "code_fence (without_return l) = Some (f, r)"
    | (formula) "code_fence (without_return l) = None" "dollars l"
    | (line) "code_fence (without_return l) = None" "\<not> dollars l"
    by (cases "code_fence (without_return l)") auto
  then show ?case
  proof cases
    case fence
    let ?P = "\<lambda>x. \<not> closes_fence f x"
    show ?thesis
    proof (cases "dropWhile ?P ls")
      case Nil
      then have "\<forall>x \<in> set ls. \<not> closes_fence f x" by simp
      from run_fence_open [OF fence this, of xs] fence Nil show ?thesis
        by (simp add: escape_blocks.simps(2) dropWhile_nil [OF Nil] del: dropWhile_eq_Nil_conv)
    next
      case (Cons c zs)
      note parts = dropWhile_parts [OF Cons]
      have "run_lines xs (l # ls) (outside (xs @ l # ls)) = run_lines (xs @ l # takeWhile ?P ls @ [c]) zs
          (outside ((xs @ l # takeWhile ?P ls @ [c]) @ zs))"
        using run_fence [OF fence, of ls "takeWhile ?P ls" c zs xs] parts set_takeWhileD by metis
      then show ?thesis
        using 2(3) [OF fence refl Cons, of "xs @ l # takeWhile ?P ls @ [c]"] fence Cons by (simp add: escape_blocks.simps(2))
    qed
  next
    case formula
    let ?P = "\<lambda>x. \<not> dollars x"
    show ?thesis
    proof (cases "dropWhile ?P ls")
      case Nil
      then have "\<forall>x \<in> set ls. \<not> dollars x" by simp
      from run_formula_open [OF formula this, of xs] formula Nil show ?thesis
        by (simp add: escape_blocks.simps(2) del: dropWhile_eq_Nil_conv)
    next
      case (Cons c zs)
      let ?es = "map escape_line (takeWhile ?P ls)"
      note parts = dropWhile_parts [OF Cons]
      have "run_lines xs (l # ls) (outside (xs @ l # ls)) = run_lines (xs @ l # ?es @ [c]) zs (outside ((xs @ l # ?es @ [c]) @ zs))"
        using run_formula [OF formula, of ls "takeWhile ?P ls" c zs xs] parts set_takeWhileD by metis
      then show ?thesis
        using 2(2) [OF formula(1) _ Cons, of "xs @ l # ?es @ [c]"] formula Cons by (simp add: escape_blocks.simps(2))
    qed
  next
    case line
    then show ?thesis
      using 2(1) [OF line, of "xs @ [l]"] line_passes [OF line(1), of xs ls] by (simp add: run_Cons escape_blocks.simps(2))
  qed
qed simp

lemma safety_lines_blocks: "safety_lines ls = escape_blocks ls"
  using run_blocks [of "[]" ls] by (simp add: safety_lines_def run_lines_def)

text \<open>
  C32. What may be formatted as a formula is not changed in meaning. The text inspected a second time
  is the source with exactly the equals signs of lines that hold nothing else escaped, inside the
  closed display formulas: outside code fences, from a line of dollars to the next one, and again from
  the next line of dollars after that; a formula that is not closed and a code fence change nothing. So
  it has the same lines as the source, differs at most in backslashes, and only strictly between two
  lines of dollars.
\<close>

theorem math_safety_minimal:
  "safety_lines ls = escape_blocks ls
    \<and> length (safety_lines ls) = length ls
    \<and> map (filter (\<lambda>c. c \<noteq> CHR 0x5C)) (safety_lines ls) = map (filter (\<lambda>c. c \<noteq> CHR 0x5C)) ls
    \<and> {j. j < length ls \<and> safety_lines ls ! j \<noteq> ls ! j} \<subseteq> {j. escaped_line ls j (escape_equals (ls ! j))}"
proof -
  have "filter (\<lambda>c. c \<noteq> CHR 0x5C) (safety_lines ls ! j) = filter (\<lambda>c. c \<noteq> CHR 0x5C) (ls ! j)"
    if "j < length ls" for j
    using safety_lines_escape(2) [OF that] escape_equals_only [of "ls ! j"] unfolding escaped_line_def by metis
  then have "map (filter (\<lambda>c. c \<noteq> CHR 0x5C)) (safety_lines ls) = map (filter (\<lambda>c. c \<noteq> CHR 0x5C)) ls"
    by (simp add: list_eq_iff_nth_eq safety_lines_escape(1))
  moreover have "escaped_line ls j (escape_equals (ls ! j))"
    if "j < length ls" "safety_lines ls ! j \<noteq> ls ! j" for j
    using safety_lines_escape(2) [OF that(1)] that(2) unfolding escaped_line_def by auto
  ultimately show ?thesis using safety_lines_escape(1) safety_lines_blocks by auto
qed

end
