(* ===== verification/SnapshotCheck.thy ===== *)
theory SnapshotCheck
  imports Markdown PublicNormalize StatsManifest Calendar
begin

text \<open>
  \<open>scripts/snapshot.mjs\<close>: the check of a content snapshot before the site is built from it, the
  check of the pointer to the latest one, and loading. What the host supplies is one record: the
  \<open>URL\<close> constructor, the Markdown parsers, the hash, \<open>JSON.parse\<close> and the validators compiled
  from the schemas. A buffer is the text of its bytes; \<open>host_decode\<close> reads it as a value of the
  wire types and is \<open>None\<close> for text that is no JSON or whose fields are not those of a schema.
\<close>

record snapshot_host =
  host_url :: url_parser
  host_math :: "string \<Rightarrow> mdast"
  host_plain :: "string \<Rightarrow> mdast"
  host_sha256 :: "string \<Rightarrow> string"
  host_json :: "string \<Rightarrow> json option"
  host_decode :: "string \<Rightarrow> snapshot option"
  host_schema :: "snapshot \<Rightarrow> bool"

datatype snapshot_error =
    SnapshotInvalid
  | ContentInputNotConfigured
  | ContentInputInvalid
  | ContentSnapshotLoadFailed
  | SnapshotHashMismatch
  | ReadFailed
  | SnapshotTypeError

definition max_snapshot_bytes :: nat where
  "max_snapshot_bytes = 128 * 1024 * 1024"

text \<open>\<open>Buffer.byteLength\<close>: characters from U+0080 take two bytes of UTF-8.\<close>

definition byte_length :: "string \<Rightarrow> nat" where
  "byte_length s = sum_list (map (\<lambda>c. if (of_char c :: nat) < 128 then 1 else 2) s)"

definition unique_rows :: "('a \<Rightarrow> 'k) \<Rightarrow> 'a list \<Rightarrow> snapshot_error + ('k \<times> 'a) list" where
  "unique_rows key rows = (let values = map_of_pairs (map (\<lambda>row. (key row, row)) rows)
     in throw_when (length values \<noteq> length rows) SnapshotInvalid (Inr values))"

section \<open>What the versions have in common\<close>

text \<open>
  The rows of a snapshot as the loops read them: tags and items without what a version lacks, and
  next to each note of version 1 the metadata of its group, which \<open>JSON.stringify\<close> compares.
\<close>

type_synonym group_metadata = "string \<times> string \<times> int"

definition item_metadata :: "content_v1 \<Rightarrow> group_metadata" where
  "item_metadata c = (case payload_v1 c of
     NotePayloadV1 p \<Rightarrow> (note_group p, groupDescription p, groupOrder p)
   | _ \<Rightarrow> ([], [], 0))"

record snapshot_rows =
  rows_version :: int
  rows_fields :: snapshot_fields
  rows_tags :: "tag list"
  rows_groups :: "note_group list"
  rows_items :: "(content \<times> group_metadata) list"

definition rows_of_snapshot :: "snapshot \<Rightarrow> snapshot_rows option" where
  "rows_of_snapshot s = (case s of
     SnapshotV1 f tags items \<Rightarrow> Some \<lparr>rows_version = 1, rows_fields = f, rows_tags = map adapt_tag_v1 tags,
       rows_groups = [], rows_items = map (\<lambda>c. (adapt_content_v1 c, item_metadata c)) items\<rparr>
   | SnapshotV2 f tags groups items \<Rightarrow> Some \<lparr>rows_version = 2, rows_fields = f, rows_tags = tags,
       rows_groups = groups, rows_items = map (\<lambda>c. (c, ([], [], 0))) items\<rparr>
   | SnapshotV3 f tags groups items \<Rightarrow> Some \<lparr>rows_version = 3, rows_fields = f, rows_tags = tags,
       rows_groups = groups, rows_items = map (\<lambda>c. (c, ([], [], 0))) items\<rparr>
   | SnapshotOther f v \<Rightarrow> None)"

section \<open>The items\<close>

record snapshot_maps =
  map_version :: int
  map_authors :: "(int \<times> author) list"
  map_assets :: "(int \<times> asset) list"
  map_tags :: "(int \<times> tag) list"
  map_content :: "(int \<times> content) list"
  map_canonicals :: "(int \<times> string) list"

record check_state =
  st_groups :: "(string \<times> group_metadata) list"
  st_usedGroups :: "string list"
  st_usedAuthors :: "int list"
  st_usedAssets :: "int list"
  st_usedTags :: "int list"

definition collect_canonical ::
  "(int \<times> content) list \<Rightarrow> route \<Rightarrow> (int \<times> string) list \<Rightarrow> snapshot_error + (int \<times> string) list" where
  "collect_canonical content r canonicals =
     throw_when (\<not> map_has content (route_contentId r)) SnapshotInvalid
       (if route_kind r = Canonical
        then throw_when (map_has canonicals (route_contentId r)) SnapshotInvalid
          (Inr (AList.update (route_contentId r) (route_path r) canonicals))
        else Inr canonicals)"

definition check_group ::
  "snapshot_maps \<Rightarrow> content \<Rightarrow> group_metadata \<Rightarrow> check_state \<Rightarrow> snapshot_error + check_state" where
  "check_group m c metadata st = (case payload c of
     NotePayload p \<Rightarrow>
       ebind (if map_version m = 1
              then throw_when (case map_of (st_groups st) (groupSlug p) of
                     None \<Rightarrow> False | Some prior \<Rightarrow> prior \<noteq> metadata) SnapshotInvalid
                   (Inr (st\<lparr>st_groups := AList.update (groupSlug p) metadata (st_groups st)\<rparr>))
              else throw_when (\<not> map_has (st_groups st) (groupSlug p)) SnapshotInvalid (Inr st))
         (\<lambda>st. Inr (st\<lparr>st_usedGroups := set_add (groupSlug p) (st_usedGroups st)\<rparr>))
   | _ \<Rightarrow> Inr st)"

definition expected_path :: "content \<Rightarrow> string" where
  "expected_path c = (case payload c of
     NotePayload p \<Rightarrow> ''/notes/'' @ groupSlug p @ ''/'' @ content_slug c @ ''/''
   | PostPayload \<Rightarrow> ''/posts/'' @ content_slug c @ ''/''
   | CuratedPayload _ \<Rightarrow> ''/articles/'' @ content_slug c @ ''/''
   | TopicPayload _ \<Rightarrow> ''/topics/'' @ content_slug c @ ''/'')"

definition bad_path :: "snapshot_maps \<Rightarrow> content \<Rightarrow> bool" where
  "bad_path m c \<longleftrightarrow> expected_path c \<noteq> canonicalPath c
     \<or> map_of (map_canonicals m) (content_id c) \<noteq> Some (expected_path c)
     \<or> \<not> map_has (map_authors m) (authorId c) \<or> firstPublishedAt c > lastPublishedAt c"

definition bad_markdown :: "snapshot_host \<Rightarrow> string option \<Rightarrow> nat \<Rightarrow> string \<Rightarrow> bool" where
  "bad_markdown h policy limit s \<longleftrightarrow> byte_length s > limit
     \<or> validate_markdown (host_url h) (host_math h) (host_plain h) policy s \<noteq> []"

definition use_cover :: "snapshot_maps \<Rightarrow> content \<Rightarrow> check_state \<Rightarrow> snapshot_error + check_state" where
  "use_cover m c st = (case coverAssetId c of
     None \<Rightarrow> Inr st
   | Some i \<Rightarrow> throw_when (\<not> map_has (map_assets m) i) SnapshotInvalid
       (Inr (st\<lparr>st_usedAssets := set_add i (st_usedAssets st)\<rparr>)))"

definition use_tag :: "snapshot_maps \<Rightarrow> int \<Rightarrow> check_state \<Rightarrow> snapshot_error + check_state" where
  "use_tag m i st = throw_when (\<not> map_has (map_tags m) i) SnapshotInvalid
     (Inr (st\<lparr>st_usedTags := set_add i (st_usedTags st)\<rparr>))"

definition bad_entry :: "snapshot_maps \<Rightarrow> content \<Rightarrow> topic_entry \<Rightarrow> bool" where
  "bad_entry m c e \<longleftrightarrow> targetContentId e = content_id c
     \<or> (case map_of (map_content m) (targetContentId e) of
          None \<Rightarrow> True | Some d \<Rightarrow> content_type d \<noteq> CuratedArticle)"

definition bad_english :: "snapshot_host \<Rightarrow> string option \<Rightarrow> content \<Rightarrow> editorial_english \<Rightarrow> bool" where
  "bad_english h policy c e \<longleftrightarrow>
     \<not> en_enabled e \<or> js_trim (en_title e) = [] \<or> js_trim (en_summary e) = []
     \<or> js_trim (en_bodyMarkdown e) = [] \<or> bad_markdown h policy 524288 (en_bodyMarkdown e)
     \<or> content_type c = Topic \<and> (en_sourceAuthor (en_labels e) \<noteq> [] \<or> en_sourceName (en_labels e) \<noteq> []
          \<or> en_relatedLinks (en_labels e) \<noteq> [])
     \<or> length (set_of_list (map link_url (en_relatedLinks (en_labels e))))
          \<noteq> length (en_relatedLinks (en_labels e))
     \<or> list_ex (\<lambda>link. (case payload c of
            CuratedPayload q \<Rightarrow> \<not> list_ex (\<lambda>shared. link_url shared = link_url link) (relatedLinks q)
          | _ \<Rightarrow> True) \<or> \<not> is_safe_link (host_url h) (link_url link)) (en_relatedLinks (en_labels e))"

definition bad_links :: "snapshot_host \<Rightarrow> content \<Rightarrow> bool" where
  "bad_links h c \<longleftrightarrow> (case payload c of
     CuratedPayload q \<Rightarrow> list_ex (\<lambda>url. \<not> is_safe_link (host_url h) url)
       (filter (\<lambda>url. url \<noteq> []) (sourceUrl q # originalUrl q # map link_url (relatedLinks q)))
   | _ \<Rightarrow> False)"

definition check_item ::
  "snapshot_host \<Rightarrow> string option \<Rightarrow> snapshot_maps \<Rightarrow> content \<times> group_metadata \<Rightarrow> check_state
    \<Rightarrow> snapshot_error + check_state" where
  "check_item h policy m row st = (case row of (c, metadata) \<Rightarrow>
     ebind (check_group m c metadata st) (\<lambda>st.
     throw_when (case payload c of
         TopicPayload p \<Rightarrow> recommendedCount p > int (length (topicEntries c)) | _ \<Rightarrow> False) SnapshotInvalid
     (throw_when (bad_path m c) SnapshotInvalid
     (let st = st\<lparr>st_usedAuthors := set_add (authorId c) (st_usedAuthors st)\<rparr> in
     throw_when (bad_markdown h policy 524288 (bodyMarkdown c)) SnapshotInvalid
     (ebind (use_cover m c st) (\<lambda>st.
     ebind (efold (use_tag m) (tagIds c) st) (\<lambda>st.
     ebind (unique_rows entry_position (topicEntries c)) (\<lambda>_.
     ebind (unique_rows targetContentId (topicEntries c)) (\<lambda>_.
     throw_when (list_ex (bad_entry m c) (topicEntries c)) SnapshotInvalid
     (throw_when (map_version m = 3 \<and> (case editorialEn c of
         None \<Rightarrow> False | Some e \<Rightarrow> bad_english h policy c e)) SnapshotInvalid
     (throw_when (bad_links h c) SnapshotInvalid (Inr st))))))))))))"

section \<open>The snapshot\<close>

definition bad_author :: "snapshot_host \<Rightarrow> string option \<Rightarrow> author \<Rightarrow> bool" where
  "bad_author h policy a \<longleftrightarrow> bad_markdown h policy 10000 (bioMarkdown a)
     \<or> list_ex (\<lambda>url. url \<noteq> [] \<and> \<not> is_safe_link (host_url h) url) [avatarUrl a, websiteUrl a]"

definition bad_asset :: "snapshot_host \<Rightarrow> string option \<Rightarrow> asset \<Rightarrow> bool" where
  "bad_asset h policy a \<longleftrightarrow> asset_width a * asset_height a > 100000000
     \<or> \<not> is_asset_url (host_url h) (asset_url a) policy"

definition check_rows ::
  "snapshot_host \<Rightarrow> string option \<Rightarrow> snapshot_rows \<Rightarrow> snapshot_error + unit" where
  "check_rows h policy s = (let f = rows_fields s in
     ebind (unique_rows author_id (snapshot_authors f)) (\<lambda>authors.
     ebind (unique_rows asset_id (snapshot_assets f)) (\<lambda>assets.
     ebind (unique_rows tag_id (rows_tags s)) (\<lambda>tags.
     ebind (unique_rows content_id (map fst (rows_items s))) (\<lambda>content.
     ebind (unique_rows route_path (snapshot_routes f)) (\<lambda>_.
     ebind (unique_rows author_slug (snapshot_authors f)) (\<lambda>_.
     ebind (unique_rows tag_slug (rows_tags s)) (\<lambda>_.
     ebind (if rows_version s \<ge> 2 then unique_rows group_id (rows_groups s) else Inr []) (\<lambda>_.
     ebind (if rows_version s \<ge> 2 then unique_rows group_slug (rows_groups s) else Inr []) (\<lambda>groups.
     ebind (efold (collect_canonical content) (snapshot_routes f) []) (\<lambda>canonicals.
     ebind (efold (check_item h policy \<lparr>map_version = rows_version s, map_authors = authors,
           map_assets = assets, map_tags = tags, map_content = content, map_canonicals = canonicals\<rparr>)
         (rows_items s)
         \<lparr>st_groups = map (\<lambda>(slug, g). (slug, (group_name g, group_description g, group_order g))) groups,
           st_usedGroups = [], st_usedAuthors = [], st_usedAssets = [], st_usedTags = []\<rparr>) (\<lambda>st.
     throw_when (list_ex (bad_author h policy) (snapshot_authors f)) SnapshotInvalid
     (throw_when (list_ex (bad_asset h policy) (snapshot_assets f)) SnapshotInvalid
     (throw_when (length (st_usedAuthors st) \<noteq> length authors \<or> length (st_usedAssets st) \<noteq> length assets
         \<or> length (st_usedTags st) \<noteq> length tags \<or> length (st_usedGroups st) \<noteq> length (st_groups st))
       SnapshotInvalid (Inr ())))))))))))))))"

definition validate_snapshot ::
  "snapshot_host \<Rightarrow> string option \<Rightarrow> string \<Rightarrow> snapshot_error + snapshot" where
  "validate_snapshot h policy data =
     throw_when (length data > max_snapshot_bytes) SnapshotInvalid
     (case host_decode h data of
        None \<Rightarrow> Inl SnapshotInvalid
      | Some s \<Rightarrow> (case rows_of_snapshot s of
          None \<Rightarrow> Inl SnapshotInvalid
        | Some rows \<Rightarrow> throw_when (\<not> host_schema h s) SnapshotInvalid
            (ebind (check_rows h policy rows) (\<lambda>_. Inr s))))"

section \<open>The latest snapshot\<close>

record latest_pointer =
  latest_version :: int
  latest_generation :: int
  latest_key :: string
  latest_hash :: json
  latest_exported :: string

text \<open>\<open>Object.keys(v).sort().join(',')\<close>; the keys of what is no object are indices or none.\<close>

definition key_list :: "json \<Rightarrow> string" where
  "key_list v = (case v of JObj obj \<Rightarrow> js_join '','' (sort (map fst obj)) | _ \<Rightarrow> [])"

definition snapshot_key :: "int \<Rightarrow> string" where
  "snapshot_key g = ''snapshots/generation-'' @ js_int g @ ''.json''"

text \<open>\<open>/^\d{4}-\d{2}-\d{2}T.+Z$/\<close>; \<open>.\<close> matches all but line ends.\<close>

definition printable_class :: "(char \<times> char) list" where
  "printable_class = [(CHR 0x00, CHR 0x09), (CHR 0x0B, CHR 0x0C), (CHR 0x0E, CHR 0xFF)]"

definition exported_rx :: rx where
  "exported_rx = Seq (Times 4 (Cls digit_class)) (Seq (Lit CHR ''-'') (Seq (Times 2 (Cls digit_class))
     (Seq (Lit CHR ''-'') (Seq (Times 2 (Cls digit_class)) (Seq (Lit CHR ''T'')
       (Seq (Plus (Cls printable_class)) (Lit CHR ''Z'')))))))"

definition pointer_of :: "json \<Rightarrow> snapshot_error + latest_pointer" where
  "pointer_of v =
     throw_when (key_list v \<noteq> ''exportedAt,generation,schemaVersion,sha256,snapshotKey'') SnapshotInvalid
     (case (safe_integer (get v ''schemaVersion''), safe_integer (get v ''generation'')) of
        (Some version, Some g) \<Rightarrow>
          throw_when (version \<notin> set [1, 2, 3] \<or> g < 1 \<or> get v ''snapshotKey'' \<noteq> JStr (snapshot_key g)) SnapshotInvalid
          (throw_when (text_fails (get v ''sha256'')) SnapshotTypeError
          (throw_when (\<not> hex_text (get v ''sha256'')) SnapshotInvalid
          (case get v ''exportedAt'' of
             JStr at_time \<Rightarrow> throw_when (\<not> rx_test exported_rx at_time \<or> date_parse at_time = None) SnapshotInvalid
               (Inr \<lparr>latest_version = version, latest_generation = g, latest_key = snapshot_key g,
                  latest_hash = get v ''sha256'', latest_exported = at_time\<rparr>)
           | _ \<Rightarrow> Inl SnapshotInvalid)))
      | _ \<Rightarrow> Inl SnapshotInvalid)"

definition validate_latest :: "snapshot_host \<Rightarrow> string \<Rightarrow> snapshot_error + latest_pointer" where
  "validate_latest h data = throw_when (length data > 8192) SnapshotInvalid
     (case host_json h data of
        None \<Rightarrow> Inl SnapshotInvalid
      | Some v \<Rightarrow> pointer_of v)"

section \<open>Loading\<close>

record content_env =
  env_file :: string
  env_endpoint :: string
  env_bucket :: string
  env_access_key :: string
  env_secret :: string

text \<open>\<open>/^[a-z0-9][a-z0-9-]{1,61}[a-z0-9]$/\<close>\<close>

definition bucket_name :: "string \<Rightarrow> bool" where
  "bucket_name s \<longleftrightarrow> 3 \<le> length s \<and> length s \<le> 63 \<and> in_class lower_alnum (hd s) \<and> in_class lower_alnum (last s)
     \<and> list_all (\<lambda>c. in_class lower_alnum c \<or> c = CHR ''-'') s"

definition validate_content_input ::
  "snapshot_host \<Rightarrow> bool \<Rightarrow> content_env \<Rightarrow> snapshot_error + unit" where
  "validate_content_input h development env =
     throw_when (env_endpoint env = [] \<or> env_bucket env = [] \<or> env_access_key env = [] \<or> env_secret env = [])
       ContentInputNotConfigured
     (case host_url h (env_endpoint env) of
        None \<Rightarrow> Inl ContentInputInvalid
      | Some u \<Rightarrow> throw_when
          (url_protocol u \<noteq> ''https:'' \<and> \<not> (development \<and> url_protocol u = ''http:''
              \<and> url_hostname u \<in> set [''127.0.0.1'', ''localhost'', ''[::1]''])
           \<or> url_username u \<noteq> [] \<or> url_password u \<noteq> [] \<or> url_search u \<noteq> [] \<or> url_hash u \<noteq> []
           \<or> url_pathname u \<noteq> ''/'' \<or> \<not> bucket_name (env_bucket env))
          ContentInputInvalid (Inr ()))"

record loaded_snapshot =
  loaded_snapshot :: snapshot
  loaded_data :: string
  loaded_hash :: string

definition wire_fields :: "snapshot \<Rightarrow> int \<times> snapshot_fields" where
  "wire_fields s = (case s of
     SnapshotV1 f _ _ \<Rightarrow> (1, f) | SnapshotV2 f _ _ _ \<Rightarrow> (2, f) | SnapshotV3 f _ _ _ \<Rightarrow> (3, f)
   | SnapshotOther f v \<Rightarrow> (v, f))"

text \<open>The body of the \<open>try\<close>: every error of it becomes \<open>content_snapshot_load_failed\<close>.\<close>

definition load_latest ::
  "snapshot_host \<Rightarrow> (string \<Rightarrow> nat \<Rightarrow> string option) \<Rightarrow> snapshot_error + loaded_snapshot" where
  "load_latest h fetch =
     (case fetch ''latest.json'' 8192 of
        None \<Rightarrow> Inl ReadFailed
      | Some text \<Rightarrow> ebind (validate_latest h text) (\<lambda>latest.
          (case fetch (latest_key latest) max_snapshot_bytes of
             None \<Rightarrow> Inl ReadFailed
           | Some data \<Rightarrow>
               let hash = host_sha256 h data
               in throw_when (JStr hash \<noteq> latest_hash latest) SnapshotHashMismatch
                 (ebind (validate_snapshot h None data) (\<lambda>s.
                  throw_when (fst (wire_fields s) \<noteq> latest_version latest
                      \<or> generation (snd (wire_fields s)) \<noteq> latest_generation latest
                      \<or> exportedAt (snd (wire_fields s)) \<noteq> latest_exported latest) SnapshotInvalid
                    (Inr \<lparr>loaded_snapshot = s, loaded_data = data, loaded_hash = hash\<rparr>))))))"

definition load_snapshot ::
  "snapshot_host \<Rightarrow> (string \<Rightarrow> string option) \<Rightarrow> (string \<Rightarrow> nat \<Rightarrow> string option) \<Rightarrow> bool \<Rightarrow> content_env
    \<Rightarrow> snapshot_error + loaded_snapshot" where
  "load_snapshot h file fetch development env =
     (if env_file env \<noteq> [] then
        (case file (env_file env) of
           None \<Rightarrow> Inl ReadFailed
         | Some data \<Rightarrow> ebind (validate_snapshot h None data) (\<lambda>s.
             Inr \<lparr>loaded_snapshot = s, loaded_data = data, loaded_hash = host_sha256 h data\<rparr>))
      else ebind (validate_content_input h development env) (\<lambda>_.
        (case load_latest h fetch of
           Inl _ \<Rightarrow> Inl ContentSnapshotLoadFailed
         | Inr result \<Rightarrow> Inr result)))"

end
