(* ===== verification/SnapshotProps.thy ===== *)
theory SnapshotProps
  imports SnapshotCheck PublicRoutesProps
begin

text \<open>
  What the check of a snapshot promises: an accepted snapshot satisfies the contract of
  \<open>createPublication\<close>, and the pages and the redirects of the site can be built from it.
\<close>

section \<open>One item\<close>

lemma unique_rows_Inr:
  "unique_rows key rows = Inr m \<longleftrightarrow> distinct (map key rows) \<and> m = map (\<lambda>row. (key row, row)) rows"
proof -
  have "length (map_of_pairs (map (\<lambda>row. (key row, row)) rows)) = length rows \<longleftrightarrow> distinct (map key rows)"
    using length_map_of_pairs_eq [of "map (\<lambda>row. (key row, row)) rows"] by (simp add: comp_def)
  moreover have "map_of_pairs (map (\<lambda>row. (key row, row)) rows) = map (\<lambda>row. (key row, row)) rows"
    if "distinct (map key rows)"
    using map_of_pairs_distinct [of "map (\<lambda>row. (key row, row)) rows"] that by (simp add: comp_def)
  ultimately show ?thesis by (auto simp: unique_rows_def Let_def throw_when_Inr_iff)
qed

text \<open>What an item needs on its own, and how it marks the rows that it uses.\<close>

definition item_sound :: "snapshot_host \<Rightarrow> string option \<Rightarrow> snapshot_maps \<Rightarrow> content \<Rightarrow> bool" where
  "item_sound h policy m c \<longleftrightarrow>
     (case payload c of TopicPayload p \<Rightarrow> recommendedCount p \<le> int (length (topicEntries c)) | _ \<Rightarrow> True)
     \<and> \<not> bad_path m c \<and> \<not> bad_markdown h policy 524288 (bodyMarkdown c)
     \<and> (\<forall>i. coverAssetId c = Some i \<longrightarrow> map_has (map_assets m) i)
     \<and> (\<forall>i \<in> set (tagIds c). map_has (map_tags m) i)
     \<and> distinct (map entry_position (topicEntries c)) \<and> distinct (map targetContentId (topicEntries c))
     \<and> (\<forall>e \<in> set (topicEntries c). \<not> bad_entry m c e)
     \<and> (map_version m = 3 \<longrightarrow> (\<forall>e. editorialEn c = Some e \<longrightarrow> \<not> bad_english h policy c e))
     \<and> \<not> bad_links h c"

definition add_cover :: "content \<Rightarrow> int list \<Rightarrow> int list" where
  "add_cover c used = (case coverAssetId c of None \<Rightarrow> used | Some i \<Rightarrow> set_add i used)"

definition use_item :: "content \<Rightarrow> check_state \<Rightarrow> check_state" where
  "use_item c st = st\<lparr>st_usedAuthors := set_add (authorId c) (st_usedAuthors st),
     st_usedAssets := add_cover c (st_usedAssets st),
     st_usedTags := fold set_add (tagIds c) (st_usedTags st)\<rparr>"

lemma use_tag_Inr:
  "use_tag m i st = Inr st' \<longleftrightarrow> map_has (map_tags m) i \<and> st' = st\<lparr>st_usedTags := set_add i (st_usedTags st)\<rparr>"
  by (auto simp: use_tag_def throw_when_Inr_iff)

lemma use_tags_Inr:
  "efold (use_tag m) ids st = Inr st' \<longleftrightarrow>
    (\<forall>i \<in> set ids. map_has (map_tags m) i) \<and> st' = st\<lparr>st_usedTags := fold set_add ids (st_usedTags st)\<rparr>"
proof (induction ids arbitrary: st)
  case Nil
  show ?case by auto
next
  case (Cons i ids)
  show ?case by (auto simp: use_tag_Inr ebind_Inr_iff Cons.IH)
qed

lemma check_item_Inr:
  "check_item h policy m (c, metadata) st = Inr st' \<longleftrightarrow>
    (\<exists>st1. check_group m c metadata st = Inr st1 \<and> item_sound h policy m c \<and> st' = use_item c st1)"
proof -
  have topic: "(case payload c of TopicPayload p \<Rightarrow> recommendedCount p > int (length (topicEntries c)) | _ \<Rightarrow> False)
      \<longleftrightarrow> \<not> (case payload c of TopicPayload p \<Rightarrow> recommendedCount p \<le> int (length (topicEntries c)) | _ \<Rightarrow> True)"
    by (simp add: not_le split: payload.split)
  have english: "(case editorialEn c of None \<Rightarrow> False | Some e \<Rightarrow> bad_english h policy c e)
      \<longleftrightarrow> \<not> (\<forall>e. editorialEn c = Some e \<longrightarrow> \<not> bad_english h policy c e)"
    by (simp split: option.split)
  have cover: "use_cover m c st = Inr st' \<longleftrightarrow> (\<forall>i. coverAssetId c = Some i \<longrightarrow> map_has (map_assets m) i)
      \<and> st' = st\<lparr>st_usedAssets := add_cover c (st_usedAssets st)\<rparr>" for st st'
    by (auto simp: use_cover_def add_cover_def throw_when_Inr_iff split: option.split)
  show ?thesis
    unfolding check_item_def prod.case ebind_Inr_iff throw_when_Inr_iff Let_def cover use_tags_Inr
      unique_rows_Inr topic english item_sound_def use_item_def list_ex_iff
    by auto
qed

section \<open>All items\<close>

definition note_slugs :: "content list \<Rightarrow> string set" where
  "note_slugs cs = {groupSlug p | c p. c \<in> set cs \<and> payload c = NotePayload p}"

lemma note_slugs_snoc:
  "note_slugs (cs @ [c]) = (case payload c of NotePayload p \<Rightarrow> insert (groupSlug p) (note_slugs cs) | _ \<Rightarrow> note_slugs cs)"
  by (auto simp: note_slugs_def split: payload.split)

lemma check_group_Inr:
  assumes "check_group m c metadata st = Inr st'"
  shows "st_usedAuthors st' = st_usedAuthors st" "st_usedAssets st' = st_usedAssets st"
    "st_usedTags st' = st_usedTags st"
    "st_usedGroups st' = (case payload c of NotePayload p \<Rightarrow> set_add (groupSlug p) (st_usedGroups st) | _ \<Rightarrow> st_usedGroups st)"
    "map_version m \<noteq> 1 \<Longrightarrow> st_groups st' = st_groups st"
    "map_version m \<noteq> 1 \<Longrightarrow> payload c = NotePayload p \<Longrightarrow> map_has (st_groups st) (groupSlug p)"
    "map_version m = 1 \<Longrightarrow> st_groups st' = (case payload c of
       NotePayload p \<Rightarrow> AList.update (groupSlug p) metadata (st_groups st) | _ \<Rightarrow> st_groups st)"
    "map_version m = 1 \<Longrightarrow> payload c = NotePayload p \<Longrightarrow> map_of (st_groups st) (groupSlug p) = Some prior
       \<Longrightarrow> prior = metadata"
  using assms
  by (auto simp: check_group_def ebind_Inr_iff throw_when_Inr_iff split: payload.splits if_splits)

text \<open>The groups of version 1 gather in the map; those of the later versions are given.\<close>

definition groups_inv ::
  "int \<Rightarrow> (string \<times> group_metadata) list \<Rightarrow> (content \<times> group_metadata) list \<Rightarrow> check_state \<Rightarrow> bool" where
  "groups_inv version given ys st \<longleftrightarrow>
     (if version = 1
      then distinct (map fst (st_groups st)) \<and> fst ` set (st_groups st) = note_slugs (map fst ys)
        \<and> (\<forall>row \<in> set ys. \<forall>p. payload (fst row) = NotePayload p \<longrightarrow>
             map_of (st_groups st) (groupSlug p) = Some (snd row))
      else st_groups st = given \<and> note_slugs (map fst ys) \<subseteq> fst ` set given)"

definition check_inv ::
  "snapshot_host \<Rightarrow> string option \<Rightarrow> snapshot_maps \<Rightarrow> (string \<times> group_metadata) list
    \<Rightarrow> (content \<times> group_metadata) list \<Rightarrow> check_state \<Rightarrow> bool" where
  "check_inv h policy m given ys st \<longleftrightarrow>
     (\<forall>c \<in> fst ` set ys. item_sound h policy m c)
     \<and> distinct (st_usedAuthors st) \<and> set (st_usedAuthors st) = authorId ` fst ` set ys
     \<and> distinct (st_usedAssets st) \<and> set (st_usedAssets st) = {i. \<exists>c \<in> fst ` set ys. coverAssetId c = Some i}
     \<and> distinct (st_usedTags st) \<and> set (st_usedTags st) = (\<Union>c \<in> fst ` set ys. set (tagIds c))
     \<and> distinct (st_usedGroups st) \<and> set (st_usedGroups st) = note_slugs (map fst ys)
     \<and> groups_inv (map_version m) given ys st"

lemma fold_set_add: "set (fold set_add ids used) = set used \<union> set ids"
  "distinct (fold set_add ids used) \<longleftrightarrow> distinct used"
  by (induction ids arbitrary: used) auto

lemma add_cover_set:
  "set (add_cover c used) = set used \<union> {i. coverAssetId c = Some i}" "distinct (add_cover c used) \<longleftrightarrow> distinct used"
  by (auto simp: add_cover_def split: option.split)

lemma use_item_simps [simp]:
  "st_groups (use_item c st) = st_groups st" "st_usedGroups (use_item c st) = st_usedGroups st"
  "st_usedAuthors (use_item c st) = set_add (authorId c) (st_usedAuthors st)"
  "st_usedAssets (use_item c st) = add_cover c (st_usedAssets st)"
  "st_usedTags (use_item c st) = fold set_add (tagIds c) (st_usedTags st)"
  by (simp_all add: use_item_def)

lemma groups_inv_step:
  assumes inv: "groups_inv (map_version m) given ys st" and step: "check_group m c metadata st = Inr st1"
  shows "groups_inv (map_version m) given (ys @ [(c, metadata)]) (use_item c st1)"
proof (cases "map_version m = 1")
  case True
  note groups = check_group_Inr(7) [OF step True]
  show ?thesis
  proof (cases "\<exists>p. payload c = NotePayload p")
    case True
    then obtain p where p: "payload c = NotePayload p" by blast
    have new: "st_groups st1 = AList.update (groupSlug p) metadata (st_groups st)" using groups p by simp
    have keep: "map_of (st_groups st1) slug = Some d" if "map_of (st_groups st) slug = Some d" for slug d
      using that check_group_Inr(8) [OF step \<open>map_version m = 1\<close> p, of d] new by auto
    have known: "map_of (st_groups st1) (groupSlug q) = Some (snd row)"
      if "row \<in> set (ys @ [(c, metadata)])" "payload (fst row) = NotePayload q" for row q
    proof (cases "row \<in> set ys")
      case True
      then have "map_of (st_groups st) (groupSlug q) = Some (snd row)"
        using inv \<open>map_version m = 1\<close> that(2) unfolding groups_inv_def by auto
      then show ?thesis by (rule keep)
    next
      case False
      then show ?thesis using that p new by auto
    qed
    have keys: "distinct (map fst (st_groups st1))" "fst ` set (st_groups st1) = note_slugs (map fst (ys @ [(c, metadata)]))"
      using inv \<open>map_version m = 1\<close> p unfolding groups_inv_def new
      by (simp_all add: note_slugs_snoc dom_update distinct_update)
    show ?thesis
      using \<open>map_version m = 1\<close> keys known unfolding groups_inv_def use_item_simps if_P [OF \<open>map_version m = 1\<close>] by blast
  next
    case False
    then have "st_groups st1 = st_groups st" using groups by (simp split: payload.split)
    then show ?thesis
      using inv \<open>map_version m = 1\<close> False by (auto simp: groups_inv_def note_slugs_snoc split: payload.split)
  qed
next
  case False
  then show ?thesis
    using inv check_group_Inr(5,6) [OF step False]
    by (auto simp: groups_inv_def note_slugs_snoc map_has_iff split: payload.split)
qed

lemma check_inv_step:
  assumes inv: "check_inv h policy m given ys st" and step: "check_item h policy m row st = Inr st'"
  shows "check_inv h policy m given (ys @ [row]) st'"
proof -
  obtain c metadata where row: "row = (c, metadata)" by (cases row)
  obtain st1 where st1: "check_group m c metadata st = Inr st1" "item_sound h policy m c" "st' = use_item c st1"
    using step unfolding row check_item_Inr by blast
  note used = check_group_Inr(1-4) [OF st1(1)]
  have groups: "groups_inv (map_version m) given (ys @ [row]) st'"
    unfolding row st1(3) by (rule groups_inv_step [OF _ st1(1)]) (use inv in \<open>simp add: check_inv_def\<close>)
  have slugs: "set (st_usedGroups st') = note_slugs (map fst (ys @ [row]))" "distinct (st_usedGroups st')"
    using inv used(4) unfolding check_inv_def row st1(3)
    by (auto simp: note_slugs_snoc split: payload.splits)
  have sound: "\<forall>c \<in> fst ` set (ys @ [row]). item_sound h policy m c"
    using inv st1(2) unfolding check_inv_def row by simp
  have authors: "distinct (st_usedAuthors st')" "set (st_usedAuthors st') = authorId ` fst ` set (ys @ [row])"
    using inv unfolding check_inv_def row st1(3) use_item_simps used by simp_all
  have assets: "distinct (st_usedAssets st')"
      "set (st_usedAssets st') = {i. \<exists>c \<in> fst ` set (ys @ [row]). coverAssetId c = Some i}"
    using inv unfolding check_inv_def row st1(3) use_item_simps used add_cover_set by (simp, auto)
  have tags: "distinct (st_usedTags st')" "set (st_usedTags st') = (\<Union>c \<in> fst ` set (ys @ [row]). set (tagIds c))"
    using inv unfolding check_inv_def row st1(3) use_item_simps used fold_set_add by (simp, auto)
  show ?thesis unfolding check_inv_def using groups slugs sound authors assets tags by blast
qed

lemma check_inv_loop:
  assumes "efold (check_item h policy m) rows st = Inr st'"
    and "st = \<lparr>st_groups = given, st_usedGroups = [], st_usedAuthors = [], st_usedAssets = [], st_usedTags = []\<rparr>"
    and "map_version m = 1 \<Longrightarrow> given = []"
  shows "check_inv h policy m given rows st'"
proof (rule efold_invariant [OF assms(1), where P = "check_inv h policy m given"])
  show "check_inv h policy m given [] st"
    using assms(3) unfolding assms(2) by (simp add: check_inv_def groups_inv_def note_slugs_def)
qed (rule check_inv_step)

section \<open>The routes\<close>

lemma collect_canonicals:
  assumes "efold (collect_canonical content) routes [] = Inr canonicals"
  shows "(\<forall>r \<in> set routes. map_has content (route_contentId r))
    \<and> distinct (map route_contentId (canonical_of routes))
    \<and> canonicals = map (\<lambda>r. (route_contentId r, route_path r)) (canonical_of routes)"
proof (rule efold_invariant [OF assms, where P = "\<lambda>ys m. (\<forall>r \<in> set ys. map_has content (route_contentId r))
    \<and> distinct (map route_contentId (canonical_of ys))
    \<and> m = map (\<lambda>r. (route_contentId r, route_path r)) (canonical_of ys)"])
  fix ys r zs t t'
  assume inv: "(\<forall>r \<in> set ys. map_has content (route_contentId r))
    \<and> distinct (map route_contentId (canonical_of ys))
    \<and> t = map (\<lambda>r. (route_contentId r, route_path r)) (canonical_of ys)"
    and step: "collect_canonical content r t = Inr t'"
  have fresh: "route_contentId r \<notin> fst ` set t" if "route_kind r = Canonical"
    using step that by (simp add: collect_canonical_def throw_when_Inr_iff map_has_iff)
  show "(\<forall>r \<in> set (ys @ [r]). map_has content (route_contentId r))
    \<and> distinct (map route_contentId (canonical_of (ys @ [r])))
    \<and> t' = map (\<lambda>r. (route_contentId r, route_path r)) (canonical_of (ys @ [r]))"
  proof (cases "route_kind r = Canonical")
    case True
    have "route_contentId r \<notin> route_contentId ` set (canonical_of ys)"
      using fresh [OF True] inv by (auto simp: image_iff)
    then show ?thesis
      using inv step True keys_update_new [OF fresh [OF True]]
      by (auto simp: collect_canonical_def throw_when_Inr_iff canonical_of_def)
  next
    case False
    then show ?thesis using inv step by (auto simp: collect_canonical_def throw_when_Inr_iff canonical_of_def)
  qed
qed (simp add: canonical_of_def)

section \<open>The snapshot\<close>

text \<open>What the check has established of the rows when it returns.\<close>

definition rows_maps :: "snapshot_rows \<Rightarrow> snapshot_maps" where
  "rows_maps s = \<lparr>map_version = rows_version s,
     map_authors = map (\<lambda>a. (author_id a, a)) (snapshot_authors (rows_fields s)),
     map_assets = map (\<lambda>a. (asset_id a, a)) (snapshot_assets (rows_fields s)),
     map_tags = map (\<lambda>t. (tag_id t, t)) (rows_tags s),
     map_content = map (\<lambda>c. (content_id c, c)) (map fst (rows_items s)),
     map_canonicals = map (\<lambda>r. (route_contentId r, route_path r)) (canonical_of (snapshot_routes (rows_fields s)))\<rparr>"

definition group_rows :: "note_group list \<Rightarrow> (string \<times> group_metadata) list" where
  "group_rows groups = map (\<lambda>g. (group_slug g, (group_name g, group_description g, group_order g))) groups"

lemma check_rowsE:
  assumes "check_rows h policy s = Inr ()" and version: "1 \<le> rows_version s" "rows_version s = 1 \<Longrightarrow> rows_groups s = []"
  obtains st where
    "distinct (map author_id (snapshot_authors (rows_fields s)))" "distinct (map asset_id (snapshot_assets (rows_fields s)))"
    "distinct (map tag_id (rows_tags s))" "distinct (map content_id (map fst (rows_items s)))"
    "distinct (map route_path (snapshot_routes (rows_fields s)))"
    "distinct (map author_slug (snapshot_authors (rows_fields s)))" "distinct (map tag_slug (rows_tags s))"
    "distinct (map group_slug (rows_groups s))"
    "\<forall>r \<in> set (snapshot_routes (rows_fields s)). route_contentId r \<in> content_id ` fst ` set (rows_items s)"
    "distinct (map route_contentId (canonical_of (snapshot_routes (rows_fields s))))"
    "check_inv h policy (rows_maps s) (group_rows (rows_groups s)) (rows_items s) st"
    "length (st_usedAuthors st) = length (snapshot_authors (rows_fields s))"
    "length (st_usedTags st) = length (rows_tags s)" "length (st_usedGroups st) = length (st_groups st)"
proof -
  obtain groups canonicals st where parts:
    "distinct (map author_id (snapshot_authors (rows_fields s)))" "distinct (map asset_id (snapshot_assets (rows_fields s)))"
    "distinct (map tag_id (rows_tags s))" "distinct (map content_id (map fst (rows_items s)))"
    "distinct (map route_path (snapshot_routes (rows_fields s)))"
    "distinct (map author_slug (snapshot_authors (rows_fields s)))" "distinct (map tag_slug (rows_tags s))"
    and groups: "(if rows_version s \<ge> 2 then unique_rows group_slug (rows_groups s) else Inr []) = Inr groups"
    and canonicals: "efold (collect_canonical (map (\<lambda>c. (content_id c, c)) (map fst (rows_items s))))
      (snapshot_routes (rows_fields s)) [] = Inr canonicals"
    and loop: "efold (check_item h policy \<lparr>map_version = rows_version s,
       map_authors = map (\<lambda>a. (author_id a, a)) (snapshot_authors (rows_fields s)),
       map_assets = map (\<lambda>a. (asset_id a, a)) (snapshot_assets (rows_fields s)),
       map_tags = map (\<lambda>t. (tag_id t, t)) (rows_tags s),
       map_content = map (\<lambda>c. (content_id c, c)) (map fst (rows_items s)), map_canonicals = canonicals\<rparr>) (rows_items s)
      \<lparr>st_groups = map (\<lambda>(slug, g). (slug, (group_name g, group_description g, group_order g))) groups,
       st_usedGroups = [], st_usedAuthors = [], st_usedAssets = [], st_usedTags = []\<rparr> = Inr st"
    and sizes: "length (st_usedAuthors st) = length (snapshot_authors (rows_fields s))"
      "length (st_usedTags st) = length (rows_tags s)" "length (st_usedGroups st) = length (st_groups st)"
    using assms(1)
    unfolding check_rows_def Let_def ebind_Inr_iff throw_when_Inr_iff unique_rows_Inr [of _ "snapshot_authors (rows_fields s)"]
      unique_rows_Inr [of _ "snapshot_assets (rows_fields s)"] unique_rows_Inr [of _ "rows_tags s"]
      unique_rows_Inr [of _ "map fst (rows_items s)"] unique_rows_Inr [of _ "snapshot_routes (rows_fields s)"]
    by auto
  have group_slugs: "distinct (map group_slug (rows_groups s))"
    using groups version by (cases "rows_version s = 1") (auto simp: unique_rows_Inr)
  have given: "map (\<lambda>(slug, g). (slug, (group_name g, group_description g, group_order g))) groups
      = group_rows (rows_groups s)"
    using groups version by (cases "rows_version s = 1") (auto simp: unique_rows_Inr group_rows_def)
  note routes = collect_canonicals [OF canonicals]
  have "check_inv h policy (rows_maps s) (group_rows (rows_groups s)) (rows_items s) st"
  proof (rule check_inv_loop)
    show "efold (check_item h policy (rows_maps s)) (rows_items s)
      \<lparr>st_groups = group_rows (rows_groups s), st_usedGroups = [], st_usedAuthors = [], st_usedAssets = [],
       st_usedTags = []\<rparr> = Inr st"
      using loop routes unfolding given rows_maps_def by simp
    show "group_rows (rows_groups s) = []" if "map_version (rows_maps s) = 1"
      using that version by (simp add: rows_maps_def group_rows_def)
  qed simp
  moreover have "\<forall>r \<in> set (snapshot_routes (rows_fields s)). route_contentId r \<in> content_id ` fst ` set (rows_items s)"
    using routes by (auto simp: map_has_iff image_image)
  ultimately show thesis using that parts group_slugs routes sizes by blast
qed

section \<open>An accepted snapshot is well formed\<close>

text \<open>
  The clauses of \<open>contracts/content-snapshot*.schema.json\<close> that the build relies on: the patterns
  and lengths of slugs and route paths, and the lower bound of \<open>recommendedCount\<close>.
\<close>

definition slug_ok :: "string \<Rightarrow> bool" where
  "slug_ok s \<longleftrightarrow> rx_test slug_rx s \<and> length s \<le> 100"

text \<open>\<open>^/(?:articles|posts|topics)/slug/$|^/notes/slug/slug/$\<close>\<close>

definition route_rx :: rx where
  "route_rx = Alt
     (Seq (Lit CHR ''/'') (Seq (Alt (Word ''articles'') (Alt (Word ''posts'') (Word ''topics'')))
       (Seq (Lit CHR ''/'') segment_rx)))
     (Seq (Word ''/notes/'') (Seq segment_rx segment_rx))"

definition schema_rows :: "snapshot_rows \<Rightarrow> bool" where
  "schema_rows s \<longleftrightarrow>
     (\<forall>a \<in> set (snapshot_authors (rows_fields s)). slug_ok (author_slug a))
     \<and> (\<forall>t \<in> set (rows_tags s). slug_ok (tag_slug t))
     \<and> (\<forall>r \<in> set (snapshot_routes (rows_fields s)). rx_test route_rx (route_path r) \<and> length (route_path r) \<le> 512)
     \<and> (\<forall>c \<in> fst ` set (rows_items s). slug_ok (content_slug c)
          \<and> (case payload c of NotePayload p \<Rightarrow> slug_ok (groupSlug p) | TopicPayload p \<Rightarrow> 0 \<le> recommendedCount p
              | _ \<Rightarrow> True))"

definition schema_clauses :: "snapshot \<Rightarrow> bool" where
  "schema_clauses s \<longleftrightarrow> (case rows_of_snapshot s of None \<Rightarrow> True | Some rows \<Rightarrow> schema_rows rows)"

lemma equal_by_size:
  "distinct xs \<Longrightarrow> distinct ys \<Longrightarrow> length xs = length ys \<Longrightarrow> set xs \<subseteq> set ys \<Longrightarrow> set xs = set ys"
  by (metis card_subset_eq distinct_card List.finite_set)

lemma rows_maps_simps [simp]:
  "map_has (map_authors (rows_maps s)) i \<longleftrightarrow> i \<in> author_id ` set (snapshot_authors (rows_fields s))"
  "map_has (map_assets (rows_maps s)) i \<longleftrightarrow> i \<in> asset_id ` set (snapshot_assets (rows_fields s))"
  "map_has (map_tags (rows_maps s)) i \<longleftrightarrow> i \<in> tag_id ` set (rows_tags s)"
  "map_content (rows_maps s) = map (\<lambda>c. (content_id c, c)) (map fst (rows_items s))"
  "map_canonicals (rows_maps s) =
    map (\<lambda>r. (route_contentId r, route_path r)) (canonical_of (snapshot_routes (rows_fields s)))"
  "map_version (rows_maps s) = rows_version s"
  by (simp_all add: rows_maps_def map_has_iff image_image)

lemma well_formed_rows:
  assumes ids: "distinct (map author_id (snapshot_authors (rows_fields s)))" "distinct (map asset_id (snapshot_assets (rows_fields s)))"
    "distinct (map tag_id (rows_tags s))" "distinct (map content_id (map fst (rows_items s)))"
    "distinct (map author_slug (snapshot_authors (rows_fields s)))" "distinct (map tag_slug (rows_tags s))"
    and routes: "distinct (map route_path (snapshot_routes (rows_fields s)))"
    "\<forall>r \<in> set (snapshot_routes (rows_fields s)). route_contentId r \<in> content_id ` fst ` set (rows_items s)"
    "distinct (map route_contentId (canonical_of (snapshot_routes (rows_fields s))))"
    and sound: "\<forall>c \<in> fst ` set (rows_items s). item_sound h policy (rows_maps s) c"
    and groups: "distinct (map group_slug groups)" "group_slug ` set groups = note_slugs (map fst (rows_items s))"
    and schema: "schema_rows s"
  shows "well_formed (normalized (rows_fields s) v (rows_tags s) groups (map fst (rows_items s)))"
proof -
  let ?canonical = "canonical_of (snapshot_routes (rows_fields s))"
  have canonical: "\<exists>r \<in> set ?canonical. route_contentId r = content_id c \<and> route_path r = canonicalPath c"
    if "c \<in> fst ` set (rows_items s)" for c
  proof -
    have "\<not> bad_path (rows_maps s) c" using sound that by (auto simp: item_sound_def)
    then have "map_of (map (\<lambda>r. (route_contentId r, route_path r)) ?canonical) (content_id c) = Some (canonicalPath c)"
      by (simp add: bad_path_def)
    then have "(content_id c, canonicalPath c) \<in> set (map (\<lambda>r. (route_contentId r, route_path r)) ?canonical)"
      by (rule map_of_SomeD)
    then obtain r where "r \<in> set ?canonical" "content_id c = route_contentId r" "canonicalPath c = route_path r"
      unfolding set_map by blast
    then show ?thesis by metis
  qed
  have path: "canonicalPath c = route_path r"
    if "c \<in> fst ` set (rows_items s)" "r \<in> set ?canonical" "content_id c = route_contentId r" for c r
    using canonical [OF that(1)] that(2,3) routes(3) unfolding distinct_map by (metis inj_onD)
  have item: "content_well_formed (normalized (rows_fields s) v (rows_tags s) groups (map fst (rows_items s))) c"
    if c: "c \<in> fst ` set (rows_items s)" for c
  proof -
    have ok: "item_sound h policy (rows_maps s) c" using sound c by blast
    have "authorId c \<in> author_id ` set (snapshot_authors (rows_fields s))"
      using ok by (simp add: item_sound_def bad_path_def)
    moreover have "groupSlug p \<in> group_slug ` set groups" if "payload c = NotePayload p" for p
      using c that unfolding groups(2) note_slugs_def by auto
    moreover have "\<exists>r \<in> set (snapshot_routes (rows_fields s)). route_kind r = Canonical \<and> route_contentId r = content_id c"
      using canonical [OF c] by (auto simp: canonical_of_def)
    ultimately show ?thesis using ok unfolding content_well_formed_def item_sound_def by auto
  qed
  have topic: "topic_well_formed (normalized (rows_fields s) v (rows_tags s) groups (map fst (rows_items s))) c"
    if c: "c \<in> fst ` set (rows_items s)" for c
  proof -
    have ok: "item_sound h policy (rows_maps s) c" using sound c by blast
    have "\<exists>d \<in> fst ` set (rows_items s). content_id d = targetContentId e \<and> content_type d = CuratedArticle"
      and "targetContentId e \<noteq> content_id c" if "e \<in> set (topicEntries c)" for e
    proof -
      have "\<not> bad_entry (rows_maps s) c e" using ok that by (simp add: item_sound_def)
      then obtain d where d: "map_of (map (\<lambda>c. (content_id c, c)) (map fst (rows_items s))) (targetContentId e) = Some d"
          "content_type d = CuratedArticle" "targetContentId e \<noteq> content_id c"
        unfolding bad_entry_def rows_maps_simps by (auto split: option.splits)
      from map_of_SomeD [OF d(1)] have "d \<in> set (map fst (rows_items s))" "content_id d = targetContentId e" by auto
      with d show "\<exists>d \<in> fst ` set (rows_items s). content_id d = targetContentId e \<and> content_type d = CuratedArticle"
        "targetContentId e \<noteq> content_id c" by auto
    qed
    moreover have "0 \<le> recommendedCount p" if "payload c = TopicPayload p" for p
      using schema c that unfolding schema_rows_def by fastforce
    ultimately show ?thesis using ok unfolding topic_well_formed_def item_sound_def by auto
  qed
  have used: "\<exists>c \<in> fst ` set (rows_items s). in_group (group_slug g) c" if "g \<in> set groups" for g
  proof -
    have "group_slug g \<in> note_slugs (map fst (rows_items s))" using that groups(2) by blast
    then show ?thesis unfolding note_slugs_def by (force simp: in_group_def)
  qed
  have "routes_well_formed (normalized (rows_fields s) v (rows_tags s) groups (map fst (rows_items s)))"
    unfolding routes_well_formed_def normalized_simps
  proof (intro conjI ballI)
    fix r assume r: "r \<in> set (snapshot_routes (rows_fields s))"
    then obtain c where c: "c \<in> fst ` set (rows_items s)" "content_id c = route_contentId r" using routes(2) by force
    then have "route_kind r = Canonical \<longrightarrow> canonicalPath c = route_path r"
      using path r by (auto simp: canonical_of_def)
    then show "\<exists>c \<in> set (map fst (rows_items s)). content_id c = route_contentId r
        \<and> (route_kind r = Canonical \<longrightarrow> canonicalPath c = route_path r)" using c by auto
  qed (use routes in simp_all)
  then show ?thesis
    unfolding well_formed_def using ids groups(1) item topic used by simp
qed

lemma used_groups:
  assumes inv: "check_inv h policy (rows_maps s) (group_rows (rows_groups s)) (rows_items s) st"
    and size: "length (st_usedGroups st) = length (st_groups st)"
    and groups: "distinct (map group_slug (rows_groups s))" and version: "rows_version s \<noteq> 1"
  shows "group_slug ` set (rows_groups s) = note_slugs (map fst (rows_items s))"
proof -
  have g: "st_groups st = group_rows (rows_groups s)"
      "note_slugs (map fst (rows_items s)) \<subseteq> fst ` set (group_rows (rows_groups s))"
    using inv version by (auto simp: check_inv_def groups_inv_def)
  have "distinct (st_usedGroups st)" "set (st_usedGroups st) = note_slugs (map fst (rows_items s))"
    using inv by (auto simp: check_inv_def)
  note used = this
  have "set (st_usedGroups st) = set (map group_slug (rows_groups s))"
    using groups size g used by (intro equal_by_size) (auto simp: group_rows_def image_image)
  then show ?thesis using used by simp
qed

lemma adapt_payload_cases:
  "adapt_payload_v1 q = NotePayload p \<longleftrightarrow> (\<exists>n. q = NotePayloadV1 n \<and> p = note_payload.truncate n)"
  by (auto simp: adapt_payload_v1_def split: payload_v1.split)

lemma groupSlug_truncate: "groupSlug (note_payload.truncate n) = groupSlug n"
  by (simp add: note_payload.defs)

lemma notes_v1_iff: "n \<in> set (notes_v1 items) \<longleftrightarrow> (\<exists>c \<in> set items. payload_v1 c = NotePayloadV1 n)"
  by (force simp: notes_v1_def split: payload_v1.splits)

lemma note_slugs_v1: "note_slugs (map adapt_content_v1 items) = groupSlug ` set (notes_v1 items)"
proof -
  have "slug \<in> note_slugs (map adapt_content_v1 items) \<longleftrightarrow>
      (\<exists>c \<in> set items. \<exists>p. payload (adapt_content_v1 c) = NotePayload p \<and> groupSlug p = slug)" for slug
    unfolding note_slugs_def set_map by blast
  also have "\<dots> slug \<longleftrightarrow> (\<exists>c \<in> set items. \<exists>n. payload_v1 c = NotePayloadV1 n \<and> groupSlug n = slug)" for slug
    unfolding adapt_content_simps adapt_payload_cases using groupSlug_truncate by metis
  also have "\<dots> slug \<longleftrightarrow> slug \<in> groupSlug ` set (notes_v1 items)" for slug
    using notes_v1_iff [of _ items] by blast
  finally show ?thesis by blast
qed

lemma notes_agree_checked:
  assumes inv: "groups_inv 1 given (map (\<lambda>c. (adapt_content_v1 c, item_metadata c)) items) st"
  shows "notes_agree items"
  unfolding notes_agree_def
proof (intro ballI impI)
  fix p q assume "p \<in> set (notes_v1 items)" "q \<in> set (notes_v1 items)" and slug: "groupSlug p = groupSlug q"
  then obtain c d where c: "c \<in> set items" "payload_v1 c = NotePayloadV1 p"
    and d: "d \<in> set items" "payload_v1 d = NotePayloadV1 q" by (auto simp: notes_v1_iff)
  have known: "map_of (st_groups st) (groupSlug n) = Some (item_metadata e)"
    if "e \<in> set items" "payload_v1 e = NotePayloadV1 n" for e n
    using inv that unfolding groups_inv_def
    by (auto simp: adapt_payload_v1_def groupSlug_truncate)
  show "note_group p = note_group q \<and> groupDescription p = groupDescription q \<and> groupOrder p = groupOrder q"
    using known [OF c] known [OF d] slug c(2) d(2) by (simp add: item_metadata_def)
qed

lemma accepted_well_formed:
  assumes accepted: "validate_snapshot h policy data = Inr snap"
    and schema: "\<And>s. host_schema h s \<Longrightarrow> schema_clauses s"
  obtains rows groups st where "rows_of_snapshot snap = Some rows"
    and "normalize_snapshot snap = Inr (normalized (rows_fields rows) (rows_version rows) (rows_tags rows) groups (map fst (rows_items rows)))"
    and "well_formed (normalized (rows_fields rows) (rows_version rows) (rows_tags rows) groups (map fst (rows_items rows)))"
    and "schema_rows rows" and "check_inv h policy (rows_maps rows) (group_rows (rows_groups rows)) (rows_items rows) st"
    and "length (st_usedAuthors st) = length (snapshot_authors (rows_fields rows))"
    and "length (st_usedTags st) = length (rows_tags rows)"
proof -
  obtain rows where rows: "rows_of_snapshot snap = Some rows" "host_schema h snap" "check_rows h policy rows = Inr ()"
    using accepted by (auto simp: validate_snapshot_def throw_when_Inr_iff ebind_Inr_iff split: option.splits)
  have clauses: "schema_rows rows" using schema [OF rows(2)] rows(1) by (simp add: schema_clauses_def)
  have version: "1 \<le> rows_version rows" "rows_version rows = 1 \<Longrightarrow> rows_groups rows = []"
    using rows(1) by (auto simp: rows_of_snapshot_def split: snapshot.splits)
  from check_rowsE [OF rows(3) version] obtain st where facts:
    "distinct (map author_id (snapshot_authors (rows_fields rows)))" "distinct (map asset_id (snapshot_assets (rows_fields rows)))"
    "distinct (map tag_id (rows_tags rows))" "distinct (map content_id (map fst (rows_items rows)))"
    "distinct (map author_slug (snapshot_authors (rows_fields rows)))" "distinct (map tag_slug (rows_tags rows))"
    "distinct (map route_path (snapshot_routes (rows_fields rows)))"
    "\<forall>r \<in> set (snapshot_routes (rows_fields rows)). route_contentId r \<in> content_id ` fst ` set (rows_items rows)"
    "distinct (map route_contentId (canonical_of (snapshot_routes (rows_fields rows))))"
    and slugs: "distinct (map group_slug (rows_groups rows))"
    and inv: "check_inv h policy (rows_maps rows) (group_rows (rows_groups rows)) (rows_items rows) st"
    and sizes: "length (st_usedAuthors st) = length (snapshot_authors (rows_fields rows))"
      "length (st_usedTags st) = length (rows_tags rows)" "length (st_usedGroups st) = length (st_groups st)"
    by metis
  have sound: "\<forall>c \<in> fst ` set (rows_items rows). item_sound h policy (rows_maps rows) c"
    using inv by (simp add: check_inv_def)
  have "\<exists>groups. normalize_snapshot snap = Inr (normalized (rows_fields rows) (rows_version rows) (rows_tags rows) groups (map fst (rows_items rows)))
      \<and> distinct (map group_slug groups) \<and> group_slug ` set groups = note_slugs (map fst (rows_items rows))"
  proof (cases "rows_version rows = 1")
    case True
    then obtain f tags items where snap: "snap = SnapshotV1 f tags items"
      and r: "rows_fields rows = f" "rows_tags rows = map adapt_tag_v1 tags"
        "rows_items rows = map (\<lambda>c. (adapt_content_v1 c, item_metadata c)) items"
      using rows(1) by (auto simp: rows_of_snapshot_def split: snapshot.splits)
    have items: "map fst (rows_items rows) = map adapt_content_v1 items" by (simp add: r comp_def)
    have agree: "notes_agree items"
      using inv True notes_agree_checked unfolding check_inv_def r by (metis rows_maps_simps(6))
    have "group_slug (group_of_v1 n) = groupSlug n" for n by (simp add: group_of_v1_def)
    then have "group_slug ` set (map_values (collected_groups items)) = note_slugs (map fst (rows_items rows))"
      unfolding items note_slugs_v1 collected_groups_values(1) [OF agree] by (simp add: image_image)
    moreover have "normalize_snapshot snap = Inr (normalized (rows_fields rows) (rows_version rows) (rows_tags rows)
        (map_values (collected_groups items)) (map fst (rows_items rows)))"
      unfolding snap items r True by (simp add: normalize_snapshot_def collect_group_loop [THEN iffD2] agree)
    ultimately show ?thesis using collected_groups_values(2) [OF agree] by blast
  next
    case False
    have "normalize_snapshot snap = Inr (normalized (rows_fields rows) (rows_version rows) (rows_tags rows)
        (rows_groups rows) (map fst (rows_items rows)))"
      using rows(1) False by (auto simp: rows_of_snapshot_def normalize_snapshot_def comp_def split: snapshot.splits)
    then show ?thesis using used_groups [OF inv sizes(3) slugs False] slugs by blast
  qed
  then obtain groups where groups:
      "normalize_snapshot snap = Inr (normalized (rows_fields rows) (rows_version rows) (rows_tags rows) groups (map fst (rows_items rows)))"
      "distinct (map group_slug groups)" "group_slug ` set groups = note_slugs (map fst (rows_items rows))" by blast
  have "well_formed (normalized (rows_fields rows) (rows_version rows) (rows_tags rows) groups (map fst (rows_items rows)))"
    by (rule well_formed_rows [OF facts(1-6) facts(7-9) sound groups(2,3) clauses])
  then show thesis using that [OF rows(1) groups(1) _ clauses inv sizes(1,2)] by blast
qed

end
