(* ===== verification/SiteBuild.thy ===== *)
theory SiteBuild
  imports SnapshotProps
begin

text \<open>
  From the check of a snapshot to the site: whatever \<open>validateSnapshot\<close> accepts, the publication
  is created from, the pages are generated for and, within the host's limit, the redirect file is
  written for. The paths are compared as lists of segments.
\<close>

section \<open>Paths and segments\<close>

definition path_of :: "string list \<Rightarrow> string" where
  "path_of segs = ''/'' @ concat (map (\<lambda>s. s @ ''/'') segs)"

definition slashless :: "string \<Rightarrow> bool" where
  "slashless s \<longleftrightarrow> CHR ''/'' \<notin> set s"

lemma segments_inject:
  "list_all slashless xs \<Longrightarrow> list_all slashless ys \<Longrightarrow>
    concat (map (\<lambda>s. s @ ''/'') xs) = concat (map (\<lambda>s. s @ ''/'') ys) \<Longrightarrow> xs = ys"
proof (induction xs arbitrary: ys)
  case Nil
  then show ?case by (cases ys) simp_all
next
  case (Cons x xs)
  obtain y zs where ys: "ys = y # zs" using Cons.prems(3) by (cases ys) simp_all
  have eq: "x @ CHR ''/'' # concat (map (\<lambda>s. s @ ''/'') xs) = y @ CHR ''/'' # concat (map (\<lambda>s. s @ ''/'') zs)"
    using Cons.prems(3) ys by simp
  have "takeWhile (\<lambda>c. c \<noteq> CHR ''/'') (u @ CHR ''/'' # v) = u" if "slashless u" for u v
    using that by (subst takeWhile_append2) (auto simp: slashless_def)
  then have "x = y" using eq Cons.prems(1,2) ys by (metis list.pred_inject(2))
  moreover have "xs = zs" using Cons.IH [of zs] Cons.prems(1,2) ys eq \<open>x = y\<close> by simp
  ultimately show ?case using ys by simp
qed

lemma path_of_inject: "inj_on path_of {xs. list_all slashless xs}"
  by (rule inj_onI) (auto simp: path_of_def intro: segments_inject)

lemma path_of_append: "path_of (xs @ ys) = path_of xs @ concat (map (\<lambda>s. s @ ''/'') ys)"
  by (simp add: path_of_def)

lemma slug_slashless: "rx_test slug_rx s \<Longrightarrow> slashless s"
proof -
  assume "rx_test slug_rx s"
  then obtain u v where s: "s = u @ v" and u: "rx_lang (Plus (Cls lower_alnum)) u"
    and v: "rx_lang (Star (Seq (Lit CHR ''-'') (Plus (Cls lower_alnum)))) v"
    by (auto simp: rx_test_lang slug_rx_def rx_lang_Seq)
  have plus: "CHR ''/'' \<notin> set w" if "rx_lang (Plus (Cls lower_alnum)) w" for w
  proof -
    have "rx_lang (Star (Cls lower_alnum)) w" by (rule rx_lang_Plus_Star [OF that])
    then show ?thesis by (induction rule: rx_lang_Star_induct) (auto simp: rx_lang_Cls lower_alnum_def)
  qed
  from v have "CHR ''/'' \<notin> set v"
    by (induction rule: rx_lang_Star_induct) (auto simp: rx_lang_Seq dest!: plus)
  then show "slashless s" using plus [OF u] s by (simp add: slashless_def)
qed

lemma decimal_slashless: "slashless (js_decimal n)"
proof (induction n rule: js_decimal.induct)
  case (1 n)
  have digit: "digit_char (n mod 10) \<noteq> CHR ''/''" for n
  proof
    assume eq: "digit_char (n mod 10) = CHR ''/''"
    have "of_char (digit_char (n mod 10)) = (48 + n mod 10 :: nat)"
      unfolding digit_char_def by simp
    then show False unfolding eq by simp
  qed
  have small: "digit_char n \<noteq> CHR ''/''" if "n < 10" using digit [of n] that by simp
  show ?case
    using 1 digit [of n] small by (subst js_decimal.simps) (auto simp: slashless_def)
qed

section \<open>The segments of the pages\<close>

definition coll_segs :: "string list \<Rightarrow> nat \<Rightarrow> string list list" where
  "coll_segs base k = map (\<lambda>i. if i = 0 then base else base @ [''page'', js_decimal (i + 1)]) [0..<k]"

definition item_segs :: "content \<Rightarrow> string list" where
  "item_segs c = (case payload c of
     NotePayload p \<Rightarrow> [''notes'', groupSlug p, content_slug c]
   | PostPayload \<Rightarrow> [''posts'', content_slug c]
   | CuratedPayload _ \<Rightarrow> [''articles'', content_slug c]
   | TopicPayload _ \<Rightarrow> [''topics'', content_slug c])"

definition type_segs :: "nat \<Rightarrow> string list list" where
  "type_segs k = [[''articles'']] @ coll_segs [''posts''] k @ [[''topics'']]"

lemma expected_path_segs: "expected_path c = path_of (item_segs c)"
  by (simp add: expected_path_def item_segs_def path_of_def split: payload.split)

lemma page_at_segs:
  "page_at (path_of base) (i + 1) = path_of (if i = 0 then base else base @ [''page'', js_decimal (i + 1)])"
  by (simp add: page_at_def path_of_append)

lemma collection_segs:
  "map page_path (map CollectionPage (collection_pages (path_of base) title description items extra)) =
    map path_of (coll_segs base (page_total items))"
  using collection_paths [of "path_of base" title description items extra]
  by (simp add: coll_segs_def comp_def page_at_segs [simplified])

lemma coll_segs_take: "x \<in> set (coll_segs base k) \<Longrightarrow> take (length base) x = base"
  by (auto simp: coll_segs_def split: if_splits)

lemma coll_segs_length: "x \<in> set (coll_segs base k) \<Longrightarrow> length x = length base \<or> length x = length base + 2"
  by (auto simp: coll_segs_def split: if_splits)

lemma distinct_coll_segs: "distinct (coll_segs base k)"
  by (auto simp: coll_segs_def distinct_map inj_on_def)

lemma coll_segs_slashless:
  "list_all slashless base \<Longrightarrow> x \<in> set (coll_segs base k) \<Longrightarrow> list_all slashless x"
  using decimal_slashless by (auto simp: coll_segs_def slashless_def split: if_splits)

lemma distinct_families:
  assumes "distinct (map base xs)" and "\<And>x. x \<in> set xs \<Longrightarrow> length (base x) = n"
  shows "distinct (concat (map (\<lambda>x. coll_segs (base x) (k x)) xs))"
  using assms
proof (induction xs)
  case (Cons x xs)
  have "set (coll_segs (base x) (k x)) \<inter> set (coll_segs (base y) (k y)) = {}" if "y \<in> set xs" for y
  proof -
    have "base x \<noteq> base y" "length (base x) = length (base y)" using Cons.prems that by auto
    then show ?thesis using coll_segs_take by (metis disjoint_iff)
  qed
  then show ?case using Cons distinct_coll_segs by auto
qed simp

lemma emap_families:
  assumes "emap f xs = Inr yss"
    and "\<And>x ys. f x = Inr ys \<Longrightarrow> map page_path ys = map path_of (coll_segs (base x) (length ys))"
  shows "\<exists>k. map page_path (concat yss) = map path_of (concat (map (\<lambda>x. coll_segs (base x) (k x)) xs))"
proof -
  define k where "k x = (case f x of Inl _ \<Rightarrow> 0 | Inr ys \<Rightarrow> length ys)" for x
  have "map page_path (concat yss) = map path_of (concat (map (\<lambda>x. coll_segs (base x) (k x)) xs))"
    using assms(1)
  proof (induction xs arbitrary: yss)
    case (Cons x xs)
    then obtain ys zss where "f x = Inr ys" "emap f xs = Inr zss" "yss = ys # zss" by (auto simp: ebind_Inr_iff)
    then show ?case using Cons.IH assms(2) by (simp add: k_def)
  qed simp
  then show ?thesis by blast
qed

lemma length_coll_segs [simp]: "length (coll_segs base k) = k"
  by (simp add: coll_segs_def)

lemma type_path_segs: "type_path t = path_of [case t of CuratedArticle \<Rightarrow> ''articles'' | Post \<Rightarrow> ''posts''
    | Note \<Rightarrow> ''notes'' | Topic \<Rightarrow> ''topics'']"
  by (simp add: type_path_def path_of_def split: content_type.split)

lemma type_pages_segs:
  assumes "emap (type_pages texts p) [CuratedArticle, Post, Topic] = Inr types"
  shows "\<exists>k. map page_path (concat types) = map path_of (type_segs k)"
proof -
  obtain a b c where t: "types = [a, b, c]" "type_pages texts p CuratedArticle = Inr a"
      "type_pages texts p Post = Inr b" "type_pages texts p Topic = Inr c"
    using assms by (auto simp: ebind_Inr_iff)
  have a: "map page_path a = [path_of [''articles'']]" and c: "map page_path c = [path_of [''topics'']]"
    using t(2,4) by (auto simp: type_pages_def ebind_Inr_iff type_path_segs)
  obtain rows where "b = map CollectionPage (collection_pages (path_of [''posts'']) (type_title texts Post)
      (type_description texts Post) rows no_extra)"
    using t(3) by (auto simp: type_pages_def ebind_Inr_iff type_path_segs)
  then have "map page_path b = map path_of (coll_segs [''posts''] (page_total rows))"
    by (simp only: collection_segs)
  then show ?thesis using t(1) a c by (auto simp: type_segs_def)
qed

lemma family_pages_segs:
  "author_pages texts p a = Inr ys \<Longrightarrow> map page_path ys = map path_of (coll_segs [''authors'', author_slug a] (length ys))"
  "tag_pages p t = Inr ys \<Longrightarrow> map page_path ys = map path_of (coll_segs [''tags'', tag_slug t] (length ys))"
  "map page_path (group_pages texts g) = map path_of (coll_segs [''notes'', group_slug g] (length (group_pages texts g)))"
proof -
  have bases: "''/authors/'' @ s @ ''/'' = path_of [''authors'', s]" "''/tags/'' @ s @ ''/'' = path_of [''tags'', s]"
    "''/notes/'' @ s @ ''/'' = path_of [''notes'', s]" for s by (simp_all add: path_of_def)
  have pages: "map page_path (map CollectionPage (collection_pages (path_of b) t d items extra)) =
      map path_of (coll_segs b (length (map CollectionPage (collection_pages (path_of b) t d items extra))))"
    for b t d items extra
    unfolding collection_segs by (simp add: collection_pages_eq)
  show "map page_path ys = map path_of (coll_segs [''authors'', author_slug a] (length ys))"
    if "author_pages texts p a = Inr ys"
    using that unfolding author_pages_def ebind_Inr_iff bases by (auto simp only: sum.inject pages)
  show "map page_path ys = map path_of (coll_segs [''tags'', tag_slug t] (length ys))"
    if "tag_pages p t = Inr ys"
    using that unfolding tag_pages_def ebind_Inr_iff bases by (auto simp only: sum.inject pages)
  show "map page_path (group_pages texts g) = map path_of (coll_segs [''notes'', group_slug g] (length (group_pages texts g)))"
    unfolding group_pages_def bases by (rule pages)
qed

text \<open>The families of pages by their first segment and their number of segments.\<close>

definition family :: "string list \<Rightarrow> nat" where
  "family x = (if x = [] then 0
     else if hd x = ''notes'' then (if length x = 3 then 1 else 2)
     else if hd x \<in> {''articles'', ''posts'', ''topics''} then (if length x = 2 then 1 else 3)
     else if hd x = ''authors'' then 4 else if hd x = ''tags'' then 5 else 6)"

lemma family_item: "family (item_segs c) = 1"
  by (simp add: family_def item_segs_def split: payload.split)

lemma coll_segs_hd: "x \<in> set (coll_segs base k) \<Longrightarrow> base \<noteq> [] \<Longrightarrow> x \<noteq> [] \<and> hd x = hd base"
  by (auto simp: coll_segs_def split: if_splits)

lemma family_coll:
  "x \<in> set (coll_segs [''notes'', s] k) \<Longrightarrow> family x = 2"
  "x \<in> set (coll_segs [''authors'', s] k) \<Longrightarrow> family x = 4"
  "x \<in> set (coll_segs [''tags'', s] k) \<Longrightarrow> family x = 5"
  "x \<in> set (type_segs k) \<Longrightarrow> family x = 3"
proof -
  have two: "x \<noteq> []" "hd x = b" "length x = 2 \<or> length x = 4" if "x \<in> set (coll_segs [b, s] k)" for b
    using coll_segs_hd [OF that] coll_segs_length [OF that] by auto
  show "family x = 2" if "x \<in> set (coll_segs [''notes'', s] k)"
    using two [OF that] by (auto simp: family_def)
  show "family x = 4" if "x \<in> set (coll_segs [''authors'', s] k)"
    using two [OF that] by (auto simp: family_def)
  show "family x = 5" if "x \<in> set (coll_segs [''tags'', s] k)"
    using two [OF that] by (auto simp: family_def)
  show "family x = 3" if "x \<in> set (type_segs k)"
  proof -
    have "x \<in> {[''articles''], [''topics'']} \<or> x \<in> set (coll_segs [''posts''] k)"
      using that by (auto simp: type_segs_def)
    moreover have "family x = 3" if posts: "x \<in> set (coll_segs [''posts''] k)"
    proof -
      have "x \<noteq> []" "hd x = ''posts''" "length x = 1 \<or> length x = 3"
        using coll_segs_hd [OF posts] coll_segs_length [OF posts] by auto
      then show ?thesis by (auto simp: family_def)
    qed
    moreover have "family [''articles''] = 3" "family [''topics''] = 3" by (simp_all add: family_def)
    ultimately show ?thesis by auto
  qed
qed

section \<open>An accepted snapshot is built\<close>

text \<open>Route paths of the schema have the segments of an item.\<close>

lemma segment_lang: "rx_lang segment_rx u \<longleftrightarrow> (\<exists>s. rx_lang slug_rx s \<and> u = s @ ''/'')"
  by (auto simp: segment_rx_def rx_lang_Seq)

lemma route_segs:
  assumes "rx_test route_rx path"
  shows "\<exists>x. path = path_of x \<and> list_all slashless x \<and> family x = 1 \<and> rx_test safe_path_rx path"
proof -
  have one: "rx_lang (Plus segment_rx) ((w @ ''/'') @ s @ ''/'')" if "rx_lang slug_rx w" "rx_lang slug_rx s" for w s
    unfolding Plus_def using that
    by (intro rx_lang.seq rx_lang_Star_single) (auto simp: segment_lang)
  have two: "rx_lang (Plus segment_rx) ((w @ ''/'') @ (s @ ''/'') @ t @ ''/'')"
    if "rx_lang slug_rx w" "rx_lang slug_rx s" "rx_lang slug_rx t" for w s t
    unfolding Plus_def using that
    by (intro rx_lang.seq rx_lang.star1 rx_lang_Star_single) (auto simp: segment_lang)
  have words: "rx_lang slug_rx w" if "w \<in> {''articles'', ''posts'', ''topics'', ''notes''}" for w
    using that by (auto simp: rx_test_lang [symmetric] slug_rx_def Plus_def lower_alnum_def Lit_def)
  have slashless_words: "slashless w" if "w \<in> {''articles'', ''posts'', ''topics'', ''notes''}" for w
    using that by (auto simp: slashless_def)
  have safe: "rx_test safe_path_rx (''/'' @ u)" if "rx_lang (Plus segment_rx) u" for u
    using that by (auto simp: rx_test_lang safe_path_rx_def rx_lang_Seq)
  from assms consider
      (short) w s where "w \<in> {''articles'', ''posts'', ''topics''}" "rx_lang slug_rx s" "path = ''/'' @ (w @ ''/'') @ s @ ''/''"
    | (deep) g s where "rx_lang slug_rx g" "rx_lang slug_rx s" "path = ''/'' @ (''notes'' @ ''/'') @ (g @ ''/'') @ s @ ''/''"
    by (auto simp: rx_test_lang route_rx_def rx_lang_Alt rx_lang_Seq rx_lang_Word segment_lang)
  then show ?thesis
  proof cases
    case short
    have "path = path_of [w, s]" using short(3) by (simp add: path_of_def)
    moreover have "list_all slashless [w, s]"
      using short(1,2) slashless_words slug_slashless by (auto simp: rx_test_lang)
    moreover have "family [w, s] = 1" using short(1) by (auto simp: family_def)
    moreover have "rx_test safe_path_rx path" unfolding short(3) by (rule safe [OF one]) (use short words in auto)
    ultimately show ?thesis by blast
  next
    case deep
    have "path = path_of [''notes'', g, s]" using deep(3) by (simp add: path_of_def)
    moreover have "list_all slashless [''notes'', g, s]"
      using deep(1,2) slashless_words slug_slashless by (auto simp: rx_test_lang)
    moreover have "family [''notes'', g, s] = 1" by (simp add: family_def)
    moreover have "rx_test safe_path_rx path" unfolding deep(3) by (rule safe [OF two]) (use deep words in auto)
    ultimately show ?thesis by blast
  qed
qed

text \<open>The segments of all pages, with the number of pages of every collection.\<close>

definition site_segs ::
  "publication \<Rightarrow> nat \<Rightarrow> (group_page \<Rightarrow> nat) \<Rightarrow> (author \<Rightarrow> nat) \<Rightarrow> (tag \<Rightarrow> nat) \<Rightarrow> string list list" where
  "site_segs p kt kg ka kl = map item_segs (snapshot_content (pub_snapshot p)) @ type_segs kt
     @ concat (map (\<lambda>g. coll_segs [''notes'', group_slug g] (kg g)) (pub_groups p))
     @ concat (map (\<lambda>a. coll_segs [''authors'', author_slug a] (ka a)) (pub_authors p))
     @ concat (map (\<lambda>t. coll_segs [''tags'', tag_slug t] (kl t)) (pub_tags p))"

lemma pages_segs:
  assumes "all_pages texts p = Inr ps"
    and "\<forall>c \<in> set (snapshot_content (pub_snapshot p)). canonicalPath c = expected_path c"
  shows "\<exists>kt kg ka kl. map page_path ps = map path_of (site_segs p kt kg ka kl)"
proof -
  obtain types authors tags where parts:
      "emap (type_pages texts p) [CuratedArticle, Post, Topic] = Inr types"
      "emap (author_pages texts p) (pub_authors p) = Inr authors"
      "emap (tag_pages p) (pub_tags p) = Inr tags"
      "ps = detail_pages p @ concat types @ concat (map (group_pages texts) (pub_groups p))
        @ concat authors @ concat tags"
    using assms(1) by (auto simp: all_pages_Inr)
  have details: "map page_path (detail_pages p) = map path_of (map item_segs (snapshot_content (pub_snapshot p)))"
    using assms(2) by (simp add: detail_pages_def expected_path_segs)
  have groups: "map page_path (concat (map (group_pages texts) gs)) =
      map path_of (concat (map (\<lambda>g. coll_segs [''notes'', group_slug g] (length (group_pages texts g))) gs))" for gs
    by (induction gs) (simp_all add: family_pages_segs(3))
  obtain kt where "map page_path (concat types) = map path_of (type_segs kt)"
    using type_pages_segs [OF parts(1)] by blast
  moreover obtain ka where "map page_path (concat authors) =
      map path_of (concat (map (\<lambda>a. coll_segs [''authors'', author_slug a] (ka a)) (pub_authors p)))"
    using emap_families [OF parts(2), of "\<lambda>a. [''authors'', author_slug a]"] family_pages_segs(1) by blast
  moreover obtain kl where "map page_path (concat tags) =
      map path_of (concat (map (\<lambda>t. coll_segs [''tags'', tag_slug t] (kl t)) (pub_tags p)))"
    using emap_families [OF parts(3), of "\<lambda>t. [''tags'', tag_slug t]"] family_pages_segs(2) by blast
  ultimately have "map page_path ps = map path_of
      (site_segs p kt (\<lambda>g. length (group_pages texts g)) ka kl)"
    by (simp only: parts(4) map_append details groups site_segs_def)
  then show ?thesis by blast
qed

lemma reserved_segs:
  "reserved_paths = map path_of ([[], [''about''], [''contribute''], [''legal''], [''stats''], [''search''],
      [''notes''], [''tags''], [''authors''], [''404'']]
    @ map (\<lambda>x. ''en'' # x) [[], [''articles''], [''topics''], [''notes''], [''about''], [''contribute''],
      [''legal''], [''stats''], [''search'']])"
  by (simp add: reserved_paths_def chrome_paths_def path_of_def)

lemma alias_segs: "''/en'' @ path_of x = path_of (''en'' # x)"
  by (simp add: path_of_def)

lemma family_reserved:
  "x \<in> set [[], [''about''], [''contribute''], [''legal''], [''stats''], [''search''], [''notes''], [''tags''], [''authors''], [''404'']]
    \<Longrightarrow> family x \<noteq> 1 \<and> family x \<noteq> 3 \<and> (length x < 2)"
  by (auto simp: family_def)

lemma slashless_names:
  "list_all slashless [''articles'', ''posts'', ''topics'', ''notes'', ''authors'', ''tags'', ''about'', ''contribute'',
     ''legal'', ''stats'', ''search'', ''404'', ''en'', ''page'']"
  by (simp add: slashless_def)

lemma site_segs_cases:
  assumes "x \<in> set (site_segs p kt kg ka kl)"
  shows "(\<exists>c \<in> set (snapshot_content (pub_snapshot p)). x = item_segs c) \<or> x \<in> set (type_segs kt)
    \<or> (\<exists>g \<in> set (pub_groups p). x \<in> set (coll_segs [''notes'', group_slug g] (kg g)))
    \<or> (\<exists>a \<in> set (pub_authors p). x \<in> set (coll_segs [''authors'', author_slug a] (ka a)))
    \<or> (\<exists>t \<in> set (pub_tags p). x \<in> set (coll_segs [''tags'', tag_slug t] (kl t)))"
  using assms by (auto simp: site_segs_def)

text \<open>The pages of slugs never start with the locale and never fall on a reserved path.\<close>

lemma site_segs_shape:
  assumes "x \<in> set (site_segs p kt kg ka kl)"
  shows "hd x \<in> {''articles'', ''posts'', ''topics'', ''notes'', ''authors'', ''tags''}"
    "length x = 1 \<Longrightarrow> hd x \<in> {''articles'', ''posts'', ''topics''}" "x \<noteq> []"
proof -
  have item: "hd (item_segs c) \<in> {''articles'', ''posts'', ''topics'', ''notes''} \<and> length (item_segs c) \<noteq> 1 \<and> item_segs c \<noteq> []" for c
    by (simp add: item_segs_def split: payload.split)
  have coll: "hd x = b \<and> length x \<noteq> 1 \<and> x \<noteq> []" if "x \<in> set (coll_segs [b, t] k)" for b t k
    using coll_segs_hd [OF that] coll_segs_length [OF that] by auto
  have "x \<in> set (type_segs k) \<Longrightarrow> hd x \<in> {''articles'', ''posts'', ''topics''} \<and> x \<noteq> []" for k
    using coll_segs_hd [of x "[''posts'']" k] by (auto simp: type_segs_def)
  then have "hd x \<in> {''articles'', ''posts'', ''topics'', ''notes'', ''authors'', ''tags''}
      \<and> (length x = 1 \<longrightarrow> hd x \<in> {''articles'', ''posts'', ''topics''}) \<and> x \<noteq> []"
    using site_segs_cases [OF assms] item coll by (elim disjE bexE) (blast | metis insert_iff)+
  then show "hd x \<in> {''articles'', ''posts'', ''topics'', ''notes'', ''authors'', ''tags''}"
    "length x = 1 \<Longrightarrow> hd x \<in> {''articles'', ''posts'', ''topics''}" "x \<noteq> []" by blast+
qed

lemma distinct_by_family:
  assumes "distinct (map snd parts)" and "list_all (\<lambda>(xs, n). distinct xs \<and> family ` set xs \<subseteq> {n}) parts"
  shows "distinct (concat (map fst parts))"
  using assms
proof (induction parts)
  case (Cons part parts)
  obtain xs n where part: "part = (xs, n)" by (cases part)
  have "family x \<noteq> n" if x: "x \<in> set (concat (map fst parts))" for x
  proof -
    obtain q where q: "q \<in> set parts" "x \<in> set (fst q)" using x unfolding set_concat set_map by blast
    have "list_all (\<lambda>(xs, n). distinct xs \<and> family ` set xs \<subseteq> {n}) parts" using Cons.prems(2) by simp
    then have "case q of (xs, n) \<Rightarrow> distinct xs \<and> family ` set xs \<subseteq> {n}"
      using q(1) unfolding list_all_iff by (rule bspec)
    then have "family x = snd q" using q(2) by (cases q) auto
    moreover have "snd q \<noteq> n" using Cons.prems(1) q(1) part by auto
    ultimately show ?thesis by simp
  qed
  moreover have "family x = n" if "x \<in> set xs" for x using that Cons.prems(2) part by auto
  ultimately show ?case using Cons part by auto
qed simp

lemma distinct_site_segs:
  assumes "distinct (map item_segs (snapshot_content (pub_snapshot p)))"
    and "distinct (map group_slug (pub_groups p))" "distinct (map author_slug (pub_authors p))"
    "distinct (map tag_slug (pub_tags p))"
  shows "distinct (site_segs p kt kg ka kl)"
proof -
  have groups: "distinct (concat (map (\<lambda>g. coll_segs [''notes'', group_slug g] (kg g)) (pub_groups p)))"
    by (rule distinct_families [where n = 2]) (use assms(2) in \<open>auto simp: distinct_map inj_on_def\<close>)
  have authors: "distinct (concat (map (\<lambda>a. coll_segs [''authors'', author_slug a] (ka a)) (pub_authors p)))"
    by (rule distinct_families [where n = 2]) (use assms(3) in \<open>auto simp: distinct_map inj_on_def\<close>)
  have tags: "distinct (concat (map (\<lambda>t. coll_segs [''tags'', tag_slug t] (kl t)) (pub_tags p)))"
    by (rule distinct_families [where n = 2]) (use assms(4) in \<open>auto simp: distinct_map inj_on_def\<close>)
  have "[''articles''] \<notin> set (coll_segs [''posts''] kt)" "[''topics''] \<notin> set (coll_segs [''posts''] kt)"
    using coll_segs_hd by fastforce+
  then have types: "distinct (type_segs kt)" by (simp add: type_segs_def distinct_coll_segs)
  have "family ` set (map item_segs (snapshot_content (pub_snapshot p))) \<subseteq> {1}"
    by (auto simp: family_item)
  moreover have "family ` set (type_segs kt) \<subseteq> {3}"
    using family_coll(4) by blast
  moreover have "family ` set (concat (map (\<lambda>g. coll_segs [''notes'', group_slug g] (kg g)) (pub_groups p))) \<subseteq> {2}"
    using family_coll(1) unfolding set_concat set_map by blast
  moreover have "family ` set (concat (map (\<lambda>a. coll_segs [''authors'', author_slug a] (ka a)) (pub_authors p))) \<subseteq> {4}"
    using family_coll(2) unfolding set_concat set_map by blast
  moreover have "family ` set (concat (map (\<lambda>t. coll_segs [''tags'', tag_slug t] (kl t)) (pub_tags p))) \<subseteq> {5}"
    using family_coll(3) unfolding set_concat set_map by blast
  ultimately have "list_all (\<lambda>(xs, n). distinct xs \<and> family ` set xs \<subseteq> {n})
      [(map item_segs (snapshot_content (pub_snapshot p)), 1), (type_segs kt, 3),
       (concat (map (\<lambda>g. coll_segs [''notes'', group_slug g] (kg g)) (pub_groups p)), 2),
       (concat (map (\<lambda>a. coll_segs [''authors'', author_slug a] (ka a)) (pub_authors p)), 4),
       (concat (map (\<lambda>t. coll_segs [''tags'', tag_slug t] (kl t)) (pub_tags p)), 5)]"
    using assms(1) types groups authors tags by (simp only: list.pred_inject prod.case simp_thms)
  from distinct_by_family [OF _ this] have "distinct (concat (map fst
      [(map item_segs (snapshot_content (pub_snapshot p)), 1 :: nat), (type_segs kt, 3),
       (concat (map (\<lambda>g. coll_segs [''notes'', group_slug g] (kg g)) (pub_groups p)), 2),
       (concat (map (\<lambda>a. coll_segs [''authors'', author_slug a] (ka a)) (pub_authors p)), 4),
       (concat (map (\<lambda>t. coll_segs [''tags'', tag_slug t] (kl t)) (pub_tags p)), 5)]))"
    by (simp only: list.map snd_conv) simp
  then show ?thesis unfolding site_segs_def list.map fst_conv concat.simps append_Nil2 .
qed

section \<open>The theorem\<close>

lemma site_segs_slashless:
  assumes "\<forall>c \<in> set (snapshot_content (pub_snapshot p)). list_all slashless (item_segs c)"
    "\<forall>g \<in> set (pub_groups p). slashless (group_slug g)" "\<forall>a \<in> set (pub_authors p). slashless (author_slug a)"
    "\<forall>t \<in> set (pub_tags p). slashless (tag_slug t)"
    and "x \<in> set (site_segs p kt kg ka kl)"
  shows "list_all slashless x"
proof -
  have coll: "list_all slashless x" if "x \<in> set (coll_segs [b, s] k)" "slashless b" "slashless s" for b s k
    by (rule coll_segs_slashless [OF _ that(1)]) (use that in simp)
  have "list_all slashless x" if "x \<in> set (type_segs kt)"
    using that coll_segs_slashless [of "[''posts'']" x kt] slashless_names by (auto simp: type_segs_def)
  then show ?thesis
    using site_segs_cases [OF assms(5)] assms(1-4) coll slashless_names unfolding list.pred_inject by blast
qed

lemma no_page_conflict:
  assumes segs: "map page_path ps = map path_of segs" "distinct segs"
    and shape: "\<And>x. x \<in> set segs \<Longrightarrow> list_all slashless x \<and> x \<noteq> []
      \<and> hd x \<in> {''articles'', ''posts'', ''topics'', ''notes'', ''authors'', ''tags''}
      \<and> (length x = 1 \<longrightarrow> hd x \<in> {''articles'', ''posts'', ''topics''})"
  shows "distinct (map page_path ps @ alias_paths ps)"
    "set (map page_path ps @ alias_paths ps) \<inter> set reserved_paths = {}"
    "\<And>y. list_all slashless y \<Longrightarrow> family y = 1 \<Longrightarrow> y \<notin> set segs \<Longrightarrow>
      path_of y \<notin> set (reserved_paths @ map page_path ps @ alias_paths ps)"
proof -
  define more where "more = segs @ [[''tags''], [''authors'']]"
  define chrome where "chrome = [[], [''articles''], [''topics''], [''notes''], [''about''], [''contribute''],
    [''legal''], [''stats''], [''search'']]"
  define aliases where "aliases = map (\<lambda>x. ''en'' # x) (filter (\<lambda>x. x \<notin> set chrome) more)"
  define plain where "plain = [[], [''about''], [''contribute''], [''legal''], [''stats''], [''search''],
    [''notes''], [''tags''], [''authors''], [''404'']]"
  define taken where "taken = plain @ map (\<lambda>x. ''en'' # x) chrome"
  have inj: "path_of x = path_of y \<longleftrightarrow> x = y" if "list_all slashless x" "list_all slashless y" for x y
    using inj_onD [OF path_of_inject, of x y] that by blast
  have chrome: "chrome_paths = map path_of chrome" by (simp add: chrome_def chrome_paths_def path_of_def)
  have reserved: "reserved_paths = map path_of taken" using reserved_segs by (simp add: taken_def plain_def chrome_def)
  have chrome_ok: "\<forall>y \<in> set chrome. list_all slashless y" by (simp add: chrome_def slashless_def)
  have taken_ok: "\<forall>x \<in> set taken. list_all slashless x"
    by (simp add: taken_def plain_def chrome_def slashless_def)
  have tail: "map page_path ps @ [''/tags/'', ''/authors/''] = map path_of more"
    using segs(1) by (simp add: more_def path_of_def)
  have segs_ok: "\<forall>x \<in> set segs. list_all slashless x" using shape by blast
  have more_ok: "\<forall>x \<in> set more. list_all slashless x"
    using segs_ok unfolding more_def by (simp add: slashless_def)
  have in_chrome: "path_of x \<in> set chrome_paths \<longleftrightarrow> x \<in> set chrome" if x: "x \<in> set more" for x
  proof -
    have "path_of x = path_of y \<longleftrightarrow> x = y" if "y \<in> set chrome" for y
      using inj more_ok chrome_ok x that by blast
    then show ?thesis unfolding chrome set_map by auto
  qed
  have aliased: "alias_paths ps = map path_of aliases"
  proof -
    have "filter (\<lambda>path. path \<notin> set chrome_paths) (map path_of more) =
        map path_of (filter (\<lambda>x. x \<notin> set chrome) more)"
      unfolding filter_map comp_def using in_chrome by (intro arg_cong [where f = "map path_of"] filter_cong) auto
    then show ?thesis unfolding alias_paths_def tail by (simp add: alias_segs [simplified] aliases_def)
  qed
  have heads: "hd x \<noteq> ''en''" "x \<notin> set plain" "x \<notin> {[''tags''], [''authors'']}" if "x \<in> set segs" for x
    using shape [OF that] by (auto simp: plain_def)
  have "distinct more" using segs(2) heads(3) unfolding more_def by auto
  then have "distinct aliases" by (simp add: aliases_def distinct_map inj_on_def)
  moreover have "set segs \<inter> set aliases = {}" using heads(1) unfolding aliases_def by fastforce
  ultimately have distinct_all: "distinct (segs @ aliases)" using segs(2) by simp
  have "list_all slashless (''en'' # x)" if "x \<in> set more" for x
    using more_ok that by (simp add: slashless_def)
  then have ok: "\<forall>x \<in> set (segs @ aliases). list_all slashless x"
    using segs_ok unfolding aliases_def by auto
  have "x \<notin> set taken" if "x \<in> set segs" for x
    using heads(1,2) [OF that] unfolding taken_def by fastforce
  moreover have "''en'' # x \<notin> set taken" if "x \<notin> set chrome" for x
    using that unfolding taken_def by (auto simp: plain_def)
  ultimately have apart: "set (segs @ aliases) \<inter> set taken = {}" unfolding aliases_def by auto
  show "distinct (map page_path ps @ alias_paths ps)"
    unfolding segs(1) aliased map_append [symmetric] distinct_map
    using distinct_all ok inj_on_subset [OF path_of_inject] by blast
  show "set (map page_path ps @ alias_paths ps) \<inter> set reserved_paths = {}"
    unfolding segs(1) aliased reserved map_append [symmetric] set_map
    using apart ok taken_ok inj by blast
  show "path_of y \<notin> set (reserved_paths @ map page_path ps @ alias_paths ps)"
    if y: "list_all slashless y" "family y = 1" "y \<notin> set segs" for y
  proof -
    have "family (''en'' # x) \<noteq> family y" for x using y(2) by (simp add: family_def)
    then have en: "y \<noteq> ''en'' # x" for x by metis
    then have "y \<notin> set aliases" "y \<notin> set (map (\<lambda>x. ''en'' # x) chrome)"
      unfolding aliases_def set_map by blast+
    moreover have "y \<notin> set plain" using family_reserved [of y] y(2) unfolding plain_def by metis
    ultimately have "y \<notin> set (taken @ segs @ aliases)" using y by (auto simp: taken_def)
    moreover have "\<forall>x \<in> set (taken @ segs @ aliases). list_all slashless x" using ok taken_ok by auto
    ultimately show ?thesis
      unfolding segs(1) aliased reserved map_append [symmetric] set_map using inj y(1) by blast
  qed
qed

lemma canonical_route:
  assumes wf: "well_formed s" and c: "c \<in> set (snapshot_content s)"
  obtains r where "r \<in> set (snapshot_routes s)" "route_kind r = Canonical" "route_contentId r = content_id c"
    "route_path r = canonicalPath c"
proof -
  have "(content_id c, canonicalPath c) \<in>
      set (map (\<lambda>r. (route_contentId r, route_path r)) (canonical_of (snapshot_routes s)))"
    by (rule map_of_SomeD [OF canonical_lookup [OF wf c]])
  then obtain r where r: "r \<in> set (canonical_of (snapshot_routes s))" "content_id c = route_contentId r"
      "canonicalPath c = route_path r"
    unfolding set_map by blast
  show thesis by (rule that [of r]) (use r in \<open>simp_all add: canonical_of_def\<close>)
qed

lemma same_route:
  "well_formed s \<Longrightarrow> r \<in> set (snapshot_routes s) \<Longrightarrow> q \<in> set (snapshot_routes s) \<Longrightarrow> route_path r = route_path q \<Longrightarrow> r = q"
  using well_formedD(8) [of s, unfolded routes_well_formed_def] by (auto simp: distinct_map dest: inj_onD)

lemma redirect_ok_accepted:
  assumes wf: "well_formed s" and r: "r \<in> set (snapshot_routes s)" "route_kind r = Redirect"
    and safe: "\<And>q. q \<in> set (snapshot_routes s) \<Longrightarrow> rx_test safe_path_rx (route_path q)
      \<and> length (route_path q) \<le> 512"
    and short: "\<And>c. c \<in> set (snapshot_content s) \<Longrightarrow> length (canonicalPath c) \<le> 209"
  shows "redirect_ok v (map (\<lambda>c. (content_id c, c)) (snapshot_content s))
    (map (\<lambda>r. (route_path r, r)) (snapshot_routes s)) r"
proof -
  note routes = well_formedD(8) [OF wf, unfolded routes_well_formed_def]
  obtain c where c: "c \<in> set (snapshot_content s)" "content_id c = route_contentId r" using routes r(1) by blast
  have lookup: "map_of (map (\<lambda>c. (content_id c, c)) (snapshot_content s)) (route_contentId r) = Some c"
    using map_of_keyed [OF well_formedD(1) [OF wf] c(1)] c(2) by simp
  obtain q where q: "q \<in> set (snapshot_routes s)" "route_kind q = Canonical" "route_contentId q = content_id c"
      "route_path q = canonicalPath c"
    using canonical_route [OF wf c(1)] by metis
  then have path: "canonicalPath c = route_path q" by simp
  have paths: "map_of (map (\<lambda>r. (route_path r, r)) (snapshot_routes s)) (canonicalPath c) = Some q"
    unfolding path using map_of_keyed [of route_path "snapshot_routes s" q "\<lambda>r. r"] routes q(1) by simp
  have "route_path r \<noteq> canonicalPath c"
    using same_route [OF wf r(1) q(1)] r(2) q(2,4) by auto
  moreover have "length (redirect_line (''/en'' @ route_path r) (''/en'' @ canonicalPath c)) \<le> 1000"
    using safe [OF r(1)] short [OF c(1)] by (simp add: redirect_line_def)
  moreover have "length (redirect_line (route_path r) (canonicalPath c)) \<le> 1000"
    using safe [OF r(1)] short [OF c(1)] by (simp add: redirect_line_def)
  ultimately have "list_all (\<lambda>(a, b). length (redirect_line a b) \<le> 1000)
      (redirect_rules v (map (\<lambda>c. (content_id c, c)) (snapshot_content s)) r)"
    by (simp add: redirect_rules_def lookup)
  moreover note \<open>route_path r \<noteq> canonicalPath c\<close>
  moreover have "rx_test safe_path_rx (route_path r)" "rx_test safe_path_rx (canonicalPath c)"
    using safe [OF r(1)] safe [OF q(1)] by (simp_all only: path)
  moreover have "route_contentId q = route_contentId r" using q(3) c(2) by simp
  ultimately show ?thesis
    unfolding redirect_ok_def using lookup paths q(2) by (intro exI [of _ c] exI [of _ q] conjI)
qed

text \<open>
  C33. What the build accepts it can build: from every snapshot that \<open>validateSnapshot\<close> returns,
  under validators that enforce the schemas' slugs, route patterns and bounds, the publication is
  created, the pages of both locales are generated without a conflict or a missing collection, and
  the redirect file is written unless it exceeds the host's 2000 rules.
\<close>

theorem accepted_snapshot_builds:
  assumes accepted: "validate_snapshot h policy data = Inr snap"
    and schema: "\<And>s. host_schema h s \<Longrightarrow> schema_clauses s"
  shows "\<exists>p pages. create_publication snap = Inr p \<and> public_pages texts p = Inr pages
    \<and> ((\<exists>file. redirects (schemaVersion (pub_snapshot p)) (snapshot_content (pub_snapshot p))
            (snapshot_routes (pub_snapshot p)) = Inr file)
        \<longleftrightarrow> length (all_rules (schemaVersion (pub_snapshot p)) (snapshot_content (pub_snapshot p))
            (snapshot_routes (pub_snapshot p))) \<le> 2000)"
proof -
  from accepted schema obtain rows groups st where facts:
    "normalize_snapshot snap = Inr (normalized (rows_fields rows) (rows_version rows) (rows_tags rows) groups (map fst (rows_items rows)))"
    "well_formed (normalized (rows_fields rows) (rows_version rows) (rows_tags rows) groups (map fst (rows_items rows)))"
    and clauses: "schema_rows rows"
    and inv: "check_inv h policy (rows_maps rows) (group_rows (rows_groups rows)) (rows_items rows) st"
    and sizes: "length (st_usedAuthors st) = length (snapshot_authors (rows_fields rows))"
      "length (st_usedTags st) = length (rows_tags rows)"
    by (rule accepted_well_formed)
  define s where "s = normalized (rows_fields rows) (rows_version rows) (rows_tags rows) groups (map fst (rows_items rows))"
  define p where "p = publication_of s"
  have wf: "well_formed s" using facts(2) by (simp add: s_def)
  have s: "snapshot_authors s = snapshot_authors (rows_fields rows)" "snapshot_tags s = rows_tags rows"
    "snapshot_routes s = snapshot_routes (rows_fields rows)" "snapshot_content s = map fst (rows_items rows)"
    by (simp_all add: s_def)
  have p: "create_publication snap = Inr p" "pub_snapshot p = s"
    using facts wf by (simp_all add: p_def s_def create_publication_def index_publication_iff)
  have "\<forall>c \<in> fst ` set (rows_items rows). item_sound h policy (rows_maps rows) c"
    using inv unfolding check_inv_def by (rule conjunct1)
  then have sound: "item_sound h policy (rows_maps rows) c" if "c \<in> set (snapshot_content s)" for c
    using that unfolding s(4) set_map by (rule bspec)
  have path: "canonicalPath c = expected_path c" if "c \<in> set (snapshot_content s)" for c
    using sound [OF that] by (simp add: item_sound_def bad_path_def)
  have slugs: "slug_ok (content_slug c)" "\<And>q. payload c = NotePayload q \<Longrightarrow> slug_ok (groupSlug q)"
    if "c \<in> set (snapshot_content s)" for c
    using clauses that unfolding schema_rows_def s(4) set_map by fastforce+
  have slashless_item: "list_all slashless (item_segs c)" if "c \<in> set (snapshot_content s)" for c
    using slugs [OF that] slug_slashless slashless_names
    by (auto simp: item_segs_def slug_ok_def split: payload.split)
  have authors_used: "author_id ` set (snapshot_authors s) \<subseteq> authorId ` set (snapshot_content s)"
  proof -
    have "set (st_usedAuthors st) = set (map author_id (snapshot_authors s))"
      using inv sizes(1) well_formedD(2) [OF wf] sound unfolding s check_inv_def
      by (intro equal_by_size) (auto simp: item_sound_def bad_path_def)
    then show ?thesis using inv unfolding check_inv_def s(4) by simp
  qed
  have tags_used: "tag_id ` set (snapshot_tags s) \<subseteq> (\<Union>c \<in> set (snapshot_content s). set (tagIds c))"
  proof -
    have "set (st_usedTags st) = set (map tag_id (snapshot_tags s))"
      using inv sizes(2) well_formedD(4) [OF wf] sound unfolding s check_inv_def
      by (intro equal_by_size) (auto simp: item_sound_def)
    then show ?thesis using inv unfolding check_inv_def s(4) by simp
  qed
  obtain ps where ps: "all_pages texts p = Inr ps"
    using all_pages_of_used [of texts s] authors_used tags_used unfolding p_def by metis
  obtain kt kg ka kl where segs: "map page_path ps = map path_of (site_segs p kt kg ka kl)"
    using pages_segs [OF ps] path p(2) by auto
  have items: "distinct (map item_segs (snapshot_content (pub_snapshot p)))"
    unfolding p(2)
  proof (rule distinct_map [THEN iffD2], intro conjI inj_onI)
    show "distinct (snapshot_content s)" using well_formedD(1) [OF wf] by (simp add: distinct_map)
    fix c d assume c: "c \<in> set (snapshot_content s)" and d: "d \<in> set (snapshot_content s)" and "item_segs c = item_segs d"
    then have same: "canonicalPath c = canonicalPath d" using path by (simp add: expected_path_segs)
    obtain r where r: "r \<in> set (snapshot_routes s)" "route_contentId r = content_id c" "route_path r = canonicalPath c"
      using canonical_route [OF wf c] by metis
    obtain q where q: "q \<in> set (snapshot_routes s)" "route_contentId q = content_id d" "route_path q = canonicalPath d"
      using canonical_route [OF wf d] by metis
    have "content_id c = content_id d" using same_route [OF wf r(1) q(1)] r q same by simp
    then show "c = d" using c d well_formedD(1) [OF wf] by (auto simp: distinct_map dest: inj_onD)
  qed
  have slug_lists: "distinct (map group_slug (pub_groups p))" "distinct (map author_slug (pub_authors p))"
    "distinct (map tag_slug (pub_tags p))"
    using well_formedD(5-7) [OF wf] unfolding p_def publication_of_simps by (simp_all add: sorted_groups_def comp_def)
  have slashless_slugs: "\<forall>g \<in> set (pub_groups p). slashless (group_slug g)"
    "\<forall>a \<in> set (pub_authors p). slashless (author_slug a)" "\<forall>t \<in> set (pub_tags p). slashless (tag_slug t)"
  proof -
    show "\<forall>a \<in> set (pub_authors p). slashless (author_slug a)" "\<forall>t \<in> set (pub_tags p). slashless (tag_slug t)"
      using clauses slug_slashless unfolding p_def publication_of_simps set_js_sort s schema_rows_def slug_ok_def by blast+
    have "slashless (group_slug g)" if g: "g \<in> set (snapshot_groups s)" for g
    proof -
      obtain c where c: "c \<in> set (snapshot_content s)" "in_group (group_slug g) c"
        using wf g unfolding well_formed_def by blast
      then obtain q where "payload c = NotePayload q" "groupSlug q = group_slug g"
        by (auto simp: in_group_def split: payload.splits)
      then show ?thesis using slugs(2) [OF c(1)] slug_slashless by (auto simp: slug_ok_def)
    qed
    then show "\<forall>g \<in> set (pub_groups p). slashless (group_slug g)"
      unfolding p_def publication_of_simps by (auto simp: sorted_groups_def)
  qed
  have shape: "list_all slashless x \<and> x \<noteq> []
      \<and> hd x \<in> {''articles'', ''posts'', ''topics'', ''notes'', ''authors'', ''tags''}
      \<and> (length x = 1 \<longrightarrow> hd x \<in> {''articles'', ''posts'', ''topics''})"
    if "x \<in> set (site_segs p kt kg ka kl)" for x
    using site_segs_slashless [OF _ slashless_slugs that] slashless_item p(2) site_segs_shape [OF that] by blast
  note conflict = no_page_conflict [OF segs distinct_site_segs [OF items slug_lists] shape]
  have redirect_apart: "route_path r \<notin> set (reserved_paths @ map page_path ps @ alias_paths ps)"
    if r: "r \<in> set (snapshot_routes s)" "route_kind r = Redirect" for r
  proof -
    have "rx_test route_rx (route_path r)" using clauses r(1) unfolding schema_rows_def s(3) by blast
    then obtain y where y: "route_path r = path_of y" "list_all slashless y" "family y = 1" using route_segs by blast
    have "y \<notin> set (site_segs p kt kg ka kl)"
    proof
      assume "y \<in> set (site_segs p kt kg ka kl)"
      from site_segs_cases [OF this] have "\<exists>c \<in> set (snapshot_content s). y = item_segs c"
        unfolding p(2) by (elim disjE bexE) (use y(3) in \<open>auto dest: family_coll\<close>)
      then obtain c where c: "c \<in> set (snapshot_content s)" "route_path r = canonicalPath c"
        using y(1) path by (auto simp: expected_path_segs)
      obtain q where "q \<in> set (snapshot_routes s)" "route_kind q = Canonical" "route_path q = canonicalPath c"
        using canonical_route [OF wf c(1)] by metis
      then show False using same_route [OF wf r(1)] r(2) c(2) by auto
    qed
    then show ?thesis using conflict(3) y by simp
  qed
  have pages: "public_pages texts p = Inr (js_sort page_order ps)"
    unfolding public_pages_iff using ps conflict(1,2) redirect_apart p(2) by blast
  have short: "length (canonicalPath c) \<le> 209" if "c \<in> set (snapshot_content s)" for c
    using slugs [OF that] path [OF that] unfolding slug_ok_def
    by (auto simp: expected_path_def split: payload.splits)
  have safe: "rx_test safe_path_rx (route_path q) \<and> length (route_path q) \<le> 512"
    if "q \<in> set (snapshot_routes s)" for q
    using clauses that route_segs unfolding schema_rows_def s(3) by blast
  have "redirect_ok v (map (\<lambda>c. (content_id c, c)) (snapshot_content s))
      (map (\<lambda>r. (route_path r, r)) (snapshot_routes s)) r" if "r \<in> set (redirect_routes (snapshot_routes s))" for v r
    by (rule redirect_ok_accepted [OF wf]) (use that safe short in \<open>auto simp del: rx_test.simps\<close>)
  then have "(\<exists>file. redirects v (snapshot_content s) (snapshot_routes s) = Inr file)
      \<longleftrightarrow> length (all_rules v (snapshot_content s) (snapshot_routes s)) \<le> 2000" for v
    using well_formedD(1,8) [OF wf] unfolding redirects_Inr routes_well_formed_def
    by (simp add: list_all_iff static_redirect_limit_def)
  then show ?thesis using p pages by blast
qed

section \<open>A snapshot that is accepted\<close>

definition accepted_snapshot :: snapshot where
  "accepted_snapshot = SnapshotV3 (sample_fields\<lparr>snapshot_routes :=
       [\<lparr>route_path = ''/notes/basics/first/'', route_kind = Canonical, route_contentId = 11\<rparr>,
        \<lparr>route_path = ''/articles/memory/'', route_kind = Canonical, route_contentId = 12\<rparr>,
        \<lparr>route_path = ''/topics/runtime/'', route_kind = Canonical, route_contentId = 13\<rparr>,
        \<lparr>route_path = ''/articles/old-memory/'', route_kind = Redirect, route_contentId = 12\<rparr>]\<rparr>)
     [sample_tag] [sample_group] [sample_note, sample_article, sample_topic\<lparr>tagIds := []\<rparr>]"

definition accepting_host :: snapshot_host where
  "accepting_host = \<lparr>host_url = (\<lambda>_. Some \<lparr>url_protocol = ''https:'', url_username = [], url_password = [],
       url_hostname = ''go.dev'', url_port = [], url_pathname = ''/'', url_search = [], url_hash = [],
       url_origin = ''https://go.dev''\<rparr>),
     host_math = (\<lambda>_. MdNode (OtherNode ''root'') None []), host_plain = (\<lambda>_. MdNode (OtherNode ''root'') None []),
     host_sha256 = (\<lambda>_. ''0''), host_json = (\<lambda>_. None),
     host_decode = (\<lambda>_. Some accepted_snapshot), host_schema = (\<lambda>s. s = accepted_snapshot)\<rparr>"

lemma accepting_schema: "host_schema accepting_host s \<Longrightarrow> schema_clauses s"
proof -
  have "schema_clauses accepted_snapshot" by code_simp
  then show "host_schema accepting_host s \<Longrightarrow> schema_clauses s" by (simp add: accepting_host_def)
qed

lemma accepting_markdown:
  "s \<in> {''first'', ''memory'', ''runtime'', []} \<Longrightarrow> 10000 \<le> n \<Longrightarrow> \<not> bad_markdown accepting_host None n s"
proof -
  assume s: "s \<in> {''first'', ''memory'', ''runtime'', []}" and n: "10000 \<le> n"
  have "\<not> rx_test frontmatter_rx ''first''" "\<not> rx_test frontmatter_rx ''memory''" "\<not> rx_test frontmatter_rx ''runtime''"
    "\<not> rx_test frontmatter_rx []" by code_simp+
  moreover have "byte_length ''first'' \<le> 10000" "byte_length ''memory'' \<le> 10000" "byte_length ''runtime'' \<le> 10000"
    "byte_length [] \<le> 10000" by code_simp+
  ultimately show ?thesis
    using s n by (auto simp: bad_markdown_def validate_markdown_Nil markdown_safe_def parse_markdown_def
        tree_safe_def node_safe_def accepting_host_def simp del: rx_test.simps)
qed

lemma accepting_links: "is_safe_link (host_url accepting_host) ''https://go.dev/''"
proof -
  have "\<not> list_ex unsafe_char ''https://go.dev/''" by code_simp
  then show ?thesis by (simp add: is_safe_link_def accepting_host_def prefix_def)
qed

lemmas accepted_unfold = accepted_snapshot_def sample_fields_def sample_note_def sample_article_def sample_topic_def
  sample_content_def sample_curated_def sample_author_def sample_tag_def sample_group_def

lemma accepting_run: "validate_snapshot accepting_host None [] = Inr accepted_snapshot"
proof -
  have rows: "rows_of_snapshot accepted_snapshot = Some \<lparr>rows_version = 3,
      rows_fields = sample_fields\<lparr>snapshot_routes :=
       [\<lparr>route_path = ''/notes/basics/first/'', route_kind = Canonical, route_contentId = 11\<rparr>,
        \<lparr>route_path = ''/articles/memory/'', route_kind = Canonical, route_contentId = 12\<rparr>,
        \<lparr>route_path = ''/topics/runtime/'', route_kind = Canonical, route_contentId = 13\<rparr>,
        \<lparr>route_path = ''/articles/old-memory/'', route_kind = Redirect, route_contentId = 12\<rparr>]\<rparr>,
      rows_tags = [sample_tag], rows_groups = [sample_group],
      rows_items = [(sample_note, ([], [], 0)), (sample_article, ([], [], 0)), (sample_topic\<lparr>tagIds := []\<rparr>, ([], [], 0))]\<rparr>"
    (is "_ = Some ?rows")
    by (simp add: rows_of_snapshot_def accepted_snapshot_def)
  have "check_rows accepting_host None ?rows = Inr ()"
    by (simp add: check_rows_def Let_def unique_rows_def accepted_unfold map_of_pairs_def collect_canonical_def map_has_def
        check_item_def check_group_def bad_path_def expected_path_def accepting_markdown use_cover_def use_tag_def
        bad_entry_def bad_links_def accepting_links set_add_def bad_author_def)
  then show ?thesis
    by (simp add: validate_snapshot_def rows) (simp add: accepting_host_def rows)
qed

theorem accepted_snapshot_builds_witness:
  "\<exists>p pages file. create_publication accepted_snapshot = Inr p \<and> public_pages sample_texts p = Inr pages
    \<and> redirects (schemaVersion (pub_snapshot p)) (snapshot_content (pub_snapshot p)) (snapshot_routes (pub_snapshot p)) = Inr file"
proof -
  obtain p pages where built: "create_publication accepted_snapshot = Inr p" "public_pages sample_texts p = Inr pages"
    and limit: "(\<exists>file. redirects (schemaVersion (pub_snapshot p)) (snapshot_content (pub_snapshot p))
        (snapshot_routes (pub_snapshot p)) = Inr file) \<longleftrightarrow> length (all_rules (schemaVersion (pub_snapshot p))
        (snapshot_content (pub_snapshot p)) (snapshot_routes (pub_snapshot p))) \<le> 2000"
    using accepted_snapshot_builds [OF accepting_run accepting_schema] by blast
  obtain s where s: "normalize_snapshot accepted_snapshot = Inr s" "pub_snapshot p = s"
    using create_publicationE [OF built(1)] by (metis publication_of_simps(1))
  have "length (all_rules v items (snapshot_routes s)) \<le> 2000" for v items
  proof -
    have "snapshot_routes s = snapshot_routes (fst (sample_fields\<lparr>snapshot_routes :=
       [\<lparr>route_path = ''/notes/basics/first/'', route_kind = Canonical, route_contentId = 11\<rparr>,
        \<lparr>route_path = ''/articles/memory/'', route_kind = Canonical, route_contentId = 12\<rparr>,
        \<lparr>route_path = ''/topics/runtime/'', route_kind = Canonical, route_contentId = 13\<rparr>,
        \<lparr>route_path = ''/articles/old-memory/'', route_kind = Redirect, route_contentId = 12\<rparr>]\<rparr>, ()))"
      using s(1) by (auto simp: normalize_snapshot_def accepted_snapshot_def)
    then have "redirect_routes (snapshot_routes s) =
        [\<lparr>route_path = ''/articles/old-memory/'', route_kind = Redirect, route_contentId = 12\<rparr>]"
      by (simp add: redirect_routes_def)
    then show ?thesis by (simp add: all_rules_def redirect_rules_def split: option.split)
  qed
  then show ?thesis using built limit s(2) by blast
qed

end
