(* ===== verification/Explorer.thy ===== *)
theory Explorer
  imports RumNormalize PublicationSample
begin

text \<open>
  \<open>apps/web/src/lib/explorer.ts\<close>: the filters of the article explorer, their address, the filtered
  and sorted list, and \<open>mountExplorer\<close> as a state machine over the page. Search parameters are the
  list of their pairs. \<open>localeCompare\<close> is the argument \<open>collate\<close>; the display words are arguments.
  Animations and scrolling change nothing that is shown and are left out.
\<close>

section \<open>Filters\<close>

definition ratings :: "string list" where
  "ratings = [''S+'', ''S'', ''A+'', ''A'', ''B+'', ''B'', ''C+'', ''C'']"

record article_row =
  ar_id :: int
  ar_title :: string
  ar_text :: string
  ar_topics :: "string list"
  ar_tags :: "string list"
  ar_language :: string
  ar_rating :: string
  ar_difficulty :: string
  ar_recommended :: bool
  ar_featured :: bool
  ar_added :: int
  ar_sourceDate :: string

text \<open>
  The table of old sort names is an object literal, so a lookup also finds what the object
  inherits: for those names \<open>sort\<close> becomes a value that is no string.
\<close>

datatype sort_name = SortName string | SortInherited string

record filters =
  f_q :: string
  f_topic :: string
  f_tags :: "string list"
  f_ratings :: "string list"
  f_language :: string
  f_difficulty :: string
  f_sort :: sort_name
  f_page :: int

type_synonym search_params = "(string \<times> string) list"

definition param :: "search_params \<Rightarrow> string \<Rightarrow> string" where
  "param ps k = (case map_of ps k of None \<Rightarrow> [] | Some v \<Rightarrow> v)"

definition param_all :: "search_params \<Rightarrow> string \<Rightarrow> string list" where
  "param_all ps k = map snd (filter (\<lambda>(key, _). key = k) ps)"

definition or_else :: "string \<Rightarrow> string \<Rightarrow> string" where
  "or_else a b = (if a = [] then b else a)"

text \<open>\<open>value.split(',')\<close>\<close>

fun split_commas :: "string \<Rightarrow> string list" where
  "split_commas [] = [[]]"
| "split_commas (c # s) = (if c = CHR '','' then [] # split_commas s
     else (case split_commas s of l # ls \<Rightarrow> (c # l) # ls | [] \<Rightarrow> [[c]]))"

definition many :: "search_params \<Rightarrow> string \<Rightarrow> string list" where
  "many ps k = set_of_list (filter (\<lambda>v. v \<noteq> []) (concat (map split_commas (param_all ps k))))"

text \<open>\<open>Number.parseInt(s, 10)\<close>, \<open>None\<close> for \<open>NaN\<close>.\<close>

definition parse_digits :: "string \<Rightarrow> int option" where
  "parse_digits s = (let ds = takeWhile (in_class digit_class) s
     in if ds = [] then None else Some (int (decimal_value ds)))"

definition parse_int :: "string \<Rightarrow> int option" where
  "parse_int s = (case dropWhile js_space s of
     [] \<Rightarrow> None
   | c # rest \<Rightarrow> if c = CHR ''-'' then map_option uminus (parse_digits rest)
       else if c = CHR ''+'' then parse_digits rest else parse_digits (c # rest))"

definition inherited_names :: "string list" where
  "inherited_names = [''constructor'', ''__defineGetter__'', ''__defineSetter__'', ''hasOwnProperty'',
     ''__lookupGetter__'', ''__lookupSetter__'', ''isPrototypeOf'', ''propertyIsEnumerable'', ''toString'',
     ''valueOf'', ''__proto__'', ''toLocaleString'']"

definition resolve_sort :: "string \<Rightarrow> sort_name" where
  "resolve_sort s =
     (if s = ''published-date'' then SortName ''source-date''
      else if s = ''recently-added'' then SortName ''added''
      else if s = ''title-asc'' then SortName ''title''
      else if s \<in> set inherited_names then SortInherited s else SortName s)"

record filter_labels =
  l_topics :: "(string \<times> string) list"
  l_tags :: "(string \<times> string) list"

definition no_labels :: filter_labels where
  "no_labels = \<lparr>l_topics = [], l_tags = []\<rparr>"

definition labelled :: "(string \<times> string) list \<Rightarrow> string \<Rightarrow> string" where
  "labelled m s = (case map_of m s of None \<Rightarrow> s | Some v \<Rightarrow> v)"

definition page_number :: "string \<Rightarrow> int" where
  "page_number s = max 1 (min 10000 (case parse_int (or_else s ''1'') of
     None \<Rightarrow> 1 | Some n \<Rightarrow> js_or n 1))"

definition parse_filters :: "search_params \<Rightarrow> filter_labels \<Rightarrow> filters" where
  "parse_filters ps labels = \<lparr>
     f_q = take 200 (param ps ''q''),
     f_topic = labelled (l_topics labels) (or_else (param ps ''topic'') (param ps ''category'')),
     f_tags = map (labelled (l_tags labels)) (many ps ''tags''),
     f_ratings = many ps ''rating'',
     f_language = param ps ''lang'',
     f_difficulty = param ps ''difficulty'',
     f_sort = resolve_sort (or_else (param ps ''sort'') ''source-date''),
     f_page = page_number (param ps ''page'')\<rparr>"

section \<open>The list\<close>

definition row_matches :: "filters \<Rightarrow> article_row \<Rightarrow> bool" where
  "row_matches f r \<longleftrightarrow>
     (let q = map js_lower (js_trim (f_q f)) in
      (q = [] \<or> sublist q (ar_text r))
      \<and> (f_topic f = [] \<or> f_topic f \<in> set (ar_topics r))
      \<and> list_all (\<lambda>tag. tag \<in> set (ar_tags r)) (f_tags f)
      \<and> (f_ratings f = [] \<or> ar_rating r \<in> set (f_ratings f))
      \<and> (f_language f = [] \<or> ar_language r = f_language f)
      \<and> (f_difficulty f = [] \<or> ar_difficulty r = f_difficulty f))"

text \<open>\<open>ratings.indexOf\<close>\<close>

fun index_of :: "'a list \<Rightarrow> 'a \<Rightarrow> int" where
  "index_of [] x = -1"
| "index_of (y # ys) x = (if y = x then 0 else let i = index_of ys x in if i < 0 then -1 else i + 1)"

definition weight :: "article_row \<Rightarrow> int" where
  "weight r = index_of ratings (ar_rating r)"

definition fallback_order :: "article_row \<Rightarrow> article_row \<Rightarrow> int" where
  "fallback_order a b = js_or (ar_added b - ar_added a) (ar_id a - ar_id b)"

definition article_order ::
  "(string \<Rightarrow> string \<Rightarrow> int) \<Rightarrow> sort_name \<Rightarrow> article_row \<Rightarrow> article_row \<Rightarrow> int" where
  "article_order collate s a b =
     (if s = SortName ''recommended'' then
        js_or (js_number (ar_featured b) - js_number (ar_featured a))
          (js_or (js_number (ar_recommended b) - js_number (ar_recommended a))
            (js_or (weight a - weight b) (fallback_order a b)))
      else if s = SortName ''rating'' then
        js_or (weight a - weight b) (js_or (collate (ar_title b) (ar_title a)) (fallback_order a b))
      else if s = SortName ''title'' then js_or (collate (ar_title a) (ar_title b)) (fallback_order a b)
      else if s = SortName ''added'' then fallback_order a b
      else js_or (collate (ar_sourceDate b) (ar_sourceDate a)) (fallback_order a b))"

definition filter_articles ::
  "(string \<Rightarrow> string \<Rightarrow> int) \<Rightarrow> article_row list \<Rightarrow> filters \<Rightarrow> article_row list" where
  "filter_articles collate rows f = js_sort (article_order collate (f_sort f)) (filter (row_matches f) rows)"

section \<open>The address\<close>

text \<open>\<open>native\<close> is the text of an inherited value.\<close>

definition sort_text :: "(string \<Rightarrow> string) \<Rightarrow> sort_name \<Rightarrow> string" where
  "sort_text native s = (case s of SortName n \<Rightarrow> n | SortInherited n \<Rightarrow> native n)"

definition set_param :: "string \<Rightarrow> string \<Rightarrow> search_params" where
  "set_param k v = (if v = [] then [] else [(k, v)])"

definition query_of :: "(string \<Rightarrow> string) \<Rightarrow> filters \<Rightarrow> search_params" where
  "query_of native f =
     set_param ''q'' (f_q f) @ set_param ''topic'' (f_topic f)
     @ map (\<lambda>tag. (''tags'', tag)) (f_tags f) @ map (\<lambda>r. (''rating'', r)) (f_ratings f)
     @ set_param ''lang'' (f_language f) @ set_param ''difficulty'' (f_difficulty f)
     @ (if f_sort f \<noteq> SortName ''source-date'' then [(''sort'', sort_text native (f_sort f))] else [])
     @ (if f_page f > 1 then [(''page'', js_int (f_page f))] else [])"

text \<open>\<open>query.set('page', n)\<close> on a copy: the pair is replaced in place or appended.\<close>

definition with_page :: "int \<Rightarrow> search_params \<Rightarrow> search_params" where
  "with_page n ps = AList.update ''page'' (js_int n) ps"

section \<open>The page\<close>

definition page_rows :: nat where
  "page_rows = 12"

definition total_pages :: "nat \<Rightarrow> int" where
  "total_pages n = max 1 (int ((n + page_rows - 1) div page_rows))"

definition page_slice :: "int \<Rightarrow> 'a list \<Rightarrow> 'a list" where
  "page_slice page xs = take page_rows (drop (nat (page - 1) * page_rows) xs)"

text \<open>The window of page numbers, in order and without repetition.\<close>

definition page_window :: "int \<Rightarrow> int \<Rightarrow> int list" where
  "page_window page pages = sort (set_of_list ([1, pages]
     @ filter (\<lambda>n. n > 0 \<and> n \<le> pages) (map (\<lambda>i. page + int i - 2) [0..<5])))"

record page_link =
  pl_page :: int
  pl_query :: search_params
  pl_current :: bool

datatype history_mode = PushHistory | ReplaceHistory | NoHistory
datatype history_entry = Pushed search_params | Replaced search_params

record explorer_view =
  shown_ids :: "int list"
  node_order :: "int list"
  result_count :: nat
  empty_hidden :: bool
  page_links :: "page_link list"

record explorer =
  ex_filters :: filters
  ex_visibleTags :: nat
  ex_checked :: "string list"
  ex_tags_hidden :: "bool list"
  ex_more_hidden :: bool
  ex_summary :: "string list"
  ex_open :: bool
  ex_view :: explorer_view
  ex_history :: "history_entry list"

text \<open>What the page gives: the rows, the labels, the tag options, the select options, the words.\<close>

record explorer_page =
  pg_rows :: "article_row list"
  pg_labels :: filter_labels
  pg_tag_options :: "string list"
  pg_options :: "string \<Rightarrow> (string \<times> string option) list"
  pg_words :: "string \<Rightarrow> string"
  pg_collate :: "string \<Rightarrow> string \<Rightarrow> int"
  pg_native :: "string \<Rightarrow> string"

definition selected_label :: "explorer_page \<Rightarrow> string \<Rightarrow> string \<Rightarrow> string" where
  "selected_label pg name v = (case map_of (pg_options pg name) v of Some (Some label) \<Rightarrow> label | _ \<Rightarrow> v)"

definition tag_label :: "explorer_page \<Rightarrow> string \<Rightarrow> string" where
  "tag_label pg slug = (case filter (\<lambda>(_, v). v = slug) (l_tags (pg_labels pg)) of
     [] \<Rightarrow> slug | (name, _) # _ \<Rightarrow> name)"

definition word_label :: "explorer_page \<Rightarrow> string \<Rightarrow> string \<Rightarrow> string" where
  "word_label pg name text = pg_words pg name @ '': '' @ text"

definition active_labels :: "explorer_page \<Rightarrow> filters \<Rightarrow> string list" where
  "active_labels pg f =
     map (tag_label pg) (f_tags f) @ map (word_label pg ''rating'') (f_ratings f)
     @ (if f_language f \<noteq> [] then [word_label pg ''language'' (selected_label pg ''lang'' (f_language f))] else [])
     @ (if f_difficulty f \<noteq> []
        then [word_label pg ''difficulty'' (selected_label pg ''difficulty'' (f_difficulty f))] else [])
     @ (if f_sort f \<noteq> SortName ''source-date''
        then [word_label pg ''sort'' (selected_label pg ''sort'' (sort_text (pg_native pg) (f_sort f)))] else [])"

definition summarize :: "explorer_page \<Rightarrow> explorer \<Rightarrow> explorer" where
  "summarize pg ex = ex\<lparr>ex_summary := active_labels pg (ex_filters ex)\<rparr>"

definition show_tags :: "explorer_page \<Rightarrow> explorer \<Rightarrow> explorer" where
  "show_tags pg ex = ex\<lparr>
     ex_tags_hidden := map (\<lambda>i. ex_visibleTags ex \<le> i \<and> pg_tag_options pg ! i \<notin> set (ex_checked ex))
       [0..<length (pg_tag_options pg)],
     ex_more_hidden := length (pg_tag_options pg) \<le> ex_visibleTags ex\<rparr>"

definition sync_form :: "explorer_page \<Rightarrow> explorer \<Rightarrow> explorer" where
  "sync_form pg ex = show_tags pg (summarize pg (ex\<lparr>
     ex_checked := filter (\<lambda>tag. tag \<in> set (f_tags (ex_filters ex))) (pg_tag_options pg),
     ex_open := active_labels pg (ex_filters ex) \<noteq> []\<rparr>))"

definition links_of :: "explorer_page \<Rightarrow> filters \<Rightarrow> int \<Rightarrow> page_link list" where
  "links_of pg f pages = (if pages > 1
     then map (\<lambda>n. \<lparr>pl_page = n, pl_query = with_page n (query_of (pg_native pg) f), pl_current = (n = f_page f)\<rparr>)
       (page_window (f_page f) pages)
     else [])"

definition render_explorer :: "explorer_page \<Rightarrow> history_mode \<Rightarrow> explorer \<Rightarrow> explorer" where
  "render_explorer pg mode ex =
     (let filtered = filter_articles (pg_collate pg) (pg_rows pg) (ex_filters ex);
          pages = total_pages (length filtered);
          f = (ex_filters ex)\<lparr>f_page := min pages (f_page (ex_filters ex))\<rparr>;
          ids = map ar_id filtered;
          params = query_of (pg_native pg) f
      in ex\<lparr>ex_filters := f,
         ex_view := \<lparr>shown_ids = set_of_list (page_slice (f_page f) ids),
           node_order = filter (\<lambda>i. i \<notin> set ids) (node_order (ex_view ex)) @ ids,
           result_count = length filtered, empty_hidden = (length filtered > 0),
           page_links = links_of pg f pages\<rparr>,
         ex_history := ex_history ex @ (case mode of
            PushHistory \<Rightarrow> [Pushed params] | ReplaceHistory \<Rightarrow> [Replaced params] | NoHistory \<Rightarrow> [])\<rparr>)"

text \<open>
  The events: the form is read with its entries (a submit, a change, input in the query field), the
  filters are reset, more tags are asked for, the browser goes back, a page link is clicked.
\<close>

datatype explorer_event =
    ReadForm search_params
  | ResetFilters
  | MoreTags
  | PopState search_params
  | ClickPage int

definition explorer_step :: "explorer_page \<Rightarrow> explorer_event \<Rightarrow> explorer \<Rightarrow> explorer" where
  "explorer_step pg e ex = (case e of
     ReadForm entries \<Rightarrow>
       show_tags pg (summarize pg (render_explorer pg ReplaceHistory
         (ex\<lparr>ex_filters := parse_filters entries no_labels,
            ex_checked := filter (\<lambda>tag. tag \<in> set (param_all entries ''tags'')) (pg_tag_options pg)\<rparr>)))
   | ResetFilters \<Rightarrow>
       render_explorer pg ReplaceHistory
         (sync_form pg (ex\<lparr>ex_filters := parse_filters [] no_labels, ex_visibleTags := 30\<rparr>))
   | MoreTags \<Rightarrow> show_tags pg (ex\<lparr>ex_visibleTags := ex_visibleTags ex + 10\<rparr>)
   | PopState ps \<Rightarrow>
       render_explorer pg NoHistory (sync_form pg (ex\<lparr>ex_filters := parse_filters ps (pg_labels pg)\<rparr>))
   | ClickPage n \<Rightarrow> render_explorer pg PushHistory (ex\<lparr>ex_filters := (ex_filters ex)\<lparr>f_page := n\<rparr>\<rparr>))"

definition mount_explorer :: "explorer_page \<Rightarrow> search_params \<Rightarrow> explorer" where
  "mount_explorer pg ps = render_explorer pg NoHistory (sync_form pg \<lparr>
     ex_filters = parse_filters ps (pg_labels pg), ex_visibleTags = 30, ex_checked = [],
     ex_tags_hidden = [], ex_more_hidden = False, ex_summary = [], ex_open = False,
     ex_view = \<lparr>shown_ids = [], node_order = map ar_id (pg_rows pg), result_count = 0, empty_hidden = False,
       page_links = []\<rparr>, ex_history = []\<rparr>)"

text \<open>A page link can only be clicked while it is on the page.\<close>

inductive explorer_runs :: "explorer_page \<Rightarrow> search_params \<Rightarrow> explorer \<Rightarrow> bool" for pg ps where
  mounted: "explorer_runs pg ps (mount_explorer pg ps)"
| stepped: "explorer_runs pg ps ex \<Longrightarrow>
    (\<forall>n. e = ClickPage n \<longrightarrow> n \<in> pl_page ` set (page_links (ex_view ex))) \<Longrightarrow>
    explorer_runs pg ps (explorer_step pg e ex)"

end
