(* ===== verification/ExplorerProps.thy ===== *)
theory ExplorerProps
  imports Explorer
begin

text \<open>
  The properties of the explorer: an address carries the filters, the list is the sorted selection
  whatever the order of the rows, and every reachable state of the page shows one page of it.
\<close>

section \<open>The address carries the filters\<close>

lemma set_of_list_distinct: "distinct xs \<Longrightarrow> set_of_list xs = xs"
  by (induction xs rule: rev_induct) (auto simp: set_of_list_snoc set_add_def)

lemma split_commas_none: "CHR '','' \<notin> set s \<Longrightarrow> split_commas s = [s]"
  by (induction s) auto

lemma split_commas_parts: "v \<in> set (split_commas s) \<Longrightarrow> CHR '','' \<notin> set v"
proof (induction s arbitrary: v)
  case (Cons c s)
  then show ?case by (cases "split_commas s") (auto split: if_splits)
qed simp

lemma many_parts: "v \<in> set (many ps k) \<Longrightarrow> v \<noteq> [] \<and> CHR '','' \<notin> set v"
  by (auto simp: many_def dest: split_commas_parts)

lemma distinct_many: "distinct (many ps k)"
  by (simp add: many_def)

lemma many_plain:
  assumes "param_all ps k = xs" and "\<forall>v \<in> set xs. v \<noteq> [] \<and> CHR '','' \<notin> set v"
  shows "many ps k = set_of_list xs"
proof -
  have "concat (map split_commas xs) = xs" using assms(2)
    by (induction xs) (simp_all add: split_commas_none)
  moreover have "filter (\<lambda>v. v \<noteq> []) xs = xs" using assms(2) by (simp add: filter_id_conv)
  ultimately show ?thesis by (simp add: many_def assms(1))
qed

lemma map_of_const:
  "map_of (map (\<lambda>x. (k, x)) xs) k' = (if k = k' then (case xs of [] \<Rightarrow> None | x # _ \<Rightarrow> Some x) else None)"
  by (induction xs) auto

lemma map_of_set_param: "map_of (set_param k v) k' = (if k = k' \<and> v \<noteq> [] then Some v else None)"
  by (simp add: set_param_def)

lemma query_params:
  "param (query_of native f) ''q'' = f_q f" "param (query_of native f) ''topic'' = f_topic f"
  "param (query_of native f) ''category'' = []" "param (query_of native f) ''lang'' = f_language f"
  "param (query_of native f) ''difficulty'' = f_difficulty f"
  "param (query_of native f) ''sort'' = (if f_sort f = SortName ''source-date'' then [] else sort_text native (f_sort f))"
  "param (query_of native f) ''page'' = (if f_page f > 1 then js_int (f_page f) else [])"
  by (simp_all add: param_def query_of_def map_add_def map_of_set_param map_of_const)

lemma query_lists:
  "param_all (query_of native f) ''tags'' = f_tags f" "param_all (query_of native f) ''rating'' = f_ratings f"
  by (simp_all add: param_all_def query_of_def set_param_def filter_map comp_def)

lemma digit_in_class: "d < 10 \<Longrightarrow> in_class digit_class (digit_char d)"
proof -
  assume "d < 10"
  then have "of_char (digit_char d) = 48 + d" by (simp add: digit_char_def)
  with \<open>d < 10\<close> show ?thesis by (simp add: digit_class_def less_eq_char_def)
qed

lemma decimal_digits: "list_all (in_class digit_class) (js_decimal n)"
proof (induction n rule: js_decimal.induct)
  case (1 n)
  then show ?case by (subst js_decimal.simps) (auto simp: digit_in_class)
qed

lemma digit_no_space: "in_class digit_class c \<Longrightarrow> \<not> js_space c \<and> c \<noteq> CHR ''-'' \<and> c \<noteq> CHR ''+''"
  by (auto simp: digit_class_def js_space_def less_eq_char_def)

lemma parse_int_decimal: "parse_int (js_decimal n) = Some (int n)"
proof -
  obtain c s where d: "js_decimal n = c # s" by (cases "js_decimal n") simp_all
  have "takeWhile (in_class digit_class) (js_decimal n) = js_decimal n"
    using decimal_digits [of n] by (subst takeWhile_eq_all_conv) (simp add: list_all_iff)
  then have "parse_digits (js_decimal n) = Some (int n)" by (simp add: parse_digits_def Let_def del: takeWhile_eq_all_conv)
  moreover have "in_class digit_class c" using decimal_digits [of n] d by simp
  ultimately show ?thesis using digit_no_space d by (simp add: parse_int_def)
qed

lemma page_number_int: "1 \<le> n \<Longrightarrow> n \<le> 10000 \<Longrightarrow> page_number (js_int n) = n"
  by (simp add: page_number_def js_int_def or_else_def parse_int_decimal js_or_def)

lemma page_number_default: "page_number [] = 1"
proof -
  have "js_decimal 1 = ''1''" by code_simp
  then have "parse_int ''1'' = Some 1" using parse_int_decimal [of 1] by simp
  then show ?thesis by (simp add: page_number_def or_else_def js_or_def)
qed

lemma page_number_range: "1 \<le> page_number s \<and> page_number s \<le> 10000"
  by (simp add: page_number_def)

text \<open>Labels resolve to values that are no labels of something else, and fit into an address.\<close>

definition labels_ok :: "filter_labels \<Rightarrow> bool" where
  "labels_ok labels \<longleftrightarrow>
     list_all (\<lambda>v. labelled (l_topics labels) v = v) (map snd (l_topics labels))
     \<and> list_all (\<lambda>v. labelled (l_tags labels) v = v \<and> v \<noteq> [] \<and> CHR '','' \<notin> set v) (map snd (l_tags labels))"

lemma labelled_fixed:
  assumes "list_all (\<lambda>v. labelled m v = v \<and> P v) (map snd m)" and "P s"
  shows "labelled m (labelled m s) = labelled m s \<and> P (labelled m s)"
proof (cases "map_of m s")
  case (Some v)
  then have "(s, v) \<in> set m" by (rule map_of_SomeD)
  with assms(1) have "labelled m v = v \<and> P v" by (auto simp: list_all_iff)
  moreover have "labelled m s = v" using Some by (simp add: labelled_def)
  ultimately show ?thesis by simp
qed (use assms in \<open>simp add: labelled_def\<close>)

definition plain_value :: "string \<Rightarrow> bool" where
  "plain_value v \<longleftrightarrow> v \<noteq> [] \<and> CHR '','' \<notin> set v"

lemma labelled_topic:
  "labels_ok labels \<Longrightarrow> labelled (l_topics labels) (labelled (l_topics labels) s) = labelled (l_topics labels) s"
  using labelled_fixed [of "l_topics labels" "\<lambda>_. True" s] by (simp add: labels_ok_def)

lemma labelled_tag:
  "labels_ok labels \<Longrightarrow> plain_value s \<Longrightarrow>
    labelled (l_tags labels) (labelled (l_tags labels) s) = labelled (l_tags labels) s
    \<and> plain_value (labelled (l_tags labels) s)"
  by (rule labelled_fixed) (simp_all add: labels_ok_def plain_value_def)

lemma resolve_sort_again:
  assumes "resolve_sort s = SortName n" and "s \<noteq> []"
  shows "resolve_sort n = SortName n \<and> n \<noteq> []"
proof -
  have targets: "resolve_sort ''source-date'' = SortName ''source-date''"
    "resolve_sort ''added'' = SortName ''added''" "resolve_sort ''title'' = SortName ''title''"
    by code_simp+
  have old: "resolve_sort ''published-date'' = SortName ''source-date''"
    "resolve_sort ''recently-added'' = SortName ''added''" "resolve_sort ''title-asc'' = SortName ''title''"
    by (simp_all add: resolve_sort_def)
  consider "s = ''published-date''" | "s = ''recently-added''" | "s = ''title-asc''"
    | "s \<noteq> ''published-date''" "s \<noteq> ''recently-added''" "s \<noteq> ''title-asc''" by blast
  then show ?thesis
  proof cases
    case 4
    then have "s \<notin> set inherited_names \<and> n = s"
      using assms(1) unfolding resolve_sort_def by (simp split: if_splits)
    then show ?thesis using assms by simp
  qed (use assms(1) targets old in auto)
qed

text \<open>The filters an address can carry.\<close>

definition addressable :: "filter_labels \<Rightarrow> filters \<Rightarrow> bool" where
  "addressable labels f \<longleftrightarrow>
     length (f_q f) \<le> 200 \<and> labelled (l_topics labels) (f_topic f) = f_topic f
     \<and> (\<forall>t \<in> set (f_tags f). labelled (l_tags labels) t = t \<and> plain_value t)
     \<and> (\<forall>r \<in> set (f_ratings f). plain_value r) \<and> distinct (f_ratings f)
     \<and> (\<exists>n. f_sort f = SortName n \<and> n \<noteq> [] \<and> resolve_sort n = SortName n)
     \<and> 1 \<le> f_page f \<and> f_page f \<le> 10000"

lemma many_plain_values: "v \<in> set (many ps k) \<Longrightarrow> plain_value v"
  by (simp add: many_parts plain_value_def)

lemma or_else_not_Nil: "or_else s ''source-date'' \<noteq> []"
  by (simp add: or_else_def)

lemma parsed_addressable:
  assumes "labels_ok labels" and "f_sort (parse_filters ps labels) \<in> range SortName"
  shows "addressable labels (parse_filters ps labels)"
proof -
  obtain n where n: "resolve_sort (or_else (param ps ''sort'') ''source-date'') = SortName n"
    using assms(2) by (auto simp: parse_filters_def)
  have "resolve_sort n = SortName n \<and> n \<noteq> []" using resolve_sort_again [OF n or_else_not_Nil] .
  moreover have "labelled (l_tags labels) (labelled (l_tags labels) t) = labelled (l_tags labels) t
      \<and> plain_value (labelled (l_tags labels) t)" if "t \<in> set (many ps ''tags'')" for t
    using labelled_tag [OF assms(1)] many_plain_values [OF that] by blast
  ultimately show ?thesis
    using many_plain_values distinct_many page_number_range labelled_topic [OF assms(1)] n
    by (auto simp: addressable_def parse_filters_def)
qed

lemma addressable_round_trip:
  assumes "addressable labels f"
  shows "parse_filters (query_of native f) labels = f\<lparr>f_tags := set_of_list (f_tags f)\<rparr>"
proof -
  let ?ps = "query_of native f"
  note f = assms [unfolded addressable_def plain_value_def]
  have q: "take 200 (f_q f) = f_q f" using f by simp
  have topic: "labelled (l_topics labels) (f_topic f) = f_topic f" using f by blast
  have "many ?ps ''tags'' = set_of_list (f_tags f)"
    by (rule many_plain [OF query_lists(1)]) (use f in blast)
  moreover have "map (labelled (l_tags labels)) (set_of_list (f_tags f)) = set_of_list (f_tags f)"
    by (rule map_idI) (use f in simp)
  ultimately have tags: "map (labelled (l_tags labels)) (many ?ps ''tags'') = set_of_list (f_tags f)"
    by simp
  have "many ?ps ''rating'' = set_of_list (f_ratings f)"
    by (rule many_plain [OF query_lists(2)]) (use f in blast)
  then have ratings: "many ?ps ''rating'' = f_ratings f" using f by (simp add: set_of_list_distinct)
  obtain n where n: "f_sort f = SortName n" "n \<noteq> []" "resolve_sort n = SortName n" using f by blast
  have sort: "resolve_sort (or_else (param ?ps ''sort'') ''source-date'') = f_sort f"
  proof (cases "n = ''source-date''")
    case False
    then show ?thesis using n by (simp add: query_params sort_text_def or_else_def)
  qed (use n in \<open>simp add: query_params or_else_def\<close>)
  have page: "page_number (param ?ps ''page'') = f_page f"
  proof (cases "f_page f > 1")
    case True
    then show ?thesis using f by (simp add: query_params page_number_int)
  next
    case False
    then have "f_page f = 1" using f by linarith
    then show ?thesis by (simp add: query_params page_number_default)
  qed
  show ?thesis
    unfolding parse_filters_def tags ratings sort page
    by (simp add: query_params q topic or_else_def)
qed

text \<open>The address of a page link reads as the same filters at that page.\<close>

lemma filter_update_other:
  "k \<noteq> ''page'' \<Longrightarrow> filter (\<lambda>(key, _). key = k) (AList.update ''page'' v ps) = filter (\<lambda>(key, _). key = k) ps"
  by (induction ps) auto

lemma with_page_params:
  "param (with_page n ps) k = (if k = ''page'' then js_int n else param ps k)"
  "k \<noteq> ''page'' \<Longrightarrow> param_all (with_page n ps) k = param_all ps k"
  by (simp_all add: param_def param_all_def with_page_def filter_update_other)

lemma parse_with_page:
  "1 \<le> n \<Longrightarrow> n \<le> 10000 \<Longrightarrow>
    parse_filters (with_page n ps) labels = (parse_filters ps labels)\<lparr>f_page := n\<rparr>"
  by (simp add: parse_filters_def with_page_params many_def page_number_int)

section \<open>The list\<close>

lemma comparator_collate [comparator_intros]:
  "js_comparator UNIV collate \<Longrightarrow> js_comparator S (\<lambda>a b. collate (k a) (k b))"
  unfolding js_comparator_def by (auto; blast)

lemma comparator_collate_desc [comparator_intros]:
  "js_comparator UNIV collate \<Longrightarrow> js_comparator S (\<lambda>a b. collate (k b) (k a))"
  unfolding js_comparator_def by (auto; blast)

lemma comparator_fallback [comparator_intros]: "js_comparator S fallback_order"
  unfolding fallback_order_def [abs_def] by (intro comparator_intros)

lemma comparator_articles:
  assumes "js_comparator UNIV collate"
  shows "js_comparator S (article_order collate s)"
proof -
  consider "s = SortName ''recommended''" | "s = SortName ''rating''" | "s = SortName ''title''"
    | "s = SortName ''added''"
    | "s \<noteq> SortName ''recommended''" "s \<noteq> SortName ''rating''" "s \<noteq> SortName ''title''"
      "s \<noteq> SortName ''added''" by blast
  then show ?thesis
    by cases (simp_all add: article_order_def [abs_def] comparator_intros assms)
qed

lemma article_order_zero: "article_order collate s a b = 0 \<Longrightarrow> ar_id a = ar_id b"
  by (auto simp: article_order_def fallback_order_def js_or_def split: if_splits)

lemma articles_keyed:
  "js_comparator UNIV collate \<Longrightarrow> js_keyed_comparator UNIV (article_order collate s) ar_id"
  by (intro js_keyed_comparator.intro js_keyed_comparator_axioms.intro comparator_articles)
    (auto dest: article_order_zero)

text \<open>
  C34. The list of the explorer is the selection of its rows in the chosen order: nothing is lost or
  repeated, the order is the one the sort names, and it does not depend on the order of the rows on
  the page (which every rendering changes, as it appends the selected articles). \<open>localeCompare\<close> is
  assumed to be an order.
\<close>

theorem explorer_list_correct:
  assumes "js_comparator UNIV collate" and "distinct (map ar_id rows)"
  shows "mset (filter_articles collate rows f) = mset (filter (row_matches f) rows)
    \<and> sorted_by (article_order collate (f_sort f)) (filter_articles collate rows f)
    \<and> (mset rows' = mset rows \<longrightarrow> filter_articles collate rows' f = filter_articles collate rows f)"
proof (intro conjI impI)
  show "sorted_by (article_order collate (f_sort f)) (filter_articles collate rows f)"
    unfolding filter_articles_def
    by (rule js_comparator.sorted_js_sort [OF comparator_articles [OF assms(1), of UNIV]]) simp
  assume rows: "mset rows' = mset rows"
  then have "set rows' = set rows" by (rule mset_eq_setD)
  then have "inj_on ar_id (set (filter (row_matches f) rows'))"
    using assms(2) by (simp add: distinct_map inj_on_def)
  then show "filter_articles collate rows' f = filter_articles collate rows f"
    unfolding filter_articles_def
    by (intro js_keyed_comparator.js_sort_unique [OF articles_keyed [OF assms(1)]]) (simp_all add: rows)
qed (simp add: filter_articles_def)

section \<open>The pages\<close>

lemma total_pages_pos: "1 \<le> total_pages n"
  by (simp add: total_pages_def)

lemma total_pages_covers: "n \<le> nat (total_pages n) * page_rows"
proof -
  have "n \<le> ((n + 11) div 12) * 12" by presburger
  also have "\<dots> \<le> nat (total_pages n) * page_rows" by (simp add: total_pages_def page_rows_def)
  finally show ?thesis .
qed

lemma total_pages_tight: "0 < n \<Longrightarrow> nat (total_pages n - 1) * page_rows < n"
proof -
  assume n: "0 < n"
  then have "(n + 11) div 12 \<ge> 1" and "((n + 11) div 12 - 1) * 12 < n" by presburger+
  then show ?thesis by (simp add: total_pages_def page_rows_def nat_diff_distrib)
qed

lemma page_slice_not_Nil:
  assumes "1 \<le> p" and "p \<le> total_pages (length xs)" and "xs \<noteq> []"
  shows "page_slice p xs \<noteq> []"
proof -
  have "nat (p - 1) * page_rows \<le> nat (total_pages (length xs) - 1) * page_rows"
    using assms(1,2) by (intro mult_le_mono1 nat_mono) linarith
  also have "\<dots> < length xs" using assms(3) by (simp add: total_pages_tight)
  finally show ?thesis by (simp add: page_slice_def page_rows_def)
qed

lemma concat_pages: "concat (map (\<lambda>i. page_slice (int i + 1) xs) [0..<k]) = take (k * page_rows) xs"
proof (induction k)
  case (Suc k)
  then show ?case by (simp add: page_slice_def take_add add.commute [of page_rows])
qed simp

lemma pages_partition:
  "concat (map (\<lambda>i. page_slice (int i + 1) xs) [0..<nat (total_pages (length xs))]) = xs"
  using total_pages_covers [of "length xs"] by (simp add: concat_pages)

lemma page_window_props:
  assumes "1 \<le> p" and "p \<le> n"
  shows "set (page_window p n) = {1, n} \<union> {i. 1 \<le> i \<and> i \<le> n \<and> p - 2 \<le> i \<and> i \<le> p + 2}"
    and "sorted (page_window p n)" and "distinct (page_window p n)" and "length (page_window p n) \<le> 7"
proof -
  have r: "[0..<5] = [0, 1, 2, 3, 4]" by (simp add: upt_rec)
  show "set (page_window p n) = {1, n} \<union> {i. 1 \<le> i \<and> i \<le> n \<and> p - 2 \<le> i \<and> i \<le> p + 2}"
    using assms unfolding page_window_def r by auto
  show "sorted (page_window p n)" "distinct (page_window p n)" by (simp_all add: page_window_def)
  have "card (set xs) \<le> length xs" for xs :: "int list" by (rule card_length)
  then have "length (set_of_list xs) \<le> length xs" for xs :: "int list"
    by (metis distinct_card distinct_set_of_list set_set_of_list)
  then have "length (page_window p n) \<le> length ([1, n] @ filter (\<lambda>i. i > 0 \<and> i \<le> n) (map (\<lambda>i. p + int i - 2) [0..<5]))"
    by (simp only: page_window_def length_sort)
  also have "\<dots> \<le> 7" by (simp add: r)
  finally show "length (page_window p n) \<le> 7" .
qed

section \<open>Every state of the page\<close>

lemma filter_articles_page [simp]: "filter_articles c rows (f\<lparr>f_page := n\<rparr>) = filter_articles c rows f"
proof -
  have "row_matches (f\<lparr>f_page := n\<rparr>) = row_matches f" by (rule ext) (simp add: row_matches_def)
  then show ?thesis by (simp add: filter_articles_def)
qed

lemma active_labels_page [simp]: "active_labels pg (f\<lparr>f_page := n\<rparr>) = active_labels pg f"
  by (simp add: active_labels_def)

lemma distinct_filter_articles:
  assumes "distinct (map ar_id rows)"
  shows "distinct (map ar_id (filter_articles c rows f))"
proof -
  have "mset (map ar_id (filter_articles c rows f)) = mset (map ar_id (filter (row_matches f) rows))"
    by (simp add: filter_articles_def mset_map [symmetric] del: mset_map) (simp add: filter_articles_def)
  moreover have "distinct (map ar_id (filter (row_matches f) rows))"
    using assms by (rule distinct_map_filter)
  ultimately show ?thesis by (metis mset_eq_imp_distinct_iff)
qed

lemma page_slice_map: "page_slice p (map g xs) = map g (page_slice p xs)"
  by (simp add: page_slice_def take_map drop_map)

lemma distinct_page_slice: "distinct xs \<Longrightarrow> distinct (page_slice p xs)"
  by (simp add: page_slice_def)

text \<open>The part of the state that \<open>render\<close> settles, and the part of the tags and the summary.\<close>

definition view_ok :: "explorer_page \<Rightarrow> explorer \<Rightarrow> bool" where
  "view_ok pg ex \<longleftrightarrow>
     (let f = ex_filters ex; xs = filter_articles (pg_collate pg) (pg_rows pg) f;
          pages = total_pages (length xs)
      in 1 \<le> f_page f \<and> f_page f \<le> pages
       \<and> shown_ids (ex_view ex) = map ar_id (page_slice (f_page f) xs)
       \<and> result_count (ex_view ex) = length xs
       \<and> (empty_hidden (ex_view ex) \<longleftrightarrow> xs \<noteq> [])
       \<and> page_links (ex_view ex) = links_of pg f pages)"

definition tags_ok :: "explorer_page \<Rightarrow> explorer \<Rightarrow> bool" where
  "tags_ok pg ex \<longleftrightarrow>
     (\<forall>i < length (pg_tag_options pg). pg_tag_options pg ! i \<in> set (ex_checked ex) \<longrightarrow> \<not> ex_tags_hidden ex ! i)"

definition summary_ok :: "explorer_page \<Rightarrow> explorer \<Rightarrow> bool" where
  "summary_ok pg ex \<longleftrightarrow> ex_summary ex = active_labels pg (ex_filters ex)"

definition explorer_ok :: "explorer_page \<Rightarrow> explorer \<Rightarrow> bool" where
  "explorer_ok pg ex \<longleftrightarrow> view_ok pg ex \<and> tags_ok pg ex \<and> summary_ok pg ex"

lemma render_view_ok:
  assumes "distinct (map ar_id (pg_rows pg))" and "1 \<le> f_page (ex_filters ex)"
  shows "view_ok pg (render_explorer pg mode ex)"
  using assms(2) total_pages_pos distinct_filter_articles [OF assms(1), of "pg_collate pg" "ex_filters ex"]
  by (auto simp: view_ok_def render_explorer_def Let_def set_of_list_distinct distinct_page_slice page_slice_map [symmetric])

lemma render_explorer_keeps [simp]:
  "tags_ok pg (render_explorer pg mode ex) = tags_ok pg ex"
  "summary_ok pg (render_explorer pg mode ex) = summary_ok pg ex"
  by (simp_all add: tags_ok_def summary_ok_def render_explorer_def Let_def)

lemma show_tags_ok [simp]:
  "tags_ok pg (show_tags pg ex)" "view_ok pg (show_tags pg ex) = view_ok pg ex"
  "summary_ok pg (show_tags pg ex) = summary_ok pg ex" "ex_filters (show_tags pg ex) = ex_filters ex"
  by (simp_all add: tags_ok_def summary_ok_def view_ok_def show_tags_def)

lemma summarize_ok [simp]:
  "summary_ok pg (summarize pg ex)" "view_ok pg (summarize pg ex) = view_ok pg ex"
  "ex_filters (summarize pg ex) = ex_filters ex"
  by (simp_all add: summary_ok_def view_ok_def summarize_def)

lemma sync_form_ok [simp]:
  "tags_ok pg (sync_form pg ex)" "summary_ok pg (sync_form pg ex)" "ex_filters (sync_form pg ex) = ex_filters ex"
  by (simp_all add: sync_form_def)

lemma parsed_page: "1 \<le> f_page (parse_filters ps labels)"
  by (simp add: parse_filters_def page_number_range)

lemma links_in_range:
  assumes "view_ok pg ex" and "n \<in> pl_page ` set (page_links (ex_view ex))"
  shows "1 \<le> n"
proof -
  let ?f = "ex_filters ex"
  let ?pages = "total_pages (length (filter_articles (pg_collate pg) (pg_rows pg) ?f))"
  have "1 \<le> f_page ?f" "f_page ?f \<le> ?pages" "page_links (ex_view ex) = links_of pg ?f ?pages"
    using assms(1) by (simp_all add: view_ok_def Let_def)
  then show ?thesis using assms(2) page_window_props(1) [of "f_page ?f" ?pages] total_pages_pos
    by (auto simp: links_of_def split: if_splits)
qed

lemma runs_explorer_ok:
  assumes "distinct (map ar_id (pg_rows pg))" and "explorer_runs pg ps ex"
  shows "explorer_ok pg ex"
  using assms(2)
proof (induction rule: explorer_runs.induct)
  case mounted
  show ?case
    by (simp add: explorer_ok_def mount_explorer_def render_view_ok [OF assms(1)] parsed_page)
next
  case (stepped ex e)
  have ok: "view_ok pg ex" "tags_ok pg ex" "summary_ok pg ex"
    using stepped.IH by (simp_all add: explorer_ok_def)
  show ?case
  proof (cases e)
    case (ClickPage n)
    then have "1 \<le> n" using links_in_range [OF ok(1)] stepped.hyps(2) by blast
    moreover have "tags_ok pg (ex\<lparr>ex_filters := f\<rparr>) = tags_ok pg ex" for f by (simp add: tags_ok_def)
    moreover have "summary_ok pg (ex\<lparr>ex_filters := (ex_filters ex)\<lparr>f_page := n\<rparr>\<rparr>) = summary_ok pg ex"
      by (simp add: summary_ok_def)
    ultimately show ?thesis
      using ok by (simp add: explorer_ok_def ClickPage explorer_step_def render_view_ok [OF assms(1)])
  next
    case MoreTags
    have "view_ok pg (ex\<lparr>ex_visibleTags := k\<rparr>) = view_ok pg ex" for k by (simp add: view_ok_def)
    moreover have "summary_ok pg (ex\<lparr>ex_visibleTags := k\<rparr>) = summary_ok pg ex" for k by (simp add: summary_ok_def)
    ultimately show ?thesis using ok by (simp add: explorer_ok_def MoreTags explorer_step_def)
  qed (simp_all add: explorer_ok_def explorer_step_def render_view_ok [OF assms(1)] parsed_page)
qed

text \<open>
  C35. Every state the explorer can reach shows a page of its list: the page number is in range, the
  visible articles are that page (never an empty page while there are results), the pages together
  are the list, the count and the empty message agree with it, the page links are in order, without
  repetition, at most seven, and lead to the first, the last and the current page, no selected tag is
  folded away, and the summary names the filters in force.
\<close>

theorem explorer_shows_a_page:
  assumes "distinct (map ar_id (pg_rows pg))" and "explorer_runs pg ps ex"
  defines "f \<equiv> ex_filters ex" and "v \<equiv> ex_view ex"
  defines "xs \<equiv> filter_articles (pg_collate pg) (pg_rows pg) f"
  defines "pages \<equiv> total_pages (length xs)"
  shows "1 \<le> f_page f \<and> f_page f \<le> pages
    \<and> shown_ids v = map ar_id (page_slice (f_page f) xs) \<and> (xs \<noteq> [] \<longrightarrow> shown_ids v \<noteq> [])
    \<and> concat (map (\<lambda>i. page_slice (int i + 1) xs) [0..<nat pages]) = xs
    \<and> result_count v = length xs \<and> (empty_hidden v \<longleftrightarrow> xs \<noteq> [])
    \<and> (pages = 1 \<longrightarrow> page_links v = [])
    \<and> (1 < pages \<longrightarrow> {1, f_page f, pages} \<subseteq> pl_page ` set (page_links v)
        \<and> sorted_wrt (<) (map pl_page (page_links v)) \<and> length (page_links v) \<le> 7)
    \<and> (\<forall>i < length (pg_tag_options pg). pg_tag_options pg ! i \<in> set (ex_checked ex) \<longrightarrow> \<not> ex_tags_hidden ex ! i)
    \<and> ex_summary ex = active_labels pg f"
proof -
  have ok: "view_ok pg ex" "tags_ok pg ex" "summary_ok pg ex"
    using runs_explorer_ok [OF assms(1,2)] by (simp_all add: explorer_ok_def)
  have v: "1 \<le> f_page f" "f_page f \<le> pages" "shown_ids v = map ar_id (page_slice (f_page f) xs)"
    "result_count v = length xs" "empty_hidden v \<longleftrightarrow> xs \<noteq> []" "page_links v = links_of pg f pages"
    using ok(1) by (simp_all add: view_ok_def Let_def f_def v_def xs_def pages_def)
  have "map pl_page (page_links v) = page_window (f_page f) pages" if "1 < pages"
    using that by (simp add: v(6) links_of_def comp_def)
  then have links: "pl_page ` set (page_links v) = set (page_window (f_page f) pages)"
      "map pl_page (page_links v) = page_window (f_page f) pages"
      "length (page_links v) = length (page_window (f_page f) pages)" if "1 < pages"
    using that by (metis set_map, metis, metis length_map)
  note window = page_window_props [OF v(1,2)]
  have many: "{1, f_page f, pages} \<subseteq> pl_page ` set (page_links v)
      \<and> sorted_wrt (<) (map pl_page (page_links v)) \<and> length (page_links v) \<le> 7" if "1 < pages"
    using window v(1,2) unfolding links [OF that] by (auto simp: strict_sorted_iff)
  have one: "page_links v = []" if "pages = 1" using that by (simp add: v(6) links_of_def)
  have full: "shown_ids v \<noteq> []" if "xs \<noteq> []"
    using page_slice_not_Nil [OF v(1) v(2) [unfolded pages_def] that] by (simp add: v(3))
  show ?thesis
    using v many one full ok(2,3) pages_partition [of xs]
    by (simp add: tags_ok_def summary_ok_def f_def pages_def)
qed

lemma filter_articles_tags: "filter_articles c rows (f\<lparr>f_tags := set_of_list (f_tags f)\<rparr>) = filter_articles c rows f"
proof -
  have "row_matches (f\<lparr>f_tags := set_of_list (f_tags f)\<rparr>) = row_matches f"
    by (rule ext) (simp add: row_matches_def list_all_iff)
  then show ?thesis by (simp add: filter_articles_def)
qed

lemma mount_filters:
  defines "xs pg f \<equiv> filter_articles (pg_collate pg) (pg_rows pg) f"
  shows "ex_filters (mount_explorer pg ps) = (let f = parse_filters ps (pg_labels pg)
    in f\<lparr>f_page := min (total_pages (length (xs pg f))) (f_page f)\<rparr>)"
  by (simp add: mount_explorer_def render_explorer_def Let_def xs_def)

text \<open>
  C36. The address carries the state: loading the address of a page, or the address of one of its
  page links, in a new window shows the same list at the same page, or the page of the link. The
  filters must be ones that an address can carry, as all filters that were read from an address are
  (\<open>parsed_addressable\<close>, for labels that resolve to values which are not labels of something else):
  the text at most 200 characters, no commas in tags and ratings, a sort that is not the name of a
  property every object inherits.
\<close>

theorem reload_shows_the_same:
  assumes "distinct (map ar_id (pg_rows pg))" and "explorer_runs pg ps ex"
    and "addressable (pg_labels pg) (ex_filters ex)"
  defines "f \<equiv> ex_filters ex"
  defines "xs \<equiv> filter_articles (pg_collate pg) (pg_rows pg) f"
  defines "again \<equiv> mount_explorer pg (query_of (pg_native pg) f)"
  shows "ex_filters again = f\<lparr>f_tags := set_of_list (f_tags f)\<rparr> \<and> shown_ids (ex_view again) = shown_ids (ex_view ex)
    \<and> (\<forall>l \<in> set (page_links (ex_view ex)). pl_page l \<le> 10000 \<longrightarrow>
        ex_filters (mount_explorer pg (pl_query l)) = f\<lparr>f_tags := set_of_list (f_tags f), f_page := pl_page l\<rparr>
        \<and> shown_ids (ex_view (mount_explorer pg (pl_query l))) = map ar_id (page_slice (pl_page l) xs))"
proof -
  let ?pages = "total_pages (length xs)"
  let ?g = "f\<lparr>f_tags := set_of_list (f_tags f)\<rparr>"
  have v: "1 \<le> f_page f" "f_page f \<le> ?pages" "shown_ids (ex_view ex) = map ar_id (page_slice (f_page f) xs)"
    "page_links (ex_view ex) = links_of pg f ?pages"
    using runs_explorer_ok [OF assms(1,2)] by (simp_all add: explorer_ok_def view_ok_def Let_def f_def xs_def)
  have read: "parse_filters (query_of (pg_native pg) f) (pg_labels pg) = ?g"
    using addressable_round_trip [OF assms(3)] by (simp add: f_def)
  have list: "filter_articles (pg_collate pg) (pg_rows pg) (?g\<lparr>f_page := n\<rparr>) = xs" for n
    by (simp add: filter_articles_tags xs_def)
  have mounted: "shown_ids (ex_view (mount_explorer pg qs)) = map ar_id (page_slice n xs)"
    if "ex_filters (mount_explorer pg qs) = ?g\<lparr>f_page := n\<rparr>" for qs n
  proof -
    have "view_ok pg (mount_explorer pg qs)"
      using runs_explorer_ok [OF assms(1) explorer_runs.mounted] by (simp add: explorer_ok_def)
    then show ?thesis using list [of n] by (simp add: view_ok_def Let_def that)
  qed
  have again: "ex_filters again = ?g"
    using v(2) list [of "f_page f"] by (simp add: again_def mount_filters read Let_def filter_articles_tags xs_def min_absorb2)
  moreover have "ex_filters (mount_explorer pg (pl_query l)) = ?g\<lparr>f_page := pl_page l\<rparr>"
    if link: "l \<in> set (page_links (ex_view ex))" "pl_page l \<le> 10000" for l
  proof -
    have l: "1 \<le> pl_page l" "pl_page l \<le> ?pages" "pl_query l = with_page (pl_page l) (query_of (pg_native pg) f)"
      using link(1) page_window_props(1) [OF v(1,2)] v(1,2) by (auto simp: v(4) links_of_def split: if_splits)
    then show ?thesis
      using list by (simp add: mount_filters parse_with_page [OF l(1) link(2)] read Let_def min_absorb2)
  qed
  ultimately show ?thesis
    using mounted [of "query_of (pg_native pg) f" "f_page f"] mounted v(3) by (simp add: again_def)
qed

section \<open>A page\<close>

definition explorer_row :: "nat \<Rightarrow> article_row" where
  "explorer_row i = \<lparr>ar_id = int i, ar_title = ''Go '' @ js_decimal i, ar_text = ''go '' @ js_decimal i, ar_topics = [''runtime''],
     ar_tags = [''gc''], ar_language = ''en'', ar_rating = (if i < 5 then ''A'' else ''S''), ar_difficulty = ''hard'',
     ar_recommended = (i = 3), ar_featured = (i = 4), ar_added = int (i mod 4), ar_sourceDate = ''2026-01-0'' @ js_decimal (i mod 7)\<rparr>"

definition sample_explorer :: explorer_page where
  "sample_explorer = \<lparr>pg_rows = map explorer_row [1..<15], pg_labels = \<lparr>l_topics = [(''Runtime'', ''runtime'')], l_tags = [(''GC'', ''gc'')]\<rparr>,
     pg_tag_options = [''gc''], pg_options = (\<lambda>_. []), pg_words = (\<lambda>w. w), pg_collate = compare_text, pg_native = (\<lambda>n. n)\<rparr>"

definition sample_address :: search_params where
  "sample_address = [(''tags'', ''GC,gc''), (''category'', ''Runtime''), (''sort'', ''title-asc''), (''page'', ''2'')]"

lemma sample_compare: "js_comparator UNIV compare_text"
  using comparator_text [of UNIV "\<lambda>x. x"] by simp

lemma sample_distinct: "distinct (map ar_id (pg_rows sample_explorer))"
  by code_simp

theorem explorer_list_correct_witness:
  "mset (filter_articles compare_text (map explorer_row [1..<15]) (parse_filters sample_address (pg_labels sample_explorer)))
     = mset (map explorer_row [1..<15])"
proof -
  have "distinct (map ar_id (map explorer_row [1..<15]))" by code_simp
  moreover have "filter (row_matches (parse_filters sample_address (pg_labels sample_explorer))) (map explorer_row [1..<15])
      = map explorer_row [1..<15]" by code_simp
  ultimately show ?thesis using explorer_list_correct [OF sample_compare] by metis
qed

lemma sample_list:
  "map ar_id (page_slice 2 (filter_articles (pg_collate sample_explorer) (pg_rows sample_explorer)
     (ex_filters (mount_explorer sample_explorer sample_address)))) = [8, 9]"
  "f_page (ex_filters (mount_explorer sample_explorer sample_address)) = 2"
  by code_simp+

theorem explorer_shows_a_page_witness:
  "shown_ids (ex_view (mount_explorer sample_explorer sample_address)) = [8, 9]"
  using explorer_shows_a_page [OF sample_distinct explorer_runs.mounted [of sample_explorer sample_address]] sample_list
  by simp

theorem reload_shows_the_same_witness:
  "shown_ids (ex_view (mount_explorer sample_explorer (query_of (pg_native sample_explorer)
     (ex_filters (mount_explorer sample_explorer sample_address)))))
   = shown_ids (ex_view (mount_explorer sample_explorer sample_address))"
proof -
  have "labels_ok (pg_labels sample_explorer)" by code_simp
  moreover have "f_sort (parse_filters sample_address (pg_labels sample_explorer)) = SortName ''title''" by code_simp
  ultimately have ok: "addressable (pg_labels sample_explorer) (parse_filters sample_address (pg_labels sample_explorer))"
    by (intro parsed_addressable) simp_all
  have "parse_filters sample_address (pg_labels sample_explorer) = ex_filters (mount_explorer sample_explorer sample_address)"
    by code_simp
  then show ?thesis
    using reload_shows_the_same [OF sample_distinct explorer_runs.mounted [of sample_explorer sample_address]] ok by simp
qed

end
