(* ===== verification/Motion.thy ===== *)
theory Motion
  imports JsPrelude
begin

text \<open>
  \<open>apps/web/src/lib/motion.ts\<close>: the scope that owns the animations of a region, and the entrance of
  the home page, which uses one. An animation is a job with the inline style it started from; what the
  animation library writes in between is a step of the environment (\<open>Frame\<close>). The key frames, times
  and easings only go to that library and are left out. The callback of a job is a value \<open>'c\<close>; the
  list \<open>fired\<close> records the callbacks that were called, in order.
\<close>

section \<open>The scope\<close>

type_synonym inline_style = "string \<times> string"

record ('e, 'c) job =
  job_id :: nat
  job_element :: 'e
  job_original :: inline_style
  job_done :: "'c option"

text \<open>\<open>preference\<close> is \<open>None\<close> without \<open>matchMedia\<close>, otherwise whether it matches.\<close>

record ('e, 'c) scope =
  preference :: "bool option"
  jobs :: "('e, 'c) job list"
  styles :: "'e \<Rightarrow> inline_style"
  fired :: "'c list"
  next_job :: nat
  listening :: bool

text \<open>Of the host: which elements can be animated, and for which the library throws.\<close>

record 'e motion_host =
  animates :: "'e \<Rightarrow> bool"
  animation_throws :: "'e \<Rightarrow> bool"

definition create_scope :: "bool option \<Rightarrow> ('e \<Rightarrow> inline_style) \<Rightarrow> ('e, 'c) scope" where
  "create_scope pref sty = \<lparr>preference = pref, jobs = [], styles = sty, fired = [], next_job = 0, listening = True\<rparr>"

definition call_done :: "'c option \<Rightarrow> ('e, 'c) scope \<Rightarrow> ('e, 'c) scope" where
  "call_done c s = s\<lparr>fired := fired s @ (case c of None \<Rightarrow> [] | Some x \<Rightarrow> [x])\<rparr>"

definition settle_job :: "bool \<Rightarrow> nat \<Rightarrow> ('e, 'c) scope \<Rightarrow> ('e, 'c) scope" where
  "settle_job finished i s = (case filter (\<lambda>j. job_id j = i) (jobs s) of
     [] \<Rightarrow> s
   | j # _ \<Rightarrow>
       (let s' = s\<lparr>jobs := filter (\<lambda>j. job_id j \<noteq> i) (jobs s),
                   styles := (styles s)(job_element j := job_original j)\<rparr>
        in if finished then call_done (job_done j) s' else s'))"

definition settle_all :: "bool \<Rightarrow> ('e, 'c) scope \<Rightarrow> ('e, 'c) scope" where
  "settle_all finished s = fold (settle_job finished) (map job_id (jobs s)) s"

definition cancel_jobs :: "('e, 'c) scope \<Rightarrow> ('e, 'c) scope" where
  "cancel_jobs = settle_all False"

definition finish_jobs :: "('e, 'c) scope \<Rightarrow> ('e, 'c) scope" where
  "finish_jobs = settle_all True"

definition play :: "'e motion_host \<Rightarrow> 'e \<Rightarrow> 'c option \<Rightarrow> ('e, 'c) scope \<Rightarrow> ('e, 'c) scope" where
  "play host e c s =
     (if preference s \<noteq> Some False \<or> \<not> animates host e then call_done c s
      else let i = next_job s;
               j = \<lparr>job_id = i, job_element = e, job_original = styles s e, job_done = c\<rparr>;
               s' = s\<lparr>jobs := jobs s @ [j], next_job := i + 1\<rparr>
           in if animation_throws host e then settle_job True i s' else s')"

definition sequence_steps :: "'e motion_host \<Rightarrow> ('e \<times> 'c option) list \<Rightarrow> ('e, 'c) scope \<Rightarrow> ('e, 'c) scope" where
  "sequence_steps host steps s = fold (\<lambda>(e, c). play host e c) steps (cancel_jobs s)"

definition enter :: "'e motion_host \<Rightarrow> 'e list \<Rightarrow> ('e, 'c) scope \<Rightarrow> ('e, 'c) scope" where
  "enter host es s = fold (\<lambda>e. play host e None) es (cancel_jobs s)"

definition exit_element :: "'e motion_host \<Rightarrow> 'e \<Rightarrow> 'c \<Rightarrow> ('e, 'c) scope \<Rightarrow> ('e, 'c) scope" where
  "exit_element host e c s = play host e (Some c) (cancel_jobs s)"

definition dispose_scope :: "('e, 'c) scope \<Rightarrow> ('e, 'c) scope" where
  "dispose_scope s = (finish_jobs s)\<lparr>listening := False\<rparr>"

text \<open>\<open>changed\<close> and \<open>pagehide\<close> are listened to until the scope is disposed of.\<close>

definition preference_changed :: "bool \<Rightarrow> ('e, 'c) scope \<Rightarrow> ('e, 'c) scope" where
  "preference_changed b s = (case preference s of None \<Rightarrow> s
     | Some _ \<Rightarrow> let s' = s\<lparr>preference := Some b\<rparr> in if listening s \<and> b then finish_jobs s' else s')"

definition page_hidden :: "('e, 'c) scope \<Rightarrow> ('e, 'c) scope" where
  "page_hidden s = (if listening s then finish_jobs s else s)"

text \<open>What the animation library writes while it animates an element.\<close>

definition write_frame :: "'e \<Rightarrow> inline_style \<Rightarrow> ('e, 'c) scope \<Rightarrow> ('e, 'c) scope" where
  "write_frame e sty s = (if e \<in> job_element ` set (jobs s) then s\<lparr>styles := (styles s)(e := sty)\<rparr> else s)"

datatype ('e, 'c) motion_event =
    Sequence "('e \<times> 'c option) list"
  | Enter "'e list"
  | Exit 'e 'c
  | CancelMotion
  | FinishMotion
  | DisposeMotion
  | PreferenceChanged bool
  | PageHidden
  | AnimationDone nat
  | Frame 'e inline_style

definition motion_step :: "'e motion_host \<Rightarrow> ('e, 'c) motion_event \<Rightarrow> ('e, 'c) scope \<Rightarrow> ('e, 'c) scope" where
  "motion_step host ev s = (case ev of
     Sequence steps \<Rightarrow> sequence_steps host steps s
   | Enter es \<Rightarrow> enter host es s
   | Exit e c \<Rightarrow> exit_element host e c s
   | CancelMotion \<Rightarrow> cancel_jobs s
   | FinishMotion \<Rightarrow> finish_jobs s
   | DisposeMotion \<Rightarrow> dispose_scope s
   | PreferenceChanged b \<Rightarrow> preference_changed b s
   | PageHidden \<Rightarrow> page_hidden s
   | AnimationDone i \<Rightarrow> settle_job True i s
   | Frame e sty \<Rightarrow> write_frame e sty s)"

text \<open>No element is animated twice at once, and a scope that was disposed of is not used again.\<close>

definition event_allowed :: "('e, 'c) motion_event \<Rightarrow> ('e, 'c) scope \<Rightarrow> bool" where
  "event_allowed ev s = (case ev of
     Sequence steps \<Rightarrow> distinct (map fst steps) \<and> listening s
   | Enter es \<Rightarrow> distinct es \<and> listening s
   | Exit _ _ \<Rightarrow> listening s
   | _ \<Rightarrow> True)"

inductive motion_runs :: "'e motion_host \<Rightarrow> bool option \<Rightarrow> ('e \<Rightarrow> inline_style) \<Rightarrow> ('e, 'c) scope \<Rightarrow> bool"
  for host pref sty where
  created: "motion_runs host pref sty (create_scope pref sty)"
| moved: "motion_runs host pref sty s \<Longrightarrow> event_allowed ev s \<Longrightarrow> motion_runs host pref sty (motion_step host ev s)"

section \<open>Everything goes back to rest\<close>

text \<open>The elements outside the jobs are at rest, and a job knows the rest of its element.\<close>

definition scope_ok :: "('e \<Rightarrow> inline_style) \<Rightarrow> ('e, 'c) scope \<Rightarrow> bool" where
  "scope_ok sty s \<longleftrightarrow>
     (\<forall>e. e \<notin> job_element ` set (jobs s) \<longrightarrow> styles s e = sty e)
     \<and> (\<forall>j \<in> set (jobs s). job_original j = sty (job_element j) \<and> job_id j < next_job s)
     \<and> distinct (map job_element (jobs s)) \<and> distinct (map job_id (jobs s))"

definition calm :: "('e, 'c) scope \<Rightarrow> bool" where
  "calm s \<longleftrightarrow> preference s \<noteq> Some False \<longrightarrow> jobs s = []"

lemma filter_id:
  "distinct (map job_id js) \<Longrightarrow> j \<in> set js \<Longrightarrow> filter (\<lambda>k. job_id k = job_id j) js = [j]"
proof (induction js)
  case (Cons k js)
  have "filter (\<lambda>l. job_id l = job_id k) js = []" using Cons.prems(1) by (auto simp: filter_empty_conv image_iff)
  moreover have "job_id k \<noteq> job_id j" if "j \<in> set js" using that Cons.prems(1) by (auto simp: image_iff)
  ultimately show ?case using Cons by auto
qed simp

lemma settle_job_none: "i \<notin> job_id ` set (jobs s) \<Longrightarrow> settle_job b i s = s"
proof -
  assume "i \<notin> job_id ` set (jobs s)"
  then have "filter (\<lambda>j. job_id j = i) (jobs s) = []" by (auto simp: filter_empty_conv)
  then show ?thesis by (simp add: settle_job_def)
qed

lemma settle_job_one:
  assumes "distinct (map job_id (jobs s))" and "j \<in> set (jobs s)"
  shows "settle_job b (job_id j) s =
    (let s' = s\<lparr>jobs := filter (\<lambda>k. job_id k \<noteq> job_id j) (jobs s),
                styles := (styles s)(job_element j := job_original j)\<rparr>
     in if b then call_done (job_done j) s' else s')"
  by (simp add: settle_job_def filter_id [OF assms])

lemma call_done_fields [simp]:
  "jobs (call_done c s) = jobs s" "styles (call_done c s) = styles s" "preference (call_done c s) = preference s"
  "next_job (call_done c s) = next_job s" "listening (call_done c s) = listening s"
  by (simp_all add: call_done_def)

lemma settle_job_fields [simp]:
  "preference (settle_job b i s) = preference s" "next_job (settle_job b i s) = next_job s"
  "listening (settle_job b i s) = listening s"
  by (auto simp: settle_job_def Let_def split: list.split)

lemma settle_job_keeps:
  assumes ok: "scope_ok sty s"
  shows "scope_ok sty (settle_job b i s)"
proof (cases "i \<in> job_id ` set (jobs s)")
  case True
  then obtain j where j: "j \<in> set (jobs s)" "i = job_id j" by blast
  have same: "k = j" if "k \<in> set (jobs s)" "job_id k = job_id j \<or> job_element k = job_element j" for k
    using ok that j(1) by (auto simp: scope_ok_def distinct_map inj_on_def)
  let ?s = "settle_job b i s"
  have fields: "jobs ?s = filter (\<lambda>k. job_id k \<noteq> job_id j) (jobs s)"
      "styles ?s = (styles s)(job_element j := job_original j)"
    using ok j(1) unfolding j(2) by (simp_all add: settle_job_one scope_ok_def Let_def)
  have "styles ?s e = sty e" if e: "e \<notin> job_element ` set (jobs ?s)" for e
  proof (cases "e = job_element j")
    case True
    then show ?thesis using ok j(1) by (simp add: fields scope_ok_def)
  next
    case False
    then have "e \<notin> job_element ` set (jobs s)" using e same by (auto simp: fields)
    then show ?thesis using ok False by (simp add: fields scope_ok_def)
  qed
  then show ?thesis using ok by (simp add: scope_ok_def fields distinct_map_filter)
qed (simp add: settle_job_none ok)

lemma settled_fired:
  "distinct (map job_id (jobs s)) \<Longrightarrow>
    jobs (settle_all b s) = [] \<and>
    fired (settle_all b s) = fired s @ (if b then List.map_filter job_done (jobs s) else [])"
proof -
  have "\<lbrakk>jobs t = js; distinct (map job_id js)\<rbrakk> \<Longrightarrow>
      jobs (fold (settle_job b) (map job_id js) t) = []
      \<and> fired (fold (settle_job b) (map job_id js) t) = fired t @ (if b then List.map_filter job_done js else [])"
    for js and t :: "('a, 'b) scope"
  proof (induction js arbitrary: t)
    case (Cons j js)
    let ?t = "settle_job b (job_id j) t"
    have "filter (\<lambda>k. job_id k \<noteq> job_id j) js = js"
      using Cons.prems(2) by (auto simp: filter_id_conv image_iff)
    then have t: "jobs ?t = js" and f: "fired ?t = fired t @ (if b then (case job_done j of None \<Rightarrow> [] | Some c \<Rightarrow> [c]) else [])"
      using Cons.prems by (simp_all add: settle_job_one Let_def call_done_def)
    then show ?case using Cons.IH [OF t] Cons.prems(2) by (simp add: List.map_filter_simps split: option.split)
  qed (simp add: List.map_filter_simps)
  then show "distinct (map job_id (jobs s)) \<Longrightarrow> ?thesis" by (simp add: settle_all_def)
qed

lemma settle_all_keeps: "scope_ok sty s \<Longrightarrow> scope_ok sty (settle_all b s)"
  unfolding settle_all_def by (rule fold_invariant_set) (simp_all add: settle_job_keeps)

lemma settle_all_fields [simp]:
  "preference (settle_all b s) = preference s" "next_job (settle_all b s) = next_job s"
  "listening (settle_all b s) = listening s"
proof -
  have "preference (fold (settle_job b) is t) = preference t \<and> next_job (fold (settle_job b) is t) = next_job t
      \<and> listening (fold (settle_job b) is t) = listening t" for "is" and t :: "('a, 'b) scope"
    by (induction "is" arbitrary: t) simp_all
  then show "preference (settle_all b s) = preference s" "next_job (settle_all b s) = next_job s"
      "listening (settle_all b s) = listening s"
    by (simp_all add: settle_all_def)
qed

lemma settle_all_rest:
  assumes "scope_ok sty s"
  shows "jobs (settle_all b s) = []" and "styles (settle_all b s) = sty"
    and "fired (settle_all b s) = fired s @ (if b then List.map_filter job_done (jobs s) else [])"
proof -
  show none: "jobs (settle_all b s) = []"
    and "fired (settle_all b s) = fired s @ (if b then List.map_filter job_done (jobs s) else [])"
    using settled_fired [of s b] assms by (simp_all add: scope_ok_def)
  show "styles (settle_all b s) = sty"
    using settle_all_keeps [OF assms, of b] by (auto simp: scope_ok_def none)
qed

lemma enter_sequence: "enter host es s = sequence_steps host (map (\<lambda>e. (e, None)) es) s"
  by (simp add: enter_def sequence_steps_def fold_map comp_def)

lemma exit_sequence: "exit_element host e c s = sequence_steps host [(e, Some c)] s"
  by (simp add: exit_element_def sequence_steps_def)

lemma settle_elements: "job_element ` set (jobs (settle_job b i s)) \<subseteq> job_element ` set (jobs s)"
  by (auto simp: settle_job_def Let_def split: list.split)

lemma play_fields [simp]:
  "preference (play host e c s) = preference s" "listening (play host e c s) = listening s"
  by (simp_all add: play_def Let_def)

lemma play_calm: "preference s \<noteq> Some False \<Longrightarrow> jobs (play host e c s) = jobs s"
  by (simp add: play_def)

lemma play_keeps:
  assumes ok: "scope_ok sty s" and new: "e \<notin> job_element ` set (jobs s)"
  shows "scope_ok sty (play host e c s)"
    and "job_element ` set (jobs (play host e c s)) \<subseteq> insert e (job_element ` set (jobs s))"
proof -
  let ?j = "\<lparr>job_id = next_job s, job_element = e, job_original = styles s e, job_done = c\<rparr>"
  let ?s = "s\<lparr>jobs := jobs s @ [?j], next_job := next_job s + 1\<rparr>"
  have "styles s e = sty e" using ok new by (simp add: scope_ok_def)
  then have added: "scope_ok sty ?s" using ok new by (auto simp: scope_ok_def less_Suc_eq)
  have same: "scope_ok sty (call_done c s)" using ok by (simp add: scope_ok_def)
  show "scope_ok sty (play host e c s)"
    using added same settle_job_keeps [OF added] by (simp add: play_def Let_def)
  show "job_element ` set (jobs (play host e c s)) \<subseteq> insert e (job_element ` set (jobs s))"
    using settle_elements [of True "next_job s" ?s] by (auto simp: play_def Let_def)
qed

lemma plays_keep:
  "scope_ok sty s \<Longrightarrow> distinct (map fst steps) \<Longrightarrow> fst ` set steps \<inter> job_element ` set (jobs s) = {} \<Longrightarrow>
    scope_ok sty (fold (\<lambda>(e, c). play host e c) steps s)"
proof (induction steps arbitrary: s)
  case (Cons st steps)
  obtain e c where st: "st = (e, c)" by (cases st)
  have "e \<notin> job_element ` set (jobs s)" using Cons.prems(3) st by auto
  note one = play_keeps [OF Cons.prems(1) this, of host c]
  have "fst ` set steps \<inter> job_element ` set (jobs (play host e c s)) = {}"
  proof -
    have "e \<notin> fst ` set steps" "fst ` set steps \<inter> job_element ` set (jobs s) = {}"
      using Cons.prems(2,3) st by auto
    then show ?thesis using one(2) by blast
  qed
  then show ?case using Cons.IH [OF one(1)] Cons.prems(2) st by simp
qed simp

lemma plays_fields:
  "preference (fold (\<lambda>(e, c). play host e c) steps s) = preference s
    \<and> listening (fold (\<lambda>(e, c). play host e c) steps s) = listening s
    \<and> (preference s \<noteq> Some False \<longrightarrow> jobs (fold (\<lambda>(e, c). play host e c) steps s) = jobs s)"
proof (induction steps arbitrary: s)
  case (Cons st steps)
  show ?case using Cons.IH [of "play host (fst st) (snd st) s"] by (simp add: play_calm case_prod_beta)
qed simp

lemma sequence_keeps:
  assumes "scope_ok sty s" and "distinct (map fst steps)"
  shows "scope_ok sty (sequence_steps host steps s)"
    and "preference (sequence_steps host steps s) = preference s"
    and "listening (sequence_steps host steps s) = listening s"
    and "preference s \<noteq> Some False \<Longrightarrow> jobs (sequence_steps host steps s) = []"
  using plays_fields [of host steps "cancel_jobs s"] plays_keep [of sty "cancel_jobs s" steps host]
    settle_all_keeps [OF assms(1), of False] settle_all_rest(1) [OF assms(1), of False] assms(2)
  by (simp_all add: sequence_steps_def cancel_jobs_def)

lemma finish_keeps:
  assumes "scope_ok sty s"
  shows "scope_ok sty (finish_jobs s)" "jobs (finish_jobs s) = []" "preference (finish_jobs s) = preference s"
    "listening (finish_jobs s) = listening s"
  using settle_all_keeps [OF assms] settle_all_rest(1) [OF assms] by (simp_all add: finish_jobs_def)

lemma cancel_keeps:
  assumes "scope_ok sty s"
  shows "scope_ok sty (cancel_jobs s)" "jobs (cancel_jobs s) = []" "preference (cancel_jobs s) = preference s"
    "listening (cancel_jobs s) = listening s"
  using settle_all_keeps [OF assms] settle_all_rest(1) [OF assms] by (simp_all add: cancel_jobs_def)

definition motion_ok :: "('e \<Rightarrow> inline_style) \<Rightarrow> ('e, 'c) scope \<Rightarrow> bool" where
  "motion_ok sty s \<longleftrightarrow> scope_ok sty s \<and> calm s \<and> (\<not> listening s \<longrightarrow> jobs s = [])"

lemma settle_calm: "jobs s = [] \<Longrightarrow> jobs (settle_job b i s) = []"
  by (simp add: settle_job_def)

lemma scope_ok_update [simp]:
  "scope_ok sty (s\<lparr>preference := p\<rparr>) = scope_ok sty s" "scope_ok sty (s\<lparr>listening := b\<rparr>) = scope_ok sty s"
  by (simp_all add: scope_ok_def)

lemma motion_step_ok:
  assumes "motion_ok sty s" and "event_allowed ev s"
  shows "motion_ok sty (motion_step host ev s)"
proof -
  have ok: "scope_ok sty s" and calm: "preference s \<noteq> Some False \<Longrightarrow> jobs s = []" and off: "\<not> listening s \<Longrightarrow> jobs s = []"
    using assms(1) by (auto simp: motion_ok_def calm_def)
  show ?thesis
  proof (cases ev)
    case (Sequence steps)
    then show ?thesis using assms(2) sequence_keeps [OF ok, of steps host]
      by (simp add: motion_ok_def calm_def motion_step_def event_allowed_def)
  next
    case (Enter es)
    have "distinct (map fst (map (\<lambda>e. (e, None)) es))" using assms(2) Enter by (simp add: event_allowed_def comp_def)
    from sequence_keeps [OF ok this, of host] show ?thesis using assms(2) Enter
      by (simp add: motion_ok_def calm_def motion_step_def event_allowed_def enter_sequence)
  next
    case (Exit e c)
    have "distinct (map fst [(e, Some c)])" by simp
    from sequence_keeps [OF ok this, of host] show ?thesis using assms(2) Exit
      by (simp add: motion_ok_def calm_def motion_step_def event_allowed_def exit_sequence)
  next
    case (PreferenceChanged b)
    have "scope_ok sty (s\<lparr>preference := Some b\<rparr>)" using ok by simp
    from finish_keeps [OF this] show ?thesis using ok calm off PreferenceChanged
      by (auto simp: motion_ok_def calm_def motion_step_def preference_changed_def Let_def split: option.split)
  next
    case (Frame e st)
    then show ?thesis using ok calm off
      by (auto simp: motion_ok_def calm_def motion_step_def write_frame_def scope_ok_def)
  qed (use ok calm off finish_keeps [OF ok] cancel_keeps [OF ok] settle_job_keeps [OF ok] in
      \<open>auto simp: motion_ok_def calm_def motion_step_def page_hidden_def dispose_scope_def settle_calm\<close>)
qed

lemma runs_motion_ok: "motion_runs host pref sty s \<Longrightarrow> motion_ok sty s"
proof (induction rule: motion_runs.induct)
  case created
  show ?case by (simp add: motion_ok_def calm_def scope_ok_def create_scope_def)
qed (rule motion_step_ok)

text \<open>
  C37. An animation never outlives its job: in every state a scope can reach, every element that is not
  being animated has the inline style it had at the start; cancelling or finishing puts all of them
  back at once, and leaves no job; cancelled jobs call nothing, finished ones call what they were
  given, each once and in order, and an animation that ends later is ignored. For a visitor who asks
  for less motion, and after the scope was disposed of, nothing is animated.
\<close>

theorem motion_scope_rests:
  assumes "motion_runs host pref sty s"
  shows "(\<forall>e. e \<notin> job_element ` set (jobs s) \<longrightarrow> styles s e = sty e)
    \<and> jobs (cancel_jobs s) = [] \<and> styles (cancel_jobs s) = sty \<and> fired (cancel_jobs s) = fired s
    \<and> jobs (finish_jobs s) = [] \<and> styles (finish_jobs s) = sty
    \<and> fired (finish_jobs s) = fired s @ List.map_filter job_done (jobs s)
    \<and> (\<forall>i. i \<notin> job_id ` set (jobs s) \<longrightarrow> motion_step host (AnimationDone i) s = s)
    \<and> (preference s \<noteq> Some False \<or> \<not> listening s \<longrightarrow> jobs s = [])"
proof -
  have ok: "motion_ok sty s" by (rule runs_motion_ok [OF assms])
  then have sc: "scope_ok sty s" by (simp add: motion_ok_def)
  have "\<forall>e. e \<notin> job_element ` set (jobs s) \<longrightarrow> styles s e = sty e" using sc by (simp add: scope_ok_def)
  moreover have "preference s \<noteq> Some False \<or> \<not> listening s \<longrightarrow> jobs s = []"
    using ok by (auto simp: motion_ok_def calm_def)
  ultimately show ?thesis
    using settle_all_rest [OF sc, of False] settle_all_rest [OF sc, of True]
    by (simp add: cancel_jobs_def finish_jobs_def motion_step_def settle_job_none)
qed

definition plain_host :: "'e motion_host" where
  "plain_host = \<lparr>animates = (\<lambda>_. True), animation_throws = (\<lambda>_. False)\<rparr>"

definition leaving_scope :: "(nat, string) scope" where
  "leaving_scope = motion_step plain_host (Exit 7 ''gone'') (create_scope (Some False) (\<lambda>_. (''1'', ''none'')))"

theorem motion_scope_rests_witness:
  "fired (cancel_jobs leaving_scope) = [] \<and> fired (finish_jobs leaving_scope) = [''gone'']
    \<and> styles (finish_jobs leaving_scope) 7 = (''1'', ''none'')"
proof -
  have run: "motion_runs plain_host (Some False) (\<lambda>_. (''1'', ''none'')) leaving_scope"
    unfolding leaving_scope_def by (intro motion_runs.moved motion_runs.created) (simp add: event_allowed_def create_scope_def)
  have "fired leaving_scope = []" "List.map_filter job_done (jobs leaving_scope) = [''gone'']"
    by (simp_all add: leaving_scope_def motion_step_def exit_element_def play_def cancel_jobs_def settle_all_def
        create_scope_def plain_host_def List.map_filter_simps Let_def)
  then show ?thesis using motion_scope_rests [OF run] by simp
qed

end
