(* ===== verification/SelectBox.thy ===== *)
theory SelectBox
  imports Motion
begin

text \<open>
  \<open>mountSelect\<close> of \<open>apps/web/src/lib/explorer.ts\<close>: the select box of the filters, over a hidden input, a
  trigger and a list of options, with the exit of its list in a motion scope. \<open>aria-hidden\<close> follows
  \<open>inert\<close> and \<open>aria-expanded\<close> follows \<open>data-open\<close>. A browser takes the focus out of a list that becomes
  inert.
\<close>

section \<open>The box\<close>

datatype focus = OnTrigger | OnOption nat | Elsewhere

record select_option =
  so_value :: "string option"
  so_label :: string

record select_box =
  sb_value :: string
  sb_open :: bool
  sb_inert :: bool
  sb_leaving :: bool
  sb_focus :: focus
  sb_chosen :: nat
  sb_text :: string
  sb_changes :: "string list"
  sb_motion :: "(unit, unit) scope"

text \<open>\<open>options.find((o) => o.dataset.value === input.value) ?? options[0]\<close>, as a position\<close>

fun first_option :: "select_option list \<Rightarrow> string \<Rightarrow> nat option" where
  "first_option [] v = None"
| "first_option (opt # opts) v = (if so_value opt = Some v then Some 0 else map_option Suc (first_option opts v))"

definition chosen_option :: "select_option list \<Rightarrow> string \<Rightarrow> nat" where
  "chosen_option opts v = (case first_option opts v of None \<Rightarrow> 0 | Some i \<Rightarrow> i)"

definition option_value :: "select_option \<Rightarrow> string" where
  "option_value opt = (case so_value opt of None \<Rightarrow> [] | Some v \<Rightarrow> v)"

definition sync_select :: "select_option list \<Rightarrow> select_box \<Rightarrow> select_box" where
  "sync_select opts b = (let i = chosen_option opts (sb_value b)
     in b\<lparr>sb_chosen := i, sb_text := so_label (opts ! i)\<rparr>)"

text \<open>The callback of the exit ends the leaving of the list.\<close>

definition select_motion :: "((unit, unit) scope \<Rightarrow> (unit, unit) scope) \<Rightarrow> select_box \<Rightarrow> select_box" where
  "select_motion f b = (let m = f (sb_motion b)
     in b\<lparr>sb_motion := m, sb_leaving := (sb_leaving b \<and> fired m = fired (sb_motion b))\<rparr>)"

definition close_select :: "unit motion_host \<Rightarrow> select_box \<Rightarrow> select_box" where
  "close_select host b =
     (let b' = b\<lparr>sb_open := False, sb_inert := True,
                 sb_focus := (case sb_focus b of OnOption _ \<Rightarrow> Elsewhere | f \<Rightarrow> f)\<rparr>
      in if sb_open b then select_motion (exit_element host () ()) (b'\<lparr>sb_leaving := True\<rparr>) else b')"

definition open_select :: "unit motion_host \<Rightarrow> select_option list \<Rightarrow> select_box \<Rightarrow> select_box" where
  "open_select host opts b =
     (select_motion (enter host [()]) (b\<lparr>sb_leaving := False, sb_open := True, sb_inert := False\<rparr>))
     \<lparr>sb_focus := OnOption (chosen_option opts (sb_value b))\<rparr>"

definition key_option :: "string \<Rightarrow> nat \<Rightarrow> focus \<Rightarrow> nat" where
  "key_option k n f =
     (let i = (case f of OnOption j \<Rightarrow> int j | _ \<Rightarrow> -1)
      in if k = ''Home'' then 0 else if k = ''End'' then n - 1
         else nat ((i + (if k = ''ArrowDown'' then 1 else -1) + int n) mod int n))"

definition select_keys :: "string list" where
  "select_keys = [''ArrowDown'', ''ArrowUp'', ''Home'', ''End'']"

definition press_key :: "unit motion_host \<Rightarrow> select_option list \<Rightarrow> string \<Rightarrow> select_box \<Rightarrow> select_box" where
  "press_key host opts k b =
     (let b = (if k = ''Escape'' then (close_select host b)\<lparr>sb_focus := OnTrigger\<rparr> else b)
      in if k \<notin> set select_keys then b
         else if \<not> sb_open b then open_select host opts b
         else b\<lparr>sb_focus := OnOption (key_option k (length opts) (sb_focus b))\<rparr>)"

definition choose_option :: "unit motion_host \<Rightarrow> select_option list \<Rightarrow> nat \<Rightarrow> select_box \<Rightarrow> select_box" where
  "choose_option host opts i b =
     (let v = option_value (opts ! i); b = close_select host (sync_select opts (b\<lparr>sb_value := v\<rparr>))
      in b\<lparr>sb_focus := OnTrigger, sb_changes := sb_changes b @ [v]\<rparr>)"

text \<open>
  The events: clicks, keys, the focus moving inside the box or out of it, the form setting the value and
  calling the function that \<open>mountSelect\<close> returns, and what happens to the animation.
\<close>

datatype select_event =
    ClickTrigger
  | ClickOption nat
  | PressKey string
  | ClickElsewhere
  | FocusLeaves
  | FocusTrigger
  | FocusOption nat
  | SetValue string
  | SelectMotion "(unit, unit) motion_event"

definition select_step :: "unit motion_host \<Rightarrow> select_option list \<Rightarrow> select_event \<Rightarrow> select_box \<Rightarrow> select_box" where
  "select_step host opts ev b = (case ev of
     ClickTrigger \<Rightarrow> if \<not> sb_open b then open_select host opts b else close_select host b
   | ClickOption i \<Rightarrow> choose_option host opts i b
   | PressKey k \<Rightarrow> press_key host opts k b
   | ClickElsewhere \<Rightarrow> close_select host b
   | FocusLeaves \<Rightarrow> close_select host (b\<lparr>sb_focus := Elsewhere\<rparr>)
   | FocusTrigger \<Rightarrow> b\<lparr>sb_focus := OnTrigger\<rparr>
   | FocusOption i \<Rightarrow> b\<lparr>sb_focus := OnOption i\<rparr>
   | SetValue v \<Rightarrow> sync_select opts (b\<lparr>sb_value := v\<rparr>)
   | SelectMotion m \<Rightarrow> select_motion (motion_step host m) b)"

text \<open>An inert list takes neither clicks nor the focus; keys arrive while the focus is in the box.\<close>

definition select_allowed :: "select_option list \<Rightarrow> select_event \<Rightarrow> select_box \<Rightarrow> bool" where
  "select_allowed opts ev b = (case ev of
     ClickOption i \<Rightarrow> i < length opts \<and> \<not> sb_inert b
   | FocusOption i \<Rightarrow> i < length opts \<and> \<not> sb_inert b
   | PressKey _ \<Rightarrow> sb_focus b \<noteq> Elsewhere
   | SelectMotion m \<Rightarrow> (case m of PreferenceChanged _ \<Rightarrow> True | PageHidden \<Rightarrow> True | AnimationDone _ \<Rightarrow> True
        | Frame _ _ \<Rightarrow> True | _ \<Rightarrow> False)
   | _ \<Rightarrow> True)"

text \<open>The box as the page was rendered, closed, and brought in line with its value by the form.\<close>

definition mount_select :: "unit motion_host \<Rightarrow> select_option list \<Rightarrow> bool option \<Rightarrow> inline_style \<Rightarrow> string \<Rightarrow> select_box" where
  "mount_select host opts pref sty v = sync_select opts (close_select host
     \<lparr>sb_value = v, sb_open = False, sb_inert = False, sb_leaving = False, sb_focus = Elsewhere, sb_chosen = 0,
      sb_text = [], sb_changes = [], sb_motion = create_scope pref (\<lambda>_. sty)\<rparr>)"

inductive select_runs for host opts pref sty where
  mounted: "select_runs host opts pref sty (mount_select host opts pref sty v)"
| used: "select_runs host opts pref sty b \<Longrightarrow> select_allowed opts ev b \<Longrightarrow>
    select_runs host opts pref sty (select_step host opts ev b)"

section \<open>Open or closed\<close>

lemma first_option_less: "first_option opts v = Some i \<Longrightarrow> i < length opts \<and> so_value (opts ! i) = Some v"
  by (induction opts arbitrary: i) (auto split: if_splits)

lemma chosen_option_less: "opts \<noteq> [] \<Longrightarrow> chosen_option opts v < length opts"
  by (auto simp: chosen_option_def dest: first_option_less split: option.split)

lemma chosen_option_value:
  "so_value opt = Some v \<Longrightarrow> opt \<in> set opts \<Longrightarrow> so_value (opts ! chosen_option opts v) = Some v"
proof -
  assume "so_value opt = Some v" "opt \<in> set opts"
  then have "first_option opts v \<noteq> None" by (induction opts) auto
  then show ?thesis by (auto simp: chosen_option_def dest: first_option_less)
qed

text \<open>While the list leaves, its exit is the one job of the scope.\<close>

definition leaving_ok :: "select_box \<Rightarrow> bool" where
  "leaving_ok b \<longleftrightarrow> (sb_leaving b \<longleftrightarrow> (\<exists>j \<in> set (jobs (sb_motion b)). job_done j \<noteq> None))"

definition select_ok :: "inline_style \<Rightarrow> select_option list \<Rightarrow> select_box \<Rightarrow> bool" where
  "select_ok sty opts b \<longleftrightarrow>
     motion_ok (\<lambda>_. sty) (sb_motion b) \<and> listening (sb_motion b) \<and> leaving_ok b
     \<and> sb_inert b = (\<not> sb_open b) \<and> \<not> (sb_open b \<and> sb_leaving b)
     \<and> (\<forall>i. sb_focus b = OnOption i \<longrightarrow> sb_open b \<and> i < length opts)
     \<and> sb_chosen b = chosen_option opts (sb_value b) \<and> sb_text b = so_label (opts ! sb_chosen b)
     \<and> set (sb_changes b) \<subseteq> option_value ` set opts"

lemma one_job:
  assumes "scope_ok sty (s :: (unit, 'c) scope)"
  obtains "jobs s = []" | j where "jobs s = [j]"
proof (cases "jobs s")
  case (Cons j js)
  moreover have "js = []" using assms Cons by (cases js) (auto simp: scope_ok_def)
  ultimately show ?thesis using that by simp
qed (use that in simp)

lemma settle_leaving:
  assumes "motion_ok sty (sb_motion b)" and "leaving_ok b"
  shows "leaving_ok (select_motion (settle_job True i) b)"
proof -
  have "scope_ok sty (sb_motion b)" using assms(1) by (simp add: motion_ok_def)
  then show ?thesis
    by (cases rule: one_job)
      (use assms(2) in \<open>auto simp: leaving_ok_def select_motion_def settle_job_def call_done_def Let_def split: option.split\<close>)
qed

lemma finish_leaving:
  assumes "motion_ok sty (sb_motion b)" and "leaving_ok b"
  shows "leaving_ok (select_motion finish_jobs b)"
proof -
  have ok: "scope_ok sty (sb_motion b)" using assms(1) by (simp add: motion_ok_def)
  from ok show ?thesis
    by (cases rule: one_job)
      (use settle_all_rest [OF ok, of True] assms(2) in
       \<open>auto simp: leaving_ok_def select_motion_def finish_jobs_def List.map_filter_simps Let_def split: option.splits\<close>)
qed

lemma environment_leaving:
  assumes ok: "motion_ok sty (sb_motion b)" "leaving_ok b" and "select_allowed opts (SelectMotion m) b"
  shows "leaving_ok (select_motion (motion_step host m) b)"
proof -
  have same: "leaving_ok (select_motion f b)"
    if "jobs (f (sb_motion b)) = jobs (sb_motion b)" "fired (f (sb_motion b)) = fired (sb_motion b)" for f
    using ok(2) that by (simp add: leaving_ok_def select_motion_def)
  show ?thesis
  proof (cases m)
    case (AnimationDone i)
    then show ?thesis using settle_leaving [OF ok] by (simp add: motion_step_def [abs_def])
  next
    case PageHidden
    have "select_motion (motion_step host m) b =
        select_motion (if listening (sb_motion b) then finish_jobs else (\<lambda>s. s)) b"
      by (simp add: PageHidden select_motion_def motion_step_def page_hidden_def Let_def)
    then show ?thesis using finish_leaving [OF ok] same [of "\<lambda>s. s"] by simp
  next
    case (PreferenceChanged p)
    let ?b = "b\<lparr>sb_motion := (sb_motion b)\<lparr>preference := Some p\<rparr>\<rparr>"
    show ?thesis
    proof (cases "preference (sb_motion b) \<noteq> None \<and> listening (sb_motion b) \<and> p")
      case True
      have "jobs (sb_motion b) = [] \<Longrightarrow> jobs (finish_jobs ((sb_motion b)\<lparr>preference := Some p\<rparr>)) = []"
        by (simp add: finish_jobs_def settle_all_def)
      have sc: "scope_ok sty ((sb_motion b)\<lparr>preference := Some p\<rparr>)" using ok(1) by (simp add: motion_ok_def)
      have "select_motion (motion_step host m) b = select_motion (\<lambda>s. finish_jobs (s\<lparr>preference := Some p\<rparr>)) b"
        using True by (auto simp: PreferenceChanged select_motion_def motion_step_def preference_changed_def Let_def)
      moreover have "leaving_ok (select_motion (\<lambda>s. finish_jobs (s\<lparr>preference := Some p\<rparr>)) b)"
        using settle_all_rest [OF sc, of True] ok(2) sc
        by (cases rule: one_job [OF sc])
          (auto simp: leaving_ok_def select_motion_def finish_jobs_def List.map_filter_simps Let_def split: option.splits)
      ultimately show ?thesis by simp
    next
      case False
      then show ?thesis
        by (auto intro!: same simp: PreferenceChanged motion_step_def preference_changed_def Let_def split: option.split)
    qed
  next
    case (Frame e st)
    then show ?thesis by (auto intro!: same simp: motion_step_def write_frame_def)
  qed (use assms(3) in \<open>simp_all add: select_allowed_def\<close>)
qed

lemma exit_leaving:
  assumes "motion_ok sty (sb_motion b)"
  shows "leaving_ok (select_motion (exit_element host () ()) (b\<lparr>sb_leaving := True\<rparr>))"
proof -
  have "scope_ok sty (sb_motion b)" using assms by (simp add: motion_ok_def)
  from settle_all_rest [OF this, of False] show ?thesis
    by (simp add: leaving_ok_def select_motion_def exit_element_def cancel_jobs_def play_def settle_job_def call_done_def Let_def)
qed

lemma enter_leaving:
  assumes "motion_ok sty (sb_motion b)" and "\<not> sb_leaving b"
  shows "leaving_ok (select_motion (enter host [()]) b)"
proof -
  have "scope_ok sty (sb_motion b)" using assms(1) by (simp add: motion_ok_def)
  from settle_all_rest [OF this, of False] assms(2) show ?thesis
    by (simp add: leaving_ok_def select_motion_def enter_def cancel_jobs_def play_def settle_job_def call_done_def Let_def)
qed

lemma motion_listening:
  assumes "motion_ok sty s" and "case ev of DisposeMotion \<Rightarrow> False | _ \<Rightarrow> True"
  shows "listening (motion_step host ev s) = listening s"
proof -
  have ok: "scope_ok sty s" using assms(1) by (simp add: motion_ok_def)
  show ?thesis
    using assms(2) by (cases ev)
      (auto simp: motion_step_def sequence_steps_def enter_sequence exit_sequence plays_fields cancel_jobs_def
        finish_jobs_def preference_changed_def page_hidden_def write_frame_def Let_def split: option.split)
qed

text \<open>A step of the scope that keeps the scope well keeps the box well.\<close>

lemma select_motion_ok:
  assumes ok: "motion_ok (\<lambda>_. sty) (sb_motion b)" "listening (sb_motion b)"
    and ev: "event_allowed m (sb_motion b)" "case m of DisposeMotion \<Rightarrow> False | _ \<Rightarrow> True"
    and leaving: "leaving_ok (select_motion (motion_step host m) b)"
    and rest: "sb_inert b = (\<not> sb_open b)" "\<not> (sb_open b \<and> sb_leaving b)"
      "\<forall>i. sb_focus b = OnOption i \<longrightarrow> sb_open b \<and> i < length opts"
      "sb_chosen b = chosen_option opts (sb_value b)" "sb_text b = so_label (opts ! sb_chosen b)"
      "set (sb_changes b) \<subseteq> option_value ` set opts"
  shows "select_ok sty opts (select_motion (motion_step host m) b)"
  using motion_step_ok [OF ok(1) ev(1), of host] motion_listening [OF ok(1) ev(2), of host] leaving ok(2) rest
  by (auto simp: select_ok_def select_motion_def Let_def)

lemma close_select_ok:
  assumes "motion_ok (\<lambda>_. sty) (sb_motion b)" "listening (sb_motion b)" "leaving_ok b"
    and "sb_chosen b = chosen_option opts (sb_value b)" "sb_text b = so_label (opts ! sb_chosen b)"
    and "set (sb_changes b) \<subseteq> option_value ` set opts"
  shows "select_ok sty opts (close_select host b)"
proof -
  let ?b = "b\<lparr>sb_open := False, sb_inert := True, sb_focus := (case sb_focus b of OnOption _ \<Rightarrow> Elsewhere | f \<Rightarrow> f)\<rparr>"
  have focus: "sb_focus ?b \<noteq> OnOption i" for i by (simp split: focus.split)
  show ?thesis
  proof (cases "sb_open b")
    case True
    have "select_ok sty opts (select_motion (motion_step host (Exit () ())) (?b\<lparr>sb_leaving := True\<rparr>))"
      by (rule select_motion_ok)
        (use assms focus exit_leaving [of "\<lambda>_. sty" ?b host] in \<open>simp_all add: event_allowed_def motion_step_def [abs_def]\<close>)
    then show ?thesis using True by (simp add: close_select_def Let_def motion_step_def [abs_def])
  next
    case False
    then show ?thesis using assms focus by (simp add: close_select_def Let_def select_ok_def leaving_ok_def)
  qed
qed

lemma open_select_ok:
  assumes "select_ok sty opts b" and "opts \<noteq> []"
  shows "select_ok sty opts (open_select host opts b)"
proof -
  let ?b = "b\<lparr>sb_leaving := False, sb_open := True, sb_inert := False, sb_focus := OnOption (chosen_option opts (sb_value b))\<rparr>"
  note b = assms(1) [unfolded select_ok_def]
  have "leaving_ok (select_motion (enter host [()]) ?b)"
    by (rule enter_leaving [of "\<lambda>_. sty"]) (use b in simp_all)
  then have "select_ok sty opts (select_motion (motion_step host (Enter [()])) ?b)"
    by (intro select_motion_ok)
      (use b chosen_option_less [OF assms(2)] in \<open>simp_all add: event_allowed_def motion_step_def [abs_def]\<close>)
  moreover have "open_select host opts b = select_motion (motion_step host (Enter [()])) ?b"
    by (rule select_box.equality) (simp_all add: open_select_def motion_step_def select_motion_def Let_def)
  ultimately show ?thesis by simp
qed

lemma key_option_less: "n > 0 \<Longrightarrow> key_option k n f < n"
  by (auto simp: key_option_def Let_def nat_less_iff)

lemma select_step_ok:
  assumes "select_ok sty opts b" and "select_allowed opts ev b" and "opts \<noteq> []"
  shows "select_ok sty opts (select_step host opts ev b)"
proof -
  note b = assms(1) [unfolded select_ok_def]
  have leaving: "leaving_ok (b\<lparr>sb_focus := f\<rparr>)" "leaving_ok (sync_select opts (b\<lparr>sb_value := v\<rparr>))" for f v
    using b by (simp_all add: leaving_ok_def sync_select_def Let_def)
  have closed: "select_ok sty opts (close_select host (b\<lparr>sb_focus := f\<rparr>))" for f
    by (rule close_select_ok) (use b leaving in simp_all)
  have "b\<lparr>sb_focus := sb_focus b\<rparr> = b" by simp
  then have closed': "select_ok sty opts (close_select host b)" using closed [of "sb_focus b"] by simp
  have trigger: "select_ok sty opts (c\<lparr>sb_focus := OnTrigger\<rparr>)" if "select_ok sty opts c" for c
    using that by (auto simp: select_ok_def leaving_ok_def)
  have focused: "select_ok sty opts (c\<lparr>sb_focus := OnOption i\<rparr>)" if "select_ok sty opts c" "sb_open c" "i < length opts" for c i
    using that by (auto simp: select_ok_def leaving_ok_def)
  show ?thesis
  proof (cases ev)
    case (ClickOption i)
    let ?c = "sync_select opts (b\<lparr>sb_value := option_value (opts ! i)\<rparr>)"
    have "select_ok sty opts (close_select host ?c)"
      by (rule close_select_ok) (use b leaving in \<open>simp_all add: sync_select_def Let_def\<close>)
    moreover have "i < length opts" using assms(2) ClickOption by (simp add: select_allowed_def)
    ultimately show ?thesis
      by (auto simp: ClickOption select_step_def choose_option_def Let_def select_ok_def leaving_ok_def)
  next
    case (PressKey k)
    let ?c = "if k = ''Escape'' then (close_select host b)\<lparr>sb_focus := OnTrigger\<rparr> else b"
    have c: "select_ok sty opts ?c" using trigger [OF closed'] assms(1) by simp
    moreover have "select_ok sty opts (?c\<lparr>sb_focus := OnOption (key_option k (length opts) (sb_focus ?c))\<rparr>)" if "sb_open ?c"
      using focused [OF c that] key_option_less assms(3) by simp
    ultimately show ?thesis
      using open_select_ok [OF c assms(3), of host] by (simp add: PressKey select_step_def press_key_def Let_def)
  next
    case (SetValue v)
    then show ?thesis using b leaving(2) [of v]
      by (simp add: select_step_def select_ok_def) (simp add: sync_select_def Let_def)
  next
    case (SelectMotion m)
    have "leaving_ok (select_motion (motion_step host m) b)"
      using environment_leaving [of "\<lambda>_. sty" b opts m host] b assms(2) SelectMotion by blast
    then show ?thesis using b assms(2) SelectMotion
      by (auto intro!: select_motion_ok simp: select_step_def select_allowed_def event_allowed_def split: motion_event.splits)
  next
    case (FocusOption i)
    then show ?thesis using b assms(2) by (auto simp: select_step_def select_ok_def select_allowed_def leaving_ok_def)
  qed (use closed closed' trigger [OF assms(1)] open_select_ok [OF assms(1,3)] in \<open>simp_all add: select_step_def\<close>)
qed

lemma mount_select_ok: "select_ok sty opts (mount_select host opts pref sty v)"
  by (simp add: mount_select_def close_select_def select_ok_def sync_select_def leaving_ok_def motion_ok_def calm_def
      scope_ok_def create_scope_def Let_def)

lemma select_runs_ok: "select_runs host opts pref sty b \<Longrightarrow> opts \<noteq> [] \<Longrightarrow> select_ok sty opts b"
  by (induction rule: select_runs.induct) (simp_all add: mount_select_ok select_step_ok)

text \<open>
  C38. However a select box is used, it is either open or closed: its list is inert exactly while it is
  closed, it never leaves while it is open, a leaving ends with its animation, and the focus is on an
  option only while the list is open. The option that is marked and named is the one of the value, or
  the first. Choosing an option sets its value, closes the list, returns the focus and reports one
  change of an option's value; the arrow keys go around the options.
\<close>

theorem select_box_correct:
  assumes "select_runs host opts pref sty b" and "opts \<noteq> []"
  shows "sb_inert b = (\<not> sb_open b) \<and> \<not> (sb_open b \<and> sb_leaving b)
    \<and> (\<forall>i. sb_focus b = OnOption i \<longrightarrow> sb_open b \<and> i < length opts)
    \<and> (sb_leaving b \<longrightarrow> (\<exists>i. \<not> sb_leaving (select_step host opts (SelectMotion (AnimationDone i)) b)))
    \<and> sb_chosen b < length opts \<and> sb_text b = so_label (opts ! sb_chosen b)
    \<and> (Some (sb_value b) \<in> so_value ` set opts \<longrightarrow> so_value (opts ! sb_chosen b) = Some (sb_value b))
    \<and> set (sb_changes b) \<subseteq> option_value ` set opts
    \<and> (\<forall>i. select_allowed opts (ClickOption i) b \<longrightarrow>
        (let c = select_step host opts (ClickOption i) b in
         sb_value c = option_value (opts ! i) \<and> \<not> sb_open c \<and> sb_focus c = OnTrigger
         \<and> sb_changes c = sb_changes b @ [option_value (opts ! i)]))
    \<and> (\<forall>i. sb_focus b = OnOption i \<longrightarrow>
        sb_focus (select_step host opts (PressKey ''ArrowDown'') b) = OnOption ((i + 1) mod length opts)
        \<and> sb_focus (select_step host opts (PressKey ''ArrowUp'') b) = OnOption ((i + length opts - 1) mod length opts))"
proof -
  have ok: "select_ok sty opts b" by (rule select_runs_ok [OF assms])
  note b = ok [unfolded select_ok_def]
  have ends: "\<exists>i. \<not> sb_leaving (select_step host opts (SelectMotion (AnimationDone i)) b)" if lv: "sb_leaving b"
  proof -
    have sc: "scope_ok (\<lambda>_. sty) (sb_motion b)" using b by (simp add: motion_ok_def)
    obtain j where j: "j \<in> set (jobs (sb_motion b))" "job_done j \<noteq> None" using b lv by (auto simp: leaving_ok_def)
    have "fired (settle_job True (job_id j) (sb_motion b)) \<noteq> fired (sb_motion b)"
      using settle_job_one [of "sb_motion b" j True] j sc by (auto simp: scope_ok_def Let_def call_done_def)
    then have "\<not> sb_leaving (select_step host opts (SelectMotion (AnimationDone (job_id j))) b)"
      by (simp add: select_step_def select_motion_def motion_step_def Let_def)
    then show ?thesis by blast
  qed
  have named: "so_value (opts ! sb_chosen b) = Some (sb_value b)" if "Some (sb_value b) \<in> so_value ` set opts"
  proof -
    obtain opt where "so_value opt = Some (sb_value b)" "opt \<in> set opts" using \<open>_ \<in> _\<close> by force
    then show ?thesis using b chosen_option_value by simp
  qed
  have click: "let c = select_step host opts (ClickOption i) b in
      sb_value c = option_value (opts ! i) \<and> \<not> sb_open c \<and> sb_focus c = OnTrigger
      \<and> sb_changes c = sb_changes b @ [option_value (opts ! i)]" for i
    by (simp add: select_step_def choose_option_def close_select_def sync_select_def select_motion_def Let_def)
  have keys: "sb_focus (select_step host opts (PressKey ''ArrowDown'') b) = OnOption ((i + 1) mod length opts)
      \<and> sb_focus (select_step host opts (PressKey ''ArrowUp'') b) = OnOption ((i + length opts - 1) mod length opts)"
    if f: "sb_focus b = OnOption i" for i
  proof -
    have "sb_open b" using b f by blast
    moreover have "nat ((int i + 1 + int (length opts)) mod int (length opts)) = (i + 1) mod length opts"
      by (simp add: nat_mod_distrib nat_add_distrib)
    moreover have "nat ((int i - 1 + int (length opts)) mod int (length opts)) = (i + length opts - 1) mod length opts"
    proof -
      have "int i - 1 + int (length opts) = int (i + length opts - 1)" using assms(2) by (cases opts) simp_all
      then show ?thesis by (simp only: nat_mod_distrib of_nat_0_le_iff nat_int)
    qed
    ultimately show ?thesis
      by (simp add: select_step_def press_key_def select_keys_def key_option_def f Let_def)
  qed
  show ?thesis using b ends named click keys chosen_option_less [OF assms(2)] by simp
qed

section \<open>A box\<close>

definition sample_options :: "select_option list" where
  "sample_options = [\<lparr>so_value = Some [], so_label = ''All''\<rparr>, \<lparr>so_value = Some ''en'', so_label = ''English''\<rparr>]"

definition opened_box :: select_box where
  "opened_box = select_step plain_host sample_options ClickTrigger
     (mount_select plain_host sample_options (Some False) ([], []) ''en'')"

theorem select_box_correct_witness:
  "sb_text opened_box = ''English'' \<and> sb_focus (select_step plain_host sample_options (PressKey ''ArrowDown'') opened_box) = OnOption 0"
proof -
  have run: "select_runs plain_host sample_options (Some False) ([], []) opened_box"
    unfolding opened_box_def by (intro select_runs.used select_runs.mounted) (simp add: select_allowed_def)
  have opts: "sample_options \<noteq> []" "length sample_options = 2" by (simp_all add: sample_options_def)
  have "sb_focus opened_box = OnOption 1" "sb_chosen opened_box = 1"
    by (simp_all add: opened_box_def select_step_def mount_select_def close_select_def open_select_def sync_select_def
        select_motion_def chosen_option_def sample_options_def Let_def)
  then show ?thesis
    using select_box_correct [OF run opts(1)] opts(2) by (simp add: sample_options_def)
qed

end
