(* ===== verification/HomeEntrance.thy ===== *)
theory HomeEntrance
  imports Motion
begin

text \<open>
  \<open>mountMotion\<close> of \<open>apps/web/src/lib/motion.ts\<close>: the staged entrance of the home page and the hint
  to scroll, which may move only once the entrance is over, while the hero is in view, the page is
  visible and the visitor does not ask for less motion.
\<close>

section \<open>The hero\<close>

record 'e hero =
  hr_motion :: "('e, unit) scope"
  hr_entered :: bool
  hr_visible :: bool
  hr_suspended :: bool
  hr_ready :: bool
  hr_active :: "bool option"
  hr_mounted :: bool

definition update_hero :: "'e hero \<Rightarrow> 'e hero" where
  "update_hero h = h\<lparr>hr_active := Some (hr_entered h \<and> hr_visible h \<and> \<not> hr_suspended h
     \<and> preference (hr_motion h) = Some False)\<rparr>"

definition ready_hero :: "'e hero \<Rightarrow> 'e hero" where
  "ready_hero h = update_hero (h\<lparr>hr_entered := True, hr_ready := True\<rparr>)"

text \<open>The only callback of the scope is \<open>ready\<close>.\<close>

definition hero_motion :: "(('e, unit) scope \<Rightarrow> ('e, unit) scope) \<Rightarrow> 'e hero \<Rightarrow> 'e hero" where
  "hero_motion f h = (let m = f (hr_motion h); h' = h\<lparr>hr_motion := m\<rparr>
     in if fired m \<noteq> fired (hr_motion h) then ready_hero h' else h')"

definition hero_stages :: "string list" where
  "hero_stages = [''.brand'', ''#primary-navigation'', ''[data-header-mobile]'', ''[data-hero-eyebrow]'',
     ''[data-hero-title]'', ''[data-hero-subtitle]'', ''[data-hero-actions]'', ''[data-hero-scroll]'']"

text \<open>\<open>found\<close> is \<open>document.querySelector\<close>.\<close>

definition hero_steps :: "(string \<Rightarrow> 'e option) \<Rightarrow> ('e \<times> unit option) list" where
  "hero_steps found = concat (map (\<lambda>sel. case found sel of None \<Rightarrow> []
     | Some e \<Rightarrow> [(e, if sel = ''[data-hero-scroll]'' then Some () else None)]) hero_stages)"

definition mount_hero ::
  "'e motion_host \<Rightarrow> (string \<Rightarrow> 'e option) \<Rightarrow> bool option \<Rightarrow> bool \<Rightarrow> ('e \<Rightarrow> inline_style) \<Rightarrow> 'e hero" where
  "mount_hero host found pref hidden sty = hero_motion (sequence_steps host (hero_steps found))
     \<lparr>hr_motion = create_scope pref sty, hr_entered = False, hr_visible = False, hr_suspended = hidden,
      hr_ready = False, hr_active = None, hr_mounted = True\<rparr>"

text \<open>A page without a hero lets its header enter, if it has one.\<close>

definition mount_header :: "'e motion_host \<Rightarrow> 'e option \<Rightarrow> ('e, 'c) scope \<Rightarrow> ('e, 'c) scope" where
  "mount_header host header s = (case header of None \<Rightarrow> s | Some e \<Rightarrow> enter host [e] s)"

datatype 'e hero_event =
    Intersects bool
  | VisibilityChange bool
  | HeroPageHide
  | HeroPageShow bool
  | HeroPreference bool
  | Interact
  | HeroFrame 'e inline_style
  | HeroDone nat
  | Unmount

text \<open>The scope listens to \<open>pagehide\<close> and to the preference before the page does.\<close>

definition hero_step :: "'e hero_event \<Rightarrow> 'e hero \<Rightarrow> 'e hero" where
  "hero_step ev h = (case ev of
     Intersects b \<Rightarrow> update_hero (h\<lparr>hr_visible := b\<rparr>)
   | VisibilityChange hidden \<Rightarrow> update_hero (h\<lparr>hr_suspended := hidden\<rparr>)
   | HeroPageHide \<Rightarrow> update_hero ((hero_motion page_hidden h)\<lparr>hr_suspended := True\<rparr>)
   | HeroPageShow hidden \<Rightarrow> update_hero (h\<lparr>hr_suspended := hidden\<rparr>)
   | HeroPreference b \<Rightarrow> (if preference (hr_motion h) = None then h
       else update_hero (hero_motion (preference_changed b) h))
   | Interact \<Rightarrow> hero_motion finish_jobs h
   | HeroFrame e st \<Rightarrow> hero_motion (write_frame e st) h
   | HeroDone i \<Rightarrow> hero_motion (settle_job True i) h
   | Unmount \<Rightarrow> (hero_motion dispose_scope h)\<lparr>hr_ready := False, hr_active := None, hr_mounted := False\<rparr>)"

inductive hero_runs for host found pref hidden sty where
  mounted: "hero_runs host found pref hidden sty (mount_hero host found pref hidden sty)"
| continued: "hero_runs host found pref hidden sty h \<Longrightarrow> hr_mounted h \<Longrightarrow>
    hero_runs host found pref hidden sty (hero_step ev h)"

section \<open>The hint moves only when it may\<close>

definition pending :: "('e, 'c) scope \<Rightarrow> bool" where
  "pending s \<longleftrightarrow> (\<exists>j \<in> set (jobs s). job_done j \<noteq> None)"

lemma settle_pending:
  assumes "scope_ok sty s" and "pending s"
  shows "pending (settle_job True i s) \<or> fired (settle_job True i s) \<noteq> fired s"
proof -
  obtain j where j: "j \<in> set (jobs s)" "job_done j \<noteq> None" using assms(2) by (auto simp: pending_def)
  have ids: "distinct (map job_id (jobs s))" using assms(1) by (simp add: scope_ok_def)
  show ?thesis
  proof (cases "i \<in> job_id ` set (jobs s)")
    case True
    then obtain k where k: "k \<in> set (jobs s)" "i = job_id k" by blast
    show ?thesis
    proof (cases "job_id k = job_id j")
      case True
      then show ?thesis unfolding k(2) True settle_job_one [OF ids j(1)]
        using j(2) by (auto simp: Let_def call_done_def)
    next
      case False
      then show ?thesis unfolding k(2) settle_job_one [OF ids k(1)] using j by (auto simp: Let_def pending_def)
    qed
  qed (simp add: settle_job_none assms(2))
qed

lemma finish_pending: "scope_ok sty s \<Longrightarrow> pending s \<Longrightarrow> fired (finish_jobs s) \<noteq> fired s"
  using settle_all_rest(3) [of sty s True] by (auto simp: pending_def finish_jobs_def map_filter_def filter_empty_conv)

lemma settle_fired_mono: "length (fired s) \<le> length (fired (settle_job b i s))"
  by (auto simp: settle_job_def call_done_def Let_def split: list.split)

lemma play_pending:
  assumes "scope_ok sty s" and "n < length (fired s) \<or> pending s"
  shows "n < length (fired (play host e c s)) \<or> pending (play host e c s)"
proof -
  let ?j = "\<lparr>job_id = next_job s, job_element = e, job_original = styles s e, job_done = c\<rparr>"
  let ?s = "s\<lparr>jobs := jobs s @ [?j], next_job := next_job s + 1\<rparr>"
  have old: "filter (\<lambda>j. job_id j \<noteq> next_job s) (jobs s) = jobs s"
    using assms(1) by (auto simp: filter_id_conv scope_ok_def)
  have none: "filter (\<lambda>j. job_id j = next_job s) (jobs s) = []"
    using assms(1) by (auto simp: filter_empty_conv scope_ok_def)
  have "jobs (settle_job True (next_job s) ?s) = jobs s"
    by (simp add: settle_job_def none old Let_def)
  moreover have "length (fired s) \<le> length (fired (settle_job True (next_job s) ?s))"
    using settle_fired_mono [of ?s] by simp
  ultimately show ?thesis
    using assms(2) by (auto simp: play_def Let_def pending_def call_done_def)
qed

lemma play_starts:
  assumes "scope_ok sty s"
  shows "length (fired s) < length (fired (play host e (Some c) s)) \<or> pending (play host e (Some c) s)"
proof -
  have none: "filter (\<lambda>j. job_id j = next_job s) (jobs s) = []"
    using assms by (auto simp: filter_empty_conv scope_ok_def)
  show ?thesis by (simp add: play_def Let_def pending_def call_done_def settle_job_def none)
qed

lemma plays_start:
  "scope_ok sty s \<Longrightarrow> distinct (map fst steps) \<Longrightarrow> fst ` set steps \<inter> job_element ` set (jobs s) = {} \<Longrightarrow>
    n \<le> length (fired s) \<Longrightarrow> (\<exists>e c. (e, Some c) \<in> set steps) \<or> n < length (fired s) \<or> pending s \<Longrightarrow>
    n < length (fired (fold (\<lambda>(e, c). play host e c) steps s)) \<or> pending (fold (\<lambda>(e, c). play host e c) steps s)"
proof (induction steps arbitrary: s)
  case (Cons st steps)
  obtain e c where st: "st = (e, c)" by (cases st)
  let ?t = "play host e c s"
  have "e \<notin> job_element ` set (jobs s)" using Cons.prems(3) st by auto
  note one = play_keeps [OF Cons.prems(1) this, of host c]
  have "e \<notin> fst ` set steps" "fst ` set steps \<inter> job_element ` set (jobs s) = {}"
    using Cons.prems(2,3) st by auto
  then have sep: "fst ` set steps \<inter> job_element ` set (jobs ?t) = {}" using one(2) by blast
  have mono: "n \<le> length (fired ?t)"
    using Cons.prems(4) settle_fired_mono [of "s\<lparr>jobs := jobs s @ [\<lparr>job_id = next_job s, job_element = e,
      job_original = styles s e, job_done = c\<rparr>], next_job := next_job s + 1\<rparr>" True "next_job s"]
    by (auto simp: play_def Let_def call_done_def)
  have "(\<exists>e c. (e, Some c) \<in> set steps) \<or> n < length (fired ?t) \<or> pending ?t"
  proof (cases "n < length (fired s) \<or> pending s")
    case True
    then show ?thesis using play_pending [OF Cons.prems(1)] by blast
  next
    case False
    then obtain e' c' where "(e', Some c') \<in> set (st # steps)" using Cons.prems(5) by blast
    then consider "(e', Some c') \<in> set steps" | "c = Some c'" using st by auto
    then show ?thesis
    proof cases
      case 2
      then show ?thesis using play_starts [OF Cons.prems(1), of host e c'] Cons.prems(4) by auto
    qed blast
  qed
  then show ?case using Cons.IH [OF one(1) _ sep mono] Cons.prems(2) st by simp
qed simp

definition entrance_ok :: "(string \<Rightarrow> 'e option) \<Rightarrow> ('e \<Rightarrow> inline_style) \<Rightarrow> 'e hero \<Rightarrow> bool" where
  "entrance_ok found sty h \<longleftrightarrow>
     motion_ok sty (hr_motion h) \<and> hr_ready h = hr_entered h
     \<and> (found ''[data-hero-scroll]'' \<noteq> None \<longrightarrow> hr_entered h \<or> pending (hr_motion h))"

definition active_ok :: "'e hero \<Rightarrow> bool" where
  "active_ok h \<longleftrightarrow> hr_active h \<in> {None, hr_active (update_hero h)} \<and> (hr_entered h \<longrightarrow> hr_active h \<noteq> None)"

lemma hero_motion_entrance:
  assumes "entrance_ok found sty h" and "motion_ok sty (f (hr_motion h))"
    and "pending (hr_motion h) \<Longrightarrow> pending (f (hr_motion h)) \<or> fired (f (hr_motion h)) \<noteq> fired (hr_motion h)"
  shows "entrance_ok found sty (hero_motion f h)"
  using assms by (auto simp: entrance_ok_def hero_motion_def ready_hero_def update_hero_def Let_def)

lemma hero_motion_active:
  "active_ok h \<Longrightarrow> preference (f (hr_motion h)) = preference (hr_motion h) \<Longrightarrow> active_ok (hero_motion f h)"
  by (auto simp: active_ok_def hero_motion_def ready_hero_def update_hero_def Let_def)

lemma update_hero_ok:
  "active_ok (update_hero h)" "entrance_ok found sty (update_hero h) = entrance_ok found sty h"
  by (simp_all add: active_ok_def entrance_ok_def update_hero_def)

lemma environment_motion:
  assumes "motion_ok sty s"
  shows "motion_ok sty (page_hidden s)" "motion_ok sty (finish_jobs s)" "motion_ok sty (settle_job True i s)"
    "motion_ok sty (write_frame e st s)" "motion_ok sty (preference_changed p s)" "motion_ok sty (dispose_scope s)"
  using motion_step_ok [OF assms, of PageHidden] motion_step_ok [OF assms, of FinishMotion]
    motion_step_ok [OF assms, of "AnimationDone i"] motion_step_ok [OF assms, of "Frame e st"]
    motion_step_ok [OF assms, of "PreferenceChanged p"] motion_step_ok [OF assms, of DisposeMotion]
  by (simp_all add: event_allowed_def motion_step_def)

lemma environment_pending:
  assumes "motion_ok sty s" and "pending s"
  shows "pending (page_hidden s) \<or> fired (page_hidden s) \<noteq> fired s"
    "pending (finish_jobs s) \<or> fired (finish_jobs s) \<noteq> fired s"
    "pending (settle_job True i s) \<or> fired (settle_job True i s) \<noteq> fired s"
    "pending (write_frame e st s) \<or> fired (write_frame e st s) \<noteq> fired s"
    "pending (preference_changed p s) \<or> fired (preference_changed p s) \<noteq> fired s"
proof -
  have sc: "scope_ok sty s" using assms(1) by (simp add: motion_ok_def)
  show "pending (settle_job True i s) \<or> fired (settle_job True i s) \<noteq> fired s"
    by (rule settle_pending [OF sc assms(2)])
  show fin: "pending (finish_jobs s) \<or> fired (finish_jobs s) \<noteq> fired s"
    using finish_pending [OF sc assms(2)] by blast
  show "pending (page_hidden s) \<or> fired (page_hidden s) \<noteq> fired s"
    using fin assms(2) by (simp add: page_hidden_def)
  show "pending (write_frame e st s) \<or> fired (write_frame e st s) \<noteq> fired s"
    using assms(2) by (simp add: write_frame_def pending_def)
  have "scope_ok sty (s\<lparr>preference := Some p\<rparr>)" "pending (s\<lparr>preference := Some p\<rparr>)"
    using sc assms(2) by (simp_all add: pending_def)
  from finish_pending [OF this]
  show "pending (preference_changed p s) \<or> fired (preference_changed p s) \<noteq> fired s"
    using assms(2) by (auto simp: preference_changed_def Let_def pending_def split: option.split)
qed

lemma preference_fields [simp]:
  "preference (page_hidden s) = preference s" "preference (finish_jobs s) = preference s"
  "preference (write_frame e st s) = preference s"
  by (simp_all add: page_hidden_def finish_jobs_def write_frame_def)

lemma hero_step_ok:
  assumes "entrance_ok found sty h \<and> active_ok h" and "ev \<noteq> Unmount"
  shows "entrance_ok found sty (hero_step ev h) \<and> active_ok (hero_step ev h)"
proof -
  have h: "entrance_ok found sty h" "active_ok h" "motion_ok sty (hr_motion h)"
    using assms(1) by (simp_all add: entrance_ok_def)
  note motion = environment_motion [OF h(3)] and pend = environment_pending [OF h(3)]
  have field: "entrance_ok found sty (g\<lparr>hr_visible := b\<rparr>) = entrance_ok found sty g"
    "entrance_ok found sty (g\<lparr>hr_suspended := b\<rparr>) = entrance_ok found sty g" for g b
    by (simp_all add: entrance_ok_def)
  show ?thesis
  proof (cases ev)
    case HeroPageHide
    have "entrance_ok found sty (hero_motion page_hidden h)"
      by (rule hero_motion_entrance [where f = "page_hidden", OF h(1) motion(1) pend(1)])
    then show ?thesis by (simp add: HeroPageHide hero_step_def update_hero_ok field)
  next
    case (HeroPreference b)
    have "entrance_ok found sty (hero_motion (preference_changed b) h)"
      by (rule hero_motion_entrance [where f = "preference_changed b", OF h(1) motion(5) pend(5)])
    then show ?thesis using h by (simp add: HeroPreference hero_step_def update_hero_ok)
  next
    case Interact
    have "entrance_ok found sty (hero_motion finish_jobs h)"
      by (rule hero_motion_entrance [where f = "finish_jobs", OF h(1) motion(2) pend(2)])
    then show ?thesis using h(2) by (simp add: Interact hero_step_def hero_motion_active)
  next
    case (HeroFrame e st)
    have "entrance_ok found sty (hero_motion (write_frame e st) h)"
      by (rule hero_motion_entrance [where f = "write_frame e st", OF h(1) motion(4) pend(4)])
    then show ?thesis using h(2) by (simp add: HeroFrame hero_step_def hero_motion_active)
  next
    case (HeroDone i)
    have "entrance_ok found sty (hero_motion (settle_job True i) h)"
      by (rule hero_motion_entrance [where f = "settle_job True i", OF h(1) motion(3) pend(3)])
    then show ?thesis using h(2) by (simp add: HeroDone hero_step_def hero_motion_active)
  qed (use h assms(2) in \<open>simp_all add: hero_step_def update_hero_ok field\<close>)
qed

lemma hint_step:
  "found ''[data-hero-scroll]'' = Some e \<Longrightarrow> (e, Some ()) \<in> set (hero_steps found)"
  by (simp add: hero_steps_def hero_stages_def)

lemma mount_hero_ok:
  assumes "distinct (map fst (hero_steps found))"
  shows "entrance_ok found sty (mount_hero host found pref hidden sty)
    \<and> active_ok (mount_hero host found pref hidden sty)"
proof -
  let ?s = "create_scope pref sty :: ('a, unit) scope"
  let ?m = "sequence_steps host (hero_steps found) ?s"
  have ok: "motion_ok sty ?s" by (simp add: motion_ok_def calm_def scope_ok_def create_scope_def)
  have ok': "motion_ok sty ?m"
    using motion_step_ok [OF ok, of "Sequence (hero_steps found)" host] assms
    by (simp add: event_allowed_def motion_step_def create_scope_def)
  have pend: "fired ?m \<noteq> [] \<or> pending ?m" if hint: "found ''[data-hero-scroll]'' \<noteq> None"
  proof -
    obtain e where "found ''[data-hero-scroll]'' = Some e" using hint by (cases "found ''[data-hero-scroll]''") simp_all
    then have e: "(e, Some ()) \<in> set (hero_steps found)" by (rule hint_step)
    have cancelled: "cancel_jobs ?s = ?s" by (simp add: cancel_jobs_def settle_all_def create_scope_def)
    have sc: "scope_ok sty ?s" and none: "jobs ?s = []" by (simp_all add: scope_ok_def create_scope_def)
    have "fst ` set (hero_steps found) \<inter> job_element ` set (jobs ?s) = {}" by (simp add: none)
    from plays_start [OF sc assms this, of 0 host] e
    have "0 < length (fired ?m) \<or> pending ?m" unfolding sequence_steps_def cancelled by blast
    then show ?thesis by auto
  qed
  define h0 where "h0 = \<lparr>hr_motion = ?s, hr_entered = False, hr_visible = False, hr_suspended = hidden,
    hr_ready = False, hr_active = None, hr_mounted = True\<rparr>"
  have fields: "hr_motion h0 = ?s" "fired ?s = []" "\<not> hr_entered h0" "\<not> hr_ready h0" "hr_active h0 = None"
    by (simp_all add: h0_def create_scope_def)
  have "mount_hero host found pref hidden sty =
      (if fired ?m \<noteq> [] then ready_hero (h0\<lparr>hr_motion := ?m\<rparr>) else h0\<lparr>hr_motion := ?m\<rparr>)"
    unfolding mount_hero_def h0_def [symmetric] hero_motion_def Let_def fields ..
  then have "mount_hero host found pref hidden sty =
      (if fired ?m \<noteq> [] then update_hero (h0\<lparr>hr_motion := ?m, hr_entered := True, hr_ready := True\<rparr>)
       else h0\<lparr>hr_motion := ?m\<rparr>)" by (simp only: ready_hero_def)
  with ok' pend fields show ?thesis
    by (simp add: update_hero_ok) (simp add: entrance_ok_def active_ok_def)
qed

text \<open>
  The entrance of the home page always completes, and the hint to scroll never moves early: in every
  state the hint is active only when the entrance is over, the hero is in view, the page is not hidden
  and the visitor does not ask for less motion, and once the entrance is over it is active exactly
  then. Interacting with the hero at any time ends the entrance at once, with every element at rest.
  Leaving the page undoes both marks.
\<close>

theorem home_entrance_correct:
  assumes "distinct (map fst (hero_steps found))" and "hero_runs host found pref hidden sty h"
  shows "(hr_active h = Some True \<longrightarrow> hr_entered h \<and> hr_visible h \<and> \<not> hr_suspended h \<and> preference (hr_motion h) = Some False)
    \<and> (hr_mounted h \<and> hr_entered h \<longrightarrow>
        hr_active h = Some (hr_visible h \<and> \<not> hr_suspended h \<and> preference (hr_motion h) = Some False))
    \<and> (hr_mounted h \<longrightarrow>
        (let h' = hero_step Interact h in
         jobs (hr_motion h') = [] \<and> styles (hr_motion h') = sty
         \<and> (found ''[data-hero-scroll]'' \<noteq> None \<longrightarrow> hr_entered h' \<and> hr_ready h')))
    \<and> (\<not> hr_mounted h \<longrightarrow> hr_active h = None \<and> \<not> hr_ready h \<and> jobs (hr_motion h) = [] \<and> styles (hr_motion h) = sty)"
proof -
  have inv: "if hr_mounted h then entrance_ok found sty h \<and> active_ok h
      else hr_active h = None \<and> \<not> hr_ready h \<and> jobs (hr_motion h) = [] \<and> styles (hr_motion h) = sty"
    using assms(2)
  proof (induction rule: hero_runs.induct)
    case mounted
    have "hr_mounted (mount_hero host found pref hidden sty)"
      by (simp add: mount_hero_def hero_motion_def ready_hero_def update_hero_def Let_def)
    then show ?case using mount_hero_ok [OF assms(1)] by simp
  next
    case (continued h ev)
    then have ok: "entrance_ok found sty h \<and> active_ok h" by simp
    show ?case
    proof (cases "ev = Unmount")
      case True
      have "scope_ok sty (hr_motion h)" using ok by (simp add: entrance_ok_def motion_ok_def)
      from settle_all_rest [OF this, of True] show ?thesis
        by (simp add: True hero_step_def hero_motion_def ready_hero_def update_hero_def dispose_scope_def finish_jobs_def Let_def)
    next
      case False
      then have "hr_mounted (hero_step ev h)" using continued.hyps(2)
        by (cases ev) (simp_all add: hero_step_def hero_motion_def ready_hero_def update_hero_def Let_def)
      then show ?thesis using hero_step_ok [OF ok False] by simp
    qed
  qed
  have interact: "jobs (hr_motion h') = [] \<and> styles (hr_motion h') = sty
      \<and> (found ''[data-hero-scroll]'' \<noteq> None \<longrightarrow> hr_entered h' \<and> hr_ready h')"
    if m: "hr_mounted h" and h': "h' = hero_step Interact h" for h'
  proof -
    have ok: "entrance_ok found sty h \<and> active_ok h" using inv m by simp
    then have sc: "scope_ok sty (hr_motion h)" by (simp add: entrance_ok_def motion_ok_def)
    have motion: "hr_motion h' = finish_jobs (hr_motion h)"
      by (simp add: h' hero_step_def hero_motion_def ready_hero_def update_hero_def Let_def)
    have "entrance_ok found sty h'" using hero_step_ok [OF ok, of Interact] by (simp add: h')
    then show ?thesis
      using settle_all_rest [OF sc, of True] by (simp add: motion entrance_ok_def finish_jobs_def pending_def)
  qed
  have active: "hr_active h = Some (hr_visible h \<and> \<not> hr_suspended h \<and> preference (hr_motion h) = Some False)"
    if "hr_mounted h" "hr_entered h"
    using inv that by (auto simp: active_ok_def update_hero_def)
  have early: "hr_entered h \<and> hr_visible h \<and> \<not> hr_suspended h \<and> preference (hr_motion h) = Some False"
    if "hr_active h = Some True"
    using inv that by (cases "hr_mounted h") (simp_all add: active_ok_def update_hero_def)
  have gone: "hr_active h = None \<and> \<not> hr_ready h \<and> jobs (hr_motion h) = [] \<and> styles (hr_motion h) = sty"
    if "\<not> hr_mounted h"
    using inv that by simp
  show ?thesis using active early gone interact unfolding Let_def by blast
qed

end
