(* ===== verification/ThemeToggle.thy ===== *)
theory ThemeToggle
  imports JsPrelude
begin

text \<open>
  \<open>apps/web/src/lib/theme.ts\<close>: the button that switches between the light and the dark theme under a
  view transition of the browser. Every accepted click makes a job, which the browser may call back at
  any time, also after the job is over; a job is named by its place in the list of all jobs. The
  geometry of the reveal is left out. \<open>storage\<close> tells whether \<open>localStorage\<close> takes a value.
\<close>

section \<open>The button\<close>

record theme_job =
  tj_theme :: string
  tj_applied :: bool
  tj_animating :: bool

record theme_state =
  th_theme :: string
  th_stored :: "string option"
  th_announced :: "string list"
  th_transition :: bool
  th_busy :: bool
  th_jobs :: "theme_job list"
  th_active :: "nat option"
  th_hidden :: bool
  th_preference :: "bool option"
  th_mounted :: bool

definition apply_theme :: "(string \<Rightarrow> bool) \<Rightarrow> nat \<Rightarrow> theme_state \<Rightarrow> theme_state" where
  "apply_theme storage i s =
     (let job = th_jobs s ! i; theme = tj_theme job
      in if tj_applied job then s
         else s\<lparr>th_jobs := (th_jobs s)[i := job\<lparr>tj_applied := True\<rparr>], th_theme := theme,
                th_stored := (if storage theme then Some theme else th_stored s),
                th_announced := th_announced s @ [theme]\<rparr>)"

text \<open>Skipping the transition of the browser changes nothing here.\<close>

definition finish_theme :: "(string \<Rightarrow> bool) \<Rightarrow> nat \<Rightarrow> theme_state \<Rightarrow> theme_state" where
  "finish_theme storage i s =
     (if th_active s \<noteq> Some i then s
      else let s = apply_theme storage i s
           in s\<lparr>th_jobs := (th_jobs s)[i := (th_jobs s ! i)\<lparr>tj_animating := False\<rparr>],
                th_transition := False, th_busy := False, th_active := None\<rparr>)"

definition stop_theme :: "(string \<Rightarrow> bool) \<Rightarrow> theme_state \<Rightarrow> theme_state" where
  "stop_theme storage s = (case th_active s of None \<Rightarrow> s | Some i \<Rightarrow> finish_theme storage i s)"

definition other_theme :: "string \<Rightarrow> string" where
  "other_theme t = (if t = ''light'' then ''dark'' else ''light'')"

text \<open>\<open>supported\<close>: the browser has view transitions and animations; \<open>throws\<close>: starting one throws.\<close>

definition toggle_theme :: "(string \<Rightarrow> bool) \<Rightarrow> bool \<Rightarrow> bool \<Rightarrow> theme_state \<Rightarrow> theme_state" where
  "toggle_theme storage supported throws s =
     (if th_active s \<noteq> None then s
      else let i = length (th_jobs s);
               s = s\<lparr>th_jobs := th_jobs s @ [\<lparr>tj_theme = other_theme (th_theme s), tj_applied = False, tj_animating = False\<rparr>]\<rparr>
           in if \<not> supported \<or> th_preference s \<noteq> Some False \<or> th_hidden s then apply_theme storage i s
              else let s = s\<lparr>th_active := Some i, th_transition := True, th_busy := True\<rparr>
                   in if throws then finish_theme storage i s else s)"

text \<open>The transition is ready: the reveal is animated, unless that came too late or throws.\<close>

definition reveal_theme :: "(string \<Rightarrow> bool) \<Rightarrow> bool \<Rightarrow> nat \<Rightarrow> theme_state \<Rightarrow> theme_state" where
  "reveal_theme storage throws i s =
     (if th_active s \<noteq> Some i then s
      else if th_hidden s \<or> th_preference s = Some True \<or> throws then finish_theme storage i s
      else s\<lparr>th_jobs := (th_jobs s)[i := (th_jobs s ! i)\<lparr>tj_animating := True\<rparr>]\<rparr>)"

text \<open>
  The events: the click, the callbacks of the browser for a job (the update of the page, the transition
  being ready or over, a failure of any part), and what stops a job: a resize, leaving the page, the
  page being hidden, the preference for less motion.
\<close>

datatype theme_event =
    ThemeClick bool bool
  | UpdateCallback nat
  | TransitionReady nat bool
  | TransitionOver nat
  | JobFailed nat
  | StopTheme
  | ThemeVisibility bool
  | ThemePreference bool
  | ThemeUnmount

definition theme_step :: "(string \<Rightarrow> bool) \<Rightarrow> theme_event \<Rightarrow> theme_state \<Rightarrow> theme_state" where
  "theme_step storage ev s = (case ev of
     ThemeClick supported throws \<Rightarrow> if th_mounted s then toggle_theme storage supported throws s else s
   | UpdateCallback i \<Rightarrow> apply_theme storage i s
   | TransitionReady i throws \<Rightarrow> reveal_theme storage throws i s
   | TransitionOver i \<Rightarrow> finish_theme storage i s
   | JobFailed i \<Rightarrow> finish_theme storage i s
   | StopTheme \<Rightarrow> if th_mounted s then stop_theme storage s else s
   | ThemeVisibility b \<Rightarrow> (let s = s\<lparr>th_hidden := b\<rparr> in if th_mounted s \<and> b then stop_theme storage s else s)
   | ThemePreference b \<Rightarrow> (case th_preference s of None \<Rightarrow> s
       | Some _ \<Rightarrow> let s = s\<lparr>th_preference := Some b\<rparr> in if th_mounted s \<and> b then stop_theme storage s else s)
   | ThemeUnmount \<Rightarrow> (stop_theme storage s)\<lparr>th_mounted := False\<rparr>)"

definition mount_theme :: "string \<Rightarrow> string option \<Rightarrow> bool \<Rightarrow> bool option \<Rightarrow> theme_state" where
  "mount_theme theme stored hidden pref = \<lparr>th_theme = theme, th_stored = stored, th_announced = [],
     th_transition = False, th_busy = False, th_jobs = [], th_active = None, th_hidden = hidden,
     th_preference = pref, th_mounted = True\<rparr>"

text \<open>The browser calls back for jobs it was given.\<close>

definition theme_allowed :: "theme_event \<Rightarrow> theme_state \<Rightarrow> bool" where
  "theme_allowed ev s = (case ev of
     UpdateCallback i \<Rightarrow> i < length (th_jobs s)
   | TransitionReady i _ \<Rightarrow> i < length (th_jobs s)
   | TransitionOver i \<Rightarrow> i < length (th_jobs s)
   | JobFailed i \<Rightarrow> i < length (th_jobs s)
   | _ \<Rightarrow> True)"

inductive theme_runs for storage theme stored hidden pref where
  mounted: "theme_runs storage theme stored hidden pref (mount_theme theme stored hidden pref)"
| happened: "theme_runs storage theme stored hidden pref s \<Longrightarrow> theme_allowed ev s \<Longrightarrow>
    theme_runs storage theme stored hidden pref (theme_step storage ev s)"

section \<open>Every accepted click switches the theme once\<close>

text \<open>All jobs but the active one, which is the last, are applied and no longer animated.\<close>

definition settled :: "theme_job \<Rightarrow> bool" where
  "settled j \<longleftrightarrow> tj_applied j \<and> \<not> tj_animating j"

definition jobs_ok :: "nat option \<Rightarrow> theme_job list \<Rightarrow> bool" where
  "jobs_ok act js \<longleftrightarrow> (case act of None \<Rightarrow> list_all settled js
     | Some i \<Rightarrow> js \<noteq> [] \<and> i = length js - 1 \<and> list_all settled (butlast js))"

definition themes_from :: "string \<Rightarrow> theme_job list \<Rightarrow> bool" where
  "themes_from theme js \<longleftrightarrow> map tj_theme js = map (\<lambda>i. (other_theme ^^ Suc i) theme) [0..<length js]"

definition theme_ok :: "string \<Rightarrow> string option \<Rightarrow> (string \<Rightarrow> bool) \<Rightarrow> theme_state \<Rightarrow> bool" where
  "theme_ok theme stored storage s \<longleftrightarrow>
     jobs_ok (th_active s) (th_jobs s) \<and> themes_from theme (th_jobs s)
     \<and> th_announced s = map tj_theme (filter tj_applied (th_jobs s))
     \<and> th_theme s = last (theme # th_announced s)
     \<and> th_stored s = last (stored # map Some (filter storage (th_announced s)))
     \<and> th_busy s = (th_active s \<noteq> None) \<and> th_transition s = (th_active s \<noteq> None)
     \<and> (th_active s \<noteq> None \<longrightarrow> th_mounted s \<and> \<not> th_hidden s \<and> th_preference s = Some False)"

lemma themes_from_snoc:
  "themes_from theme (js @ [j]) \<longleftrightarrow> themes_from theme js \<and> tj_theme j = (other_theme ^^ Suc (length js)) theme"
  by (simp add: themes_from_def)

lemma settled_applied: "list_all settled js \<Longrightarrow> filter tj_applied js = js"
  by (induction js) (auto simp: settled_def)

text \<open>The theme after all jobs of a well-formed list.\<close>

lemma last_theme:
  assumes "themes_from theme js"
  shows "last (theme # map tj_theme js) = (other_theme ^^ length js) theme"
proof (cases js rule: rev_cases)
  case (snoc ks k)
  then show ?thesis using assms by (simp add: themes_from_snoc)
qed simp

text \<open>A call of \<open>apply\<close> matters only for the active job that was not applied yet.\<close>

lemma apply_idle:
  assumes "jobs_ok (th_active s) (th_jobs s)" and "i < length (th_jobs s)" and "th_active s \<noteq> Some i"
  shows "apply_theme storage i s = s"
proof -
  have "settled (th_jobs s ! i)"
  proof (cases "th_active s")
    case None
    then show ?thesis using assms(1,2) by (simp add: jobs_ok_def list_all_length)
  next
    case (Some k)
    then have "i < length (butlast (th_jobs s))" using assms by (auto simp: jobs_ok_def)
    then show ?thesis using assms(1) Some by (simp add: jobs_ok_def list_all_length nth_butlast)
  qed
  then show ?thesis by (simp add: apply_theme_def settled_def)
qed

lemma running_jobs:
  assumes "theme_ok theme stored storage s" and "th_active s = Some i"
  obtains js j where "th_jobs s = js @ [j]" "i = length js" "list_all settled js"
  using assms by (cases "th_jobs s" rule: rev_cases) (auto simp: theme_ok_def jobs_ok_def)

lemma apply_running:
  assumes ok: "theme_ok theme stored storage s" and i: "th_active s = Some i"
  shows "theme_ok theme stored storage (apply_theme storage i s)"
    and "\<exists>js j. th_jobs (apply_theme storage i s) = js @ [j] \<and> i = length js \<and> list_all settled js \<and> tj_applied j"
    and "th_active (apply_theme storage i s) = th_active s"
proof -
  obtain js j where j: "th_jobs s = js @ [j]" "i = length js" "list_all settled js"
    by (rule running_jobs [OF ok i])
  note filt = settled_applied [OF j(3)]
  show "theme_ok theme stored storage (apply_theme storage i s)"
    using ok j i filt by (auto simp: theme_ok_def apply_theme_def jobs_ok_def themes_from_snoc Let_def)
  show "\<exists>js j. th_jobs (apply_theme storage i s) = js @ [j] \<and> i = length js \<and> list_all settled js \<and> tj_applied j"
    using j by (auto simp: apply_theme_def Let_def)
  show "th_active (apply_theme storage i s) = th_active s" by (simp add: apply_theme_def Let_def)
qed

lemma apply_ok:
  "theme_ok theme stored storage s \<Longrightarrow> i < length (th_jobs s) \<Longrightarrow> theme_ok theme stored storage (apply_theme storage i s)"
  using apply_running [of theme stored storage s i] apply_idle [of s i storage]
  by (cases "th_active s = Some i") (simp_all add: theme_ok_def)

lemma finish_ok:
  assumes "theme_ok theme stored storage s"
  shows "theme_ok theme stored storage (finish_theme storage i s)"
    and "th_active s = Some i \<Longrightarrow> th_active (finish_theme storage i s) = None"
proof -
  have "theme_ok theme stored storage (finish_theme storage i s)" if i: "th_active s = Some i"
  proof -
    let ?s = "apply_theme storage i s"
    note run = apply_running [OF assms i]
    obtain js j where j: "th_jobs ?s = js @ [j]" "i = length js" "list_all settled js" "tj_applied j" using run(2) by blast
    show ?thesis
      using run(1) j i settled_applied [OF j(3)]
      by (auto simp: finish_theme_def theme_ok_def jobs_ok_def themes_from_snoc settled_def Let_def)
  qed
  then show "theme_ok theme stored storage (finish_theme storage i s)"
    using assms by (cases "th_active s = Some i") (simp_all add: finish_theme_def)
  show "th_active s = Some i \<Longrightarrow> th_active (finish_theme storage i s) = None"
    by (simp add: finish_theme_def Let_def)
qed

lemma stop_ok:
  assumes "theme_ok theme stored storage s"
  shows "theme_ok theme stored storage (stop_theme storage s)" and "th_active (stop_theme storage s) = None"
  using finish_ok [OF assms] assms by (auto simp: stop_theme_def split: option.split)

lemma finish_fields [simp]:
  "th_hidden (finish_theme storage i s) = th_hidden s" "th_preference (finish_theme storage i s) = th_preference s"
  "th_mounted (finish_theme storage i s) = th_mounted s" "length (th_jobs (finish_theme storage i s)) = length (th_jobs s)"
  by (simp_all add: finish_theme_def apply_theme_def Let_def)

lemma stop_commutes:
  "stop_theme storage (s\<lparr>th_hidden := b\<rparr>) = (stop_theme storage s)\<lparr>th_hidden := b\<rparr>"
  "stop_theme storage (s\<lparr>th_preference := p\<rparr>) = (stop_theme storage s)\<lparr>th_preference := p\<rparr>"
  by (simp_all add: stop_theme_def finish_theme_def apply_theme_def Let_def split: option.split)

lemma idle_fields:
  assumes "theme_ok theme stored storage s" and "th_active s = None"
  shows "theme_ok theme stored storage (s\<lparr>th_hidden := b\<rparr>)" "theme_ok theme stored storage (s\<lparr>th_preference := p\<rparr>)"
    "theme_ok theme stored storage (s\<lparr>th_mounted := b\<rparr>)"
  using assms by (simp_all add: theme_ok_def)

text \<open>A new job switches away from the present theme.\<close>

lemma idle_theme:
  assumes "theme_ok theme stored storage s" and "th_active s = None"
  shows "th_theme s = (other_theme ^^ length (th_jobs s)) theme" and "th_announced s = map tj_theme (th_jobs s)"
proof -
  have "filter tj_applied (th_jobs s) = th_jobs s"
    using assms by (auto simp: theme_ok_def jobs_ok_def intro: settled_applied)
  then show announced: "th_announced s = map tj_theme (th_jobs s)" using assms by (simp add: theme_ok_def)
  have "th_theme s = last (theme # th_announced s)" and "themes_from theme (th_jobs s)"
    using assms(1) by (simp_all only: theme_ok_def)
  then show "th_theme s = (other_theme ^^ length (th_jobs s)) theme" by (simp only: announced last_theme)
qed

lemma toggle_ok:
  assumes ok: "theme_ok theme stored storage s" and "th_mounted s"
  shows "theme_ok theme stored storage (toggle_theme storage supported throws s)"
proof (cases "th_active s")
  case None
  let ?j = "\<lparr>tj_theme = other_theme (th_theme s), tj_applied = False, tj_animating = False\<rparr>"
  let ?s = "s\<lparr>th_jobs := th_jobs s @ [?j]\<rparr>" and ?i = "length (th_jobs s)"
  have settled: "list_all settled (th_jobs s)" using ok None by (simp add: theme_ok_def jobs_ok_def)
  note filt = settled_applied [OF settled]
  have themes: "themes_from theme (th_jobs s @ [?j])" "themes_from theme (th_jobs s @ [?j\<lparr>tj_applied := True\<rparr>])"
    using ok idle_theme(1) [OF ok None] by (simp_all add: theme_ok_def themes_from_snoc)
  have applied: "theme_ok theme stored storage (apply_theme storage ?i ?s)"
    using ok None settled filt themes by (simp add: theme_ok_def apply_theme_def jobs_ok_def settled_def Let_def)
  show ?thesis
  proof (cases "\<not> supported \<or> th_preference s \<noteq> Some False \<or> th_hidden s")
    case False
    let ?t = "?s\<lparr>th_active := Some ?i, th_transition := True, th_busy := True\<rparr>"
    have "theme_ok theme stored storage ?t"
      using ok None settled filt themes False assms(2) by (simp add: theme_ok_def jobs_ok_def)
    then show ?thesis using finish_ok(1) [of theme stored storage ?t ?i] False None
      by (simp add: toggle_theme_def Let_def)
  qed (use applied None in \<open>simp add: toggle_theme_def Let_def\<close>)
qed (use ok in \<open>simp add: toggle_theme_def\<close>)

lemma reveal_ok:
  assumes ok: "theme_ok theme stored storage s"
  shows "theme_ok theme stored storage (reveal_theme storage throws i s)"
proof (cases "th_active s = Some i")
  case True
  obtain js j where "th_jobs s = js @ [j]" "i = length js" "list_all settled js" by (rule running_jobs [OF ok True])
  then have "theme_ok theme stored storage
      (s\<lparr>th_jobs := (th_jobs s)[i := (th_jobs s ! i)\<lparr>tj_animating := True\<rparr>]\<rparr>)"
    using ok True by (simp add: theme_ok_def jobs_ok_def themes_from_snoc)
  then show ?thesis using finish_ok(1) [OF ok] True by (simp add: reveal_theme_def)
qed (use ok in \<open>simp add: reveal_theme_def\<close>)

lemma theme_step_ok:
  assumes ok: "theme_ok theme stored storage s" and "theme_allowed ev s"
  shows "theme_ok theme stored storage (theme_step storage ev s)"
proof -
  note stop = stop_ok [OF ok]
  have off: "th_active s = None" if "\<not> th_mounted s" using ok that by (auto simp: theme_ok_def)
  show ?thesis
  proof (cases ev)
    case (ThemeVisibility b)
    have "theme_ok theme stored storage (s\<lparr>th_hidden := False\<rparr>)" using ok by (simp add: theme_ok_def)
    then show ?thesis using idle_fields(1) [OF stop] idle_fields(1) [OF ok off]
      by (cases b) (simp_all add: ThemeVisibility theme_step_def Let_def stop_commutes)
  next
    case (ThemePreference b)
    have "theme_ok theme stored storage (s\<lparr>th_preference := Some False\<rparr>)" using ok by (simp add: theme_ok_def)
    then show ?thesis using ok idle_fields(2) [OF stop] idle_fields(2) [OF ok off]
      by (cases b) (simp_all add: ThemePreference theme_step_def Let_def stop_commutes split: option.split)
  next
    case ThemeUnmount
    then show ?thesis using idle_fields(3) [OF stop] by (simp add: theme_step_def)
  qed (use ok assms(2) stop toggle_ok apply_ok finish_ok reveal_ok in \<open>simp_all add: theme_step_def theme_allowed_def\<close>)
qed

lemma theme_runs_ok: "theme_runs storage theme stored hidden pref s \<Longrightarrow> theme_ok theme stored storage s"
proof (induction rule: theme_runs.induct)
  case mounted
  show ?case by (simp add: mount_theme_def theme_ok_def jobs_ok_def themes_from_def)
qed (rule theme_step_ok)

text \<open>
  C39. Every accepted click switches the theme exactly once, whatever the browser does with the transition:
  between two clicks the theme is the one that as many switches of the first theme give, each was
  announced once and in order, and what \<open>localStorage\<close> took last is kept. While a job runs the button
  says so, a further click is ignored, and the page is visible to a visitor who accepts motion; the end
  of the transition, its failure and everything that stops it end the job with its theme in place.
  Callbacks of jobs that are over do nothing.
\<close>

theorem theme_toggle_correct:
  assumes "theme_runs storage theme stored hidden pref s"
  shows "(th_active s = None \<longrightarrow>
        th_theme s = (other_theme ^^ length (th_jobs s)) theme \<and> th_announced s = map tj_theme (th_jobs s)
        \<and> length (th_jobs (toggle_theme storage supported throws s)) = Suc (length (th_jobs s)))
    \<and> th_stored s = last (stored # map Some (filter storage (th_announced s)))
    \<and> th_busy s = (th_active s \<noteq> None) \<and> th_transition s = (th_active s \<noteq> None)
    \<and> (th_active s \<noteq> None \<longrightarrow> th_mounted s \<and> \<not> th_hidden s \<and> th_preference s = Some False
        \<and> toggle_theme storage supported throws s = s)
    \<and> (\<forall>i ev. th_active s = Some i \<longrightarrow>
        ev \<in> {TransitionOver i, JobFailed i, StopTheme, ThemeVisibility True, ThemePreference True, ThemeUnmount} \<longrightarrow>
        (let s' = theme_step storage ev s in
         th_active s' = None \<and> th_theme s' = (other_theme ^^ length (th_jobs s)) theme))
    \<and> (\<forall>i. i < length (th_jobs s) \<longrightarrow> th_active s \<noteq> Some i \<longrightarrow>
        (\<forall>ev \<in> {UpdateCallback i, TransitionReady i throws, TransitionOver i, JobFailed i}. theme_step storage ev s = s))"
proof -
  have ok: "theme_ok theme stored storage s" by (rule theme_runs_ok [OF assms])
  have clicked: "length (th_jobs (toggle_theme storage supported throws s)) = Suc (length (th_jobs s))" if "th_active s = None"
    using that by (simp add: toggle_theme_def apply_theme_def Let_def)
  have ends: "th_active s' = None \<and> th_theme s' = (other_theme ^^ length (th_jobs s)) theme"
    if i: "th_active s = Some i" and s': "s' = theme_step storage ev s"
      and ev: "ev \<in> {TransitionOver i, JobFailed i, StopTheme, ThemeVisibility True, ThemePreference True, ThemeUnmount}"
    for i ev s'
  proof -
    have stopped: "stop_theme storage s = finish_theme storage i s" by (simp add: stop_theme_def i)
    have m: "th_mounted s" "th_preference s = Some False" using ok i by (simp_all add: theme_ok_def)
    have "th_active s' = None \<and> length (th_jobs s') = length (th_jobs s)"
      using ev finish_ok(2) [OF ok i] stopped m by (auto simp: s' theme_step_def stop_commutes Let_def)
    moreover have "theme_allowed ev s"
    proof -
      obtain js j where "th_jobs s = js @ [j]" "i = length js" by (rule running_jobs [OF ok i])
      then show ?thesis using ev by (auto simp: theme_allowed_def)
    qed
    ultimately show ?thesis using idle_theme(1) [OF theme_step_ok [OF ok]] s' by metis
  qed
  have old: "theme_step storage ev s = s"
    if "i < length (th_jobs s)" "th_active s \<noteq> Some i"
      "ev \<in> {UpdateCallback i, TransitionReady i throws, TransitionOver i, JobFailed i}" for i ev
    using that ok apply_idle [of s i storage]
    by (auto simp: theme_step_def theme_ok_def finish_theme_def reveal_theme_def)
  have busy: "th_stored s = last (stored # map Some (filter storage (th_announced s)))"
    "th_busy s = (th_active s \<noteq> None)" "th_transition s = (th_active s \<noteq> None)"
    "th_active s \<noteq> None \<longrightarrow> th_mounted s \<and> \<not> th_hidden s \<and> th_preference s = Some False"
    using ok by (simp_all add: theme_ok_def)
  have ignored: "toggle_theme storage supported throws s = s" if "th_active s \<noteq> None"
    using that by (simp add: toggle_theme_def)
  show ?thesis
  proof (intro conjI allI impI ballI)
    fix i ev
    assume "th_active s = Some i"
      and "ev \<in> {TransitionOver i, JobFailed i, StopTheme, ThemeVisibility True, ThemePreference True, ThemeUnmount}"
    then show "let s' = theme_step storage ev s in
        th_active s' = None \<and> th_theme s' = (other_theme ^^ length (th_jobs s)) theme"
      unfolding Let_def by (rule ends [OF _ refl])
  next
    fix i ev
    assume "i < length (th_jobs s)" "th_active s \<noteq> Some i"
      "ev \<in> {UpdateCallback i, TransitionReady i throws, TransitionOver i, JobFailed i}"
    then show "theme_step storage ev s = s" by (rule old)
  qed (use idle_theme [OF ok] clicked busy ignored in simp_all)
qed

definition revealing :: theme_state where
  "revealing = theme_step (\<lambda>_. True) (ThemeClick True False) (mount_theme ''light'' None False (Some False))"

theorem theme_toggle_correct_witness:
  "th_busy revealing \<and> th_theme (theme_step (\<lambda>_. True) StopTheme revealing) = ''dark''"
proof -
  have run: "theme_runs (\<lambda>_. True) ''light'' None False (Some False) revealing"
    unfolding revealing_def by (intro theme_runs.happened theme_runs.mounted) (simp add: theme_allowed_def)
  have "th_active revealing = Some 0" "length (th_jobs revealing) = 1"
    by (simp_all add: revealing_def theme_step_def mount_theme_def toggle_theme_def Let_def)
  then show ?thesis
    using theme_toggle_correct [OF run, of True False] by (simp add: other_theme_def Let_def)
qed

end
