(* ===== verification/SearchView.thy ===== *)
theory SearchView
  imports PublicI18n JsRegex
begin

text \<open>
  \<open>apps/web/src/lib/search.ts\<close>: the excerpts and addresses of the search results, and \<open>mountSearch\<close> as
  a state machine over the tasks that wait for the search library. The library is not part of the
  repository: \<open>found\<close> is what it answers to a query and \<open>data_of\<close> what a hit loads; either may fail or
  run into the time limit of \<open>bounded\<close>. Excerpts are lists of UTF-16 code units.
\<close>

section \<open>Excerpts\<close>

type_synonym code_units = "nat list"

definition units :: "string \<Rightarrow> code_units" where
  "units s = map of_char s"

definition lower_unit :: "nat \<Rightarrow> nat" where
  "lower_unit u = (if 65 \<le> u \<and> u \<le> 90 then u + 32 else u)"

definition digit_unit :: "nat \<Rightarrow> bool" where
  "digit_unit u \<longleftrightarrow> 48 \<le> u \<and> u \<le> 57"

definition hex_unit :: "nat \<Rightarrow> bool" where
  "hex_unit u \<longleftrightarrow> digit_unit u \<or> (97 \<le> lower_unit u \<and> lower_unit u \<le> 102)"

definition unit_value :: "nat \<Rightarrow> nat" where
  "unit_value u = (if digit_unit u then u - 48 else lower_unit u - 87)"

definition units_value :: "nat \<Rightarrow> code_units \<Rightarrow> nat" where
  "units_value base us = foldl (\<lambda>n u. base * n + unit_value u) 0 us"

definition named_entities :: "(code_units \<times> nat) list" where
  "named_entities = [(units ''amp'', 38), (units ''lt'', 60), (units ''gt'', 62), (units ''quot'', 34), (units ''apos'', 39)]"

text \<open>\<open>String.fromCodePoint\<close>\<close>

definition from_code_point :: "nat \<Rightarrow> code_units" where
  "from_code_point n = (if n < 65536 then [n]
     else [55296 + (n - 65536) div 1024, 56320 + (n - 65536) mod 1024])"

text \<open>An entity without its \<open>&\<close> and \<open>;\<close>: \<open>None\<close> when the pattern does not match it.\<close>

definition entity_text :: "code_units \<Rightarrow> code_units option" where
  "entity_text e =
     (let raw = 38 # e @ [59];
          point = (\<lambda>n. Some (if 0 < n \<and> n \<le> 1114111 then from_code_point n else raw))
      in case map_of named_entities (map lower_unit e) of
           Some u \<Rightarrow> Some [u]
         | None \<Rightarrow>
             if length e \<ge> 2 \<and> e ! 0 = 35 then
               (if lower_unit (e ! 1) = 120 \<and> length e \<ge> 3 \<and> list_all hex_unit (drop 2 e) then point (units_value 16 (drop 2 e))
                else if list_all digit_unit (drop 1 e) then point (units_value 10 (drop 1 e)) else None)
             else None)"

text \<open>No alternative of the pattern contains a semicolon, so a match ends at the first one.\<close>

definition entity_at :: "code_units \<Rightarrow> (code_units \<times> code_units) option" where
  "entity_at s = (let e = takeWhile (\<lambda>u. u \<noteq> 59) s in
     case drop (length e) s of [] \<Rightarrow> None | _ # rest \<Rightarrow> map_option (\<lambda>out. (out, rest)) (entity_text e))"

lemma entity_at_shorter: "entity_at s = Some (out, rest) \<Longrightarrow> length rest < length s"
proof -
  assume "entity_at s = Some (out, rest)"
  then obtain u where "drop (length (takeWhile (\<lambda>u. u \<noteq> 59) s)) s = u # rest"
    by (auto simp: entity_at_def Let_def split: list.splits)
  then have "length (u # rest) \<le> length s" by (metis length_drop diff_le_self)
  then show ?thesis by simp
qed

function excerpt_text :: "code_units \<Rightarrow> code_units" where
  "excerpt_text [] = []"
| "excerpt_text (c # s) =
     (if c = 38 then (case entity_at s of
          None \<Rightarrow> c # excerpt_text s
        | Some (out, rest) \<Rightarrow> out @ excerpt_text rest)
      else c # excerpt_text s)"
  by pat_completeness auto
termination by (relation "measure length") (auto dest: entity_at_shorter)

section \<open>Addresses\<close>

definition safe_url_rx :: rx where
  "safe_url_rx = Seq (Lit CHR ''/'') (Seq (Opt (Word ''en/''))
     (Seq (Alt (Word ''articles'') (Alt (Word ''notes'') (Alt (Word ''topics'') (Alt (Word ''about'') (Word ''contribute'')))))
       (Seq (Lit CHR ''/'')
         (Star (Seq (Plus (Cls [(CHR ''a'', CHR ''z''), (CHR ''0'', CHR ''9''), (CHR ''-'', CHR ''-'')])) (Lit CHR ''/''))))))"

definition safe_result_url :: "string \<Rightarrow> bool" where
  "safe_result_url path = rx_test safe_url_rx path"

section \<open>The search page\<close>

record search_data =
  sd_url :: string
  sd_title :: "string option"
  sd_excerpt :: code_units

record result_row =
  rr_href :: string
  rr_text :: string
  rr_excerpt :: code_units

datatype search_status = StInitial | StHint | StSearching | StResults nat nat | StEmpty | StFailed

text \<open>Where a task waits: for the library, for the answer to its query, for the data of a page of hits.\<close>

datatype 'h search_stage = AwaitApi string | AwaitFound string | AwaitPage "'h list"

record 'h search_task =
  ta_ticket :: nat
  ta_stage :: "'h search_stage"

text \<open>\<open>sv_query\<close> is the query of the last search, kept only to say what the list is about.\<close>

record 'h search_view =
  sv_input :: string
  sv_timer :: bool
  sv_epoch :: nat
  sv_query :: string
  sv_shown :: nat
  sv_hits :: "'h list"
  sv_api :: bool
  sv_list :: "result_row list"
  sv_status :: search_status
  sv_busy :: bool
  sv_more_hidden :: bool
  sv_more_disabled :: bool
  sv_tasks :: "'h search_task list"

record 'h search_page =
  sp_found :: "string \<Rightarrow> 'h list"
  sp_data :: "'h \<Rightarrow> search_data"
  sp_locale :: site_locale
  sp_untitled :: string

definition result_row_of :: "'h search_page \<Rightarrow> search_data \<Rightarrow> result_row" where
  "result_row_of sp d = \<lparr>rr_href = localized (sd_url d) (sp_locale sp),
     rr_text = (case sd_title d of None \<Rightarrow> sp_untitled sp | Some t \<Rightarrow> if t = [] then sp_untitled sp else t),
     rr_excerpt = excerpt_text (sd_excerpt d)\<rparr>"

definition add_task :: "nat \<Rightarrow> 'h search_stage \<Rightarrow> 'h search_view \<Rightarrow> 'h search_view" where
  "add_task ticket stage v = v\<lparr>sv_tasks := sv_tasks v @ [\<lparr>ta_ticket = ticket, ta_stage = stage\<rparr>]\<rparr>"

definition show_page :: "nat \<Rightarrow> 'h search_view \<Rightarrow> 'h search_view" where
  "show_page ticket v = add_task ticket (AwaitPage (take 10 (drop (sv_shown v) (sv_hits v))))
     (v\<lparr>sv_more_disabled := True, sv_busy := True\<rparr>)"

definition search_failed :: "nat \<Rightarrow> 'h search_view \<Rightarrow> 'h search_view" where
  "search_failed ticket v = (if ticket = sv_epoch v
     then v\<lparr>sv_api := False, sv_status := StFailed, sv_busy := False\<rparr> else v)"

text \<open>\<open>load_throws\<close>: starting to load the library throws.\<close>

definition start_search :: "bool \<Rightarrow> 'h search_view \<Rightarrow> 'h search_view" where
  "start_search load_throws v =
     (let ticket = sv_epoch v + 1; query = js_trim (sv_input v);
          v = v\<lparr>sv_timer := False, sv_epoch := ticket, sv_query := query, sv_list := [], sv_more_hidden := True,
                sv_shown := 0, sv_hits := []\<rparr>
      in if query = [] then v\<lparr>sv_status := StHint, sv_busy := False\<rparr>
         else let v = v\<lparr>sv_busy := True, sv_status := StSearching\<rparr>
              in if \<not> sv_api v \<and> load_throws then search_failed ticket v
                 else add_task ticket (AwaitApi query) (v\<lparr>sv_api := True\<rparr>))"

text \<open>What happens when a task continues; \<open>ok\<close> is false for a failure or a timeout.\<close>

definition page_loaded :: "'h search_page \<Rightarrow> bool \<Rightarrow> nat \<Rightarrow> 'h list \<Rightarrow> 'h search_view \<Rightarrow> 'h search_view" where
  "page_loaded sp ok ticket hits v =
     (if ticket \<noteq> sv_epoch v then v
      else let page = map (sp_data sp) hits;
               v = (if ok \<and> list_all (\<lambda>d. safe_result_url (sd_url d)) page
                    then let shown = sv_shown v + length page; n = length (sv_hits v)
                         in v\<lparr>sv_list := sv_list v @ map (result_row_of sp) page, sv_shown := shown,
                              sv_status := (if n \<noteq> 0 then StResults n shown else StEmpty),
                              sv_more_hidden := (n \<le> shown)\<rparr>
                    else v\<lparr>sv_status := StFailed, sv_more_hidden := True, sv_api := False\<rparr>)
           in v\<lparr>sv_more_disabled := False, sv_busy := False\<rparr>)"

definition task_continues :: "'h search_page \<Rightarrow> bool \<Rightarrow> 'h search_task \<Rightarrow> 'h search_view \<Rightarrow> 'h search_view" where
  "task_continues sp ok t v =
     (let ticket = ta_ticket t in case ta_stage t of
        AwaitApi q \<Rightarrow> if ok then add_task ticket (AwaitFound q) v else search_failed ticket v
      | AwaitFound q \<Rightarrow>
          if \<not> ok then search_failed ticket v
          else if ticket \<noteq> sv_epoch v then v
          else show_page ticket (v\<lparr>sv_hits := sp_found sp q\<rparr>)
      | AwaitPage hits \<Rightarrow> page_loaded sp ok ticket hits v)"

datatype search_event =
    Typed string
  | TimerFired bool
  | Submitted bool
  | MoreClicked
  | TaskSettled nat bool

definition search_step :: "'h search_page \<Rightarrow> search_event \<Rightarrow> 'h search_view \<Rightarrow> 'h search_view" where
  "search_step sp ev v = (case ev of
     Typed s \<Rightarrow> v\<lparr>sv_input := s, sv_epoch := sv_epoch v + 1, sv_more_hidden := True, sv_timer := True\<rparr>
   | TimerFired throws \<Rightarrow> start_search throws v
   | Submitted throws \<Rightarrow> start_search throws v
   | MoreClicked \<Rightarrow> (if sv_more_disabled v then v else show_page (sv_epoch v) v)
   | TaskSettled i ok \<Rightarrow>
       task_continues sp ok (sv_tasks v ! i) (v\<lparr>sv_tasks := take i (sv_tasks v) @ drop (Suc i) (sv_tasks v)\<rparr>))"

text \<open>The timer fires once it is set, a hidden button is not clicked, tasks that exist settle.\<close>

definition search_allowed :: "search_event \<Rightarrow> 'h search_view \<Rightarrow> bool" where
  "search_allowed ev v = (case ev of
     TimerFired _ \<Rightarrow> sv_timer v | MoreClicked \<Rightarrow> \<not> sv_more_hidden v | TaskSettled i _ \<Rightarrow> i < length (sv_tasks v) | _ \<Rightarrow> True)"

definition mount_search :: "'h search_view" where
  "mount_search = \<lparr>sv_input = [], sv_timer = False, sv_epoch = 0, sv_query = [], sv_shown = 0, sv_hits = [], sv_api = False,
     sv_list = [], sv_status = StInitial, sv_busy = False, sv_more_hidden = True, sv_more_disabled = False, sv_tasks = []\<rparr>"

inductive search_runs for sp where
  mounted: "search_runs sp mount_search"
| acted: "search_runs sp v \<Longrightarrow> search_allowed ev v \<Longrightarrow> search_runs sp (search_step sp ev v)"

section \<open>Excerpts decode what was encoded\<close>

text \<open>The usual encoding of text for HTML.\<close>

definition encode_unit :: "nat \<Rightarrow> code_units" where
  "encode_unit u = (case map_of [(38, units ''&amp;''), (60, units ''&lt;''), (62, units ''&gt;''), (34, units ''&quot;''),
     (39, units ''&#39;'')] u of None \<Rightarrow> [u] | Some e \<Rightarrow> e)"

lemma excerpt_entity:
  assumes "entity_text e = Some out" and "59 \<notin> set e"
  shows "excerpt_text (38 # e @ 59 # s) = out @ excerpt_text s"
proof -
  have "takeWhile (\<lambda>u. u \<noteq> 59) (e @ 59 # s) = e" using assms(2) by (induction e) auto
  then have "entity_at (e @ 59 # s) = Some (out, s)" by (simp add: entity_at_def assms(1))
  then show ?thesis by simp
qed

lemma excerpt_encoded:
  assumes "encode_unit u = 38 # e @ [59]" and "entity_text e = Some [u]" and "59 \<notin> set e"
  shows "excerpt_text (encode_unit u @ s) = u # excerpt_text s"
  using excerpt_entity [OF assms(2,3), of s] by (simp add: assms(1) del: excerpt_text.simps)

lemma excerpt_encode_unit: "excerpt_text (encode_unit u @ s) = u # excerpt_text s"
proof -
  consider "u = 38" | "u = 60" | "u = 62" | "u = 34" | "u = 39" | "u \<notin> {38, 60, 62, 34, 39}" by blast
  then show ?thesis
  proof cases
    case 1
    show ?thesis unfolding 1 by (rule excerpt_encoded [where e = "units ''amp''"]; code_simp)
  next
    case 2
    show ?thesis unfolding 2 by (rule excerpt_encoded [where e = "units ''lt''"]; code_simp)
  next
    case 3
    show ?thesis unfolding 3 by (rule excerpt_encoded [where e = "units ''gt''"]; code_simp)
  next
    case 4
    show ?thesis unfolding 4 by (rule excerpt_encoded [where e = "units ''quot''"]; code_simp)
  next
    case 5
    have "entity_text (units ''#39'') = Some [39]"
      by (simp add: entity_text_def units_def named_entities_def lower_unit_def digit_unit_def units_value_def unit_value_def
        from_code_point_def Let_def)
    note encoded = excerpt_encoded [OF _ this]
    show ?thesis unfolding 5 by (rule encoded; code_simp)
  next
    case 6
    then show ?thesis by (simp add: encode_unit_def)
  qed
qed

text \<open>
  The excerpt shown is the text that was found: decoding what the usual encoding for HTML made of a
  text gives the text back, whatever it contains, so that nothing in it is decoded twice.
\<close>

theorem excerpt_round_trip: "excerpt_text (concat (map encode_unit us)) = us"
  by (induction us) (simp_all add: excerpt_encode_unit del: excerpt_text.simps(2))

section \<open>The list belongs to the query\<close>

definition current_tasks :: "'h search_view \<Rightarrow> 'h search_task list" where
  "current_tasks v = filter (\<lambda>t. ta_ticket t = sv_epoch v) (sv_tasks v)"

text \<open>What is shown: the first hits of the last query, by safe addresses, with a true status.\<close>

fun status_ok :: "'h search_page \<Rightarrow> string \<Rightarrow> 'h list \<Rightarrow> nat \<Rightarrow> search_status \<Rightarrow> bool" where
  "status_ok sp q hits shown (StResults n m) = (n = length hits \<and> m = shown \<and> 0 < n)"
| "status_ok sp q hits shown StEmpty = (sp_found sp q = [] \<and> q \<noteq> [])"
| "status_ok sp q hits shown StHint = (q = [])"
| "status_ok sp q hits shown StInitial = (q = [])"
| "status_ok sp q hits shown StSearching = True"
| "status_ok sp q hits shown StFailed = True"

definition shows_ok :: "'h search_page \<Rightarrow> 'h search_view \<Rightarrow> bool" where
  "shows_ok sp v \<longleftrightarrow>
     sv_shown v \<le> length (sv_hits v) \<and> (10 dvd sv_shown v \<or> sv_shown v = length (sv_hits v))
     \<and> sv_list v = map (\<lambda>h. result_row_of sp (sp_data sp h)) (take (sv_shown v) (sv_hits v))
     \<and> (\<forall>h \<in> set (take (sv_shown v) (sv_hits v)). safe_result_url (sd_url (sp_data sp h)))
     \<and> (sv_hits v = [] \<or> sv_hits v = sp_found sp (sv_query v))
     \<and> status_ok sp (sv_query v) (sv_hits v) (sv_shown v) (sv_status v)"

text \<open>What is going on: at most one task counts, and the page says so.\<close>

fun stage_ok :: "'h search_page \<Rightarrow> 'h search_view \<Rightarrow> 'h search_stage \<Rightarrow> bool" where
  "stage_ok sp v (AwaitPage hits) = (sv_hits v = sp_found sp (sv_query v) \<and> hits = take 10 (drop (sv_shown v) (sv_hits v))
     \<and> sv_more_disabled v \<and> 10 dvd sv_shown v \<and> (sv_hits v = [] \<longrightarrow> sv_query v \<noteq> []))"
| "stage_ok sp v (AwaitApi q) = (q = sv_query v \<and> q \<noteq> [] \<and> sv_hits v = [] \<and> sv_shown v = 0 \<and> sv_more_hidden v)"
| "stage_ok sp v (AwaitFound q) = (q = sv_query v \<and> q \<noteq> [] \<and> sv_hits v = [] \<and> sv_shown v = 0 \<and> sv_more_hidden v)"

definition flow_ok :: "'h search_page \<Rightarrow> 'h search_view \<Rightarrow> bool" where
  "flow_ok sp v \<longleftrightarrow>
     (\<forall>t \<in> set (sv_tasks v). ta_ticket t \<le> sv_epoch v) \<and> length (current_tasks v) \<le> 1
     \<and> (\<forall>t \<in> set (current_tasks v). stage_ok sp v (ta_stage t))
     \<and> (current_tasks v \<noteq> [] \<longrightarrow> sv_busy v \<and> \<not> sv_timer v)
     \<and> (\<not> sv_timer v \<longrightarrow> sv_query v = js_trim (sv_input v))
     \<and> (\<not> sv_timer v \<and> current_tasks v = [] \<longrightarrow> \<not> sv_busy v \<and> sv_status v \<noteq> StSearching)
     \<and> (\<not> sv_more_hidden v \<longrightarrow> \<not> sv_timer v \<and> sv_shown v < length (sv_hits v) \<and> (sv_more_disabled v \<longleftrightarrow> current_tasks v \<noteq> []))"

definition search_ok :: "'h search_page \<Rightarrow> 'h search_view \<Rightarrow> bool" where
  "search_ok sp v \<longleftrightarrow> shows_ok sp v \<and> flow_ok sp v"

lemma current_add_task:
  "current_tasks (add_task k st v) = current_tasks v @ (if k = sv_epoch v then [\<lparr>ta_ticket = k, ta_stage = st\<rparr>] else [])"
  by (simp add: current_tasks_def add_task_def)

lemma add_task_fields [simp]:
  "sv_input (add_task k st v) = sv_input v" "sv_timer (add_task k st v) = sv_timer v" "sv_epoch (add_task k st v) = sv_epoch v"
  "sv_query (add_task k st v) = sv_query v" "sv_shown (add_task k st v) = sv_shown v" "sv_hits (add_task k st v) = sv_hits v"
  "sv_list (add_task k st v) = sv_list v" "sv_status (add_task k st v) = sv_status v" "sv_busy (add_task k st v) = sv_busy v"
  "sv_more_hidden (add_task k st v) = sv_more_hidden v" "sv_more_disabled (add_task k st v) = sv_more_disabled v"
  "set (sv_tasks (add_task k st v)) = insert \<lparr>ta_ticket = k, ta_stage = st\<rparr> (set (sv_tasks v))"
  by (simp_all add: add_task_def)

lemma shows_add_task [simp]: "shows_ok sp (add_task k st v) = shows_ok sp v"
  by (simp add: shows_ok_def)

text \<open>A search starts with a new ticket, so no older task counts any more.\<close>

lemma start_search_ok:
  assumes "search_ok sp v"
  shows "search_ok sp (start_search throws v)"
proof -
  have old: "ta_ticket t \<le> sv_epoch v" if "t \<in> set (sv_tasks v)" for t
    using assms that by (simp add: search_ok_def flow_ok_def)
  then have fresh: "ta_ticket t \<noteq> Suc (sv_epoch v)" if "t \<in> set (sv_tasks v)" for t using that by force
  then have none: "filter (\<lambda>t. ta_ticket t = Suc (sv_epoch v)) (sv_tasks v) = []"
    by (simp add: filter_empty_conv)
  show ?thesis
    using old none fresh
    by (auto simp: start_search_def search_ok_def shows_ok_def flow_ok_def search_failed_def current_tasks_def
      add_task_def Let_def le_SucI)
qed

lemma typed_ok:
  assumes "search_ok sp v"
  shows "search_ok sp (v\<lparr>sv_input := s, sv_epoch := sv_epoch v + 1, sv_more_hidden := True, sv_timer := True\<rparr>)"
proof -
  have old: "ta_ticket t \<le> sv_epoch v" if "t \<in> set (sv_tasks v)" for t
    using assms that by (simp add: search_ok_def flow_ok_def)
  then have fresh: "ta_ticket t \<noteq> Suc (sv_epoch v)" if "t \<in> set (sv_tasks v)" for t using that by force
  then have none: "filter (\<lambda>t. ta_ticket t = Suc (sv_epoch v)) (sv_tasks v) = []"
    by (simp add: filter_empty_conv)
  show ?thesis
    using assms old none fresh by (auto simp: search_ok_def shows_ok_def flow_ok_def current_tasks_def le_SucI)
qed

lemma show_page_ok:
  assumes "shows_ok sp v" and "\<forall>t \<in> set (sv_tasks v). ta_ticket t \<le> sv_epoch v" and "current_tasks v = []"
    and "sv_hits v = sp_found sp (sv_query v)" "10 dvd sv_shown v" "sv_hits v = [] \<longrightarrow> sv_query v \<noteq> []"
    and "\<not> sv_timer v" "sv_query v = js_trim (sv_input v)" "\<not> sv_more_hidden v \<longrightarrow> sv_shown v < length (sv_hits v)"
  shows "search_ok sp (show_page (sv_epoch v) v)"
  using assms
  by (auto simp: search_ok_def show_page_def flow_ok_def current_add_task)
    (auto simp: shows_ok_def current_tasks_def)

text \<open>A task that does not count may only be followed by another one that does not.\<close>

lemma stale_task_ok:
  assumes "search_ok sp v" and "sv_tasks v = ts @ t # us" and "ta_ticket t \<noteq> sv_epoch v"
  shows "search_ok sp (task_continues sp ok t (v\<lparr>sv_tasks := ts @ us\<rparr>))"
proof -
  let ?v = "v\<lparr>sv_tasks := ts @ us\<rparr>"
  have cur: "current_tasks ?v = current_tasks v" using assms(2,3) by (simp add: current_tasks_def)
  have stage: "stage_ok sp ?v st = stage_ok sp v st" for st by (cases st) simp_all
  have rest: "search_ok sp ?v"
    using assms(1,2) by (simp add: search_ok_def flow_ok_def cur stage) (simp add: shows_ok_def)
  have "search_ok sp (add_task (ta_ticket t) st ?v)" for st
  proof -
    have stage': "stage_ok sp (add_task (ta_ticket t) st ?v) st' = stage_ok sp ?v st'" for st' by (cases st') simp_all
    have "current_tasks (add_task (ta_ticket t) st ?v) = current_tasks ?v"
      using assms(3) by (simp add: current_add_task)
    moreover have "ta_ticket t \<le> sv_epoch v" using assms(1,2) by (simp add: search_ok_def flow_ok_def)
    ultimately show ?thesis using rest by (simp add: search_ok_def flow_ok_def stage' del: stage_ok.simps)
  qed
  then show ?thesis
    using rest assms(3) by (simp add: task_continues_def search_failed_def page_loaded_def Let_def split: search_stage.split)
qed

lemma take_page: "take (m + length (take 10 (drop m xs))) xs = take m xs @ take 10 (drop m xs)"
  by (metis take_add take_take append_take_drop_id length_take min.idem take_all nle_le)

lemma page_count:
  "10 dvd m \<Longrightarrow> m \<le> length xs \<Longrightarrow>
    m + length (take 10 (drop m xs)) \<le> length xs
    \<and> (10 dvd m + length (take 10 (drop m xs)) \<or> m + length (take 10 (drop m xs)) = length xs)"
  by (auto simp: min_def)

lemma page_loaded_ok:
  assumes sh: "shows_ok sp v" and stage: "stage_ok sp v (AwaitPage hits)" and none: "current_tasks v = []"
    and tickets: "\<forall>t \<in> set (sv_tasks v). ta_ticket t \<le> sv_epoch v"
    and input: "\<not> sv_timer v" "sv_query v = js_trim (sv_input v)"
  shows "search_ok sp (page_loaded sp ok (sv_epoch v) hits v)"
proof -
  let ?d = "\<lambda>h. sp_data sp h"
  have hits: "sv_hits v = sp_found sp (sv_query v)" "hits = take 10 (drop (sv_shown v) (sv_hits v))" "10 dvd sv_shown v"
      "sv_hits v = [] \<longrightarrow> sv_query v \<noteq> []" and shown: "sv_shown v \<le> length (sv_hits v)"
    using stage sh by (simp_all add: shows_ok_def)
  have idle: "flow_ok sp w"
    if "sv_tasks w = sv_tasks v" "sv_epoch w = sv_epoch v" "sv_timer w = sv_timer v" "sv_input w = sv_input v"
      "sv_query w = sv_query v" "\<not> sv_busy w" "sv_status w \<noteq> StSearching" "\<not> sv_more_disabled w"
      "\<not> sv_more_hidden w \<longrightarrow> sv_shown w < length (sv_hits w)" for w
    using that tickets input none by (simp add: flow_ok_def current_tasks_def)
  show ?thesis
  proof (cases "ok \<and> list_all (\<lambda>d. safe_result_url (sd_url d)) (map ?d hits)")
    case True
    let ?n = "sv_shown v + length hits"
    let ?w = "v\<lparr>sv_list := sv_list v @ map (result_row_of sp) (map ?d hits), sv_shown := ?n,
      sv_status := (if length (sv_hits v) \<noteq> 0 then StResults (length (sv_hits v)) ?n else StEmpty),
      sv_more_hidden := (length (sv_hits v) \<le> ?n), sv_more_disabled := False, sv_busy := False\<rparr>"
    have "shows_ok sp ?w"
      using sh hits shown True page_count [OF hits(3) shown] take_page [of "sv_shown v" "sv_hits v"]
      by (auto simp: shows_ok_def list_all_iff)
    moreover have "flow_ok sp ?w" by (rule idle) simp_all
    moreover have "page_loaded sp ok (sv_epoch v) hits v = ?w" using True by (simp add: page_loaded_def Let_def)
    ultimately show ?thesis by (simp add: search_ok_def)
  next
    case False
    let ?w = "v\<lparr>sv_status := StFailed, sv_more_hidden := True, sv_api := False, sv_more_disabled := False, sv_busy := False\<rparr>"
    have "shows_ok sp ?w" using sh by (simp add: shows_ok_def)
    moreover have "flow_ok sp ?w" by (rule idle) simp_all
    moreover have "page_loaded sp ok (sv_epoch v) hits v = ?w" unfolding page_loaded_def Let_def if_not_P [OF False] by simp
    ultimately show ?thesis by (simp add: search_ok_def)
  qed
qed

lemma failed_ok:
  assumes "shows_ok sp v" "current_tasks v = []" "\<forall>t \<in> set (sv_tasks v). ta_ticket t \<le> sv_epoch v"
    "\<not> sv_timer v" "sv_query v = js_trim (sv_input v)" "sv_more_hidden v"
  shows "search_ok sp (search_failed (sv_epoch v) v)"
  using assms by (simp add: search_ok_def search_failed_def shows_ok_def flow_ok_def current_tasks_def)

lemma task_ok:
  assumes ok: "search_ok sp v" and tasks: "sv_tasks v = ts @ t # us"
  shows "search_ok sp (task_continues sp b t (v\<lparr>sv_tasks := ts @ us\<rparr>))"
proof (cases "ta_ticket t = sv_epoch v")
  case True
  let ?v = "v\<lparr>sv_tasks := ts @ us\<rparr>"
  have stage: "stage_ok sp ?v st = stage_ok sp v st" for st by (cases st) simp_all
  have one: "current_tasks ?v = []" and st: "stage_ok sp ?v (ta_stage t)"
    using ok tasks True unfolding stage by (simp_all add: search_ok_def flow_ok_def current_tasks_def)
  have cur: "current_tasks v \<noteq> []" using tasks True by (simp add: current_tasks_def)
  have v: "shows_ok sp ?v" "\<forall>t \<in> set (sv_tasks ?v). ta_ticket t \<le> sv_epoch ?v" "\<not> sv_timer ?v" "sv_query ?v = js_trim (sv_input ?v)"
    "\<not> sv_more_hidden ?v \<longrightarrow> sv_shown ?v < length (sv_hits ?v)"
    using ok tasks cur by ((simp add: search_ok_def shows_ok_def)?, simp_all add: search_ok_def flow_ok_def)
  have ticket: "ta_ticket t = sv_epoch ?v" using True by simp
  show ?thesis
  proof (cases "ta_stage t")
    case (AwaitApi q)
    have "search_ok sp (add_task (sv_epoch ?v) (AwaitFound q) ?v)"
      using v one st AwaitApi cur ok by (auto simp: search_ok_def flow_ok_def current_add_task)
    moreover have "search_ok sp (search_failed (sv_epoch ?v) ?v)"
      by (rule failed_ok [OF v(1) one v(2,3,4)]) (use st AwaitApi in simp)
    ultimately show ?thesis unfolding task_continues_def ticket Let_def AwaitApi by simp
  next
    case (AwaitFound q)
    let ?w = "?v\<lparr>sv_hits := sp_found sp q\<rparr>"
    have q: "q = sv_query v" "q \<noteq> []" "sv_shown v = 0" "sv_more_hidden v" "sv_hits v = []" using st AwaitFound by auto
    have status: "sv_status v = StSearching \<or> sv_status v = StFailed \<or> status_ok sp (sv_query v) (sp_found sp q) 0 (sv_status v)"
      using ok q by (cases "sv_status v") (auto simp: search_ok_def shows_ok_def)
    have "search_ok sp (show_page (sv_epoch ?w) ?w)"
    proof (rule show_page_ok)
      show "shows_ok sp ?w" using v(1) q status by (auto simp: shows_ok_def)
    qed (use v one q in \<open>simp_all add: current_tasks_def\<close>)
    moreover have "search_ok sp (search_failed (sv_epoch ?v) ?v)"
      by (rule failed_ok [OF v(1) one v(2,3,4)]) (use q in simp)
    ultimately show ?thesis using True unfolding task_continues_def Let_def AwaitFound by simp
  next
    case (AwaitPage hits)
    have "search_ok sp (page_loaded sp b (sv_epoch ?v) hits ?v)"
      by (rule page_loaded_ok [OF v(1) _ one v(2,3,4)]) (use st AwaitPage in simp)
    then show ?thesis unfolding task_continues_def ticket Let_def AwaitPage by simp
  qed
qed (rule stale_task_ok [OF assms])

lemma search_step_ok:
  assumes ok: "search_ok sp v" and "search_allowed ev v"
  shows "search_ok sp (search_step sp ev v)"
proof (cases ev)
  case MoreClicked
  show ?thesis
  proof (cases "sv_more_disabled v")
    case False
    have v: "\<not> sv_more_hidden v" using assms(2) MoreClicked by (simp add: search_allowed_def)
    then have "current_tasks v = []" "\<not> sv_timer v" "sv_shown v < length (sv_hits v)"
      using ok False by (simp_all add: search_ok_def flow_ok_def)
    moreover have "sv_hits v = sp_found sp (sv_query v)" "10 dvd sv_shown v" "sv_hits v \<noteq> []"
      using ok calculation(3) by (auto simp: search_ok_def shows_ok_def)
    ultimately have "search_ok sp (show_page (sv_epoch v) v)"
      using ok by (intro show_page_ok) (simp_all add: search_ok_def flow_ok_def)
    then show ?thesis using False by (simp add: MoreClicked search_step_def)
  qed (use ok in \<open>simp add: MoreClicked search_step_def\<close>)
next
  case (TaskSettled i b)
  then have "i < length (sv_tasks v)" using assms(2) by (simp add: search_allowed_def)
  then show ?thesis
    using task_ok [OF ok id_take_nth_drop] by (simp add: TaskSettled search_step_def)
qed (use ok typed_ok start_search_ok in \<open>simp_all add: search_step_def\<close>)

lemma search_runs_ok: "search_runs sp v \<Longrightarrow> search_ok sp v"
proof (induction rule: search_runs.induct)
  case mounted
  have "js_trim [] = []" by code_simp
  then show ?case by (simp add: mount_search_def search_ok_def shows_ok_def flow_ok_def current_tasks_def)
qed (rule search_step_ok)

text \<open>The steps a task still has to go: every task that settles gets closer to the end.\<close>

definition stage_rank :: "'h search_stage \<Rightarrow> nat" where
  "stage_rank st = (case st of AwaitApi _ \<Rightarrow> 3 | AwaitFound _ \<Rightarrow> 2 | AwaitPage _ \<Rightarrow> 1)"

definition search_rank :: "'h search_view \<Rightarrow> nat" where
  "search_rank v = sum_list (map (stage_rank \<circ> ta_stage) (sv_tasks v))"

lemma task_rank:
  assumes "sv_tasks v = ts @ t # us"
  shows "search_rank (task_continues sp b t (v\<lparr>sv_tasks := ts @ us\<rparr>)) < search_rank v"
  using assms
  by (cases "ta_stage t")
    (simp_all add: search_rank_def task_continues_def search_failed_def page_loaded_def show_page_def add_task_def
      stage_rank_def Let_def)

definition idle_search :: "'h search_view \<Rightarrow> bool" where
  "idle_search v \<longleftrightarrow> \<not> sv_timer v \<and> current_tasks v = []"

text \<open>
  C40. The search page shows results of the text in its field: in every state its list is the first hits
  of the last query, of which only whole pages of ten or all are shown, every link is a safe address
  of the site, and a count in the status is the true one. Answers to queries that were overtaken change
  nothing. When nothing is awaited any more the query is the text of the field and the page neither
  waits nor says so; every task that settles brings this closer, so waiting ends.
\<close>

theorem search_shows_query:
  assumes "search_runs sp v"
  shows "sv_list v = map (\<lambda>h. result_row_of sp (sp_data sp h)) (take (sv_shown v) (sv_hits v))
    \<and> (sv_hits v = [] \<or> sv_hits v = sp_found sp (sv_query v)) \<and> (10 dvd sv_shown v \<or> sv_shown v = length (sv_hits v))
    \<and> (\<forall>h \<in> set (take (sv_shown v) (sv_hits v)). safe_result_url (sd_url (sp_data sp h)))
    \<and> (\<forall>n m. sv_status v = StResults n m \<longrightarrow> n = length (sp_found sp (sv_query v)) \<and> m = length (sv_list v))
    \<and> (sv_status v = StEmpty \<longrightarrow> sp_found sp (sv_query v) = [])
    \<and> (idle_search v \<longrightarrow> sv_query v = js_trim (sv_input v) \<and> \<not> sv_busy v \<and> sv_status v \<noteq> StSearching)
    \<and> (\<not> sv_more_hidden v \<longrightarrow> length (sv_list v) < length (sp_found sp (sv_query v)) \<and> (idle_search v \<longrightarrow> \<not> sv_more_disabled v))
    \<and> (\<forall>i b. i < length (sv_tasks v) \<longrightarrow>
        search_rank (search_step sp (TaskSettled i b) v) < search_rank v
        \<and> (ta_ticket (sv_tasks v ! i) \<noteq> sv_epoch v \<longrightarrow>
            sv_list (search_step sp (TaskSettled i b) v) = sv_list v \<and> sv_status (search_step sp (TaskSettled i b) v) = sv_status v))"
proof -
  have ok: "shows_ok sp v" "flow_ok sp v" using search_runs_ok [OF assms] by (simp_all add: search_ok_def)
  have results: "n = length (sp_found sp (sv_query v)) \<and> m = length (sv_list v)" if "sv_status v = StResults n m" for n m
    using ok(1) that by (auto simp: shows_ok_def)
  have empty: "sp_found sp (sv_query v) = []" if "sv_status v = StEmpty" using ok(1) that by (simp add: shows_ok_def)
  have idle: "sv_query v = js_trim (sv_input v) \<and> \<not> sv_busy v \<and> sv_status v \<noteq> StSearching" if "idle_search v"
    using ok(2) that by (simp add: flow_ok_def idle_search_def)
  have more: "length (sv_list v) < length (sp_found sp (sv_query v)) \<and> (idle_search v \<longrightarrow> \<not> sv_more_disabled v)"
    if "\<not> sv_more_hidden v"
    using ok that by (auto simp: shows_ok_def flow_ok_def idle_search_def)
  have rank: "search_rank (search_step sp (TaskSettled i b) v) < search_rank v" if "i < length (sv_tasks v)" for i b
    using task_rank [OF id_take_nth_drop [OF that]] by (simp add: search_step_def)
  have stale: "sv_list (search_step sp (TaskSettled i b) v) = sv_list v \<and> sv_status (search_step sp (TaskSettled i b) v) = sv_status v"
    if "ta_ticket (sv_tasks v ! i) \<noteq> sv_epoch v" for i b
    using that by (simp add: search_step_def task_continues_def search_failed_def page_loaded_def Let_def split: search_stage.split)
  show ?thesis
    using ok(1) results empty idle more rank stale unfolding shows_ok_def by blast
qed

definition sample_search :: "nat search_page" where
  "sample_search = \<lparr>sp_found = (\<lambda>q. if q = ''go'' then [1, 2] else []),
     sp_data = (\<lambda>h. \<lparr>sd_url = ''/notes/go/'', sd_title = None, sd_excerpt = units ''a &lt; b''\<rparr>),
     sp_locale = En, sp_untitled = ''Read''\<rparr>"

definition searched :: "nat search_view" where
  "searched = fold (search_step sample_search)
     [Typed ''go '', TimerFired False, TaskSettled 0 True, TaskSettled 0 True, TaskSettled 0 True] mount_search"

theorem search_shows_query_witness:
  "sv_list searched = map (result_row_of sample_search \<circ> sp_data sample_search) [1, 2]"
proof -
  have run: "search_runs sample_search searched"
    unfolding searched_def fold_simps comp_def id_def
    by (intro search_runs.acted search_runs.mounted; code_simp)
  note shown = search_shows_query [OF run]
  have "sv_status searched = StResults 2 2" by code_simp
  moreover have found: "sp_found sample_search (sv_query searched) = [1, 2]" by code_simp
  moreover have "\<forall>n m. sv_status searched = StResults n m \<longrightarrow> m = length (sv_list searched)" using shown by blast
  ultimately have "length (sv_list searched) = 2" by simp
  moreover have "sv_list searched = map (\<lambda>h. result_row_of sample_search (sp_data sample_search h))
      (take (sv_shown searched) (sv_hits searched))" using shown by blast
  moreover have "sv_hits searched = [] \<or> sv_hits searched = [1, 2]" using shown found by argo
  ultimately show ?thesis by auto
qed

end
