(* ===== verification/Reading.thy ===== *)
theory Reading
  imports JsPrelude
begin

text \<open>
  \<open>apps/web/src/lib/publication/reading.ts\<close>: the one transformation of the tree of a rendered article:
  images load lazily and without a referrer, links that leave the site do not hand over their window,
  tables scroll and code blocks get a toolbar. The walk replaces the children of a node in place, which
  on a tree is the map below.
\<close>

section \<open>The transformation\<close>

datatype prop_value = PText string | PList "string list" | PInt int | PBool bool | PUndefined

text \<open>\<open>String(value)\<close>\<close>

fun prop_string :: "prop_value \<Rightarrow> string" where
  "prop_string (PText s) = s"
| "prop_string (PList ss) = js_join '','' ss"
| "prop_string (PInt i) = js_int i"
| "prop_string (PBool b) = (if b then ''true'' else ''false'')"
| "prop_string PUndefined = ''undefined''"

text \<open>\<open>node.properties?.[key]\<close>, and whether it counts as true\<close>

type_synonym node_props = "(string \<times> prop_value) list"

datatype hnode = HNode (node_type: string) (node_tag: "string option") (node_value: "string option")
  (node_properties: "node_props option") (node_children: "hnode list option")

definition prop_of :: "node_props option \<Rightarrow> string \<Rightarrow> prop_value" where
  "prop_of ps k = (case ps of None \<Rightarrow> PUndefined | Some m \<Rightarrow> (case map_of m k of None \<Rightarrow> PUndefined | Some v \<Rightarrow> v))"

fun prop_true :: "prop_value \<Rightarrow> bool" where
  "prop_true (PText s) = (s \<noteq> [])"
| "prop_true (PList ss) = True"
| "prop_true (PInt i) = (i \<noteq> 0)"
| "prop_true (PBool b) = b"
| "prop_true PUndefined = False"

text \<open>\<open>{ ...properties, key: value }\<close>\<close>

definition set_props :: "node_props \<Rightarrow> node_props option \<Rightarrow> node_props option" where
  "set_props new ps = Some (fold (\<lambda>(k, v). AList.update k v) new (case ps of None \<Rightarrow> [] | Some m \<Rightarrow> m))"

definition text_node :: "string \<Rightarrow> hnode" where
  "text_node v = HNode ''text'' None (Some v) None None"

definition element_node :: "string \<Rightarrow> node_props \<Rightarrow> hnode list \<Rightarrow> hnode" where
  "element_node tag ps ch = HNode ''element'' (Some tag) None (Some ps) (Some ch)"

definition external_link :: "prop_value \<Rightarrow> bool" where
  "external_link v \<longleftrightarrow> prefix ''http:'' (prop_string v) \<or> prefix ''https:'' (prop_string v)"

definition image_props :: node_props where
  "image_props = [(''loading'', PText ''lazy''), (''decoding'', PText ''async''), (''referrerPolicy'', PText ''no-referrer'')]"

definition link_props :: node_props where
  "link_props = [(''rel'', PList [''noopener'', ''noreferrer''])]"

definition safe_props :: "string option \<Rightarrow> node_props option \<Rightarrow> node_props option" where
  "safe_props tag ps =
     (let ps = (if tag = Some ''img'' then set_props image_props ps else ps)
      in if tag = Some ''a'' \<and> external_link (prop_of ps ''href'') then set_props link_props ps else ps)"

text \<open>\<open>copy\<close> and \<open>copyLabel\<close> are the words on the button.\<close>

definition code_language :: "node_props option \<Rightarrow> string" where
  "code_language ps = prop_string
     (if prop_true (prop_of ps ''dataLanguage'') then prop_of ps ''dataLanguage''
      else if prop_true (prop_of ps ''data-language'') then prop_of ps ''data-language'' else PText ''text'')"

definition code_toolbar :: "string \<Rightarrow> string \<Rightarrow> node_props option \<Rightarrow> hnode" where
  "code_toolbar copy copy_label ps = element_node ''div'' [(''className'', PList [''code-toolbar''])]
     [element_node ''span'' [] [text_node (code_language ps)],
      element_node ''button'' [(''type'', PText ''button''), (''data-copy-code'', PText []), (''ariaLabel'', PText copy_label)]
        [text_node copy]]"

definition wrap_node :: "string \<Rightarrow> string \<Rightarrow> string \<Rightarrow> hnode \<Rightarrow> hnode" where
  "wrap_node table_label copy copy_label n =
     (if node_tag n = Some ''table'' then
        element_node ''div'' [(''className'', PList [''table-scroll'']), (''tabIndex'', PInt 0), (''role'', PText ''region''),
          (''ariaLabel'', PText table_label)] [n]
      else if node_tag n = Some ''pre'' then
        element_node ''div'' [(''className'', PList [''code-block''])] [code_toolbar copy copy_label (node_properties n), n]
      else n)"

fun enhance_node :: "string \<Rightarrow> string \<Rightarrow> string \<Rightarrow> hnode \<Rightarrow> hnode" where
  "enhance_node tbl cp cl (HNode ty tag v ps ch) =
     wrap_node tbl cp cl (HNode ty tag v (safe_props tag ps) (map_option (map (enhance_node tbl cp cl)) ch))"

definition reading_enhancements :: "string \<Rightarrow> string \<Rightarrow> string \<Rightarrow> hnode \<Rightarrow> hnode" where
  "reading_enhancements tbl cp cl t = (case t of HNode ty tag v ps ch \<Rightarrow>
     HNode ty tag v ps (map_option (map (enhance_node tbl cp cl)) ch))"

section \<open>Everything below the root is safe and nothing is lost\<close>

definition children :: "hnode \<Rightarrow> hnode list" where
  "children n = (case node_children n of None \<Rightarrow> [] | Some ns \<Rightarrow> ns)"

text \<open>All nodes of a tree, in order.\<close>

fun all_nodes :: "hnode \<Rightarrow> hnode list" where
  "all_nodes (HNode ty tag v ps ch) =
     HNode ty tag v ps ch # (case ch of None \<Rightarrow> [] | Some ns \<Rightarrow> concat (map all_nodes ns))"

definition node_texts :: "hnode \<Rightarrow> string list" where
  "node_texts n = concat (map (\<lambda>m. if node_type m = ''text'' then (case node_value m of None \<Rightarrow> [] | Some v \<Rightarrow> [v]) else [])
     (all_nodes n))"

definition code_blocks :: "hnode list \<Rightarrow> nat" where
  "code_blocks ns = length (filter (\<lambda>m. node_tag m = Some ''pre'') ns)"

definition safe_node :: "hnode \<Rightarrow> bool" where
  "safe_node n \<longleftrightarrow>
     (node_tag n = Some ''img'' \<longrightarrow> prop_of (node_properties n) ''loading'' = PText ''lazy''
        \<and> prop_of (node_properties n) ''referrerPolicy'' = PText ''no-referrer'')
     \<and> (node_tag n = Some ''a'' \<and> external_link (prop_of (node_properties n) ''href'') \<longrightarrow>
        prop_of (node_properties n) ''rel'' = PList [''noopener'', ''noreferrer''])"

lemma prop_of_set:
  "prop_of (set_props image_props ps) k = (if k = ''referrerPolicy'' then PText ''no-referrer''
     else if k = ''decoding'' then PText ''async'' else if k = ''loading'' then PText ''lazy'' else prop_of ps k)"
  "prop_of (set_props link_props ps) k = (if k = ''rel'' then PList [''noopener'', ''noreferrer''] else prop_of ps k)"
  by (auto simp: prop_of_def set_props_def image_props_def link_props_def split: option.split)

lemma safe_props_node: "safe_node (HNode ty tag v (safe_props tag ps) ch)"
  by (auto simp: safe_node_def safe_props_def prop_of_set)

lemma code_toolbar_safe: "n \<in> set (all_nodes (code_toolbar cp cl ps)) \<Longrightarrow> safe_node n"
  by (auto simp: code_toolbar_def element_node_def text_node_def safe_node_def)

lemma wrap_nodes:
  assumes "\<forall>m \<in> set (all_nodes n). safe_node m"
  shows "\<forall>m \<in> set (all_nodes (wrap_node tbl cp cl n)). safe_node m"
  using assms code_toolbar_safe by (auto simp: wrap_node_def element_node_def safe_node_def)

lemma enhanced_safe: "\<forall>m \<in> set (all_nodes (enhance_node tbl cp cl n)). safe_node m"
proof (induction n)
  case (HNode ty tag v ps ch)
  have "\<forall>m \<in> set (all_nodes (HNode ty tag v (safe_props tag ps) (map_option (map (enhance_node tbl cp cl)) ch))). safe_node m"
    using HNode safe_props_node by (auto split: option.split)
  then show ?case unfolding enhance_node.simps by (rule wrap_nodes)
qed

lemma concat_texts: "concat (map g (concat (map f ns))) = concat (map (\<lambda>n. concat (map g (f n))) ns)"
  by (induction ns) simp_all

lemma node_texts_node:
  "node_texts (HNode ty tag v qs c) = (if ty = ''text'' then (case v of None \<Rightarrow> [] | Some v \<Rightarrow> [v]) else [])
     @ (case c of None \<Rightarrow> [] | Some ns \<Rightarrow> concat (map node_texts ns))"
  by (cases c) (simp_all add: node_texts_def [abs_def] concat_texts)

lemma enhanced_texts: "subseq (node_texts n) (node_texts (enhance_node tbl cp cl n))"
proof (induction n)
  case (HNode ty tag v ps ch)
  let ?n = "HNode ty tag v (safe_props tag ps) (map_option (map (enhance_node tbl cp cl)) ch)"
  have "subseq (concat (map node_texts ns)) (concat (map node_texts (map (enhance_node tbl cp cl) ns)))"
    if "\<And>m. m \<in> set ns \<Longrightarrow> subseq (node_texts m) (node_texts (enhance_node tbl cp cl m))" for ns
    using that by (induction ns) (simp_all add: list_emb_append_mono)
  then have "subseq (node_texts (HNode ty tag v ps ch)) (node_texts ?n)"
    using HNode unfolding node_texts_node by (auto intro!: list_emb_append_mono split: option.split)
  moreover have "subseq (node_texts m) (node_texts (wrap_node tbl cp cl m))" for m
    by (auto simp: wrap_node_def element_node_def node_texts_def intro!: subseq_drop_many)
  ultimately show ?case using subseq_order.trans by fastforce
qed

text \<open>
  Whatever the tree: below its root every image loads lazily and sends no referrer, every link to
  another site gives up its window, and every text is still there, in the same order.
\<close>

theorem reading_safe:
  "(\<forall>c \<in> set (children (reading_enhancements tbl cp cl t)). \<forall>m \<in> set (all_nodes c). safe_node m)
    \<and> subseq (node_texts t) (node_texts (reading_enhancements tbl cp cl t))
    \<and> length (children (reading_enhancements tbl cp cl t)) = length (children t)"
proof (cases t)
  case (HNode ty tag v ps ch)
  have "subseq (concat (map node_texts ns)) (concat (map node_texts (map (enhance_node tbl cp cl) ns)))" for ns
    by (induction ns) (simp_all add: list_emb_append_mono enhanced_texts)
  then have "subseq (node_texts t) (node_texts (reading_enhancements tbl cp cl t))"
    unfolding HNode by (cases ch) (simp_all add: reading_enhancements_def node_texts_node list_emb_append_mono)
  moreover have "\<forall>c \<in> set (children (reading_enhancements tbl cp cl t)). \<forall>m \<in> set (all_nodes c). safe_node m"
    using enhanced_safe unfolding HNode by (cases ch) (auto simp: reading_enhancements_def children_def)
  moreover have "length (children (reading_enhancements tbl cp cl t)) = length (children t)"
    unfolding HNode by (cases ch) (simp_all add: reading_enhancements_def children_def)
  ultimately show ?thesis by blast
qed

end
