(* ===== verification/NotePagination.thy ===== *)
theory NotePagination
  imports JsPrelude
begin

text \<open>
  \<open>apps/web/src/lib/note-pagination.ts\<close>: the pages of a list of notes that is already on the page, and
  the height that is reserved for them. Heights come from the layout and are arguments; the fade-in of
  a page is left out.
\<close>

section \<open>The pages\<close>

record paging =
  pa_size :: nat
  pa_items :: nat
  pa_page :: nat
  pa_width :: int
  pa_disposed :: bool
  pa_hidden :: "bool list"
  pa_prev_disabled :: bool
  pa_next_disabled :: bool
  pa_label :: string
  pa_min_height :: "nat option"
  pa_has_list :: bool

definition paging_total :: "paging \<Rightarrow> nat" where
  "paging_total p = max 1 ((pa_items p + pa_size p - 1) div pa_size p)"

definition show_items :: "paging \<Rightarrow> paging" where
  "show_items p = p\<lparr>pa_hidden := map (\<lambda>i. i div pa_size p \<noteq> pa_page p) [0..<pa_items p]\<rparr>"

definition render_paging :: "paging \<Rightarrow> paging" where
  "render_paging p = (show_items p)\<lparr>
     pa_prev_disabled := (pa_page p = 0), pa_next_disabled := (Suc (pa_page p) = paging_total p),
     pa_label := js_decimal (pa_page p + 1) @ '' / '' @ js_decimal (paging_total p)\<rparr>"

text \<open>The heights of the items, as natural numbers of pixels, added up page by page.\<close>

definition page_heights :: "paging \<Rightarrow> (nat \<Rightarrow> nat) \<Rightarrow> nat list" where
  "page_heights p height = fold (\<lambda>i hs. hs[i div pa_size p := hs ! (i div pa_size p) + height i])
     [0..<pa_items p] (replicate (paging_total p) 0)"

definition measure_paging :: "int \<Rightarrow> (nat \<Rightarrow> nat) \<Rightarrow> paging \<Rightarrow> paging" where
  "measure_paging width height p =
     (if pa_disposed p \<or> \<not> pa_has_list p \<or> paging_total p = 1 then p
      else let p = p\<lparr>pa_width := width\<rparr>
           in if width = 0 then p
              else (show_items p)\<lparr>pa_min_height := Some (Max (set (page_heights p height)))\<rparr>)"

definition resize_paging :: "int \<Rightarrow> (nat \<Rightarrow> nat) \<Rightarrow> paging \<Rightarrow> paging" where
  "resize_paging width height p =
     (if pa_has_list p \<and> width \<noteq> pa_width p then measure_paging width height p else p)"

text \<open>A size that is no number, or zero, counts as four.\<close>

definition mount_paging :: "nat option \<Rightarrow> nat \<Rightarrow> bool \<Rightarrow> int \<Rightarrow> (nat \<Rightarrow> nat) \<Rightarrow> paging" where
  "mount_paging paged items has_list width height = measure_paging width height (render_paging
     \<lparr>pa_size = (case paged of None \<Rightarrow> 4 | Some n \<Rightarrow> if n = 0 then 4 else n), pa_items = items, pa_page = 0, pa_width = -1,
      pa_disposed = False, pa_hidden = [], pa_prev_disabled = False, pa_next_disabled = False, pa_label = [],
      pa_min_height = None, pa_has_list = has_list\<rparr>)"

datatype paging_event = PreviousPage | NextPage | Resized int "nat \<Rightarrow> nat" | FontsReady int "nat \<Rightarrow> nat" | DisposePaging

definition paging_step :: "paging_event \<Rightarrow> paging \<Rightarrow> paging" where
  "paging_step ev p = (case ev of
     PreviousPage \<Rightarrow> if pa_disposed p then p else render_paging (p\<lparr>pa_page := pa_page p - 1\<rparr>)
   | NextPage \<Rightarrow> if pa_disposed p then p else render_paging (p\<lparr>pa_page := min (paging_total p - 1) (pa_page p + 1)\<rparr>)
   | Resized w h \<Rightarrow> if pa_disposed p \<or> paging_total p = 1 then p else resize_paging w h p
   | FontsReady w h \<Rightarrow> if paging_total p = 1 then p else measure_paging w h p
   | DisposePaging \<Rightarrow> p\<lparr>pa_disposed := True, pa_min_height := None\<rparr>)"

section \<open>Every note is on one page\<close>

definition paging_ok :: "paging \<Rightarrow> bool" where
  "paging_ok p \<longleftrightarrow> pa_size p > 0 \<and> pa_page p < paging_total p
     \<and> pa_hidden p = map (\<lambda>i. i div pa_size p \<noteq> pa_page p) [0..<pa_items p]
     \<and> pa_prev_disabled p = (pa_page p = 0) \<and> pa_next_disabled p = (Suc (pa_page p) = paging_total p)
     \<and> (pa_disposed p \<longrightarrow> pa_min_height p = None)"

lemma paging_total_same [simp]:
  "paging_total (p\<lparr>pa_page := n\<rparr>) = paging_total p" "paging_total (p\<lparr>pa_width := w\<rparr>) = paging_total p"
  "paging_total (p\<lparr>pa_hidden := h\<rparr>) = paging_total p"
  by (simp_all add: paging_total_def)

lemma paging_total_pos: "0 < paging_total p"
  by (simp add: paging_total_def)

lemma render_paging_ok:
  "pa_size p > 0 \<Longrightarrow> pa_page p < paging_total p \<Longrightarrow> (pa_disposed p \<longrightarrow> pa_min_height p = None) \<Longrightarrow> paging_ok (render_paging p)"
  by (simp add: paging_ok_def render_paging_def show_items_def paging_total_def)

lemma measure_paging_ok: "paging_ok p \<Longrightarrow> paging_ok (measure_paging w h p)"
  by (simp add: paging_ok_def measure_paging_def show_items_def paging_total_def Let_def)

lemma paging_step_ok:
  assumes "paging_ok p"
  shows "paging_ok (paging_step ev p)"
proof -
  have p: "pa_size p > 0" "pa_page p < paging_total p" "pa_disposed p \<longrightarrow> pa_min_height p = None"
    using assms by (simp_all add: paging_ok_def)
  have "paging_ok (render_paging (p\<lparr>pa_page := n\<rparr>))" if "n < paging_total p" for n
    by (rule render_paging_ok) (use p that in simp_all)
  moreover have "pa_page p - 1 < paging_total p" "min (paging_total p - 1) (pa_page p + 1) < paging_total p"
    using p(2) paging_total_pos [of p] by simp_all
  moreover have "paging_ok (p\<lparr>pa_disposed := True, pa_min_height := None\<rparr>)"
    using assms by (simp add: paging_ok_def paging_total_def)
  ultimately show ?thesis
    using assms measure_paging_ok by (simp add: paging_step_def resize_paging_def split: paging_event.split)
qed

lemma mount_paging_ok: "paging_ok (mount_paging paged items has_list w h)"
  unfolding mount_paging_def
  by (intro measure_paging_ok render_paging_ok) (simp_all add: paging_total_def split: option.split)

text \<open>The items of a page are consecutive, and every item has a page in range.\<close>

lemma item_page: "pa_size p > 0 \<Longrightarrow> i < pa_items p \<Longrightarrow> i div pa_size p < paging_total p"
proof -
  assume "pa_size p > 0" "i < pa_items p"
  then have "i div pa_size p \<le> (pa_items p - 1) div pa_size p" by (intro div_le_mono) simp
  also have "\<dots> < (pa_items p - 1) div pa_size p + 1" by simp
  also have "\<dots> = (pa_items p - 1 + pa_size p) div pa_size p" using \<open>pa_size p > 0\<close> by (simp add: div_add_self2)
  also have "pa_items p - 1 + pa_size p = pa_items p + pa_size p - 1" using \<open>i < pa_items p\<close> by linarith
  finally show ?thesis by (simp add: paging_total_def)
qed

lemma fold_heights:
  "length (hs :: nat list) = n \<Longrightarrow> (\<forall>i \<in> set is. i div s < n) \<Longrightarrow> k < n \<Longrightarrow>
    length (fold (\<lambda>i hs. hs[i div s := hs ! (i div s) + h i]) is hs) = n
    \<and> fold (\<lambda>i hs. hs[i div s := hs ! (i div s) + h i]) is hs ! k
      = hs ! k + sum_list (map h (filter (\<lambda>i. i div s = k) is))"
  by (induction "is" arbitrary: hs) (auto simp: nth_list_update add.assoc)

lemma page_heights_nth:
  assumes "pa_size p > 0" and "k < paging_total p"
  shows "length (page_heights p h) = paging_total p"
    and "page_heights p h ! k = sum_list (map h (filter (\<lambda>i. i div pa_size p = k) [0..<pa_items p]))"
  using fold_heights [of "replicate (paging_total p) 0" "paging_total p" "[0..<pa_items p]" "pa_size p" k h] item_page [OF assms(1)]
    assms(2) by (simp_all add: page_heights_def)

text \<open>
  However the pages are turned, exactly the notes of the page are visible, the page is in range, each
  note is on one page, the buttons stop at both ends, and the height that is reserved is that of the
  highest page, so that turning a page moves nothing below the list.
\<close>

theorem note_pages_correct:
  assumes "p = fold paging_step evs (mount_paging paged items has_list w h)"
  shows "pa_page p < paging_total p
    \<and> (\<forall>i < pa_items p. pa_hidden p ! i \<longleftrightarrow> i div pa_size p \<noteq> pa_page p)
    \<and> (\<forall>i < pa_items p. i div pa_size p < paging_total p)
    \<and> (pa_prev_disabled p \<longleftrightarrow> pa_page p = 0) \<and> (pa_next_disabled p \<longleftrightarrow> Suc (pa_page p) = paging_total p)
    \<and> (\<forall>w' h' n. w' \<noteq> 0 \<longrightarrow> \<not> pa_disposed p \<longrightarrow> pa_has_list p \<longrightarrow> 1 < paging_total p \<longrightarrow> n < paging_total p \<longrightarrow>
        (case pa_min_height (measure_paging w' h' p) of None \<Rightarrow> False
         | Some m \<Rightarrow> sum_list (map h' (filter (\<lambda>i. i div pa_size p = n) [0..<pa_items p])) \<le> m))"
proof -
  have ok: "paging_ok p" unfolding assms
    by (rule fold_invariant_set [where I = paging_ok]) (simp_all add: mount_paging_ok paging_step_ok)
  then have size: "pa_size p > 0" by (simp add: paging_ok_def)
  have high: "case pa_min_height (measure_paging w' h' p) of None \<Rightarrow> False
         | Some m \<Rightarrow> sum_list (map h' (filter (\<lambda>i. i div pa_size p = n) [0..<pa_items p])) \<le> m"
    if c: "w' \<noteq> 0" "\<not> pa_disposed p" "pa_has_list p" "1 < paging_total p" "n < paging_total p" for w' h' n
  proof -
    have same: "page_heights (p\<lparr>pa_width := w'\<rparr>) h' = page_heights p h'" by (simp add: page_heights_def)
    have "page_heights p h' ! n \<in> set (page_heights p h')"
      using page_heights_nth(1) [OF size c(5), of h'] c(5) by (intro nth_mem) simp
    then have "page_heights p h' ! n \<le> Max (set (page_heights p h'))" by simp
    then show ?thesis using c page_heights_nth(2) [OF size c(5), of h'] by (simp add: measure_paging_def Let_def same)
  qed
  show ?thesis
  proof (intro conjI allI impI)
    fix w' :: int and h' n
    assume "w' \<noteq> 0" "\<not> pa_disposed p" "pa_has_list p" "1 < paging_total p" "n < paging_total p"
    then show "case pa_min_height (measure_paging w' h' p) of None \<Rightarrow> False
         | Some m \<Rightarrow> sum_list (map h' (filter (\<lambda>i. i div pa_size p = n) [0..<pa_items p])) \<le> m" by (rule high)
  qed (use ok item_page [OF size] in \<open>simp_all add: paging_ok_def\<close>)
qed

end
