(* ===== verification/Navigation.thy ===== *)
theory Navigation
  imports JsPrelude
begin

text \<open>
  \<open>apps/admin/src/components/admin/navigation.ts\<close>: the navigation of the editorial system, which of it
  a user sees, and which entry is marked as the present one. Labels and icons are left out; an
  address is its path and, for the lists of content, the type in its query.
\<close>

datatype permission = CreateTopic | UploadAssets | ManageTaxonomy | Review | ManageUsers | EditOwnProfile
  | RetryBuild | ViewAudit | ViewMonitor

record nav_item =
  nav_path :: string
  nav_type :: "string option"
  nav_permission :: "permission option"
  nav_external :: bool

definition nav :: "string \<Rightarrow> string option \<Rightarrow> permission option \<Rightarrow> nav_item" where
  "nav path type perm = \<lparr>nav_path = path, nav_type = type, nav_permission = perm, nav_external = False\<rparr>"

definition navigation :: "nav_item list list" where
  "navigation =
     [[nav ''/'' None None],
      [nav ''/content'' (Some ''curated_article'') None, nav ''/content'' (Some ''topic'') (Some CreateTopic),
       nav ''/content'' (Some ''note'') None],
      [nav ''/assets'' None (Some UploadAssets), nav ''/note-groups'' None (Some ManageTaxonomy),
       nav ''/tags'' None (Some ManageTaxonomy)],
      [nav ''/reviews'' None (Some Review), nav ''/reviews/history'' None (Some Review)],
      [nav ''/users'' None (Some ManageUsers), nav ''/authors'' None None, nav ''/profile'' None (Some EditOwnProfile)],
      [nav ''/publication'' None (Some RetryBuild), nav ''/audit'' None (Some ViewAudit),
       (nav ''/ops/monitor'' None (Some ViewMonitor))\<lparr>nav_external := True\<rparr>]]"

definition may_see :: "(permission \<Rightarrow> bool) \<Rightarrow> nav_item \<Rightarrow> bool" where
  "may_see permissions item = (case nav_permission item of None \<Rightarrow> True | Some p \<Rightarrow> permissions p)"

definition visible_navigation :: "(permission \<Rightarrow> bool) \<Rightarrow> nav_item list list" where
  "visible_navigation permissions = filter (\<lambda>items. items \<noteq> []) (map (filter (may_see permissions)) navigation)"

text \<open>\<open>search_type\<close> is the parameter \<open>type\<close> of the query of the present address.\<close>

definition is_active :: "nav_item \<Rightarrow> string \<Rightarrow> string option \<Rightarrow> bool" where
  "is_active item pathname search_type =
     (if nav_path item = ''/content'' then
        (pathname = ''/content'' \<or> prefix ''/content/'' pathname)
        \<and> Some (case search_type of None \<Rightarrow> ''curated_article'' | Some t \<Rightarrow> t) = nav_type item
      else pathname = nav_path item
        \<or> (nav_path item = ''/authors'' \<and> prefix ''/authors/'' pathname)
        \<or> (nav_path item = ''/reviews'' \<and> prefix ''/reviews/pending/'' pathname)
        \<or> (nav_path item = ''/reviews/history'' \<and> prefix ''/reviews/history/'' pathname))"

section \<open>One place at a time\<close>

definition nav_items :: "nav_item list" where
  "nav_items = concat navigation"

lemma distinct_prefixes:
  assumes "prefix p s" and "prefix q s"
  shows "prefix p q \<or> prefix q p"
  using prefix_same_cases [OF assms] by blast

text \<open>The paths an entry stands for: its own, and those that start with its own text.\<close>

definition nav_prefixes :: "nav_item \<Rightarrow> string list" where
  "nav_prefixes item =
     (if nav_path item = ''/content'' then [''/content/'']
      else if nav_path item = ''/authors'' then [''/authors/'']
      else if nav_path item = ''/reviews'' then [''/reviews/pending/'']
      else if nav_path item = ''/reviews/history'' then [''/reviews/history/''] else [])"

lemma active_path:
  "is_active item pathname t \<Longrightarrow>
    pathname = nav_path item \<or> (\<exists>p \<in> set (nav_prefixes item). prefix p pathname)"
  by (auto simp: is_active_def nav_prefixes_def split: if_splits)

definition apart :: "nav_item \<Rightarrow> nav_item \<Rightarrow> bool" where
  "apart a b \<longleftrightarrow> nav_path a \<noteq> nav_path b
     \<and> list_all (\<lambda>p. \<not> prefix p (nav_path b) \<and> list_all (\<lambda>q. \<not> prefix p q \<and> \<not> prefix q p) (nav_prefixes b)) (nav_prefixes a)
     \<and> list_all (\<lambda>q. \<not> prefix q (nav_path a)) (nav_prefixes b)"

lemma apart_active: "apart a b \<Longrightarrow> is_active a s t \<Longrightarrow> \<not> is_active b s t"
proof
  assume ab: "apart a b" and "is_active a s t" "is_active b s t"
  then have "s = nav_path a \<or> (\<exists>p \<in> set (nav_prefixes a). prefix p s)"
    and "s = nav_path b \<or> (\<exists>q \<in> set (nav_prefixes b). prefix q s)" by (auto dest: active_path)
  then show False
    using ab distinct_prefixes [of _ s] unfolding apart_def list_all_iff by blast
qed

lemma nav_apart:
  "list_all (\<lambda>a. list_all (\<lambda>b. a = b \<or> apart a b \<or> nav_path a = ''/content'' \<and> nav_path b = ''/content'' \<and> nav_type a \<noteq> nav_type b)
     nav_items) nav_items"
  by code_simp

text \<open>
  Whatever page is shown, at most one entry of the navigation is marked as the present one, and a user
  sees exactly the entries that need no permission or one that was given, in no empty group.
\<close>

theorem navigation_correct:
  shows "(\<forall>a \<in> set nav_items. \<forall>b \<in> set nav_items. is_active a s t \<longrightarrow> is_active b s t \<longrightarrow> a = b)
    \<and> set (concat (visible_navigation permissions)) = {item \<in> set nav_items. may_see permissions item}
    \<and> [] \<notin> set (visible_navigation permissions)"
proof (intro conjI ballI impI)
  fix a b
  assume "a \<in> set nav_items" "b \<in> set nav_items" and active: "is_active a s t" "is_active b s t"
  then have "a = b \<or> apart a b \<or> nav_path a = ''/content'' \<and> nav_path b = ''/content'' \<and> nav_type a \<noteq> nav_type b"
    using nav_apart by (auto simp: list_all_iff)
  moreover have "nav_type a = nav_type b" if "nav_path a = ''/content''" "nav_path b = ''/content''"
    using active that by (auto simp: is_active_def)
  ultimately show "a = b" using apart_active [OF _ active(1)] active(2) by blast
next
  show "set (concat (visible_navigation permissions)) = {item \<in> set nav_items. may_see permissions item}"
    by (auto simp: visible_navigation_def nav_items_def filter_empty_conv)
qed (simp add: visible_navigation_def)

end
