(* ===== verification/LegacyImages.thy ===== *)
theory LegacyImages
  imports Markdown
begin

text \<open>
  The images of \<open>scripts/legacy/plan.mjs\<close>: where a Markdown text names the address of an image, and the
  replacement of those addresses in the source text. The parser is the one of the Markdown rules;
  offsets are those it reports.
\<close>

section \<open>The references\<close>

record image_ref =
  ri_alt :: string
  ri_url :: string
  ri_start :: "nat option"
  ri_end :: "nat option"
  ri_line :: "nat option"

definition add_definition_node :: "mdast \<Rightarrow> (string \<times> mdast) list \<Rightarrow> (string \<times> mdast) list" where
  "add_definition_node node m = (case md_kind node of
     Definition i u \<Rightarrow> if map_has m i then m else AList.update i node m | _ \<Rightarrow> m)"

definition definition_nodes :: "mdast \<Rightarrow> (string \<times> mdast) list" where
  "definition_nodes tree = fold add_definition_node (preorder tree) []"

definition node_url :: "mdast \<Rightarrow> string" where
  "node_url node = (case md_kind node of Image u _ \<Rightarrow> u | Definition _ u \<Rightarrow> u | _ \<Rightarrow> [])"

definition reference_to :: "mdast \<Rightarrow> string option \<Rightarrow> mdast option \<Rightarrow> image_ref" where
  "reference_to node alt target =
     (let place = Option.bind target md_position
      in \<lparr>ri_alt = (case alt of None \<Rightarrow> [] | Some a \<Rightarrow> a),
          ri_url = (case target of None \<Rightarrow> [] | Some n \<Rightarrow> node_url n),
          ri_start = Option.bind place start_offset, ri_end = Option.bind place end_offset,
          ri_line = map_option start_line (md_position node)\<rparr>)"

definition image_reference :: "(string \<times> mdast) list \<Rightarrow> mdast \<Rightarrow> image_ref list" where
  "image_reference defs node = (case md_kind node of
     Image u alt \<Rightarrow> [reference_to node alt (Some node)]
   | ImageReference i alt \<Rightarrow> [reference_to node alt (map_of defs i)]
   | _ \<Rightarrow> [])"

definition image_references :: "(string \<Rightarrow> mdast) \<Rightarrow> string \<Rightarrow> image_ref list" where
  "image_references with_math markdown =
     (let tree = parse_markdown with_math markdown
      in concat (map (image_reference (definition_nodes tree)) (preorder tree)))"

section \<open>The replacement\<close>

datatype image_error = ImageReferenceInvalid | ImageDestinationUnsupported

text \<open>\<open>s.slice(a, b)\<close> and \<open>s.lastIndexOf(t)\<close>\<close>

definition text_slice :: "nat \<Rightarrow> nat \<Rightarrow> string \<Rightarrow> string" where
  "text_slice a b s = drop a (take b s)"

definition last_index_of :: "string \<Rightarrow> string \<Rightarrow> nat option" where
  "last_index_of s t = (case filter (\<lambda>i. prefix t (drop i s)) [0..<Suc (length s)] of
     [] \<Rightarrow> None | i # is \<Rightarrow> Some (last (i # is)))"

text \<open>A change: from where, to where, and the new text.\<close>

type_synonym change = "nat \<times> nat \<times> string"

definition image_change :: "string \<Rightarrow> (string \<times> string) list \<Rightarrow> image_ref \<Rightarrow> change list \<Rightarrow> image_error + change list" where
  "image_change markdown replacements ref changes =
     (case map_of replacements (ri_url ref) of
        None \<Rightarrow> Inr changes
      | Some new \<Rightarrow>
          (case (ri_start ref, ri_end ref) of
             (Some s, Some e) \<Rightarrow>
               (case last_index_of (text_slice s e markdown) (ri_url ref) of
                  None \<Rightarrow> Inl ImageDestinationUnsupported
                | Some pos \<Rightarrow> Inr (AList.update (s + pos) (s + pos + length (ri_url ref), new) changes))
           | _ \<Rightarrow> Inl ImageReferenceInvalid))"

definition apply_change :: "change \<Rightarrow> string \<Rightarrow> string" where
  "apply_change c markdown = (case c of (s, e, new) \<Rightarrow> take s markdown @ new @ drop e markdown)"

definition last_first :: "change \<Rightarrow> change \<Rightarrow> int" where
  "last_first a b = int (fst b) - int (fst a)"

definition rewrite_images :: "(string \<Rightarrow> mdast) \<Rightarrow> string \<Rightarrow> (string \<times> string) list \<Rightarrow> image_error + string" where
  "rewrite_images with_math markdown replacements =
     ebind (efold (image_change markdown replacements) (image_references with_math markdown) [])
       (\<lambda>changes. Inr (fold apply_change (js_sort last_first changes) markdown))"

section \<open>The text between the addresses stays\<close>

text \<open>The text with the changes made in one pass from the front.\<close>

fun spliced :: "string \<Rightarrow> nat \<Rightarrow> change list \<Rightarrow> string" where
  "spliced markdown pos [] = drop pos markdown"
| "spliced markdown pos ((s, e, new) # cs) = text_slice pos s markdown @ new @ spliced markdown e cs"

fun changes_apart :: "nat \<Rightarrow> nat \<Rightarrow> change list \<Rightarrow> bool" where
  "changes_apart n pos [] \<longleftrightarrow> pos \<le> n"
| "changes_apart n pos ((s, e, new) # cs) \<longleftrightarrow> pos \<le> s \<and> s \<le> e \<and> changes_apart n e cs"

lemma changes_apart_le: "changes_apart n pos cs \<Longrightarrow> pos \<le> n"
proof (induction cs arbitrary: pos)
  case (Cons c cs)
  obtain s e new where "c = (s, e, new)" by (cases c)
  then show ?case using Cons by force
qed simp

lemma apply_changes:
  "changes_apart (length markdown) pos cs \<Longrightarrow>
    fold apply_change (rev cs) markdown = take pos markdown @ spliced markdown pos cs"
proof (induction cs arbitrary: pos)
  case (Cons c cs)
  obtain s e new where c: "c = (s, e, new)" by (cases c)
  then have le: "pos \<le> s" "s \<le> e" "changes_apart (length markdown) e cs" using Cons.prems by auto
  then have "e \<le> length markdown" by (simp add: changes_apart_le)
  then have "apply_change c (take e markdown @ spliced markdown e cs) = take s markdown @ new @ spliced markdown e cs"
    using le(2) by (simp add: c apply_change_def min_absorb2)
  moreover have "take s markdown = take pos markdown @ text_slice pos s markdown"
    using le(1) by (simp add: text_slice_def) (metis append_take_drop_id min.absorb1 take_take)
  ultimately show ?case using Cons.IH [OF le(3)] by (simp add: c)
qed simp

lemma last_index_prefix: "last_index_of s t = Some i \<Longrightarrow> i + length t \<le> length s \<and> text_slice i (i + length t) s = t"
proof -
  assume found: "last_index_of s t = Some i"
  define hits where "hits = filter (\<lambda>i. prefix t (drop i s)) [0..<Suc (length s)]"
  have "hits \<noteq> [] \<and> i = last hits"
    using found unfolding last_index_of_def hits_def [symmetric] by (cases hits) simp_all
  then have "i \<in> set (filter (\<lambda>i. prefix t (drop i s)) [0..<Suc (length s)])"
    unfolding hits_def using last_in_set by blast
  then have i: "prefix t (drop i s)" "i \<le> length s" by (simp_all only: set_filter mem_Collect_eq atLeastLessThan_iff set_upt less_Suc_eq_le)
  then obtain r where "drop i s = t @ r" by (auto simp: prefix_def)
  moreover from this have "length t + length r = length s - i" by (metis length_append length_drop)
  ultimately show ?thesis using i(2) by (simp add: text_slice_def drop_take)
qed

text \<open>
  What the parser promises: every image has its place in the text, and two images are the same
  place with the same address or stand apart.
\<close>

definition place_of :: "image_ref \<Rightarrow> nat \<times> nat" where
  "place_of r = (case (ri_start r, ri_end r) of (Some s, Some e) \<Rightarrow> (s, e) | _ \<Rightarrow> (0, 0))"

definition references_apart :: "nat \<Rightarrow> image_ref list \<Rightarrow> bool" where
  "references_apart n refs \<longleftrightarrow>
     (\<forall>r \<in> set refs. ri_start r \<noteq> None \<and> ri_end r \<noteq> None \<and> snd (place_of r) \<le> n \<and> ri_url r \<noteq> [])
     \<and> (\<forall>r \<in> set refs. \<forall>q \<in> set refs. place_of r = place_of q \<and> ri_url r = ri_url q
          \<or> snd (place_of r) \<le> fst (place_of q) \<or> snd (place_of q) \<le> fst (place_of r))"

text \<open>The change that an image asks for.\<close>

definition asked_at :: "string \<Rightarrow> (string \<times> string) list \<Rightarrow> nat \<times> nat \<Rightarrow> string \<Rightarrow> change option" where
  "asked_at markdown replacements p u = (case map_of replacements u of None \<Rightarrow> None
     | Some new \<Rightarrow> (case last_index_of (text_slice (fst p) (snd p) markdown) u of
          None \<Rightarrow> None | Some pos \<Rightarrow> Some (fst p + pos, fst p + pos + length u, new)))"

definition asked :: "string \<Rightarrow> (string \<times> string) list \<Rightarrow> image_ref \<Rightarrow> change option" where
  "asked markdown replacements r = asked_at markdown replacements (place_of r) (ri_url r)"

lemma text_slice_nested:
  "text_slice a b (text_slice s e t) = text_slice (s + a) (min e (s + b)) t"
  by (simp add: text_slice_def take_drop add.commute min.commute)

lemma asked_place:
  assumes "asked markdown replacements r = Some (k, e, new)" and "snd (place_of r) \<le> length markdown" "ri_url r \<noteq> []"
  shows "fst (place_of r) \<le> k \<and> k < e \<and> e \<le> snd (place_of r) \<and> text_slice k e markdown = ri_url r
    \<and> map_of replacements (ri_url r) = Some new"
proof -
  obtain s d where p: "place_of r = (s, d)" by (cases "place_of r")
  from assms(1) p obtain pos where new: "map_of replacements (ri_url r) = Some new"
    and found_at: "last_index_of (text_slice s d markdown) (ri_url r) = Some pos" "k = s + pos" "e = s + pos + length (ri_url r)"
    by (auto simp: asked_def asked_at_def split: option.splits)
  note found = last_index_prefix [OF found_at(1)]
  have "length (text_slice s d markdown) = d - s" using assms(2) p by (simp add: text_slice_def)
  then have "e \<le> d" using found found_at assms(3) by (cases "ri_url r") auto
  moreover have "text_slice k e markdown = ri_url r"
    using found \<open>e \<le> d\<close> found_at by (simp add: text_slice_nested add.assoc min_absorb2)
  moreover have "0 < length (ri_url r)" using assms(3) by simp
  ultimately show ?thesis using new found_at p by simp
qed

lemma image_change_asked:
  assumes "ri_start r \<noteq> None" "ri_end r \<noteq> None"
  shows "image_change markdown replacements r changes = Inr changes' \<longleftrightarrow>
    (map_of replacements (ri_url r) = None \<and> changes' = changes)
    \<or> (\<exists>k e new. asked markdown replacements r = Some (k, e, new) \<and> changes' = AList.update k (e, new) changes)"
  using assms by (auto simp: image_change_def asked_def asked_at_def place_of_def split: option.splits)

lemma set_update_distinct:
  "distinct (map fst m) \<Longrightarrow> set (AList.update k v m) = insert (k, v) {c \<in> set m. fst c \<noteq> k}"
  by (induction m) (auto simp: image_iff)

text \<open>After the loop the changes are those asked for, under distinct keys.\<close>

lemma changes_asked:
  assumes run: "efold (image_change markdown replacements) refs [] = Inr changes"
    and places: "\<forall>r \<in> set refs. ri_start r \<noteq> None \<and> ri_end r \<noteq> None"
    and same: "\<forall>r \<in> set refs. \<forall>q \<in> set refs. \<forall>k e e' new new'.
      asked markdown replacements r = Some (k, e, new) \<longrightarrow> asked markdown replacements q = Some (k, e', new') \<longrightarrow>
      e = e' \<and> new = new'"
  shows "distinct (map fst changes)
    \<and> set changes = {c. \<exists>r \<in> set refs. asked markdown replacements r = Some c}
    \<and> (\<forall>r \<in> set refs. map_of replacements (ri_url r) \<noteq> None \<longrightarrow> asked markdown replacements r \<noteq> None)"
proof -
  let ?P = "\<lambda>rs changes. distinct (map fst changes)
    \<and> set changes = {c. \<exists>r \<in> set rs. asked markdown replacements r = Some c}
    \<and> (\<forall>r \<in> set rs. map_of replacements (ri_url r) \<noteq> None \<longrightarrow> asked markdown replacements r \<noteq> None)"
  show ?thesis
  proof (rule efold_invariant [where P = ?P, OF run])
    show "?P [] []" by simp
    fix rs r us t t'
    assume refs: "refs = rs @ r # us" and inv: "?P rs t" and step: "image_change markdown replacements r t = Inr t'"
    have "ri_start r \<noteq> None" "ri_end r \<noteq> None" using places refs by auto
    from step [unfolded image_change_asked [OF this]]
    consider "map_of replacements (ri_url r) = None" "t' = t"
      | k e new where "asked markdown replacements r = Some (k, e, new)" "t' = AList.update k (e, new) t" by auto
    then show "?P (rs @ [r]) t'"
    proof cases
      case 1
      then have "asked markdown replacements r = None" by (simp add: asked_def asked_at_def)
      then show ?thesis using inv 1 by auto
    next
      case 2
      have "c = (k, e, new)" if "c \<in> set t" "fst c = k" for c
      proof -
        obtain q where "q \<in> set rs" "asked markdown replacements q = Some c" using inv \<open>c \<in> set t\<close> by blast
        then show ?thesis using same refs 2(1) that(2) by (cases c) auto
      qed
      then have "set t' = insert (k, e, new) (set t)"
        using inv set_update_distinct [of t k "(e, new)"] 2(2) by auto
      moreover have "distinct (map fst t')" using inv 2(2) by (simp add: distinct_update)
      ultimately show ?thesis using inv 2(1) by auto
    qed
  qed
qed

lemma sorted_changes_apart:
  assumes "sorted_wrt (\<lambda>a b. fst (snd a) \<le> fst b) cs"
    and "\<forall>c \<in> set cs. pos \<le> fst c \<and> fst c \<le> fst (snd c) \<and> fst (snd c) \<le> n" and "pos \<le> n"
  shows "changes_apart n pos cs"
  using assms
proof (induction cs arbitrary: pos)
  case (Cons c cs)
  obtain s e new where c: "c = (s, e, new)" by (cases c)
  have "changes_apart n e cs" using Cons.prems c by (intro Cons.IH) auto
  then show ?case using Cons.prems c by auto
qed simp

interpretation last_first: js_comparator UNIV last_first
  by unfold_locales (auto simp: last_first_def)

text \<open>
  Replacing the addresses of images changes nothing else in a text: for a parser that reports places
  which stand apart, the result is the text with each address that has a replacement exchanged at its
  place, in one pass from the front, and everything between the addresses as it was. The changes are
  exactly one for each such image.
\<close>

theorem rewrite_images_correct:
  assumes "rewrite_images with_math markdown replacements = Inr result"
    and "references_apart (length markdown) (image_references with_math markdown)"
  shows "\<exists>cs. result = spliced markdown 0 cs \<and> changes_apart (length markdown) 0 cs
    \<and> (\<forall>(s, e, new) \<in> set cs. map_of replacements (text_slice s e markdown) = Some new)
    \<and> (\<forall>r \<in> set (image_references with_math markdown). map_of replacements (ri_url r) \<noteq> None \<longrightarrow>
        (\<exists>(s, e, new) \<in> set cs. fst (place_of r) \<le> s \<and> e \<le> snd (place_of r) \<and> text_slice s e markdown = ri_url r))"
proof -
  let ?refs = "image_references with_math markdown" and ?asked = "asked markdown replacements"
  note apart = assms(2) [unfolded references_apart_def]
  obtain changes where run: "efold (image_change markdown replacements) ?refs [] = Inr changes"
    and result: "result = fold apply_change (js_sort last_first changes) markdown"
    using assms(1) by (auto simp: rewrite_images_def ebind_Inr_iff)
  have place: "fst (place_of r) \<le> k \<and> k < e \<and> e \<le> snd (place_of r) \<and> text_slice k e markdown = ri_url r
      \<and> map_of replacements (ri_url r) = Some new" if "r \<in> set ?refs" "?asked r = Some (k, e, new)" for r k e new
    using asked_place [OF that(2)] apart that(1) by blast
  have same: "(k, e, new) = (k', e', new') \<or> e \<le> k' \<or> e' \<le> k"
    if r: "r \<in> set ?refs" "?asked r = Some (k, e, new)" and q: "q \<in> set ?refs" "?asked q = Some (k', e', new')"
    for r q k e new k' e' new'
  proof -
    consider "place_of r = place_of q \<and> ri_url r = ri_url q"
      | "snd (place_of r) \<le> fst (place_of q)" | "snd (place_of q) \<le> fst (place_of r)" using apart r(1) q(1) by blast
    then show ?thesis
    proof cases
      case 1
      then have "?asked r = ?asked q" by (simp add: asked_def)
      then show ?thesis using r(2) q(2) by simp
    qed (use place [OF r] place [OF q] in linarith)+
  qed
  have "\<forall>r \<in> set ?refs. ri_start r \<noteq> None \<and> ri_end r \<noteq> None" using apart by blast
  moreover have "e = e' \<and> new = new'"
    if "r \<in> set ?refs" "q \<in> set ?refs" "?asked r = Some (k, e, new)" "?asked q = Some (k, e', new')" for r q k e e' new new'
    using same [OF that(1,3,2,4)] place [OF that(1,3)] place [OF that(2,4)] by auto
  ultimately have distinct: "distinct (map fst changes)" and set: "set changes = {c. \<exists>r \<in> set ?refs. ?asked r = Some c}"
    and all: "\<forall>r \<in> set ?refs. map_of replacements (ri_url r) \<noteq> None \<longrightarrow> ?asked r \<noteq> None"
    using changes_asked [OF run] by blast+
  define cs where "cs = rev (js_sort last_first changes)"
  have set_cs: "set cs = set changes" unfolding cs_def by (metis mset_js_sort set_mset_mset set_rev)
  have "sorted_wrt (\<lambda>a b. fst a \<le> fst b) cs"
    using last_first.sorted_js_sort [of changes] by (simp add: cs_def sorted_wrt_rev last_first_def)
  moreover have "distinct (map fst cs)"
    using distinct unfolding cs_def by (metis distinct_rev mset_eq_imp_distinct_iff mset_js_sort mset_map rev_map)
  moreover have "fst (snd a) \<le> fst b" if ab: "a \<in> set cs" "b \<in> set cs" "fst a < fst b" for a b
  proof -
    obtain r q where "r \<in> set ?refs" "?asked r = Some a" "q \<in> set ?refs" "?asked q = Some b"
      using ab(1,2) unfolding set_cs set by blast
    then show ?thesis using same [of r "fst a" "fst (snd a)" "snd (snd a)" q "fst b" "fst (snd b)" "snd (snd b)"]
        place [of q "fst b" "fst (snd b)" "snd (snd b)"] ab(3) by auto
  qed
  ultimately have sorted: "sorted_wrt (\<lambda>a b. fst (snd a) \<le> fst b) cs"
    by (induction cs) (auto simp: order_less_le image_iff)
  have bounds: "\<forall>c \<in> set cs. 0 \<le> fst c \<and> fst c \<le> fst (snd c) \<and> fst (snd c) \<le> length markdown"
  proof
    fix c assume "c \<in> set cs"
    then obtain r where r: "r \<in> set ?refs" "?asked r = Some c" unfolding set_cs set by blast
    have "snd (place_of r) \<le> length markdown" using apart r(1) by blast
    then show "0 \<le> fst c \<and> fst c \<le> fst (snd c) \<and> fst (snd c) \<le> length markdown"
      using place [of r "fst c" "fst (snd c)" "snd (snd c)"] r by auto
  qed
  have ca: "changes_apart (length markdown) 0 cs" by (rule sorted_changes_apart [OF sorted bounds]) simp
  have "result = spliced markdown 0 cs" using apply_changes [OF ca] by (simp add: result cs_def)
  moreover have "\<forall>(s, e, new) \<in> set cs. map_of replacements (text_slice s e markdown) = Some new"
    using place unfolding set_cs set by fastforce
  moreover have "\<exists>(s, e, new) \<in> set cs. fst (place_of r) \<le> s \<and> e \<le> snd (place_of r) \<and> text_slice s e markdown = ri_url r"
    if r: "r \<in> set ?refs" "map_of replacements (ri_url r) \<noteq> None" for r
  proof -
    obtain k e new where a: "?asked r = Some (k, e, new)" using all r by (metis option.exhaust prod.exhaust)
    then have "(k, e, new) \<in> set cs" using r(1) unfolding set_cs set by blast
    then show ?thesis using place [OF r(1) a] by (intro bexI [of _ "(k, e, new)"]) simp_all
  qed
  ultimately show ?thesis using ca by blast
qed

end
