(* ===== verification/Spec2Isabelle.thy ===== *)
theory Spec2Isabelle
  imports PublicEditorial Autosave TopicOrder StatsBuild StatsWorker GrowthSwitcher ReadershipView SiteBuild ExplorerProps SelectBox HomeEntrance ThemeToggle SearchView Reading NotePagination Navigation LegacyImages
begin

text \<open>
  GopherAtlas is a publication about Go. A CMS (a server in Go with a React admin) exports the published
  content as a snapshot; scripts in Node check the snapshot; an Astro build turns it into a static site in
  two languages; a worker collects the statistics of the site and answers a public endpoint; and the pages
  carry some state of their own. This library models the TypeScript and JavaScript of that program.

  \<^bold>\<open>How the parts interact.\<close> \<open>scripts/snapshot.mjs\<close> accepts or rejects the exported snapshot.
  \<open>apps/web/src/lib/publication\<close> normalises it, indexes it as a publication, and derives the pages, the
  redirect file and the views in English. \<open>scripts/stats-manifest.ts\<close> writes the paths and counts of the
  publication into a manifest, which \<open>apps/web/stats\<close> reads back: once a day the worker asks the analytics
  service for the loads, pages and referrers of a finished UTC day and archives them by the manifest's
  paths, and its endpoint aggregates the archive to a readership. The statistics page
  (\<open>apps/web/src/lib/stats\<close>) checks that readership again and draws it with the same chart as the growth of
  the publication. \<open>packages/markdown\<close> holds the safety rules of texts, which the admin, the snapshot
  check and the legacy import share.

  \<^bold>\<open>How code becomes definitions.\<close> A function of the code is a function of its name, written in snake
  case; one turn of a loop, or a part of a long function, is a function of its own, which the text above it
  names. An interface or class is a record, a union a datatype. A function that throws returns a sum whose
  left side is the error, composed with \<open>ebind\<close>, \<open>throw_when\<close>, \<open>efold\<close> and \<open>emap\<close> in the order of the source,
  so that each error is raised where the code raises it. A \<open>Map\<close> is an association list in insertion order
  with \<open>AList.update\<close>, a \<open>Set\<close> a list without repetition. Code with state (a class, or a closure over
  variables) is a record and a function per method or handler; the events a browser or a promise may
  deliver are a datatype, and what can happen is an \<open>inductive\<close> set of reachable states or a fold over a list
  of events. A JavaScript turn runs to its end, so other events come in only between turns and where the code
  awaits.

  \<^bold>\<open>The theories.\<close>
  \<^item> \<open>JsPrelude\<close>: sums as results, ordered maps and sets, strings and their comparison, numbers as text, the
    stable \<open>sort\<close>; the locales \<open>js_comparator\<close> and \<open>js_keyed_comparator\<close> state what a comparator owes
    \<open>Array.prototype.sort\<close> (a total preorder, with ties only between equal keys), prove that the result is
    sorted, a permutation, and independent of the order of the input, and are interpreted on every
    comparator of the code. \<open>JsRegex\<close>: regular expressions as terms, a matcher by derivatives and its
    language. \<open>JsonValue\<close>: the values of \<open>JSON.parse\<close>. \<open>Calendar\<close>: the days, months and texts of \<open>Date\<close> in UTC.
  \<^item> \<open>PublicTypes\<close>, \<open>PublicNormalize\<close>, \<open>Publication\<close> (\<open>publication/types.ts\<close>, \<open>normalize.ts\<close>, \<open>indexes.ts\<close>):
    the snapshot, the adapter of its first version, and \<open>createPublication\<close> with its loops.
    \<open>PublicationFacts\<close> gives the declarative contract \<open>well_formed\<close> and the closed form \<open>publication_of\<close>, and
    proves that the loops succeed exactly under the contract with exactly that result;
    \<open>PublicationProps\<close> derives the properties of the index from them; \<open>PublicationSample\<close> is the snapshot on
    which they are instantiated.
  \<^item> \<open>PublicI18n\<close>, \<open>PublicRoutes\<close>, \<open>PublicRoutesProps\<close>, \<open>PublicEditorial\<close> (\<open>i18n.ts\<close>, \<open>routes.ts\<close>, \<open>editorial.ts\<close>,
    \<open>taxonomy.ts\<close>, \<open>home.ts\<close>): pages, pagination, path conflicts, redirects, and the views of the content.
  \<^item> \<open>Markdown\<close>, \<open>SnapshotCheck\<close>, \<open>SnapshotProps\<close>, \<open>SiteBuild\<close> (\<open>packages/markdown\<close>, \<open>scripts/snapshot.mjs\<close>): the
    rules for links, images and formulas; the check of a snapshot and its loading; and the theorem that joins
    the parts: what the check accepts the build can build. \<open>LegacyImages\<close>: the replacement of image
    addresses in \<open>scripts/legacy/plan.mjs\<close>.
  \<^item> \<open>StatsTypes\<close>, \<open>StatsManifest\<close>, \<open>StatsBuild\<close>, \<open>ContentStats\<close>, \<open>GrowthChart\<close> (\<open>readership-contract.ts\<close>,
    \<open>stats/manifest.ts\<close>, \<open>stats-manifest.ts\<close>, \<open>stats/content.ts\<close>): the manifest, its build and its check, the
    growth of the content and its calendar.
  \<^item> \<open>RumNormalize\<close>, \<open>RumClient\<close>, \<open>StatsArchive\<close>, \<open>StatsApi\<close>, \<open>StatsWorker\<close> (\<open>stats/rum\<close>, \<open>stats/worker\<close>): the
    analytics response and its rows (the locale \<open>row_completion\<close> is what the three kinds of rows share), the
    bounded request, the archive as tables with their constraints, and the endpoint.
  \<^item> \<open>Chart\<close>, \<open>ChartInteraction\<close>, \<open>GrowthSwitcher\<close>, \<open>ReadershipCheck\<close>, \<open>ReadershipView\<close> (\<open>lib/stats\<close>): the scale, the
    nearest sample and the tooltip (the locale \<open>chart_series\<close> is a series from left to right, interpreted on
    the plots of both pages), the interaction layer, the tabs, the check of a response, and the page.
  \<^item> \<open>Autosave\<close>, \<open>TopicOrder\<close>, \<open>Navigation\<close> (\<open>apps/admin\<close>): the save queue of the editor, the reordering of a
    topic, the menu.
  \<^item> \<open>Explorer\<close>, \<open>ExplorerProps\<close>, \<open>SelectBox\<close>, \<open>Motion\<close>, \<open>HomeEntrance\<close>, \<open>ThemeToggle\<close>, \<open>SearchView\<close>, \<open>Reading\<close>,
    \<open>NotePagination\<close> (\<open>apps/web/src/lib\<close>): the article explorer and its address, the select box, animations,
    the theme, the search, the enhancements of an article, the pages of a note list.

  \<^bold>\<open>What the lemmas show.\<close> Each component has its functional behaviour on every branch (iff theorems for
  \<open>createPublication\<close>, the checks of the manifest and of a response, the endpoint, the request, the day
  window), invariants over everything that can happen (the queue, the archive, the charts, the client, the
  explorer, the select box, animations, the theme, the search), equivalence with a reference (the traffic
  plot with the maximal runs of observed days, the calendar with the counts per day, the rewriting of
  formulas with the rewriting by blocks), round trips (the address of the explorer, the sent readership) and
  refinement (archiving a day replaces exactly that day). The theorem of \<open>SiteBuild\<close> spans the components from
  the check to the redirect file.

  \<^bold>\<open>Termination and bounds.\<close> There is no fuel: loops are folds over their input, and the recursions that are not
  structural (the year of a day, the binary searches, the entities of an excerpt, runs, blocks) have
  termination proofs. Sizes that the code bounds (page size, redirect limits, bytes of a response, rows of a
  manifest) are the numbers of the source. Integers of JavaScript are \<open>int\<close> where the code keeps them within
  the safe range, and the checks of that range are modelled.

  \<^bold>\<open>Parameters.\<close> What is not code of the repository is an argument: the parsers of \<open>unified\<close>, \<open>URL\<close>, the JSON schema
  validator, SHA-256, \<open>fetch\<close> and the responses it yields, the abort signals, the clock, the display words, the
  sizes a browser measures, \<open>localeCompare\<close>, the search library. Where a theorem rests on what such code
  does, its hypothesis says so: that the server of the editor is honest (\<open>honest\<close>: a version that it returns is
  one under which it stores what was sent), that a snapshot which satisfies the JSON schemas satisfies the
  clauses of them that the build needs (\<open>schema_clauses\<close>), and that \<open>localeCompare\<close> is a consistent order
  (\<open>js_comparator\<close>). What a browser can do in a state (an animation that is not running does not end, a control
  that is inert is not clicked) is said by the predicates of the reachable states. Each has an instance.

  \<^bold>\<open>What is simplified.\<close> Characters are the code units below 256, and \<open>trim\<close>, \<open>toLowerCase\<close> and the byte length are
  theirs; the search, whose entities reach further, has code units of its own. Numbers with a fraction
  (coordinates, shares, sampling intervals, metrics) are rationals, so the rounding of doubles is not
  modelled. The text a pattern is tested on is that of its argument, including
  arrays around a string and objects that have none and throw. The rendering of a page is kept as the data it
  shows. Listeners of the save queue do not call it back.

  \<^bold>\<open>What is not modelled.\<close> The server in Go and its SQL; the React interface of the admin apart from its logic above;
  Astro templates, styles and generated API types; build, development and deployment scripts, which move
  files and start processes; and the browser glue without state of its own (share links, discussion frame,
  heading links). The legacy import is modelled in its image replacement only. Each is listed as such in
  \<open>PROJECT.json\<close> with its reason, and so are the places where modelling showed that the code and its
  intent differ.
\<close>

end
